(* ===== verification/Prelude.thy ===== *)
theory Prelude
  imports Complex_Main "HOL-Library.Word"
begin

text \<open>
  The vocabulary shared by the models of the components: names for the machine
  types of the C++ source, the conversions between characters and bytes, the
  decimal printing of \<open>std::to_string\<close>, and the generic lemmas on lists, options
  and words that more than one component uses.  \<open>std::string\<close> values are Isabelle
  strings (lists of 8-bit characters); raw byte sequences on which the code computes
  are lists of 8-bit words.
\<close>

unbundle bit_operations_syntax

section \<open>Machine types\<close>

type_synonym uint8 = "8 word"
type_synonym uint16 = "16 word"
type_synonym uint32 = "32 word"
type_synonym uint64 = "64 word"
type_synonym bytes = "uint8 list"

named_theorems err_simps \<open>error classes and the constructors of errors\<close>
named_theorems byte_simps \<open>rewriting of byte masks and shifts to arithmetic\<close>
named_theorems step_simps \<open>one-step unfoldings of the loops and coroutines\<close>

section \<open>Characters and bytes\<close>

definition byte_of :: "char \<Rightarrow> uint8" where
  "byte_of c = of_char c"

definition chr_of :: "uint8 \<Rightarrow> char" where
  "chr_of b = char_of (unat b)"

abbreviation bytes_of :: "string \<Rightarrow> bytes" where
  "bytes_of \<equiv> map byte_of"

abbreviation string_of :: "bytes \<Rightarrow> string" where
  "string_of \<equiv> map chr_of"

lemma of_char_lt_256 [simp]: "(of_char c :: nat) < 256"
proof -
  have "(of_char c :: nat) mod 256 = of_char c"
    by (simp add: of_char_mod_256)
  then show ?thesis
    by (metis mod_less_divisor zero_less_numeral)
qed

lemma unat_byte_of [simp]: "unat (byte_of c) = of_char c"
proof -
  have "byte_of c = word_of_nat (of_char c)"
    by (simp add: byte_of_def of_nat_of_char)
  moreover have "(of_char c :: nat) mod 256 = of_char c"
    by (simp add: of_char_mod_256)
  ultimately show ?thesis
    by (simp add: unsigned_of_nat take_bit_eq_mod)
qed

lemma uint8_lt [simp]: "unat (b :: uint8) < 256"
  using unsigned_less [of b] by simp

lemma uint16_lt [simp]: "unat (b :: uint16) < 65536"
  using unsigned_less [of b] by simp

lemma uint32_lt [simp]: "unat (b :: uint32) < 4294967296"
  using unsigned_less [of b] by simp

lemma chr_of_byte_of [simp]: "chr_of (byte_of c) = c"
  by (simp add: chr_of_def)

lemma byte_of_chr_of [simp]: "byte_of (chr_of b) = b"
proof -
  have "unat (byte_of (chr_of b)) = unat b"
    by (simp add: chr_of_def)
  then show ?thesis
    by (simp add: word_unat_eq_iff)
qed

lemma byte_of_inject [simp]: "byte_of c = byte_of d \<longleftrightarrow> c = d"
  by (metis chr_of_byte_of)

lemma chr_of_comp_byte_of [simp]: "chr_of \<circ> byte_of = id" "byte_of \<circ> chr_of = id"
  by (simp_all add: fun_eq_iff)

lemma bytes_of_string_of [simp]: "bytes_of (string_of bs) = bs"
  by (simp add: map_idI)

lemma string_of_bytes_of [simp]: "string_of (bytes_of s) = s"
  by (simp add: map_idI)

section \<open>Decimal numerals (std::to\_string)\<close>

fun nat_dec :: "nat \<Rightarrow> string" where
  "nat_dec n =
    (if n < 10 then [char_of (48 + n)] else nat_dec (n div 10) @ [char_of (48 + n mod 10)])"

declare nat_dec.simps [simp del]

definition int_dec :: "int \<Rightarrow> string" where
  "int_dec i = (if i < 0 then CHR ''-'' # nat_dec (nat (- i)) else nat_dec (nat i))"

text \<open>The value of a string of decimal digits, for stating round trips.\<close>

definition dec_value :: "string \<Rightarrow> nat" where
  "dec_value s = foldl (\<lambda>v c. v * 10 + (of_char c - 48)) 0 s"

definition is_digit :: "char \<Rightarrow> bool" where
  "is_digit c \<longleftrightarrow> (of_char c :: nat) \<in> {48..57}"

lemma nat_dec_not_Nil [simp]: "nat_dec n \<noteq> []"
  by (simp add: nat_dec.simps)

lemma of_char_digit [simp]: "d < 10 \<Longrightarrow> (of_char (char_of (48 + d) :: char) :: nat) = 48 + d"
  by (simp add: of_char_of)

lemma nat_dec_digits: "c \<in> set (nat_dec n) \<Longrightarrow> is_digit c"
proof (induction n rule: nat_dec.induct)
  case (1 n)
  show ?case
  proof (cases "n < 10")
    case True
    then show ?thesis
      using "1.prems" by (simp add: nat_dec.simps [of n] is_digit_def of_char_of)
  next
    case False
    have "of_char (char_of (48 + n mod 10) :: char) = 48 + n mod 10"
      by (rule of_char_digit) simp
    moreover have "n mod 10 \<le> 9"
      by (simp add: less_Suc_eq_le [symmetric])
    ultimately have "is_digit (char_of (48 + n mod 10))"
      by (simp add: is_digit_def)
    then show ?thesis
      using 1 False by (auto simp: nat_dec.simps [of n])
  qed
qed

lemma dec_value_snoc [simp]: "dec_value (s @ [c]) = dec_value s * 10 + (of_char c - 48)"
  by (simp add: dec_value_def)

lemma dec_value_append_le: "dec_value s \<le> dec_value (s @ u)"
proof (induction u rule: rev_induct)
  case (snoc c u)
  have "dec_value (s @ u) \<le> dec_value ((s @ u) @ [c])"
    unfolding dec_value_snoc by simp
  then show ?case
    using snoc by simp
qed simp

lemma dec_value_nat_dec [simp]: "dec_value (nat_dec n) = n"
proof (induction n rule: nat_dec.induct)
  case (1 n)
  show ?case
  proof (cases "n < 10")
    case True
    then show ?thesis
      by (simp add: nat_dec.simps [of n] dec_value_def of_char_of)
  next
    case False
    have "of_char (char_of (48 + n mod 10) :: char) = 48 + n mod 10"
      by (rule of_char_digit) simp
    with 1 False show ?thesis
      by (simp add: nat_dec.simps [of n])
  qed
qed

lemma nat_dec_inject [simp]: "nat_dec m = nat_dec n \<longleftrightarrow> m = n"
  by (metis dec_value_nat_dec)

section \<open>Masks and shifts as arithmetic\<close>

lemma unat_drop_bit [byte_simps]: "unat (drop_bit n (w :: 'a::len word)) = unat w div 2 ^ n"
  unfolding unat_drop_bit_eq by (simp add: drop_bit_eq_div)

lemma unat_take_bit [byte_simps]:
  "unat (take_bit n (w :: 'a::len word)) = unat w mod 2 ^ n"
  unfolding unsigned_take_bit_eq by (simp add: take_bit_eq_mod)

lemma unat_push_bit:
  fixes w :: "'a::len word"
  assumes "unat w * 2 ^ n < 2 ^ LENGTH('a)"
  shows "unat (push_bit n w) = unat w * 2 ^ n"
  using assms unfolding unsigned_push_bit_eq by (simp add: take_bit_eq_mod push_bit_eq_mult)

lemma int_div_less:
  fixes x :: int
  assumes "x < m * k" and "0 < k"
  shows "x div k < m"
proof -
  have "x div k * k \<le> x"
    using assms(2) by (simp add: minus_mod_eq_div_mult [symmetric])
  then have "x div k * k < m * k"
    using assms(1) by simp
  then show ?thesis
    using assms(2) by simp
qed

section \<open>Lists\<close>

lemma foldl_induct [consumes 0, case_names Nil snoc]:
  assumes "P [] a"
    and "\<And>xs x s. P xs s \<Longrightarrow> P (xs @ [x]) (f s x)"
  shows "P xs (foldl f a xs)"
  using assms by (induction xs rule: rev_induct) simp_all

lemma foldl_invariant:
  assumes "I a" and "\<And>s x. I s \<Longrightarrow> I (f s x)"
  shows "I (foldl f a xs)"
  using assms by (induction xs arbitrary: a) simp_all

section \<open>Sums\<close>

lemma map_sum_eq_Inr [simp]: "map_sum id f x = Inr y \<longleftrightarrow> (\<exists>z. x = Inr z \<and> f z = y)"
  by (cases x) simp_all

lemma map_sum_eq_Inl [simp]: "map_sum id f x = Inl y \<longleftrightarrow> x = Inl y"
  by (cases x) simp_all

end
