(* ===== verification/Errors.thy ===== *)
theory Errors
  imports Prelude
begin

text \<open>
  The error values of \<open>measurement_kit/common/error.hpp\<close>: an error carries a code, a
  reason and a list of child errors.  \<open>MK_DEFINE_ERR\<close> defines a class from a code and a
  reason with three constructors; here a class is the pair of code and reason, and the
  three constructors are \<open>new\<close>, \<open>new_s\<close> and \<open>new_e\<close>.
\<close>

section \<open>Error\<close>

datatype error = Error (child_errors: "error list") (code: int) (reason: string)

definition mk_error :: "int \<Rightarrow> string \<Rightarrow> error" where
  "mk_error e r =
    Error [] e (if e \<noteq> 0 \<and> r = [] then ''unknown_failure '' @ int_dec e else r)"

definition add_child_error :: "error \<Rightarrow> error \<Rightarrow> error" where
  "add_child_error err e = Error (child_errors e @ [err]) (code e) (reason e)"

definition mk_error_child :: "int \<Rightarrow> string \<Rightarrow> error \<Rightarrow> error" where
  "mk_error_child e r c = add_child_error c (mk_error e r)"

definition is_err :: "error \<Rightarrow> bool" where
  "is_err e \<longleftrightarrow> code e \<noteq> 0"

definition err_eq :: "error \<Rightarrow> error \<Rightarrow> bool" where
  "err_eq a b \<longleftrightarrow> code a = code b"

section \<open>Classes of errors\<close>

type_synonym error_class = "int \<times> string"

definition new :: "error_class \<Rightarrow> error" where
  "new k = mk_error (fst k) (snd k)"

definition new_s :: "error_class \<Rightarrow> string \<Rightarrow> error" where
  "new_s k s = (let e = mk_error (fst k) (snd k)
    in Error (child_errors e) (code e) (reason e @ '': '' @ s))"

definition new_e :: "error_class \<Rightarrow> error \<Rightarrow> error" where
  "new_e k c = mk_error_child (fst k) (snd k) c"

definition NoError :: error_class where
  "NoError = (0, [])"
definition GenericError :: error_class where
  "GenericError = (1, ''generic_error'')"
definition NotInitializedError :: error_class where
  "NotInitializedError = (2, ''not_initialized'')"
definition ValueError :: error_class where
  "ValueError = (3, ''value_error'')"
definition MockedError :: error_class where
  "MockedError = (4, ''mocked_error'')"
definition JsonParseError :: error_class where
  "JsonParseError = (5, ''json_parse_error'')"
definition JsonKeyError :: error_class where
  "JsonKeyError = (6, ''json_key_error'')"
definition JsonDomainError :: error_class where
  "JsonDomainError = (7, ''json_domain_error'')"
definition FileEofError :: error_class where
  "FileEofError = (8, ''file_eof_error'')"
definition FileIoError :: error_class where
  "FileIoError = (9, ''file_io_error'')"
definition ParallelOperationError :: error_class where
  "ParallelOperationError = (10, ''parallel_operation_error'')"
definition SequentialOperationError :: error_class where
  "SequentialOperationError = (11, ''sequential_operation_error'')"
definition IllegalSequenceError :: error_class where
  "IllegalSequenceError = (12, ''illegal_sequence'')"
definition UnexpectedNullByteError :: error_class where
  "UnexpectedNullByteError = (13, ''unexpected_null_byte'')"
definition IncompleteUtf8SequenceError :: error_class where
  "IncompleteUtf8SequenceError = (14, ''incomplete_utf8_sequence'')"
definition NotImplementedError :: error_class where
  "NotImplementedError = (15, ''not_implemented'')"
definition TimeoutError :: error_class where
  "TimeoutError = (16, ''generic_timeout_error'')"
definition JsonProcessingError :: error_class where
  "JsonProcessingError = (17, ''json_processing_error'')"

definition MK_ERR_NET :: "int \<Rightarrow> int" where "MK_ERR_NET x = 1000 + x"
definition MK_ERR_DNS :: "int \<Rightarrow> int" where "MK_ERR_DNS x = 2000 + x"
definition MK_ERR_HTTP :: "int \<Rightarrow> int" where "MK_ERR_HTTP x = 3000 + x"
definition MK_ERR_TRACEROUTE :: "int \<Rightarrow> int" where "MK_ERR_TRACEROUTE x = 4000 + x"
definition MK_ERR_MLABNS :: "int \<Rightarrow> int" where "MK_ERR_MLABNS x = 5000 + x"
definition MK_ERR_OONI :: "int \<Rightarrow> int" where "MK_ERR_OONI x = 6000 + x"
definition MK_ERR_REPORT :: "int \<Rightarrow> int" where "MK_ERR_REPORT x = 7000 + x"
definition MK_ERR_NDT :: "int \<Rightarrow> int" where "MK_ERR_NDT x = 8000 + x"
definition MK_ERR_NEUBOT :: "int \<Rightarrow> int" where "MK_ERR_NEUBOT x = 9000 + x"

lemmas common_error_defs [err_simps] =
  NoError_def GenericError_def NotInitializedError_def ValueError_def MockedError_def
  JsonParseError_def JsonKeyError_def JsonDomainError_def FileEofError_def FileIoError_def
  ParallelOperationError_def SequentialOperationError_def IllegalSequenceError_def
  UnexpectedNullByteError_def IncompleteUtf8SequenceError_def NotImplementedError_def
  TimeoutError_def JsonProcessingError_def

lemmas error_offset_defs [err_simps] =
  MK_ERR_NET_def MK_ERR_DNS_def MK_ERR_HTTP_def MK_ERR_TRACEROUTE_def MK_ERR_MLABNS_def
  MK_ERR_OONI_def MK_ERR_REPORT_def MK_ERR_NDT_def MK_ERR_NEUBOT_def

section \<open>Exceptions and results\<close>

text \<open>What C++ code throws: a standard exception with its text, or an \<open>Error\<close>.  A function that
  may throw returns a sum, its left part being the exception.\<close>

datatype exn = RuntimeError string | OutOfRange | BadAlloc | DomainError | ErrorExn error

type_synonym 'a res = "exn + 'a"

text \<open>\<open>ErrorOr<T>\<close>: an error and a value; reading the value while the error is set throws.\<close>

type_synonym 'a error_or = "error \<times> 'a"

definition no_err :: "'a \<Rightarrow> 'a error_or" where
  "no_err x = (new NoError, x)"

definition error_or_default :: "'a \<Rightarrow> 'a error_or" where
  "error_or_default x = (new NotInitializedError, x)"

definition has_value :: "'a error_or \<Rightarrow> bool" where
  "has_value r \<longleftrightarrow> err_eq (fst r) (new NoError)"

definition as_error :: "'a error_or \<Rightarrow> error" where
  "as_error r = fst r"

definition as_value :: "'a error_or \<Rightarrow> 'a res" where
  "as_value r =
    (if is_err (fst r) then Inl (RuntimeError ''error_or_contains_error'') else Inr (snd r))"

text \<open>\<open>Maybe<T>\<close> is an option whose dereference throws when it is empty.\<close>

definition maybe_value :: "'a option \<Rightarrow> 'a res" where
  "maybe_value m = (case m of None \<Rightarrow> Inl (RuntimeError ''Maybe is empty'') | Some x \<Rightarrow> Inr x)"

section \<open>Lemmas\<close>

lemma code_mk_error [simp]: "code (mk_error e r) = e"
  by (simp add: mk_error_def)

lemma child_errors_mk_error [simp]: "child_errors (mk_error e r) = []"
  by (simp add: mk_error_def)

lemma code_new [simp]: "code (new k) = fst k"
  by (simp add: new_def)

lemma code_new_s [simp]: "code (new_s k s) = fst k"
  by (simp add: new_s_def Let_def)

lemma code_new_e [simp]: "code (new_e k e) = fst k"
  by (simp add: new_e_def mk_error_child_def add_child_error_def)

lemma child_errors_new [simp]:
  "child_errors (new k) = []" "child_errors (new_s k s) = []" "child_errors (new_e k e) = [e]"
  by (simp_all add: new_def new_s_def new_e_def mk_error_child_def add_child_error_def Let_def)

lemma code_add_child_error [simp]: "code (add_child_error c e) = code e"
  by (simp add: add_child_error_def)

lemma is_err_new [simp]:
  "is_err (new k) \<longleftrightarrow> fst k \<noteq> 0" "is_err (new_s k s) \<longleftrightarrow> fst k \<noteq> 0"
  "is_err (new_e k e) \<longleftrightarrow> fst k \<noteq> 0"
  by (simp_all add: is_err_def)

lemma fst_NoError [simp]: "fst NoError = 0"
  by (simp add: NoError_def)

lemma not_is_err_NoError [simp]: "\<not> is_err (new NoError)"
  by (simp add: NoError_def)

lemma is_err_add_child_error [simp]: "is_err (add_child_error c e) = is_err e"
  by (simp add: is_err_def)

lemma has_value_iff [simp]: "has_value (e, x) \<longleftrightarrow> code e = 0"
  by (simp add: has_value_def err_eq_def NoError_def)

lemma has_value_no_err [simp]: "has_value (no_err x)"
  by (simp add: no_err_def NoError_def)

lemma as_value_has_value: "has_value r \<longleftrightarrow> as_value r = Inr (snd r)"
  by (cases r) (simp add: as_value_def is_err_def)

end
