(* ===== verification/Base64.thy ===== *)
theory Base64
  imports Errors
begin

text \<open>
  \<open>common/encoding_base64.cpp\<close>: the encoder is a loop over the bytes that keeps a
  three byte window \<open>in\<close>, the number \<open>state\<close> of bytes in it and the output.  The window
  is not initialised in the source, so its initial contents are an argument here.
  A reference encoder on 24-bit groups and a decoder are the specification.
\<close>

section \<open>The encoder\<close>

definition b64_table :: string where
  "b64_table = ''ABCDEFGHIJKLMNOPQRSTUVWXYZabcdefghijklmnopqrstuvwxyz0123456789+/''"

definition b64_out :: "bytes \<Rightarrow> bytes" where
  "b64_out inp =
    [drop_bit 2 (inp ! 0 AND 0xfc),
     push_bit 4 (inp ! 0 AND 0x03) + drop_bit 4 (inp ! 1 AND 0xf0),
     push_bit 2 (inp ! 1 AND 0x0f) + drop_bit 6 (inp ! 2 AND 0xc0),
     inp ! 2 AND 0x3f]"

definition b64_copy :: "bytes \<Rightarrow> nat \<Rightarrow> string" where
  "b64_copy inp state =
    map (\<lambda>idx. if idx \<le> state then b64_table ! unat (b64_out inp ! idx) else CHR ''='') [0..<4]"

fun b64_step :: "bytes \<times> nat \<times> string \<Rightarrow> uint8 \<Rightarrow> bytes \<times> nat \<times> string" where
  "b64_step (inp, state, res) b =
    (let inp = inp[state := b]; state = state + 1
     in if state = 3 then (inp, 0, res @ b64_copy inp state) else (inp, state, res))"

fun b64_finish :: "bytes \<times> nat \<times> string \<Rightarrow> string" where
  "b64_finish (inp, state, res) =
    (if state \<noteq> 0
     then res @ b64_copy (foldl (\<lambda>i idx. i[idx := 0]) inp [state..<3]) state
     else res)"

definition base64_encode_bytes :: "bytes \<Rightarrow> bytes \<Rightarrow> string" where
  "base64_encode_bytes uninit base = b64_finish (foldl b64_step (uninit, 0, []) base)"

definition base64_encode :: "bytes \<Rightarrow> string \<Rightarrow> string" where
  "base64_encode uninit s = base64_encode_bytes uninit (bytes_of s)"

section \<open>The specification\<close>

definition b64_digit :: "nat \<Rightarrow> char" where
  "b64_digit d = b64_table ! d"

definition b64_group :: "nat \<Rightarrow> string" where
  "b64_group n = map b64_digit [n div 64 ^ 3, n div 64 ^ 2 mod 64, n div 64 mod 64, n mod 64]"

definition be24 :: "uint8 \<Rightarrow> uint8 \<Rightarrow> uint8 \<Rightarrow> nat" where
  "be24 a b c = unat a * 65536 + unat b * 256 + unat c"

fun b64_spec :: "bytes \<Rightarrow> string" where
  "b64_spec [] = []"
| "b64_spec [a] = take 2 (b64_group (be24 a 0 0)) @ ''==''"
| "b64_spec [a, b] = take 3 (b64_group (be24 a b 0)) @ ''=''"
| "b64_spec (a # b # c # bs) = b64_group (be24 a b c) @ b64_spec bs"

definition b64_index :: "char \<Rightarrow> nat" where
  "b64_index ch = length (takeWhile (\<lambda>x. x \<noteq> ch) b64_table)"

definition b64_ungroup :: "char list \<Rightarrow> nat" where
  "b64_ungroup cs = foldl (\<lambda>v ch. v * 64 + (if ch = CHR ''='' then 0 else b64_index ch)) 0 cs"

fun b64_decode :: "string \<Rightarrow> bytes" where
  "b64_decode (p # q # r # s # cs) =
    (let n = b64_ungroup [p, q, r, s];
         out = [word_of_nat (n div 65536), word_of_nat (n div 256), word_of_nat n]
     in (if r = CHR ''='' then take 1 out else if s = CHR ''='' then take 2 out else out)
        @ b64_decode cs)"
| "b64_decode cs = []"

section \<open>Bit fields as arithmetic\<close>

lemma and_masks [byte_simps]:
  fixes b :: uint8
  shows "b AND 3 = take_bit 2 b" "b AND 15 = take_bit 4 b" "b AND 63 = take_bit 6 b"
  by (simp_all add: take_bit_eq_mask mask_eq_exp_minus_1)

lemma drop_high_masks [byte_simps]:
  fixes b :: uint8
  shows "drop_bit 2 (b AND 252) = drop_bit 2 b" "drop_bit 4 (b AND 240) = drop_bit 4 b"
    "drop_bit 6 (b AND 192) = drop_bit 6 b"
proof -
  have "drop_bit 2 b AND mask 6 = drop_bit 2 b" "drop_bit 4 b AND mask 4 = drop_bit 4 b"
    "drop_bit 6 b AND mask 2 = drop_bit 6 b"
    by (simp_all add: take_bit_drop_bit take_bit_word_eq_self flip: take_bit_eq_mask)
  then show "drop_bit 2 (b AND 252) = drop_bit 2 b" "drop_bit 4 (b AND 240) = drop_bit 4 b"
    "drop_bit 6 (b AND 192) = drop_bit 6 b"
    by (simp_all add: mask_eq_exp_minus_1)
qed

lemma unat_b64_out:
  assumes "inp = [a, b, c]"
  shows "map unat (b64_out inp) =
    [unat a div 4, unat a mod 4 * 16 + unat b div 16, unat b mod 16 * 4 + unat c div 64,
     unat c mod 64]"
proof -
  have inp: "inp ! 0 = a" "inp ! 1 = b" "inp ! 2 = c"
    using assms by simp_all
  have sh: "unat (push_bit 4 (take_bit 2 a)) = unat a mod 4 * 16"
    "unat (push_bit 2 (take_bit 4 b)) = unat b mod 16 * 4"
    using mod_less_divisor [of 4 "unat a"] mod_less_divisor [of 16 "unat b"]
    by (subst unat_push_bit, simp_all add: unat_take_bit)+
  have lt: "unat b div 16 < 16" "unat c div 64 < 4"
    by (simp_all add: less_mult_imp_div_less)
  have bound: "unat a mod 4 * 16 + unat b div 16 < 256" "unat b mod 16 * 4 + unat c div 64 < 256"
    using lt by linarith+
  have "unat (push_bit 4 (take_bit 2 a) + drop_bit 4 b) = unat a mod 4 * 16 + unat b div 16"
    "unat (push_bit 2 (take_bit 4 b) + drop_bit 6 c) = unat b mod 16 * 4 + unat c div 64"
    using bound by (simp_all add: unat_word_ariths sh unat_drop_bit)
  then show ?thesis
    using inp by (simp only: b64_out_def inp and_masks drop_high_masks list.map unat_drop_bit
        unat_take_bit) simp
qed

lemma digits_split:
  fixes A B C :: nat
  assumes "B < 256" and "C < 256"
  defines "n \<equiv> A * 65536 + B * 256 + C"
  shows "n div 64 ^ 3 = A div 4" "n div 64 ^ 2 mod 64 = A mod 4 * 16 + B div 16"
    "n div 64 mod 64 = B mod 16 * 4 + C div 64" "n mod 64 = C mod 64"
proof -
  have lt: "B div 16 < 16" "C div 64 < 4" "A mod 4 < 4" "B mod 16 < 16" "C mod 64 < 64"
    using assms by (simp_all add: less_mult_imp_div_less)
  define x y z where "x = A mod 4 * 16 + B div 16" and "y = B mod 16 * 4 + C div 64"
    and "z = C mod 64"
  have small: "x < 64" "y < 64" "z < 64"
    using lt unfolding x_def y_def z_def by linarith+
  have base: "p = a1 * 4 + a0 \<Longrightarrow> q = b1 * 16 + b0 \<Longrightarrow> r = c1 * 64 + c0 \<Longrightarrow>
      p * 65536 + q * 256 + r = a1 * 262144 + (a0 * 16 + b1) * 4096 + (b0 * 4 + c1) * 64 + c0"
    for p q r a0 a1 b0 b1 c0 c1 :: nat
    by (simp add: algebra_simps)
  have n: "n = A div 4 * 262144 + x * 4096 + y * 64 + z"
    unfolding n_def x_def y_def z_def by (rule base) (simp_all only: div_mult_mod_eq)
  have "n = z + 64 * (y + 64 * (x + 64 * (A div 4)))"
    unfolding n by (simp add: algebra_simps)
  moreover have key: "m = r + 64 * q \<Longrightarrow> r < 64 \<Longrightarrow> m mod 64 = r \<and> m div 64 = q" for m q r :: nat
    by simp
  ultimately have d: "n mod 64 = z" "n div 64 = y + 64 * (x + 64 * (A div 4))"
    using small(3) by blast+
  have d1: "n div 64 mod 64 = y" "n div 64 div 64 = x + 64 * (A div 4)"
    using key [OF d(2) small(2)] by blast+
  have d2: "n div 64 div 64 mod 64 = x" "n div 64 div 64 div 64 = A div 4"
    using key [OF d1(2) small(1)] by blast+
  show "n div 64 ^ 3 = A div 4" "n div 64 ^ 2 mod 64 = A mod 4 * 16 + B div 16"
    "n div 64 mod 64 = B mod 16 * 4 + C div 64" "n mod 64 = C mod 64"
    using d(1) d1(1) d2 unfolding x_def [symmetric] y_def [symmetric] z_def [symmetric]
    by (simp_all only: power2_eq_square power3_eq_cube div_mult2_eq)
qed

lemma b64_copy_group:
  assumes "state \<le> 3"
  shows "b64_copy [a, b, c] state =
    take (Suc state) (b64_group (be24 a b c)) @ replicate (3 - state) (CHR ''='')"
proof -
  have group: "b64_group (be24 a b c) = map b64_digit (map unat (b64_out [a, b, c]))"
    unfolding b64_group_def be24_def unat_b64_out [OF refl]
    by (simp only: digits_split uint8_lt list.map)
  have four: "[0..<4] = [0, 1, 2, 3::nat]"
    by (simp add: upt_rec)
  have "state = 0 \<or> state = 1 \<or> state = 2 \<or> state = 3"
    using assms by linarith
  then show ?thesis
    unfolding group b64_copy_def four
    by (elim disjE) (simp_all add: b64_out_def b64_digit_def numeral_eq_Suc)
qed

lemma b64_loop:
  assumes "length inp = 3"
  shows "b64_finish (foldl b64_step (inp, 0, res) bs) = res @ b64_spec bs"
  using assms
proof (induction bs arbitrary: inp res rule: b64_spec.induct)
  case 1
  then show ?case by simp
next
  case (2 a)
  then obtain x y z where "inp = [x, y, z]"
    by (auto simp: length_Suc_conv numeral_eq_Suc)
  moreover have "[1..<3] = [1, 2::nat]"
    by (simp add: upt_rec)
  ultimately show ?case
    by (simp add: b64_copy_group Let_def numeral_2_eq_2)
next
  case (3 a b)
  then obtain x y z where "inp = [x, y, z]"
    by (auto simp: length_Suc_conv numeral_eq_Suc)
  moreover have "[2..<3] = [2::nat]"
    by (simp add: upt_rec)
  ultimately show ?case
    by (simp add: b64_copy_group Let_def numeral_2_eq_2 numeral_3_eq_3)
next
  case (4 a b c bs)
  then obtain x y z where inp: "inp = [x, y, z]"
    by (auto simp: length_Suc_conv numeral_eq_Suc)
  have len: "length (b64_group n) = 4" for n
    by (simp add: b64_group_def)
  show ?case
    using "4.IH" [of "[a, b, c]" "res @ b64_group (be24 a b c)"] b64_copy_group [of 3 a b c] len
    by (simp add: inp Let_def numeral_eq_Suc)
qed

section \<open>Decoding\<close>

lemma b64_digit_inverse:
  assumes "d < 64"
  shows "b64_index (b64_digit d) = d" "b64_digit d \<noteq> CHR ''=''"
proof -
  have "list_all (\<lambda>d. b64_index (b64_digit d) = d \<and> b64_digit d \<noteq> CHR ''='') [0..<64]"
    by code_simp
  then show "b64_index (b64_digit d) = d" "b64_digit d \<noteq> CHR ''=''"
    using assms by (simp_all add: list_all_iff)
qed

lemma b64_digits_value:
  fixes n :: nat
  shows "((n div 64 ^ 3 * 64 + n div 64 ^ 2 mod 64) * 64 + n div 64 mod 64) * 64 + n mod 64 = n"
proof -
  have "n div 64 ^ 3 = n div 64 div 64 div 64" "n div 64 ^ 2 = n div 64 div 64"
    by (simp_all only: power2_eq_square power3_eq_cube div_mult2_eq)
  then show ?thesis
    by (simp only: div_mult_mod_eq)
qed

lemma be24_lt: "be24 a b c < 16777216"
  using uint8_lt [of a] uint8_lt [of b] uint8_lt [of c] unfolding be24_def by linarith

lemma b64_ungroup_four:
  assumes "w < 64" "x < 64" "y < 64" "z < 64"
  shows "b64_ungroup [b64_digit w, b64_digit x, b64_digit y, b64_digit z] =
      ((w * 64 + x) * 64 + y) * 64 + z"
    and "b64_ungroup [b64_digit w, b64_digit x, b64_digit y, CHR ''=''] =
      ((w * 64 + x) * 64 + y) * 64"
    and "b64_ungroup [b64_digit w, b64_digit x, CHR ''='', CHR ''=''] = (w * 64 + x) * 64 * 64"
  using assms unfolding b64_ungroup_def by (simp_all only: foldl.simps b64_digit_inverse) simp_all

lemma b64_group_pads:
  assumes "n < 16777216"
  shows "b64_ungroup (b64_group n) = n"
    and "n mod 64 = 0 \<Longrightarrow> b64_ungroup (take 3 (b64_group n) @ ''='') = n"
    and "n mod 64 = 0 \<Longrightarrow> n div 64 mod 64 = 0
      \<Longrightarrow> b64_ungroup (take 2 (b64_group n) @ ''=='') = n"
proof -
  define w x y z where "w = n div 64 ^ 3" and "x = n div 64 ^ 2 mod 64"
    and "y = n div 64 mod 64" and "z = n mod 64"
  have lt: "w < 64" "x < 64" "y < 64" "z < 64"
    using assms unfolding w_def x_def y_def z_def by (simp_all add: less_mult_imp_div_less)
  have val: "((w * 64 + x) * 64 + y) * 64 + z = n"
    unfolding w_def x_def y_def z_def by (rule b64_digits_value)
  have group: "b64_group n = [b64_digit w, b64_digit x, b64_digit y, b64_digit z]"
    by (simp only: b64_group_def list.map w_def x_def y_def z_def)
  have t: "take 3 (b64_group n) = [b64_digit w, b64_digit x, b64_digit y]"
    "take 2 (b64_group n) = [b64_digit w, b64_digit x]"
    unfolding group by (simp_all add: numeral_eq_Suc)
  note u = b64_ungroup_four [OF lt]
  show "b64_ungroup (b64_group n) = n"
    unfolding group u by (rule val)
  show "b64_ungroup (take 3 (b64_group n) @ ''='') = n" if "n mod 64 = 0"
    using that val unfolding t append.simps u z_def [symmetric] by simp
  show "b64_ungroup (take 2 (b64_group n) @ ''=='') = n" if "n mod 64 = 0" "n div 64 mod 64 = 0"
    using that val unfolding t append.simps u z_def [symmetric] y_def [symmetric] by simp
qed

lemma be24_bytes:
  "word_of_nat (be24 a b c div 65536) = a" "word_of_nat (be24 a b c div 256) = b"
  "word_of_nat (be24 a b c) = c"
proof -
  have key: "m = r + 256 * q \<Longrightarrow> r < 256 \<Longrightarrow> m div 256 = q" for m q r :: nat
    by simp
  have e: "be24 a b c = unat c + 256 * (unat b + 256 * unat a)"
    by (simp add: be24_def)
  have d1: "be24 a b c div 256 = unat b + 256 * unat a"
    by (rule key [OF e]) simp
  have "be24 a b c div 65536 = be24 a b c div 256 div 256"
    by (simp flip: div_mult2_eq)
  also have "\<dots> = unat a"
    by (rule key [OF d1]) simp
  finally have d2: "be24 a b c div 65536 = unat a" .
  have "(256 :: uint8) = 0" "(65536 :: uint8) = 0"
    by simp_all
  then have "256 * w = 0" "w * 256 = 0" "w * 65536 = 0" for w :: uint8
    by (simp_all only: mult_zero_left mult_zero_right)
  then show "word_of_nat (be24 a b c div 65536) = a" "word_of_nat (be24 a b c div 256) = b"
    "word_of_nat (be24 a b c) = c"
    unfolding d1 d2 by (simp_all add: be24_def)
qed

lemma b64_decode_group:
  assumes "length cs = 4" and "cs ! 2 \<noteq> CHR ''=''" and "cs ! 3 \<noteq> CHR ''=''"
    and "b64_ungroup cs = be24 a b c"
  shows "b64_decode (cs @ rest) = a # b # c # b64_decode rest"
proof -
  obtain p q r s where "cs = [p, q, r, s]"
    using assms(1) by (auto simp: length_Suc_conv numeral_eq_Suc)
  then show ?thesis
    using assms by (simp add: Let_def be24_bytes)
qed

lemma b64_decode_pads:
  assumes "length cs = 4"
  shows "b64_ungroup (take 2 cs @ ''=='') = be24 a b c \<Longrightarrow> b64_decode (take 2 cs @ ''=='') = [a]"
    and "b64_ungroup (take 3 cs @ ''='') = be24 a b c \<Longrightarrow> cs ! 2 \<noteq> CHR ''=''
      \<Longrightarrow> b64_decode (take 3 cs @ ''='') = [a, b]"
proof -
  obtain p q r s where "cs = [p, q, r, s]"
    using assms by (auto simp: length_Suc_conv numeral_eq_Suc)
  then have "take 2 cs = [p, q]" "take 3 cs = [p, q, r]" "cs ! 2 = r"
    by (simp_all add: numeral_2_eq_2 numeral_3_eq_3)
  then show "b64_ungroup (take 2 cs @ ''=='') = be24 a b c \<Longrightarrow> b64_decode (take 2 cs @ ''=='') = [a]"
    and "b64_ungroup (take 3 cs @ ''='') = be24 a b c \<Longrightarrow> cs ! 2 \<noteq> CHR ''=''
      \<Longrightarrow> b64_decode (take 3 cs @ ''='') = [a, b]"
    by (simp_all add: Let_def be24_bytes)
qed

lemma length_b64_group [simp]: "length (b64_group n) = 4"
  by (simp add: b64_group_def)

lemma b64_decode_spec: "b64_decode (b64_spec bs) = bs"
proof (induction bs rule: b64_spec.induct)
  case 1
  then show ?case by simp
next
  case (2 a)
  have z: "be24 a 0 0 mod 64 = 0" "be24 a 0 0 div 64 mod 64 = 0"
    using digits_split [of 0 0 "unat a"] by (simp_all add: be24_def)
  show ?case
    unfolding b64_spec.simps
    by (rule b64_decode_pads(1) [OF _ b64_group_pads(3) [OF be24_lt z]]) simp
next
  case (3 a b)
  have z: "be24 a b 0 mod 64 = 0"
    using digits_split [of "unat b" 0 "unat a"] by (simp add: be24_def)
  have "b64_group (be24 a b 0) ! 2 = b64_digit (be24 a b 0 div 64 mod 64)"
    by (simp add: b64_group_def numeral_2_eq_2)
  then have "b64_group (be24 a b 0) ! 2 \<noteq> CHR ''=''"
    by (simp only: b64_digit_inverse) simp
  then show ?case
    unfolding b64_spec.simps
    using b64_decode_pads(2) [OF length_b64_group b64_group_pads(2) [OF be24_lt z]] by simp
next
  case (4 a b c bs)
  have "b64_group (be24 a b c) ! 2 = b64_digit (be24 a b c div 64 mod 64)"
    "b64_group (be24 a b c) ! 3 = b64_digit (be24 a b c mod 64)"
    by (simp_all add: b64_group_def numeral_2_eq_2 numeral_3_eq_3)
  then have ne: "b64_group (be24 a b c) ! 2 \<noteq> CHR ''=''" "b64_group (be24 a b c) ! 3 \<noteq> CHR ''=''"
    using b64_digit_inverse(2) [of "be24 a b c div 64 mod 64"]
      b64_digit_inverse(2) [of "be24 a b c mod 64"] by simp_all
  show ?case
    unfolding b64_spec.simps b64_decode_group
      [OF length_b64_group ne b64_group_pads(1) [OF be24_lt]] by (simp only: "4.IH")
qed

section \<open>Properties\<close>

text \<open>C39: Base64 encoding agrees with the reference encoder on 24-bit groups for every
  input, whatever the uninitialised window held, and its output decodes to the input.\<close>

theorem base64_encode_correct:
  assumes "length uninit = 3"
  shows "base64_encode uninit s = b64_spec (bytes_of s)
    \<and> string_of (b64_decode (base64_encode uninit s)) = s"
proof -
  have "base64_encode uninit s = b64_spec (bytes_of s)"
    unfolding base64_encode_def base64_encode_bytes_def using b64_loop [OF assms] by simp
  then show ?thesis
    by (simp add: b64_decode_spec)
qed

theorem base64_encode_correct_witness:
  "b64_spec (bytes_of ''Man!'') = ''TWFuIQ==''
    \<and> string_of (b64_decode (base64_encode [7, 7, 7] ''Man!'')) = ''Man!''"
proof -
  have "b64_spec (bytes_of ''Man!'') = ''TWFuIQ==''"
    by (simp add: byte_of_def b64_group_def be24_def b64_digit_def b64_table_def)
  moreover have "length [7, 7, 7 :: uint8] = 3"
    by simp
  ultimately show ?thesis
    using base64_encode_correct [of "[7, 7, 7]" "''Man!''"] by blast
qed

end
