(* ===== verification/Utf8.thy ===== *)
theory Utf8
  imports Errors
begin

text \<open>
  \<open>common/citrus_utf8.c\<close> and \<open>common/encoding_utf8.cpp\<close>: the restartable decoder
  \<open>mk_utf8_mbrtowc\<close> with its three field state, the encoder \<open>mk_utf8_wcrtomb\<close>, and
  \<open>utf8_parse\<close>, which feeds the decoder one byte at a time.  A pair of pointer and
  length is the list of the bytes it denotes, \<open>NULL\<close> is \<open>None\<close>; a wide character is an
  integer, and the bound lemmas show that it never leaves 21 bits.
\<close>

section \<open>The decoder\<close>

record utf8_state =
  us_ch :: int
  us_want :: int
  us_lbound :: int

definition utf8_init :: utf8_state where
  "utf8_init = \<lparr>us_ch = 0, us_want = 0, us_lbound = 0\<rparr>"

definition MB_CUR_MAX :: int where
  "MB_CUR_MAX = 4"

datatype errno = MB_EINVAL | MB_EILSEQ

text \<open>The results \<open>(size_t)-1\<close> (with \<open>errno\<close>), \<open>(size_t)-2\<close> and a number of bytes.\<close>

datatype mb_result = MbError errno | MbIncomplete | MbDone int

text \<open>Mask, length and lower bound that the first byte of a sequence announces.\<close>

definition mb_lead :: "uint8 \<Rightarrow> (uint8 \<times> int \<times> int) option" where
  "mb_lead ch =
    (if ch AND 0x80 = 0 then Some (0x7f, 1, 0)
     else if ch AND 0xe0 = 0xc0 then Some (0x1f, 2, 0x80)
     else if ch AND 0xf0 = 0xe0 then Some (0x0f, 3, 0x800)
     else if ch AND 0xf8 = 0xf0 then Some (0x07, 4, 0x10000)
     else None)"

text \<open>The loop over the continuation bytes; \<open>None\<close> is a bad byte in the middle.\<close>

fun mb_loop :: "int \<Rightarrow> int \<Rightarrow> int \<Rightarrow> bytes \<Rightarrow> (int \<times> int) option" where
  "mb_loop want i wch [] = Some (i, wch)"
| "mb_loop want i wch (b # s) =
    (if i < want
     then if b AND 0xc0 \<noteq> 0x80 then None
          else mb_loop want (i + 1) (push_bit 6 wch OR uint (b AND 0x3f)) s
     else Some (i, wch))"

definition mb_finish ::
  "int \<Rightarrow> int \<Rightarrow> int \<Rightarrow> int \<Rightarrow> utf8_state \<Rightarrow> mb_result \<times> int option \<times> utf8_state" where
  "mb_finish want lbound i wch us =
    (if i < want
     then (MbIncomplete, None, us\<lparr>us_want := want - i, us_lbound := lbound, us_ch := wch\<rparr>)
     else if wch < lbound then (MbError MB_EILSEQ, None, us)
     else if 0xd800 \<le> wch \<and> wch \<le> 0xdfff then (MbError MB_EILSEQ, None, us)
     else if 0x10ffff < wch then (MbError MB_EILSEQ, None, us)
     else (if wch = 0 then MbDone 0 else MbDone want, Some wch, us\<lparr>us_want := 0\<rparr>))"

definition mk_utf8_mbrtowc ::
  "bytes option \<Rightarrow> utf8_state \<Rightarrow> mb_result \<times> int option \<times> utf8_state" where
  "mk_utf8_mbrtowc str us =
    (if us_want us < 0 \<or> us_want us > MB_CUR_MAX then (MbError MB_EINVAL, None, us)
     else case (case str of None \<Rightarrow> [0] | Some s \<Rightarrow> s) of
       [] \<Rightarrow> (MbIncomplete, None, us)
     | ch # s \<Rightarrow>
         if us_want us = 0 \<and> ch AND NOT 0x7f = 0
         then (if ch \<noteq> 0 then MbDone 1 else MbDone 0, Some (uint ch), us)
         else if us_want us = 0
         then (case mb_lead ch of
             None \<Rightarrow> (MbError MB_EILSEQ, None, us)
           | Some (msk, want, lbound) \<Rightarrow>
               (case mb_loop want 1 (uint (ch AND msk)) s of
                  None \<Rightarrow> (MbError MB_EILSEQ, None, us)
                | Some (i, wch) \<Rightarrow> mb_finish want lbound i wch us))
         else (case mb_loop (us_want us) 0 (us_ch us) (ch # s) of
             None \<Rightarrow> (MbError MB_EILSEQ, None, us)
           | Some (i, wch) \<Rightarrow> mb_finish (us_want us) (us_lbound us) i wch us))"

definition mk_utf8_mbsinit :: "utf8_state \<Rightarrow> bool" where
  "mk_utf8_mbsinit us \<longleftrightarrow> us_want us = 0"

section \<open>The encoder\<close>

text \<open>The call with a buffer; with \<open>s == NULL\<close> the source only returns 1, and nothing in the
  library calls it so.\<close>

fun mb_tail :: "nat \<Rightarrow> int \<Rightarrow> bytes \<Rightarrow> int \<times> bytes" where
  "mb_tail 0 wc out = (wc, out)"
| "mb_tail (Suc n) wc out = mb_tail n (drop_bit 6 wc) ((word_of_int (wc AND 0x3f) OR 0x80) # out)"

definition mk_utf8_wcrtomb :: "int \<Rightarrow> utf8_state \<Rightarrow> errno + bytes" where
  "mk_utf8_wcrtomb wc us =
    (if us_want us \<noteq> 0 then Inl MB_EINVAL
     else if wc < 0 \<or> (wc > 0xd7ff \<and> wc < 0xe000) \<or> wc > 0x10ffff then Inl MB_EILSEQ
     else if wc \<le> 0x7f then Inr [word_of_int wc]
     else
       (let (lead, len) = (if wc \<le> 0x7ff then (0xc0, 2) else if wc \<le> 0xffff then (0xe0, 3)
                           else (0xf0 :: uint8, 4 :: nat));
            (wc, out) = mb_tail (len - 1) wc []
        in Inr ((word_of_int (wc AND 0xff) OR lead) # out)))"

section \<open>utf8\_parse\<close>

text \<open>\<open>None\<close> stands for a failed \<open>assert\<close>.\<close>

fun utf8_parse_loop :: "utf8_state \<Rightarrow> mb_result \<Rightarrow> bytes \<Rightarrow> error option" where
  "utf8_parse_loop us r [] =
    (if r = MbIncomplete then Some (new IncompleteUtf8SequenceError)
     else if r = MbDone 1 then Some (new NoError)
     else None)"
| "utf8_parse_loop us r (c # s) =
    (let (r, _, us) = mk_utf8_mbrtowc (Some [c]) us
     in case r of
          MbIncomplete \<Rightarrow> utf8_parse_loop us r s
        | MbError _ \<Rightarrow> Some (new IllegalSequenceError)
        | MbDone k \<Rightarrow>
            if k = 0 then Some (new UnexpectedNullByteError)
            else if k = 1 then utf8_parse_loop us r s
            else None)"

definition utf8_parse :: "string \<Rightarrow> error option" where
  "utf8_parse s = utf8_parse_loop utf8_init (MbDone 1) (bytes_of s)"

section \<open>Byte fields as arithmetic\<close>

lemma and_high_mask:
  fixes b :: "'a::len word"
  shows "b AND NOT (mask k) = push_bit k (drop_bit k b)"
  by (rule bit_word_eqI) (auto simp: bit_simps)

lemma high_bits_eq:
  fixes b :: uint8
  assumes "k \<le> 8" and "p < 2 ^ (8 - k)"
  shows "b AND NOT (mask k) = word_of_nat (p * 2 ^ k) \<longleftrightarrow> unat b div 2 ^ k = p"
proof -
  have lt: "p * 2 ^ k < 256"
  proof -
    have "p * 2 ^ k < 2 ^ (8 - k) * 2 ^ k"
      using assms by simp
    also have "\<dots> = 2 ^ 8"
      using assms by (simp flip: power_add)
    finally show ?thesis by simp
  qed
  have "unat b div 2 ^ k * 2 ^ k \<le> unat b"
    by simp
  then have "unat b div 2 ^ k * 2 ^ k < 256"
    using uint8_lt [of b] by (rule le_less_trans)
  then have "unat (drop_bit k b) * 2 ^ k < 2 ^ LENGTH(8)"
    unfolding unat_drop_bit by simp
  then have "unat (push_bit k (drop_bit k b)) = unat b div 2 ^ k * 2 ^ k"
    by (subst unat_push_bit) (simp_all only: unat_drop_bit)
  moreover have "m < 256 \<Longrightarrow> unat (word_of_nat m :: uint8) = m" for m
    by (simp add: unsigned_of_nat take_bit_nat_eq_self_iff)
  then have "unat (word_of_nat (p * 2 ^ k) :: uint8) = p * 2 ^ k"
    using lt by blast
  ultimately show ?thesis
    unfolding and_high_mask word_unat_eq_iff by simp
qed

lemma lead_bits [byte_simps]:
  fixes b :: uint8
  shows "b AND 128 = 0 \<longleftrightarrow> unat b < 128" "b AND 192 = 128 \<longleftrightarrow> unat b div 64 = 2"
    "b AND 224 = 192 \<longleftrightarrow> unat b div 32 = 6" "b AND 240 = 224 \<longleftrightarrow> unat b div 16 = 14"
    "b AND 248 = 240 \<longleftrightarrow> unat b div 8 = 30" "b AND - 128 = 0 \<longleftrightarrow> unat b < 128"
proof -
  have m: "NOT (mask 7) = (128 :: uint8)" "NOT (mask 6) = (192 :: uint8)"
    "NOT (mask 5) = (224 :: uint8)" "NOT (mask 4) = (240 :: uint8)" "NOT (mask 3) = (248 :: uint8)"
    "- 128 = (128 :: uint8)"
    by (simp_all add: mask_eq_exp_minus_1)
  show "b AND 128 = 0 \<longleftrightarrow> unat b < 128" "b AND 192 = 128 \<longleftrightarrow> unat b div 64 = 2"
    "b AND 224 = 192 \<longleftrightarrow> unat b div 32 = 6" "b AND 240 = 224 \<longleftrightarrow> unat b div 16 = 14"
    "b AND 248 = 240 \<longleftrightarrow> unat b div 8 = 30" "b AND - 128 = 0 \<longleftrightarrow> unat b < 128"
    using high_bits_eq [of 7 0 b] high_bits_eq [of 6 2 b] high_bits_eq [of 5 6 b]
      high_bits_eq [of 4 14 b] high_bits_eq [of 3 30 b]
    unfolding m by (simp_all add: div_eq_0_iff)
qed

lemma uint_and_masks [byte_simps]:
  fixes b :: uint8
  shows "uint (b AND 63) = uint b mod 64" "uint (b AND 31) = uint b mod 32"
    "uint (b AND 15) = uint b mod 16" "uint (b AND 7) = uint b mod 8"
proof -
  have "uint (b AND mask k) = uint b mod 2 ^ k" for k
    unfolding take_bit_eq_mask [symmetric] unsigned_take_bit_eq by (simp add: take_bit_eq_mod)
  from this [of 6] this [of 5] this [of 4] this [of 3]
  show "uint (b AND 63) = uint b mod 64" "uint (b AND 31) = uint b mod 32"
    "uint (b AND 15) = uint b mod 16" "uint (b AND 7) = uint b mod 8"
    by (simp_all add: mask_eq_exp_minus_1)
qed

lemma push_or:
  fixes w x :: int
  assumes "0 \<le> x" and "x < 2 ^ k"
  shows "push_bit k w OR x = w * 2 ^ k + x"
proof -
  have "push_bit k w OR take_bit k x = push_bit k w + take_bit k x"
    by (rule disjunctive_add_eq_or [symmetric]) (rule bit_eqI, auto simp: bit_simps)
  moreover have "take_bit k x = x"
    using assms by (simp add: take_bit_int_eq_self)
  ultimately show ?thesis
    by (simp add: push_bit_eq_mult)
qed

lemma word_or_high:
  assumes "0 \<le> x" and "x < 2 ^ k"
  shows "(word_of_int x :: uint8) OR push_bit k h = word_of_int x + push_bit k h"
proof -
  have "(word_of_int x :: uint8) = take_bit k (word_of_int x)"
    using assms by (simp add: take_bit_int_eq_self flip: of_int_take_bit)
  then have "\<not> bit (word_of_int x :: uint8) n \<or> \<not> bit (push_bit k h) n" for n
    by (metis bit_push_bit_iff bit_take_bit_iff not_le)
  then have "(word_of_int x :: uint8) AND push_bit k h = 0"
    by (intro bit_eqI) (auto simp: bit_and_iff)
  then show ?thesis
    by (rule disjunctive_add_eq_or [symmetric])
qed

section \<open>One byte of a sequence\<close>

definition utf8_scalar :: "int \<Rightarrow> bool" where
  "utf8_scalar wc \<longleftrightarrow> 0 \<le> wc \<and> wc \<le> 0x10ffff \<and> \<not> (0xd800 \<le> wc \<and> wc \<le> 0xdfff)"

definition is_cont :: "uint8 \<Rightarrow> bool" where
  "is_cont b \<longleftrightarrow> unat b div 64 = 2"

definition cont_step :: "int \<Rightarrow> uint8 \<Rightarrow> int" where
  "cont_step w b = w * 64 + uint b mod 64"

lemma push_cont [simp]: "push_bit 6 w OR uint (b AND 63) = cont_step w b"
  using push_or [of "uint b mod 64" 6 w] by (simp add: byte_simps cont_step_def)

lemma cont_step_nonneg [intro]: "0 \<le> w \<Longrightarrow> 0 \<le> cont_step w b"
  by (simp add: cont_step_def)

lemma mbrtowc_cont:
  assumes "0 < us_want us" "us_want us \<le> 4"
  shows "mk_utf8_mbrtowc (Some [c]) us =
    (if is_cont c
     then mb_finish (us_want us) (us_lbound us) 1 (cont_step (us_ch us) c) us
     else (MbError MB_EILSEQ, None, us))"
  using assms by (simp add: mk_utf8_mbrtowc_def MB_CUR_MAX_def lead_bits is_cont_def)

lemma upd_same_lbound:
  "us\<lparr>us_want := k, us_lbound := us_lbound us, us_ch := w\<rparr> = us\<lparr>us_want := k, us_ch := w\<rparr>"
  by (cases us) simp

lemma parse_cont:
  assumes "0 < us_want us" "us_want us \<le> 4"
  shows "utf8_parse_loop us r (c # s) =
    (let w = cont_step (us_ch us) c in
     if \<not> is_cont c then Some (new IllegalSequenceError)
     else if 1 < us_want us
     then utf8_parse_loop (us\<lparr>us_want := us_want us - 1, us_ch := w\<rparr>) MbIncomplete s
     else if w < us_lbound us \<or> (0xd800 \<le> w \<and> w \<le> 0xdfff) \<or> 0x10ffff < w
     then Some (new IllegalSequenceError)
     else if w = 0 then Some (new UnexpectedNullByteError)
     else utf8_parse_loop (us\<lparr>us_want := 0\<rparr>) (MbDone 1) s)"
proof (cases "is_cont c")
  case False
  then show ?thesis
    by (simp add: mbrtowc_cont [OF assms])
next
  case True
  show ?thesis
  proof (cases "1 < us_want us")
    case False
    then have "us_want us = 1"
      using assms by simp
    then show ?thesis
      using True by (simp add: mbrtowc_cont [OF assms] mb_finish_def Let_def)
  qed (use True in \<open>simp add: mbrtowc_cont [OF assms] mb_finish_def Let_def upd_same_lbound\<close>)
qed

lemma mb_lead_eq:
  "mb_lead c = (if unat c < 128 then Some (127, 1, 0)
    else if unat c div 32 = 6 then Some (31, 2, 128)
    else if unat c div 16 = 14 then Some (15, 3, 2048)
    else if unat c div 8 = 30 then Some (7, 4, 65536) else None)"
  by (simp add: mb_lead_def byte_simps)

lemma mbrtowc_lead:
  assumes "us_want us = 0"
  shows "mk_utf8_mbrtowc (Some [c]) us =
    (if unat c < 128 then (if c \<noteq> 0 then MbDone 1 else MbDone 0, Some (uint c), us)
     else if unat c div 32 = 6
     then (MbIncomplete, None, \<lparr>us_ch = uint c mod 32, us_want = 1, us_lbound = 0x80\<rparr>)
     else if unat c div 16 = 14
     then (MbIncomplete, None, \<lparr>us_ch = uint c mod 16, us_want = 2, us_lbound = 0x800\<rparr>)
     else if unat c div 8 = 30
     then (MbIncomplete, None, \<lparr>us_ch = uint c mod 8, us_want = 3, us_lbound = 0x10000\<rparr>)
     else (MbError MB_EILSEQ, None, us))"
  using assms
  by (cases us) (simp add: mk_utf8_mbrtowc_def MB_CUR_MAX_def mb_lead_eq lead_bits
      uint_and_masks mb_finish_def)

lemma parse_lead:
  assumes "us_want us = 0"
  shows "utf8_parse_loop us r (c # s) =
    (if unat c = 0 then Some (new UnexpectedNullByteError)
     else if unat c < 128 then utf8_parse_loop us (MbDone 1) s
     else if unat c div 32 = 6
     then utf8_parse_loop \<lparr>us_ch = uint c mod 32, us_want = 1, us_lbound = 0x80\<rparr> MbIncomplete s
     else if unat c div 16 = 14
     then utf8_parse_loop \<lparr>us_ch = uint c mod 16, us_want = 2, us_lbound = 0x800\<rparr> MbIncomplete s
     else if unat c div 8 = 30
     then utf8_parse_loop \<lparr>us_ch = uint c mod 8, us_want = 3, us_lbound = 0x10000\<rparr> MbIncomplete s
     else Some (new IllegalSequenceError))"
proof -
  have "c = 0 \<longleftrightarrow> unat c = 0"
    by (simp add: word_unat_eq_iff)
  then show ?thesis
    by (simp add: mbrtowc_lead [OF assms])
qed

lemma parse_boundary:
  "us_want us = 0 \<Longrightarrow> utf8_parse_loop us (MbDone 1) s = utf8_parse_loop utf8_init (MbDone 1) s"
proof (induction s arbitrary: us)
  case (Cons c s)
  have init: "us_want utf8_init = 0"
    by (simp add: utf8_init_def)
  show ?case
    unfolding parse_lead [OF Cons.prems] parse_lead [OF init]
      Cons.IH [OF Cons.prems] by (rule refl)
qed simp

definition utf8_ok :: "bytes \<Rightarrow> bool" where
  "utf8_ok bs \<longleftrightarrow> utf8_parse_loop utf8_init (MbDone 1) bs = Some (new NoError)"

lemma new_ne_NoError [simp]:
  "new IllegalSequenceError \<noteq> new NoError" "new UnexpectedNullByteError \<noteq> new NoError"
  "new IncompleteUtf8SequenceError \<noteq> new NoError"
  by (simp_all add: new_def mk_error_def err_simps)

lemma ex_append_Cons:
  "(\<exists>cs rest. c # s = cs @ rest \<and> length cs = Suc n \<and> P cs rest) \<longleftrightarrow>
    (\<exists>cs rest. s = cs @ rest \<and> length cs = n \<and> P (c # cs) rest)"
proof (intro iffI; elim exE conjE)
  fix cs rest assume "c # s = cs @ rest" "length cs = Suc n" "P cs rest"
  then show "\<exists>cs rest. s = cs @ rest \<and> length cs = n \<and> P (c # cs) rest"
    by (cases cs) auto
next
  fix cs rest assume "s = cs @ rest" "length cs = n" "P (c # cs) rest"
  then show "\<exists>cs rest. c # s = cs @ rest \<and> length cs = Suc n \<and> P cs rest"
    by (intro exI [of _ "c # cs"] exI [of _ rest]) simp
qed

lemma parse_conts:
  assumes "0 < us_want us" "us_want us \<le> 4" "0 < us_lbound us"
  shows "utf8_parse_loop us MbIncomplete bs = Some (new NoError) \<longleftrightarrow>
    (\<exists>cs rest. bs = cs @ rest \<and> length cs = nat (us_want us) \<and> list_all is_cont cs
      \<and> us_lbound us \<le> foldl cont_step (us_ch us) cs
      \<and> utf8_scalar (foldl cont_step (us_ch us) cs) \<and> utf8_ok rest)"
  using assms
proof (induction bs arbitrary: us)
  case Nil
  then show ?case by auto
next
  case (Cons c s)
  show ?case
  proof (cases "1 < us_want us")
    case True
    let ?us = "us\<lparr>us_want := us_want us - 1, us_ch := cont_step (us_ch us) c\<rparr>"
    have n: "nat (us_want us) = Suc (nat (us_want us - 1))"
      using True by simp
    have "utf8_parse_loop us MbIncomplete (c # s) = Some (new NoError) \<longleftrightarrow>
        is_cont c \<and> utf8_parse_loop ?us MbIncomplete s = Some (new NoError)"
      using True Cons.prems by (simp only: parse_cont) (simp add: Let_def)
    also have "\<dots> \<longleftrightarrow> is_cont c \<and> (\<exists>cs rest. s = cs @ rest \<and> length cs = nat (us_want us - 1)
        \<and> list_all is_cont cs \<and> us_lbound us \<le> foldl cont_step (us_ch us) (c # cs)
        \<and> utf8_scalar (foldl cont_step (us_ch us) (c # cs)) \<and> utf8_ok rest)"
      using Cons.IH [of ?us] True Cons.prems by simp
    also have "\<dots> \<longleftrightarrow> (\<exists>cs rest. c # s = cs @ rest \<and> length cs = nat (us_want us)
        \<and> list_all is_cont cs \<and> us_lbound us \<le> foldl cont_step (us_ch us) cs
        \<and> utf8_scalar (foldl cont_step (us_ch us) cs) \<and> utf8_ok rest)"
      unfolding n ex_append_Cons by auto
    finally show ?thesis .
  next
    case False
    then have one: "us_want us = 1"
      using Cons.prems by simp
    have ok: "utf8_parse_loop (us\<lparr>us_want := 0\<rparr>) (MbDone 1) s = Some (new NoError) \<longleftrightarrow> utf8_ok s"
      by (simp add: utf8_ok_def parse_boundary)
    have n: "nat (us_want us) = Suc 0"
      using one by simp
    show ?thesis
      unfolding n ex_append_Cons parse_cont [OF Cons.prems(1,2)]
      using Cons.prems one ok by (auto simp: Let_def utf8_scalar_def)
  qed
qed

section \<open>The shape of encoded characters\<close>

definition byte :: "int \<Rightarrow> uint8" where
  "byte x = word_of_int x"

lemma uint_byte [simp]: "0 \<le> x \<Longrightarrow> x < 256 \<Longrightarrow> uint (byte x) = x"
  by (simp add: byte_def uint_word_of_int)

lemma byte_uint [simp]: "byte (uint b) = b"
  by (simp add: byte_def)

lemma unat_div_iff:
  "unat (b :: uint8) div k = m \<longleftrightarrow> uint b div int k = int m"
  by (metis nat_int of_nat_div uint_nat unat_eq_nat_uint)

lemma unat_lt_iff: "unat (b :: uint8) < n \<longleftrightarrow> uint b < int n"
  by (simp only: uint_nat of_nat_less_iff)

lemma uint8_bounds [simp]: "0 \<le> uint (b :: uint8)" "uint (b :: uint8) < 256"
  using unsigned_less [of b, where 'a = int] by simp_all

lemma or_lead:
  "0 \<le> x \<Longrightarrow> x < 64 \<Longrightarrow> word_of_int x OR 128 = byte (128 + x)"
  "0 \<le> x \<Longrightarrow> x < 32 \<Longrightarrow> word_of_int x OR 192 = byte (192 + x)"
  "0 \<le> x \<Longrightarrow> x < 16 \<Longrightarrow> word_of_int x OR 224 = byte (224 + x)"
  "0 \<le> x \<Longrightarrow> x < 8 \<Longrightarrow> word_of_int x OR 240 = byte (240 + x)"
proof -
  have h: "push_bit 6 2 = (128 :: uint8)" "push_bit 5 6 = (192 :: uint8)"
    "push_bit 4 14 = (224 :: uint8)" "push_bit 3 30 = (240 :: uint8)"
    by simp_all
  have byte_add: "word_of_int x + word_of_int c = byte (c + x)" for c
    by (simp add: byte_def add.commute)
  note or = word_or_high [of x 6 2, unfolded h] word_or_high [of x 5 6, unfolded h]
    word_or_high [of x 4 14, unfolded h] word_or_high [of x 3 30, unfolded h]
  show "0 \<le> x \<Longrightarrow> x < 64 \<Longrightarrow> word_of_int x OR 128 = byte (128 + x)"
    using or(1) byte_add [of 128] by simp
  show "0 \<le> x \<Longrightarrow> x < 32 \<Longrightarrow> word_of_int x OR 192 = byte (192 + x)"
    using or(2) byte_add [of 192] by simp
  show "0 \<le> x \<Longrightarrow> x < 16 \<Longrightarrow> word_of_int x OR 224 = byte (224 + x)"
    using or(3) byte_add [of 224] by simp
  show "0 \<le> x \<Longrightarrow> x < 8 \<Longrightarrow> word_of_int x OR 240 = byte (240 + x)"
    using or(4) byte_add [of 240] by simp
qed

lemma wc_fields [simp]:
  fixes wc :: int
  shows "wc AND 63 = wc mod 64" "wc AND 255 = wc mod 256" "drop_bit 6 wc = wc div 64"
proof -
  show "wc AND 63 = wc mod 64"
    using take_bit_eq_mask [of 6 wc] by (simp add: mask_eq_exp_minus_1 take_bit_eq_mod)
  show "wc AND 255 = wc mod 256"
    using take_bit_eq_mask [of 8 wc] by (simp add: mask_eq_exp_minus_1 take_bit_eq_mod)
  show "drop_bit 6 wc = wc div 64"
    by (simp add: drop_bit_eq_div)
qed

lemma wcrtomb_shape:
  assumes "utf8_scalar wc" and "us_want us = 0"
  shows "mk_utf8_wcrtomb wc us = Inr
    (if wc < 0x80 then [byte wc]
     else if wc < 0x800 then [byte (192 + wc div 64), byte (128 + wc mod 64)]
     else if wc < 0x10000
     then [byte (224 + wc div 64 div 64), byte (128 + wc div 64 mod 64), byte (128 + wc mod 64)]
     else [byte (240 + wc div 64 div 64 div 64), byte (128 + wc div 64 div 64 mod 64),
           byte (128 + wc div 64 mod 64), byte (128 + wc mod 64)])"
proof -
  have range: "0 \<le> wc" "wc \<le> 0x10ffff" "\<not> (wc < 0 \<or> (wc > 0xd7ff \<and> wc < 0xe000) \<or> wc > 0x10ffff)"
    using assms(1) by (auto simp: utf8_scalar_def)
  define q1 q2 q3 where "q1 = wc div 64" and "q2 = q1 div 64" and "q3 = q2 div 64"
  have q: "0 \<le> q1" "0 \<le> q2" "0 \<le> q3"
    using range by (simp_all add: pos_imp_zdiv_nonneg_iff q1_def q2_def q3_def)
  have lt: "wc < 0x800 \<Longrightarrow> q1 < 32" "wc < 0x10000 \<Longrightarrow> q2 < 16" "q3 < 8"
    using range unfolding q1_def q2_def q3_def by (simp_all add: int_div_less)
  have r: "byte (128 + w mod 64) = word_of_int (w mod 64) OR 128" for w
    using or_lead(1) [of "w mod 64"] by simp
  have tails: "mb_tail (Suc 0) wc [] = (q1, [byte (128 + wc mod 64)])"
    "mb_tail (Suc (Suc 0)) wc [] = (q2, [byte (128 + q1 mod 64), byte (128 + wc mod 64)])"
    "mb_tail (Suc (Suc (Suc 0))) wc [] =
      (q3, [byte (128 + q2 mod 64), byte (128 + q1 mod 64), byte (128 + wc mod 64)])"
    unfolding r q1_def q2_def q3_def by (simp_all only: mb_tail.simps wc_fields)
  have lead: "q1 < 32 \<Longrightarrow> word_of_int (q1 mod 256) OR 192 = byte (192 + q1)"
    "q2 < 16 \<Longrightarrow> word_of_int (q2 mod 256) OR 224 = byte (224 + q2)"
    "q3 < 8 \<Longrightarrow> word_of_int (q3 mod 256) OR 240 = byte (240 + q3)"
    using q or_lead(2) [of q1] or_lead(3) [of q2] or_lead(4) [of q3] by simp_all
  note q_fold = q1_def [symmetric] q2_def [symmetric] q3_def [symmetric]
  consider "wc < 0x80" | "0x80 \<le> wc" "wc < 0x800" | "0x800 \<le> wc" "wc < 0x10000" | "0x10000 \<le> wc"
    by linarith
  then show ?thesis
  proof cases
    case 1
    then show ?thesis
      unfolding q_fold using range assms(2) by (simp add: mk_utf8_wcrtomb_def byte_def)
  next
    case 2
    then show ?thesis
      unfolding q_fold using range assms(2) lead(1) [OF lt(1)] by (simp add: mk_utf8_wcrtomb_def tails del: mb_tail.simps)
  next
    case 3
    then show ?thesis
      unfolding q_fold using range assms(2) lead(2) [OF lt(2)]
      by (simp add: mk_utf8_wcrtomb_def numeral_2_eq_2 tails del: mb_tail.simps)
  next
    case 4
    then show ?thesis
      unfolding q_fold using range assms(2) lead(3) [OF lt(3)]
      by (simp add: mk_utf8_wcrtomb_def numeral_3_eq_3 tails del: mb_tail.simps)
  qed
qed

section \<open>Sequences of characters\<close>

definition utf8_enc :: "int \<Rightarrow> bytes" where
  "utf8_enc wc = (case mk_utf8_wcrtomb wc utf8_init of Inr bs \<Rightarrow> bs | Inl _ \<Rightarrow> [])"

lemma want_init [simp]: "us_want utf8_init = 0"
  by (simp add: utf8_init_def)

lemma utf8_enc_shape:
  assumes "utf8_scalar wc"
  shows "utf8_enc wc =
    (if wc < 0x80 then [byte wc]
     else if wc < 0x800 then [byte (192 + wc div 64), byte (128 + wc mod 64)]
     else if wc < 0x10000
     then [byte (224 + wc div 64 div 64), byte (128 + wc div 64 mod 64), byte (128 + wc mod 64)]
     else [byte (240 + wc div 64 div 64 div 64), byte (128 + wc div 64 div 64 mod 64),
           byte (128 + wc div 64 mod 64), byte (128 + wc mod 64)])"
  unfolding utf8_enc_def wcrtomb_shape [OF assms want_init] by simp

lemma is_cont_uint: "is_cont b \<longleftrightarrow> uint b div 64 = 2"
  by (simp add: is_cont_def unat_div_iff)

lemma is_cont_byte: "is_cont (byte (128 + w mod 64))"
  by (simp add: is_cont_uint)

lemma cont_step_byte: "cont_step (w div 64) (byte (128 + w mod 64)) = w"
proof -
  have "(128 + w mod 64) mod 64 = w mod 64"
    using mod_mult_self2 [of "w mod 64" 64 2] by (simp add: add.commute)
  moreover have "0 \<le> 128 + w mod 64" "128 + w mod 64 < 256"
    using pos_mod_bound [of 64 w] by simp_all
  ultimately show ?thesis
    unfolding cont_step_def by (simp only: uint_byte) simp
qed

lemma cont_byte:
  assumes "is_cont b"
  shows "byte (128 + cont_step w b mod 64) = b" and "cont_step w b div 64 = w"
proof -
  have "uint b = uint b div 64 * 64 + uint b mod 64"
    by simp
  then have "128 + uint b mod 64 = uint b"
    using assms unfolding is_cont_uint by simp
  moreover have "cont_step w b mod 64 = uint b mod 64"
    by (simp add: cont_step_def)
  ultimately show "byte (128 + cont_step w b mod 64) = b"
    by simp
  show "cont_step w b div 64 = w"
    by (simp add: cont_step_def)
qed

lemma lead_byte:
  assumes "uint b div k = p" and "0 < k"
  shows "p * k + uint b mod k = uint b"
  using assms div_mult_mod_eq [of "uint b" k] by simp

lemma lead_intervals:
  fixes x :: int
  shows "x div 32 = 6 \<longleftrightarrow> 192 \<le> x \<and> x < 224"
    and "x div 16 = 14 \<longleftrightarrow> 224 \<le> x \<and> x < 240"
    and "x div 8 = 30 \<longleftrightarrow> 240 \<le> x \<and> x < 248"
  by presburger+

lemma lead_conv:
  fixes c :: uint8
  shows "unat c = 0 \<longleftrightarrow> uint c = 0" "unat c < 128 \<longleftrightarrow> uint c < 128"
    "unat c div 32 = 6 \<longleftrightarrow> uint c div 32 = 6" "unat c div 16 = 14 \<longleftrightarrow> uint c div 16 = 14"
    "unat c div 8 = 30 \<longleftrightarrow> uint c div 8 = 30"
proof -
  show "unat c = 0 \<longleftrightarrow> uint c = 0"
    unfolding uint_nat by (simp only: of_nat_eq_0_iff)
  show "unat c < 128 \<longleftrightarrow> uint c < 128"
    using unat_lt_iff [of c 128] unfolding of_nat_numeral .
  show "unat c div 32 = 6 \<longleftrightarrow> uint c div 32 = 6" "unat c div 16 = 14 \<longleftrightarrow> uint c div 16 = 14"
    "unat c div 8 = 30 \<longleftrightarrow> uint c div 8 = 30"
    using unat_div_iff [of c 32 6] unat_div_iff [of c 16 14] unat_div_iff [of c 8 30]
    unfolding of_nat_numeral .
qed

lemma utf8_ok_lead:
  "utf8_ok (c # s) \<longleftrightarrow>
    (0 < uint c \<and> uint c < 128 \<and> utf8_ok s) \<or>
    (uint c div 32 = 6 \<and> utf8_parse_loop \<lparr>us_ch = uint c mod 32, us_want = 1, us_lbound = 0x80\<rparr>
      MbIncomplete s = Some (new NoError)) \<or>
    (uint c div 16 = 14 \<and> utf8_parse_loop \<lparr>us_ch = uint c mod 16, us_want = 2, us_lbound = 0x800\<rparr>
      MbIncomplete s = Some (new NoError)) \<or>
    (uint c div 8 = 30 \<and> utf8_parse_loop \<lparr>us_ch = uint c mod 8, us_want = 3, us_lbound = 0x10000\<rparr>
      MbIncomplete s = Some (new NoError))"
proof -
  have iv: "uint c div 32 = 6 \<longleftrightarrow> 192 \<le> uint c \<and> uint c < 224"
    "uint c div 16 = 14 \<longleftrightarrow> 224 \<le> uint c \<and> uint c < 240"
    "uint c div 8 = 30 \<longleftrightarrow> 240 \<le> uint c \<and> uint c < 248"
    by (rule lead_intervals)+
  have sel: "a \<noteq> n \<Longrightarrow> d \<noteq> n \<Longrightarrow> 0 \<le> v \<Longrightarrow>
    (if v = 0 then a else if v < 128 then x else if 192 \<le> v \<and> v < 224 then p
     else if 224 \<le> v \<and> v < 240 then q else if 240 \<le> v \<and> v < 248 then r else d) = n \<longleftrightarrow>
    (0 < v \<and> v < 128 \<and> x = n) \<or> ((192 \<le> v \<and> v < 224) \<and> p = n) \<or>
    ((224 \<le> v \<and> v < 240) \<and> q = n) \<or> ((240 \<le> v \<and> v < 248) \<and> r = n)"
    for v :: int and a d x p q r n :: "error option"
    by auto
  show ?thesis
    unfolding utf8_ok_def parse_lead [OF want_init] lead_conv iv by (rule sel) simp_all
qed

lemma lead_arith:
  fixes x :: int
  shows "0 \<le> x \<Longrightarrow> x < 32 \<Longrightarrow> (192 + x) div 32 = 6 \<and> (192 + x) mod 32 = x"
    and "0 \<le> x \<Longrightarrow> x < 16 \<Longrightarrow> (224 + x) div 16 = 14 \<and> (224 + x) mod 16 = x"
    and "0 \<le> x \<Longrightarrow> x < 8 \<Longrightarrow> (240 + x) div 8 = 30 \<and> (240 + x) mod 8 = x"
  by (simp_all add: lead_intervals flip: minus_div_mult_eq_mod)

lemma parse_contsI:
  assumes "0 < us_want us" "us_want us \<le> 4" "0 < us_lbound us" "length cs = nat (us_want us)"
    "list_all is_cont cs" "us_lbound us \<le> foldl cont_step (us_ch us) cs"
    "utf8_scalar (foldl cont_step (us_ch us) cs)" "utf8_ok rest"
  shows "utf8_parse_loop us MbIncomplete (cs @ rest) = Some (new NoError)"
  unfolding parse_conts [OF assms(1-3)] using assms(4-) by blast

lemma utf8_ok_enc:
  assumes "utf8_scalar wc" and "wc \<noteq> 0" and "utf8_ok rest"
  shows "utf8_ok (utf8_enc wc @ rest)"
proof -
  have range: "0 < wc" "wc \<le> 0x10ffff"
    using assms(1,2) by (auto simp: utf8_scalar_def)
  note step = cont_step_byte is_cont_byte
  consider "wc < 0x80" | "0x80 \<le> wc" "wc < 0x800" | "0x800 \<le> wc" "wc < 0x10000" | "0x10000 \<le> wc"
    by linarith
  then show ?thesis
  proof cases
    case 1
    then show ?thesis
      using range assms by (simp add: utf8_enc_shape utf8_ok_lead)
  next
    case 2
    let ?b = "byte (192 + wc div 64)" and ?cs = "[byte (128 + wc mod 64)]"
    have lt: "0 \<le> wc div 64" "wc div 64 < 32"
      using 2 by simp_all
    then have u: "uint ?b = 192 + wc div 64"
      by simp
    have "utf8_parse_loop \<lparr>us_ch = wc div 64, us_want = 1, us_lbound = 0x80\<rparr>
        MbIncomplete (?cs @ rest) = Some (new NoError)"
      by (rule parse_contsI) (simp_all add: step assms 2)
    then have "utf8_ok (?b # ?cs @ rest)"
      unfolding utf8_ok_lead u using lead_arith(1) [OF lt] by simp
    then show ?thesis
      using 2 assms(1) by (simp add: utf8_enc_shape)
  next
    case 3
    let ?b = "byte (224 + wc div 64 div 64)"
      and ?cs = "[byte (128 + wc div 64 mod 64), byte (128 + wc mod 64)]"
    have lt: "0 \<le> wc div 64 div 64" "wc div 64 div 64 < 16"
      using 3 by (simp_all add: pos_imp_zdiv_nonneg_iff int_div_less)
    then have u: "uint ?b = 224 + wc div 64 div 64"
      by (subst uint_byte) simp_all
    have "utf8_parse_loop \<lparr>us_ch = wc div 64 div 64, us_want = 2, us_lbound = 0x800\<rparr>
        MbIncomplete (?cs @ rest) = Some (new NoError)"
      by (rule parse_contsI) (simp_all only: step assms 3 foldl.simps list.pred_inject
          utf8_state.simps, simp_all)
    then have "utf8_ok (?b # ?cs @ rest)"
      unfolding utf8_ok_lead u using lead_arith(2) [OF lt] by simp
    then show ?thesis
      using 3 assms(1) by (simp only: utf8_enc_shape) simp
  next
    case 4
    define q1 q2 q3 where "q1 = wc div 64" and "q2 = q1 div 64" and "q3 = q2 div 64"
    let ?b = "byte (240 + q3)"
      and ?cs = "[byte (128 + q2 mod 64), byte (128 + q1 mod 64), byte (128 + wc mod 64)]"
    have lt: "0 \<le> q3" "q3 < 8"
      using 4 range by (simp_all add: pos_imp_zdiv_nonneg_iff int_div_less q1_def q2_def q3_def)
    then have u: "uint ?b = 240 + q3"
      by (subst uint_byte) simp_all
    have fold: "foldl cont_step q3 ?cs = wc"
      unfolding q1_def q2_def q3_def by (simp only: foldl.simps step)
    have "utf8_parse_loop \<lparr>us_ch = q3, us_want = 3, us_lbound = 0x10000\<rparr>
        MbIncomplete (?cs @ rest) = Some (new NoError)"
      by (rule parse_contsI) (simp_all only: utf8_state.simps fold assms 4, simp_all add: step)
    then have "utf8_ok (?b # ?cs @ rest)"
      unfolding utf8_ok_lead u using lead_arith(3) [OF lt] by simp
    moreover have "utf8_enc wc = ?b # ?cs"
      using 4 unfolding utf8_enc_shape [OF assms(1)] q1_def [symmetric] q2_def [symmetric]
        q3_def [symmetric] by simp
    ultimately show ?thesis
      by simp
  qed
qed

lemma utf8_ok_Cons:
  assumes "utf8_ok (c # s)"
  shows "\<exists>wc rest. utf8_scalar wc \<and> wc \<noteq> 0 \<and> c # s = utf8_enc wc @ rest \<and> utf8_ok rest"
proof -
  have conts: "utf8_parse_loop \<lparr>us_ch = x, us_want = k, us_lbound = l\<rparr> MbIncomplete s =
      Some (new NoError) \<Longrightarrow> 0 < k \<Longrightarrow> k \<le> 4 \<Longrightarrow> 0 < l \<Longrightarrow>
    (\<exists>cs rest. s = cs @ rest \<and> length cs = nat k \<and> list_all is_cont cs
      \<and> l \<le> foldl cont_step x cs \<and> utf8_scalar (foldl cont_step x cs) \<and> utf8_ok rest)" for x k l
    using parse_conts [of "\<lparr>us_ch = x, us_want = k, us_lbound = l\<rparr>" s] by simp
  consider (ascii) "0 < uint c" "uint c < 128" "utf8_ok s"
    | (two) "uint c div 32 = 6" "utf8_parse_loop \<lparr>us_ch = uint c mod 32, us_want = 1,
        us_lbound = 0x80\<rparr> MbIncomplete s = Some (new NoError)"
    | (three) "uint c div 16 = 14" "utf8_parse_loop \<lparr>us_ch = uint c mod 16, us_want = 2,
        us_lbound = 0x800\<rparr> MbIncomplete s = Some (new NoError)"
    | (four) "uint c div 8 = 30" "utf8_parse_loop \<lparr>us_ch = uint c mod 8, us_want = 3,
        us_lbound = 0x10000\<rparr> MbIncomplete s = Some (new NoError)"
    using assms unfolding utf8_ok_lead by blast
  then show ?thesis
  proof cases
    case ascii
    then have "utf8_scalar (uint c)" "uint c \<noteq> 0" "c # s = utf8_enc (uint c) @ s"
      by (simp_all add: utf8_scalar_def utf8_enc_shape)
    then show ?thesis
      using ascii by blast
  next
    case two
    define x where "x = uint c mod 32"
    obtain cs rest where s: "s = cs @ rest" "length cs = 1" "list_all is_cont cs"
      "0x80 \<le> foldl cont_step x cs" "utf8_scalar (foldl cont_step x cs)" "utf8_ok rest"
      using conts [OF two(2)] by (auto simp: x_def)
    then obtain b where cs: "cs = [b]"
      by (auto simp: length_Suc_conv)
    define w where "w = cont_step x b"
    have b: "byte (128 + w mod 64) = b" "w div 64 = x"
      using s(3) cont_byte [of b x] by (simp_all add: w_def cs)
    have "x < 32" "0 \<le> x"
      by (simp_all add: x_def)
    then have "w < 0x800"
      using pos_mod_bound [of 64 "uint b"] by (simp add: w_def cont_step_def)
    moreover have "192 + x = uint c"
      using lead_byte [OF two(1)] by (simp add: x_def)
    ultimately have "utf8_enc w = [c, b]"
      using s(4,5) by (simp add: utf8_enc_shape b cs flip: w_def)
    then show ?thesis
      using s cs by (intro exI [of _ w] exI [of _ rest]) (auto simp: w_def)
  next
    case three
    define x where "x = uint c mod 16"
    obtain cs rest where s: "s = cs @ rest" "length cs = 2" "list_all is_cont cs"
      "0x800 \<le> foldl cont_step x cs" "utf8_scalar (foldl cont_step x cs)" "utf8_ok rest"
      using conts [OF three(2)] by (auto simp: x_def)
    then obtain b1 b2 where cs: "cs = [b1, b2]"
      by (auto simp: length_Suc_conv numeral_2_eq_2)
    define w1 w where "w1 = cont_step x b1" and "w = cont_step w1 b2"
    have b: "byte (128 + w mod 64) = b2" "w div 64 = w1" "byte (128 + w1 mod 64) = b1" "w1 div 64 = x"
      using s(3) cont_byte [of b1 x] cont_byte [of b2 w1] by (simp_all add: w_def w1_def cs)
    have "x < 16" "0 \<le> x"
      by (simp_all add: x_def)
    then have "w < 0x10000"
      using pos_mod_bound [of 64 "uint b1"] pos_mod_bound [of 64 "uint b2"]
      by (simp add: w_def w1_def cont_step_def)
    moreover have "224 + x = uint c"
      using lead_byte [OF three(1)] by (simp add: x_def)
    ultimately have "utf8_enc w = [c, b1, b2]"
      using s(4,5) by (simp add: utf8_enc_shape b cs flip: w_def w1_def)
    then show ?thesis
      using s cs by (intro exI [of _ w] exI [of _ rest]) (auto simp: w_def w1_def)
  next
    case four
    define x where "x = uint c mod 8"
    obtain cs rest where s: "s = cs @ rest" "length cs = 3" "list_all is_cont cs"
      "0x10000 \<le> foldl cont_step x cs" "utf8_scalar (foldl cont_step x cs)" "utf8_ok rest"
      using conts [OF four(2)] by (auto simp: x_def)
    then obtain b1 b2 b3 where cs: "cs = [b1, b2, b3]"
      by (auto simp: length_Suc_conv numeral_3_eq_3)
    define w1 w2 w where "w1 = cont_step x b1" and "w2 = cont_step w1 b2" and "w = cont_step w2 b3"
    have b: "byte (128 + w mod 64) = b3" "w div 64 = w2" "byte (128 + w2 mod 64) = b2"
      "w2 div 64 = w1" "byte (128 + w1 mod 64) = b1" "w1 div 64 = x"
      using s(3) cont_byte [of b1 x] cont_byte [of b2 w1] cont_byte [of b3 w2]
      by (simp_all add: w_def w2_def w1_def cs)
    have "240 + x = uint c"
      using lead_byte [OF four(1)] by (simp add: x_def)
    then have "utf8_enc w = [c, b1, b2, b3]"
      using s(4,5) by (simp add: utf8_enc_shape b cs flip: w_def w2_def w1_def)
    then show ?thesis
      using s cs by (intro exI [of _ w] exI [of _ rest]) (auto simp: w_def w2_def w1_def)
  qed
qed

lemma utf8_ok_iff:
  "utf8_ok bs \<longleftrightarrow> (\<exists>cps. list_all (\<lambda>wc. utf8_scalar wc \<and> wc \<noteq> 0) cps \<and> bs = concat (map utf8_enc cps))"
proof
  show "utf8_ok bs \<Longrightarrow> \<exists>cps. list_all (\<lambda>wc. utf8_scalar wc \<and> wc \<noteq> 0) cps \<and> bs = concat (map utf8_enc cps)"
  proof (induction "length bs" arbitrary: bs rule: less_induct)
    case less
    show ?case
    proof (cases bs)
      case Nil
      then show ?thesis
        by (intro exI [of _ "[]"]) simp
    next
      case (Cons c s)
      then obtain wc rest where w: "utf8_scalar wc" "wc \<noteq> 0" "bs = utf8_enc wc @ rest" "utf8_ok rest"
        using utf8_ok_Cons less.prems by blast
      then have "length rest < length bs"
        by (simp add: utf8_enc_shape)
      then obtain cps where "list_all (\<lambda>wc. utf8_scalar wc \<and> wc \<noteq> 0) cps"
        "rest = concat (map utf8_enc cps)"
        using less.hyps w(4) by blast
      then show ?thesis
        using w by (intro exI [of _ "wc # cps"]) simp
    qed
  qed
next
  assume "\<exists>cps. list_all (\<lambda>wc. utf8_scalar wc \<and> wc \<noteq> 0) cps \<and> bs = concat (map utf8_enc cps)"
  then obtain cps where cps: "list_all (\<lambda>wc. utf8_scalar wc \<and> wc \<noteq> 0) cps"
    and bs: "bs = concat (map utf8_enc cps)"
    by blast
  show "utf8_ok bs"
    using cps unfolding bs
    by (induction cps) (auto simp: utf8_ok_enc, simp add: utf8_ok_def)
qed

lemma wcrtomb_enc: "utf8_scalar wc \<Longrightarrow> mk_utf8_wcrtomb wc utf8_init = Inr (utf8_enc wc)"
  unfolding utf8_enc_def by (subst (1 2) wcrtomb_shape) simp_all

lemma map_wcrtomb:
  assumes "\<forall>wc \<in> set cps. utf8_scalar wc \<and> wc \<noteq> 0"
  shows "map (\<lambda>wc. mk_utf8_wcrtomb wc utf8_init) cps = map Inr (map utf8_enc cps)"
  using assms by (induction cps) (simp_all add: wcrtomb_enc)

lemma map_Inr_eq: "map Inr xs = map Inr ys \<longleftrightarrow> xs = ys"
  by (simp add: inj_map_eq_map)

lemma utf8_parse_loop_total:
  assumes "0 \<le> us_want us" "us_want us \<le> 3" "r = MbIncomplete \<or> r = MbDone 1"
  shows "utf8_parse_loop us r bs \<in> Some ` {new NoError, new IllegalSequenceError,
    new UnexpectedNullByteError, new IncompleteUtf8SequenceError}" (is "_ \<in> ?R")
  using assms
proof (induction bs arbitrary: us r)
  case (Cons c s)
  define P where "P x \<longleftrightarrow> x \<in> ?R" for x
  have base: "P (Some (new IllegalSequenceError))" "P (Some (new UnexpectedNullByteError))"
    by (simp_all add: P_def)
  have ih: "P (utf8_parse_loop us r s)"
    if "0 \<le> us_want us" "us_want us \<le> 3" "r = MbIncomplete \<or> r = MbDone 1" for us r
    using Cons.IH [OF that] by (simp only: P_def)
  have "P (utf8_parse_loop us r (c # s))"
  proof (cases "us_want us = 0")
    case True
    show ?thesis
      unfolding parse_lead [OF True] by (simp add: True base ih)
  next
    case False
    then have w: "0 < us_want us" "us_want us \<le> 4" "us_want us \<le> 3"
      using Cons.prems by simp_all
    show ?thesis
      unfolding parse_cont [OF w(1,2)] using w by (simp add: Let_def base ih)
  qed
  then show ?case
    by (simp only: P_def)
qed auto

section \<open>Properties\<close>

text \<open>C28: \<open>utf8_parse\<close> accepts exactly the strings that are a concatenation of the
  shortest encodings of non-zero Unicode scalar values, as \<open>mk_utf8_wcrtomb\<close> writes them.\<close>

theorem utf8_parse_accepts:
  "utf8_parse s = Some (new NoError) \<longleftrightarrow>
    (\<exists>cps. (\<forall>wc \<in> set cps. utf8_scalar wc \<and> wc \<noteq> 0)
      \<and> (\<exists>encs. map (\<lambda>wc. mk_utf8_wcrtomb wc utf8_init) cps = map Inr encs
            \<and> bytes_of s = concat encs))"
proof -
  have key: "bs = concat (map utf8_enc cps) \<longleftrightarrow>
      (\<exists>encs. map (\<lambda>wc. mk_utf8_wcrtomb wc utf8_init) cps = map Inr encs \<and> bs = concat encs)"
    if "\<forall>wc \<in> set cps. utf8_scalar wc \<and> wc \<noteq> 0" for cps bs
    unfolding map_wcrtomb [OF that] map_Inr_eq by blast
  show ?thesis
    unfolding utf8_parse_def utf8_ok_def [symmetric] utf8_ok_iff list_all_iff
    by (intro ex_cong1 conj_cong refl key)
qed

theorem utf8_parse_accepts_witness:
  "utf8_parse (string_of [226, 130, 172]) = Some (new NoError)
    \<and> mk_utf8_wcrtomb 8364 utf8_init = Inr [226, 130, 172]"
proof -
  have enc: "mk_utf8_wcrtomb 8364 utf8_init = Inr [226, 130, 172]"
    by (subst wcrtomb_shape) (simp_all add: utf8_scalar_def byte_def)
  moreover note enc
  moreover have "\<forall>wc \<in> set [8364]. utf8_scalar wc \<and> wc \<noteq> 0"
    by (simp add: utf8_scalar_def)
  moreover have "bytes_of (string_of [226, 130, 172]) = concat [[226, 130, 172]]"
    by (simp only: bytes_of_string_of concat.simps append_Nil2)
  ultimately have "\<exists>cps. (\<forall>wc \<in> set cps. utf8_scalar wc \<and> wc \<noteq> 0)
      \<and> (\<exists>encs. map (\<lambda>wc. mk_utf8_wcrtomb wc utf8_init) cps = map Inr encs
            \<and> bytes_of (string_of [226, 130, 172]) = concat encs)"
    by (intro exI [of _ "[8364]"] conjI exI [of _ "[[226, 130, 172]]"]) (simp_all only: list.map)
  from iffD2 [OF utf8_parse_accepts this] enc show ?thesis
    by (rule conjI)
qed

end
