(* ===== verification/Settings.thy ===== *)
theory Settings
  imports Errors
begin

text \<open>
  \<open>common/scalar.hpp\<close>, \<open>common/settings.hpp\<close> and \<open>common/lexical_cast.hpp\<close>: the options of
  every operation are a map from strings to scalars, a scalar being the text of a value.
  Reading a scalar as an integer goes through a \<open>std::stringstream\<close>; \<open>stream_int\<close> is that
  extraction for a 32-bit \<open>int\<close>: the value unless the stream failed, and whether it stopped
  at the end of the input.
\<close>

section \<open>Extraction of an int from a stream\<close>

definition is_space :: "char \<Rightarrow> bool" where
  "is_space c \<longleftrightarrow> (of_char c :: nat) \<in> {9..13} \<union> {32}"

definition INT_MIN :: int where
  "INT_MIN = - 2147483648"

definition INT_MAX :: int where
  "INT_MAX = 2147483647"

definition int_range :: "int \<Rightarrow> bool" where
  "int_range i \<longleftrightarrow> INT_MIN \<le> i \<and> i \<le> INT_MAX"

definition stream_int :: "string \<Rightarrow> int option \<times> bool" where
  "stream_int s =
    (let s = dropWhile is_space s;
         (neg, s) = (case s of [] \<Rightarrow> (False, [])
                     | c # cs \<Rightarrow> if c = CHR ''-'' then (True, cs)
                                 else if c = CHR ''+'' then (False, cs) else (False, c # cs));
         ds = takeWhile is_digit s;
         v = (if neg then - int (dec_value ds) else int (dec_value ds))
     in (if ds \<noteq> [] \<and> int_range v then Some v else None, dropWhile is_digit s = []))"

section \<open>Scalar\<close>

type_synonym scalar = string

definition c_str :: "string \<Rightarrow> string" where
  "c_str s = takeWhile (\<lambda>c. (of_char c :: nat) \<noteq> 0) s"

definition scalar_of_int :: "int \<Rightarrow> scalar" where
  "scalar_of_int v = int_dec v"

definition as_int :: "scalar \<Rightarrow> int res" where
  "as_int sc =
    (let (v, eof) = stream_int (c_str sc) in
     if \<not> eof then Inl (RuntimeError ''not_all_input_was_converted'')
     else case v of None \<Rightarrow> Inl (RuntimeError ''wrong_input_format'') | Some i \<Rightarrow> Inr i)"

definition as_string :: "scalar \<Rightarrow> string" where
  "as_string sc = c_str sc"

definition as_int_noexcept :: "scalar \<Rightarrow> int error_or" where
  "as_int_noexcept sc =
    (case as_int sc of Inr i \<Rightarrow> no_err i
     | Inl (RuntimeError w) \<Rightarrow> (new_s ValueError w, 0)
     | Inl _ \<Rightarrow> error_or_default 0)"

definition lexical_cast_int :: "string \<Rightarrow> int res" where
  "lexical_cast_int f = as_int f"

definition lexical_cast_int_noexcept :: "string \<Rightarrow> int error_or" where
  "lexical_cast_int_noexcept f = as_int_noexcept f"

section \<open>Settings\<close>

type_synonym settings = "string \<rightharpoonup> scalar"

text \<open>\<open>operator[]\<close> reads an absent key as the empty scalar (and inserts it).\<close>

definition settings_at :: "settings \<Rightarrow> string \<Rightarrow> scalar" where
  "settings_at st key = (case st key of None \<Rightarrow> [] | Some v \<Rightarrow> v)"

definition settings_get_int :: "settings \<Rightarrow> string \<Rightarrow> int \<Rightarrow> int res" where
  "settings_get_int st key def_value =
    (case st key of None \<Rightarrow> Inr def_value | Some sc \<Rightarrow> as_int sc)"

definition settings_get_str :: "settings \<Rightarrow> string \<Rightarrow> string \<Rightarrow> string" where
  "settings_get_str st key def_value =
    (case st key of None \<Rightarrow> def_value | Some sc \<Rightarrow> as_string sc)"

definition settings_get_int_noexcept :: "settings \<Rightarrow> string \<Rightarrow> int \<Rightarrow> int error_or" where
  "settings_get_int_noexcept st key def_value =
    (case st key of None \<Rightarrow> no_err def_value | Some sc \<Rightarrow> as_int_noexcept sc)"

definition settings_get_bool :: "settings \<Rightarrow> string \<Rightarrow> bool \<Rightarrow> bool res" where
  "settings_get_bool st key def_value =
    (case st key of None \<Rightarrow> Inr def_value
     | Some sc \<Rightarrow> (let (v, eof) = stream_int (c_str sc) in
         if \<not> eof then Inl (RuntimeError ''not_all_input_was_converted'')
         else if v = Some 0 then Inr False else if v = Some 1 then Inr True
         else Inl (RuntimeError ''wrong_input_format'')))"

definition settings_get_bool_noexcept :: "settings \<Rightarrow> string \<Rightarrow> bool \<Rightarrow> bool error_or" where
  "settings_get_bool_noexcept st key def_value =
    (case settings_get_bool st key def_value of
       Inr b \<Rightarrow> no_err b
     | Inl (RuntimeError w) \<Rightarrow> (new_s ValueError w, False)
     | Inl _ \<Rightarrow> error_or_default False)"

section \<open>Lemmas\<close>

lemma is_digit_props [simp]:
  assumes "is_digit c"
  shows "\<not> is_space c" "c \<noteq> CHR ''-''" "c \<noteq> CHR ''+''" "(of_char c :: nat) \<noteq> 0"
  using assms by (auto simp: is_digit_def is_space_def)

lemma takeWhile_digits: "takeWhile is_digit (nat_dec n) = nat_dec n" "dropWhile is_digit (nat_dec n) = []"
  by (simp_all add: takeWhile_eq_all_conv nat_dec_digits)

lemma nat_dec_all [simp]: "Ball (set (nat_dec n)) is_digit"
  using nat_dec_digits by blast

lemma c_str_int_dec: "c_str (int_dec i) = int_dec i"
proof -
  have "\<forall>c \<in> set (nat_dec n). (of_char c :: nat) \<noteq> 0" for n
    using nat_dec_digits is_digit_props(4) by blast
  then have "\<forall>c \<in> set (int_dec i). (of_char c :: nat) \<noteq> 0"
    unfolding int_dec_def by (simp del: neq0_conv)
  then show ?thesis
    unfolding c_str_def by (simp only: takeWhile_eq_all_conv)
qed

lemma nat_dec_Cons: "\<exists>c cs. nat_dec n = c # cs \<and> is_digit c"
  using nat_dec_digits [of _ n] by (cases "nat_dec n") (use nat_dec_not_Nil in auto)

lemma stream_int_dec:
  assumes "int_range i"
  shows "stream_int (int_dec i) = (Some i, True)"
proof (cases "i < 0")
  case True
  have "\<not> is_space (CHR ''-'')"
    by (simp add: is_space_def)
  then show ?thesis
    using True assms by (simp add: stream_int_def int_dec_def takeWhile_digits)
next
  case False
  obtain c cs where c: "nat_dec (nat i) = c # cs" "is_digit c"
    using nat_dec_Cons by blast
  have all: "takeWhile is_digit (c # cs) = c # cs" "dropWhile is_digit (c # cs) = []"
    "dec_value (c # cs) = nat i"
    using takeWhile_digits [of "nat i"] dec_value_nat_dec [of "nat i"] unfolding c(1) .
  have skip: "dropWhile is_space (c # cs) = c # cs"
    using c(2) by simp
  show ?thesis
    using False assms c(2) nat_dec_all [of "nat i"] unfolding stream_int_def int_dec_def c(1)
    by (simp add: all skip Let_def del: takeWhile.simps dropWhile.simps)
qed

lemma as_int_of_int: "int_range i \<Longrightarrow> as_int (scalar_of_int i) = Inr i"
  by (simp add: as_int_def scalar_of_int_def c_str_int_dec stream_int_dec)

lemma as_int_range: "as_int sc = Inr i \<Longrightarrow> int_range i"
  by (auto simp: as_int_def stream_int_def Let_def split: if_splits option.splits prod.splits)

end
