(* ===== verification/NetErrors.thy ===== *)
theory NetErrors
  imports Errors
begin

text \<open>
  \<open>net/error.hpp\<close>, \<open>net/error.cpp\<close> and \<open>map_errno\<close> of \<open>net/utils.cpp\<close>: the error classes
  of the network layer and the table that turns a system error number into one of them.
  The values of the \<open>errno\<close> constants belong to the platform; they are the constructors of
  a datatype here, and \<open>Eother\<close> is any number the table does not list.
\<close>

section \<open>Classes\<close>

definition EofError :: error_class where
  "EofError = (MK_ERR_NET 0, ''eof_error'')"
definition ConnectFailedError :: error_class where
  "ConnectFailedError = (MK_ERR_NET 3, ''connect_error'')"
definition DnsGenericError :: error_class where
  "DnsGenericError = (MK_ERR_NET 4, ''dns_lookup_error'')"
definition BadSocksVersionError :: error_class where
  "BadSocksVersionError = (MK_ERR_NET 5, ''socks_error'')"
definition SocksAddressTooLongError :: error_class where
  "SocksAddressTooLongError = (MK_ERR_NET 6, ''socks_address_too_long'')"
definition SocksInvalidPortError :: error_class where
  "SocksInvalidPortError = (MK_ERR_NET 7, ''socks_invalid_port'')"
definition SocksGenericError :: error_class where
  "SocksGenericError = (MK_ERR_NET 8, ''socks_error'')"
definition EOLNotFoundError :: error_class where
  "EOLNotFoundError = (MK_ERR_NET 9, ''eol_not_found'')"
definition LineTooLongError :: error_class where
  "LineTooLongError = (MK_ERR_NET 10, ''line_too_long'')"
definition NetworkError :: error_class where
  "NetworkError = (MK_ERR_NET 11, ''generic_network_error'')"
definition NoAvailableSocksAuthenticationError :: error_class where
  "NoAvailableSocksAuthenticationError = (MK_ERR_NET 12, ''socks_no_available_authentication'')"
definition SocksError :: error_class where
  "SocksError = (MK_ERR_NET 13, ''socks_error'')"
definition BadSocksReservedFieldError :: error_class where
  "BadSocksReservedFieldError = (MK_ERR_NET 14, ''socks_bad_reserved_field'')"
definition BadSocksAtypeValueError :: error_class where
  "BadSocksAtypeValueError = (MK_ERR_NET 15, ''socks_bad_address_type'')"
definition EvconnlistenerNewBindError :: error_class where
  "EvconnlistenerNewBindError = (MK_ERR_NET 16, ''bind_error'')"
definition BuffereventSocketNewError :: error_class where
  "BuffereventSocketNewError = (MK_ERR_NET 17, ''bufferevent_new_error'')"
definition SslInvalidCertificateError :: error_class where
  "SslInvalidCertificateError = (MK_ERR_NET 18, ''ssl_invalid_certificate'')"
definition SslNoCertificateError :: error_class where
  "SslNoCertificateError = (MK_ERR_NET 19, ''ssl_no_certificate'')"
definition SslInvalidHostnameError :: error_class where
  "SslInvalidHostnameError = (MK_ERR_NET 20, ''ssl_invalid_hostname'')"
definition SslError :: error_class where
  "SslError = (MK_ERR_NET 21, ''ssl_error'')"
definition NotEnoughDataError :: error_class where
  "NotEnoughDataError = (MK_ERR_NET 22, ''not_enough_data'')"
definition MissingCaBundlePathError :: error_class where
  "MissingCaBundlePathError = (MK_ERR_NET 23, ''missing_ca_bundle_path'')"
definition SslNewError :: error_class where
  "SslNewError = (MK_ERR_NET 25, ''ssl_new_error'')"
definition SslCtxNewError :: error_class where
  "SslCtxNewError = (MK_ERR_NET 26, ''ssl_ctx_new_error'')"
definition SslCtxLoadVerifyLocationsError :: error_class where
  "SslCtxLoadVerifyLocationsError = (MK_ERR_NET 27, ''ssl_ctx_load_verify_locations_error'')"
definition SslCtxLoadVerifyMemError :: error_class where
  "SslCtxLoadVerifyMemError = (MK_ERR_NET 28, ''ssl_ctx_load_verify_mem_error'')"
definition SslDirtyShutdownError :: error_class where
  "SslDirtyShutdownError = (MK_ERR_NET 58, ''ssl_dirty_shutdown'')"
definition SslMissingHostnameError :: error_class where
  "SslMissingHostnameError = (MK_ERR_NET 59, ''ssl_missing_hostname'')"

lemmas net_error_defs [err_simps] =
  EofError_def ConnectFailedError_def DnsGenericError_def BadSocksVersionError_def
  SocksAddressTooLongError_def SocksInvalidPortError_def SocksGenericError_def
  EOLNotFoundError_def LineTooLongError_def NetworkError_def
  NoAvailableSocksAuthenticationError_def SocksError_def BadSocksReservedFieldError_def
  BadSocksAtypeValueError_def EvconnlistenerNewBindError_def BuffereventSocketNewError_def
  SslInvalidCertificateError_def SslNoCertificateError_def SslInvalidHostnameError_def
  SslError_def NotEnoughDataError_def MissingCaBundlePathError_def SslNewError_def
  SslCtxNewError_def SslCtxLoadVerifyLocationsError_def SslCtxLoadVerifyMemError_def
  SslDirtyShutdownError_def SslMissingHostnameError_def

section \<open>System errors\<close>

datatype sys_errno =
  Ezero | EPIPE | EPROTO | EAFNOSUPPORT | EADDRINUSE | EADDRNOTAVAIL | EISCONN | EFAULT | EBADF
| ECONNABORTED | EALREADY | ECONNREFUSED | ECONNRESET | EDESTADDRREQ | EHOSTUNREACH | EINTR
| EINVAL | EMSGSIZE | ENETDOWN | ENETRESET | ENETUNREACH | ENOBUFS | ENOPROTOOPT | ENOTSOCK
| ENOTCONN | EWOULDBLOCK | EAGAIN | EACCES | EPROTONOSUPPORT | ETIMEDOUT | EPROTOTYPE
| Eother int

definition errno_table :: "(sys_errno \<times> string) list" where
  "errno_table =
    [(EAFNOSUPPORT, ''address_family_not_supported''),
     (EADDRINUSE, ''address_in_use''),
     (EADDRNOTAVAIL, ''address_not_available''),
     (EISCONN, ''already_connected''),
     (EFAULT, ''bad_address''),
     (EBADF, ''bad_file_descriptor''),
     (ECONNABORTED, ''connection_aborted''),
     (EALREADY, ''connection_already_in_progress''),
     (ECONNREFUSED, ''connection_refused''),
     (ECONNRESET, ''connection_reset''),
     (EDESTADDRREQ, ''destination_address_required''),
     (EHOSTUNREACH, ''host_unreachable''),
     (EINTR, ''interrupted''),
     (EINVAL, ''invalid_argument''),
     (EMSGSIZE, ''message_size''),
     (ENETDOWN, ''network_down''),
     (ENETRESET, ''network_reset''),
     (ENETUNREACH, ''network_unreachable''),
     (ENOBUFS, ''no_buffer_space''),
     (ENOPROTOOPT, ''no_protocol_option''),
     (ENOTSOCK, ''not_a_socket''),
     (ENOTCONN, ''not_connected''),
     (EWOULDBLOCK, ''operation_would_block''),
     (EACCES, ''permission_denied''),
     (EPROTONOSUPPORT, ''protocol_not_supported''),
     (ETIMEDOUT, ''timed_out''),
     (EPROTOTYPE, ''wrong_protocol_type'')]"

definition errno_table_unix :: "(sys_errno \<times> string) list" where
  "errno_table_unix = [(EPIPE, ''broken_pipe''), (EPROTO, ''protocol_error'')]"

definition net_error_to_ooni_error :: "sys_errno \<Rightarrow> string option" where
  "net_error_to_ooni_error errcode =
    map_of (errno_table @ errno_table_unix @ [(Ezero, [])]) errcode"

definition map_errno :: "sys_errno \<Rightarrow> error" where
  "map_errno error_code =
    (if error_code = Ezero then new NoError
     else
       let error_code = (if error_code = EAGAIN then EWOULDBLOCK else error_code) in
       case net_error_to_ooni_error error_code of
         None \<Rightarrow> new GenericError
       | Some str \<Rightarrow> mk_error (code (new NetworkError)) str)"

lemma net_error_inject:
  assumes "net_error_to_ooni_error a = Some r" and "net_error_to_ooni_error b = Some r"
  shows "a = b"
proof -
  let ?t = "errno_table @ errno_table_unix @ [(Ezero, [])]"
  have "distinct (map snd ?t)"
    by (simp add: errno_table_def errno_table_unix_def)
  moreover have "(a, r) \<in> set ?t" "(b, r) \<in> set ?t"
    using assms unfolding net_error_to_ooni_error_def by (blast dest: map_of_SomeD)+
  ultimately show ?thesis
    by (metis distinct_map inj_on_eq_iff prod.inject snd_conv)
qed

lemma map_errno_code:
  "code (map_errno e) = (if e = Ezero then 0
    else if e = EAGAIN \<or> (\<exists>r. net_error_to_ooni_error e = Some r) then 1011 else 1)"
proof -
  have "net_error_to_ooni_error EWOULDBLOCK = Some ''operation_would_block''"
    by (simp add: net_error_to_ooni_error_def errno_table_def)
  then show ?thesis
    by (auto simp: map_errno_def Let_def err_simps split: option.splits)
qed

end
