(* ===== verification/Buffer.thy ===== *)
theory Buffer
  imports NetErrors
begin

text \<open>
  \<open>net/buffer.cpp\<close> and \<open>net/buffer.hpp\<close>: the byte queue every protocol of the library
  reads from and writes to.  The C++ class wraps a libevent \<open>evbuffer\<close>, which is not part of
  the repository: its functions are the record \<open>evbuffer_api\<close>, an argument of every
  operation, and what the code relies on is the locale \<open>evbuffer\<close>.  The contract of the
  class is the locale \<open>byte_fifo\<close>; a \<open>sublocale\<close> shows that the operations meet it on top
  of any \<open>evbuffer\<close>.  The last section holds the same operations on plain byte lists, the
  abstract buffer on which the protocols are modelled, with the refinement lemmas.
\<close>

section \<open>The evbuffer functions\<close>

text \<open>\<open>None\<close> is a failure return; \<open>ev_iov\<close> lists the segments \<open>evbuffer_peek\<close> exposes and
  \<open>ev_search_eol\<close> is \<open>evbuffer_search_eol\<close> with \<open>EVBUFFER_EOL_CRLF\<close>, giving position and
  length of the first line terminator.\<close>

record 'e evbuffer_api =
  ev_empty :: 'e
  ev_add :: "'e \<Rightarrow> bytes \<Rightarrow> 'e option"
  ev_add_buffer :: "'e \<Rightarrow> 'e \<Rightarrow> ('e \<times> 'e) option"
  ev_drain :: "'e \<Rightarrow> nat \<Rightarrow> 'e option"
  ev_length :: "'e \<Rightarrow> nat"
  ev_iov :: "'e \<Rightarrow> bytes list"
  ev_search_eol :: "'e \<Rightarrow> (nat \<times> nat) option"

definition ev_content :: "'e evbuffer_api \<Rightarrow> 'e \<Rightarrow> bytes" where
  "ev_content api e = concat (ev_iov api e)"

text \<open>The first line feed, with the carriage return before it if there is one.\<close>

definition find_eol :: "bytes \<Rightarrow> (nat \<times> nat) option" where
  "find_eol bs =
    (let i = length (takeWhile (\<lambda>b. b \<noteq> 10) bs) in
     if i = length bs then None
     else if 0 < i \<and> bs ! (i - 1) = 13 then Some (i - 1, 2) else Some (i, 1))"

section \<open>The operations\<close>

definition buf_add :: "'e evbuffer_api \<Rightarrow> 'e \<Rightarrow> bytes \<Rightarrow> 'e res" where
  "buf_add api e bs =
    (case ev_add api e bs of None \<Rightarrow> Inl (RuntimeError ''evbuffer_add failed'') | Some e' \<Rightarrow> Inr e')"

text \<open>\<open>write(const void *, size_t)\<close>, the null pointer being \<open>None\<close>.\<close>

definition buf_write_ptr :: "'e evbuffer_api \<Rightarrow> 'e \<Rightarrow> bytes option \<Rightarrow> 'e res" where
  "buf_write_ptr api e buf =
    (case buf of None \<Rightarrow> Inl (RuntimeError ''buf is nullptr'') | Some bs \<Rightarrow> buf_add api e bs)"

definition buf_write :: "'e evbuffer_api \<Rightarrow> 'e \<Rightarrow> string \<Rightarrow> 'e res" where
  "buf_write api e s = buf_write_ptr api e (Some (bytes_of s))"

text \<open>\<open>write(const char *)\<close>: the bytes before the terminating null.\<close>

definition buf_write_cstr :: "'e evbuffer_api \<Rightarrow> 'e \<Rightarrow> bytes option \<Rightarrow> 'e res" where
  "buf_write_cstr api e cs =
    (case cs of None \<Rightarrow> Inl (RuntimeError ''null pointer'')
     | Some bs \<Rightarrow> buf_write_ptr api e (Some (takeWhile (\<lambda>b. b \<noteq> 0) bs)))"

definition buf_make :: "'e evbuffer_api \<Rightarrow> string \<Rightarrow> 'e res" where
  "buf_make api s = buf_write api (ev_empty api) s"

text \<open>\<open>operator<<(evbuffer *)\<close> and \<open>operator>>\<close>, which move the bytes of the source.\<close>

definition buf_append :: "'e evbuffer_api \<Rightarrow> 'e \<Rightarrow> 'e option \<Rightarrow> ('e \<times> 'e) res" where
  "buf_append api e source =
    (case source of None \<Rightarrow> Inl (RuntimeError ''source is nullptr'')
     | Some s \<Rightarrow> (case ev_add_buffer api e s of
         None \<Rightarrow> Inl (RuntimeError ''evbuffer_add_buffer failed'') | Some r \<Rightarrow> Inr r))"

definition buf_extract :: "'e evbuffer_api \<Rightarrow> 'e \<Rightarrow> 'e option \<Rightarrow> ('e \<times> 'e) res" where
  "buf_extract api e dest =
    (case dest of None \<Rightarrow> Inl (RuntimeError ''dest is nullptr'')
     | Some d \<Rightarrow> (case ev_add_buffer api d e of
         None \<Rightarrow> Inl (RuntimeError ''evbuffer_add_buffer failed'') | Some (d', e') \<Rightarrow> Inr (e', d')))"

definition buf_length :: "'e evbuffer_api \<Rightarrow> 'e \<Rightarrow> nat" where
  "buf_length api e = ev_length api e"

text \<open>\<open>for_each\<close>: the callback updates a state and says whether to go on.\<close>

fun for_segments :: "(bytes \<Rightarrow> 's \<Rightarrow> bool \<times> 's) \<Rightarrow> bytes list \<Rightarrow> 's \<Rightarrow> 's" where
  "for_segments fn [] s = s"
| "for_segments fn (seg # segs) s =
    (case fn seg s of (True, s') \<Rightarrow> for_segments fn segs s' | (False, s') \<Rightarrow> s')"

definition buf_for_each ::
  "'e evbuffer_api \<Rightarrow> 'e \<Rightarrow> (bytes \<Rightarrow> 's \<Rightarrow> bool \<times> 's) \<Rightarrow> 's \<Rightarrow> 's" where
  "buf_for_each api e fn s = for_segments fn (ev_iov api e) s"

definition buf_discard :: "'e evbuffer_api \<Rightarrow> 'e \<Rightarrow> nat \<Rightarrow> 'e res" where
  "buf_discard api e count =
    (case ev_drain api e count of None \<Rightarrow> Inl (RuntimeError ''evbuffer_drain failed'')
     | Some e' \<Rightarrow> Inr e')"

text \<open>The state of the callback of \<open>readpeek\<close>: \<open>nbytes\<close>, \<open>out\<close>, \<open>up_to\<close>.\<close>

fun readpeek_fn :: "bytes \<Rightarrow> nat \<times> bytes \<times> nat \<Rightarrow> bool \<times> (nat \<times> bytes \<times> nat)" where
  "readpeek_fn p (nbytes, out, up_to) =
    (let n = (if up_to < length p then up_to else length p);
         out = out @ take n p; up_to = up_to - n; nbytes = nbytes + n
     in (0 < up_to, (nbytes, out, up_to)))"

definition buf_readpeek :: "'e evbuffer_api \<Rightarrow> bool \<Rightarrow> 'e \<Rightarrow> nat \<Rightarrow> (bytes \<times> 'e) res" where
  "buf_readpeek api ispeek e up_to =
    (let (nbytes, out, _) = buf_for_each api e readpeek_fn (0, [], up_to)
     in if ispeek then Inr (out, e) else map_sum id (Pair out) (buf_discard api e nbytes))"

definition buf_read :: "'e evbuffer_api \<Rightarrow> 'e \<Rightarrow> nat \<Rightarrow> (bytes \<times> 'e) res" where
  "buf_read api e up_to = buf_readpeek api False e up_to"

definition buf_peek :: "'e evbuffer_api \<Rightarrow> 'e \<Rightarrow> nat \<Rightarrow> (bytes \<times> 'e) res" where
  "buf_peek api e up_to = buf_readpeek api True e up_to"

definition buf_readn :: "'e evbuffer_api \<Rightarrow> 'e \<Rightarrow> nat \<Rightarrow> (bytes \<times> 'e) res" where
  "buf_readn api e n = (if n > buf_length api e then Inr ([], e) else buf_read api e n)"

definition buf_readline :: "'e evbuffer_api \<Rightarrow> 'e \<Rightarrow> nat \<Rightarrow> (bytes error_or \<times> 'e) res" where
  "buf_readline api e maxline =
    (case ev_search_eol api e of
       None \<Rightarrow> if buf_length api e > maxline then Inr ((new EOLNotFoundError, []), e)
               else Inr ((new NoError, []), e)
     | Some (pos, eol_length) \<Rightarrow>
         if eol_length \<noteq> 1 \<and> eol_length \<noteq> 2 then Inl (RuntimeError ''unexpected error'')
         else let len = pos + eol_length in
           if len > maxline then Inr ((new LineTooLongError, []), e)
           else map_sum id (\<lambda>(s, e'). ((new NoError, s), e')) (buf_read api e len))"

section \<open>Integers in network order\<close>

text \<open>\<open>memcpy\<close> with \<open>htons\<close>, \<open>htonl\<close>, \<open>ntohs\<close> and \<open>ntohl\<close>: most significant byte first.\<close>

definition be16 :: "uint16 \<Rightarrow> bytes" where
  "be16 w = [ucast (drop_bit 8 w), ucast w]"

definition be32 :: "uint32 \<Rightarrow> bytes" where
  "be32 w = [ucast (drop_bit 24 w), ucast (drop_bit 16 w), ucast (drop_bit 8 w), ucast w]"

definition be_nat :: "bytes \<Rightarrow> nat" where
  "be_nat bs = foldl (\<lambda>v b. v * 256 + unat b) 0 bs"

definition buf_read_uint ::
  "'e evbuffer_api \<Rightarrow> nat \<Rightarrow> 'e \<Rightarrow> (('a::len word) error_or \<times> 'e) res" where
  "buf_read_uint api sz e =
    (if buf_length api e < sz then Inr ((new NotEnoughDataError, 0), e)
     else map_sum id (\<lambda>(str, e'). ((new NoError, word_of_nat (be_nat str)), e')) (buf_read api e sz))"

definition buf_read_uint8 :: "'e evbuffer_api \<Rightarrow> 'e \<Rightarrow> (uint8 error_or \<times> 'e) res" where
  "buf_read_uint8 api e = buf_read_uint api 1 e"

definition buf_read_uint16 :: "'e evbuffer_api \<Rightarrow> 'e \<Rightarrow> (uint16 error_or \<times> 'e) res" where
  "buf_read_uint16 api e = buf_read_uint api 2 e"

definition buf_read_uint32 :: "'e evbuffer_api \<Rightarrow> 'e \<Rightarrow> (uint32 error_or \<times> 'e) res" where
  "buf_read_uint32 api e = buf_read_uint api 4 e"

definition buf_write_uint8 :: "'e evbuffer_api \<Rightarrow> 'e \<Rightarrow> uint8 \<Rightarrow> 'e res" where
  "buf_write_uint8 api e num = buf_write_ptr api e (Some [num])"

definition buf_write_uint16 :: "'e evbuffer_api \<Rightarrow> 'e \<Rightarrow> uint16 \<Rightarrow> 'e res" where
  "buf_write_uint16 api e num = buf_write_ptr api e (Some (be16 num))"

definition buf_write_uint32 :: "'e evbuffer_api \<Rightarrow> 'e \<Rightarrow> uint32 \<Rightarrow> 'e res" where
  "buf_write_uint32 api e num = buf_write_ptr api e (Some (be32 num))"

text \<open>\<open>write_rand\<close> adds the bytes of the generator; \<open>write(size_t, func)\<close> lets \<open>func\<close> fill a
  block of \<open>count\<close> bytes and say how many it used.\<close>

definition buf_add_reference :: "'e evbuffer_api \<Rightarrow> 'e \<Rightarrow> bytes \<Rightarrow> 'e res" where
  "buf_add_reference api e bs =
    (case ev_add api e bs of None \<Rightarrow> Inl (RuntimeError ''evbuffer_add_reference'') | Some e' \<Rightarrow> Inr e')"

definition buf_write_rand :: "'e evbuffer_api \<Rightarrow> (nat \<Rightarrow> bytes) \<Rightarrow> 'e \<Rightarrow> nat \<Rightarrow> 'e res" where
  "buf_write_rand api rng e count = (if count = 0 then Inr e else buf_add_reference api e (rng count))"

definition buf_write_func ::
  "'e evbuffer_api \<Rightarrow> 'e \<Rightarrow> nat \<Rightarrow> (nat \<Rightarrow> bytes \<times> nat) \<Rightarrow> 'e res" where
  "buf_write_func api e count func =
    (if count = 0 then Inr e
     else let (p, used) = func count in
       if used > count then Inl (RuntimeError ''internal error'')
       else if used = 0 then Inr e
       else buf_add_reference api e (take used p))"

section \<open>The abstract buffer\<close>

text \<open>The operations on the bytes alone; the protocols are modelled on these.\<close>

definition bb_read :: "nat \<Rightarrow> bytes \<Rightarrow> bytes \<times> bytes" where
  "bb_read n bs = (take n bs, drop n bs)"

definition bb_readn :: "nat \<Rightarrow> bytes \<Rightarrow> bytes \<times> bytes" where
  "bb_readn n bs = (if n > length bs then ([], bs) else bb_read n bs)"

definition bb_readline :: "nat \<Rightarrow> bytes \<Rightarrow> bytes error_or \<times> bytes" where
  "bb_readline maxline bs =
    (case find_eol bs of
       None \<Rightarrow> ((if length bs > maxline then new EOLNotFoundError else new NoError, []), bs)
     | Some (pos, eol_length) \<Rightarrow>
         if pos + eol_length > maxline then ((new LineTooLongError, []), bs)
         else ((new NoError, take (pos + eol_length) bs), drop (pos + eol_length) bs))"

definition bb_read_uint :: "nat \<Rightarrow> bytes \<Rightarrow> ('a::len word) error_or \<times> bytes" where
  "bb_read_uint sz bs =
    (if length bs < sz then ((new NotEnoughDataError, 0), bs)
     else ((new NoError, word_of_nat (be_nat (take sz bs))), drop sz bs))"

section \<open>Lemmas on the loops\<close>

lemma for_segments_readpeek:
  "for_segments readpeek_fn segs (n, out, k) =
    (n + length (take k (concat segs)), out @ take k (concat segs), k - length (take k (concat segs)))"
proof (induction segs arbitrary: n out k)
  case (Cons a segs)
  show ?case
  proof (cases "length a < k")
    case True
    then have "readpeek_fn a (n, out, k) = (True, (n + length a, out @ a, k - length a))"
      by (simp add: Let_def)
    then show ?thesis
      using True by (simp add: Cons.IH del: readpeek_fn.simps)
  next
    case False
    then have "readpeek_fn a (n, out, k) = (False, (n + k, out @ take k a, 0))"
      by (auto simp: Let_def)
    then show ?thesis
      using False by (simp del: readpeek_fn.simps)
  qed
qed simp

lemma find_eol_bound:
  assumes "find_eol bs = Some (pos, n)"
  shows "pos + n \<le> length bs" "n = 1 \<or> n = 2" "bs ! (pos + n - 1) = 10" "10 \<notin> set (take (pos + n - 1) bs)"
proof -
  let ?i = "length (takeWhile (\<lambda>b. b \<noteq> 10) bs)"
  have ne: "?i \<noteq> length bs" and r: "(pos, n) = (if 0 < ?i \<and> bs ! (?i - 1) = 13 then (?i - 1, 2) else (?i, 1))"
    using assms by (auto simp: find_eol_def Let_def split: if_splits)
  have lt: "?i < length bs"
    using ne length_takeWhile_le [of "\<lambda>b. b \<noteq> 10" bs] by linarith
  have e: "pos + n = ?i + 1"
    using r by (auto split: if_splits)
  show "pos + n \<le> length bs" "n = 1 \<or> n = 2"
    using lt e r by (auto split: if_splits)
  have "bs ! ?i = 10"
    using nth_length_takeWhile [OF lt] by simp
  then show "bs ! (pos + n - 1) = 10"
    using e by simp
  have "take ?i bs = takeWhile (\<lambda>b. b \<noteq> 10) bs"
    by (rule takeWhile_eq_take [symmetric])
  then show "10 \<notin> set (take (pos + n - 1) bs)"
    using e by (auto dest: set_takeWhileD)
qed

lemma length_takeWhile_all: "length (takeWhile P xs) = length xs \<longleftrightarrow> (\<forall>x \<in> set xs. P x)"
  by (induction xs) simp_all

lemma find_eol_None: "find_eol bs = None \<longleftrightarrow> 10 \<notin> set bs"
proof -
  have "length (takeWhile (\<lambda>b. b \<noteq> 10) bs) = length bs \<longleftrightarrow> 10 \<notin> set bs"
    unfolding length_takeWhile_all by blast
  then show ?thesis
    by (simp add: find_eol_def Let_def)
qed

section \<open>Integers\<close>

lemma be_nat_append: "be_nat (xs @ [b]) = be_nat xs * 256 + unat b"
  by (simp add: be_nat_def)

lemma be16_value: "be_nat (be16 w) = unat w"
proof -
  have hi: "unat (ucast (drop_bit 8 w) :: uint8) = unat w div 256"
    using uint16_lt [of w] unfolding unsigned_ucast_eq unat_drop_bit
    by (simp add: take_bit_eq_mod less_mult_imp_div_less)
  have lo: "unat (ucast w :: uint8) = unat w mod 256"
    unfolding unsigned_ucast_eq by (simp add: take_bit_eq_mod)
  have "be_nat (be16 w) = unat (ucast (drop_bit 8 w) :: uint8) * 256 + unat (ucast w :: uint8)"
    by (simp only: be_nat_def be16_def foldl.simps) simp
  then show ?thesis
    unfolding hi lo by (simp only: div_mult_mod_eq)
qed

lemma be32_value: "be_nat (be32 w) = unat w"
proof -
  have d: "unat (ucast (drop_bit k w) :: uint8) = unat w div 2 ^ k mod 256" for k
    unfolding unsigned_ucast_eq unat_drop_bit by (simp add: take_bit_eq_mod)
  have lo: "unat (ucast w :: uint8) = unat w mod 256"
    unfolding unsigned_ucast_eq by (simp add: take_bit_eq_mod)
  define x where "x = unat w"
  have "x div 2 ^ 24 mod 256 = x div 2 ^ 24"
    using uint32_lt [of w] by (simp add: x_def less_mult_imp_div_less)
  moreover have "x div 2 ^ 24 = x div 256 div 256 div 256" "x div 2 ^ 16 = x div 256 div 256"
    "x div 2 ^ 8 = x div 256"
    by (simp_all flip: div_mult2_eq)
  ultimately have "((x div 2 ^ 24 mod 256 * 256 + x div 2 ^ 16 mod 256) * 256 + x div 2 ^ 8 mod 256)
      * 256 + x mod 256 = x"
    by (simp only: div_mult_mod_eq)
  moreover have "be_nat (be32 w) = ((x div 2 ^ 24 mod 256 * 256 + x div 2 ^ 16 mod 256) * 256
      + x div 2 ^ 8 mod 256) * 256 + x mod 256"
    by (simp only: be_nat_def be32_def foldl.simps d lo x_def) simp
  ultimately show ?thesis
    by (simp only: x_def)
qed

lemma length_be: "length (be16 v) = 2" "length (be32 w) = 4"
  by (simp_all add: be16_def be32_def)

section \<open>The interfaces\<close>

text \<open>What the code relies on of libevent: the documented behaviour of the functions.\<close>

locale evbuffer =
  fixes api :: "'e evbuffer_api"
  assumes empty: "ev_content api (ev_empty api) = []"
    and add: "ev_add api e bs = Some e' \<Longrightarrow> ev_content api e' = ev_content api e @ bs"
    and add_buffer: "ev_add_buffer api d s = Some (d', s') \<Longrightarrow>
      ev_content api d' = ev_content api d @ ev_content api s \<and> ev_content api s' = []"
    and drain: "ev_drain api e n = Some e' \<Longrightarrow> ev_content api e' = drop n (ev_content api e)"
    and length_content: "ev_length api e = length (ev_content api e)"
    and search_eol: "ev_search_eol api e = find_eol (ev_content api e)"
begin

lemma readpeek_eq:
  "buf_readpeek api ispeek e n =
    (if ispeek then Inr (take n (ev_content api e), e)
     else map_sum id (Pair (take n (ev_content api e)))
       (buf_discard api e (length (take n (ev_content api e)))))"
  by (simp add: buf_readpeek_def buf_for_each_def for_segments_readpeek Let_def ev_content_def)

lemma discard_content:
  "buf_discard api e n = Inr e' \<Longrightarrow> ev_content api e' = drop n (ev_content api e)"
  by (auto simp: buf_discard_def drain split: option.splits)

lemma read_content:
  assumes "buf_read api e n = Inr (out, e')"
  shows "out = take n (ev_content api e)" "ev_content api e' = drop n (ev_content api e)"
proof -
  obtain d where d: "buf_discard api e (length (take n (ev_content api e))) = Inr d"
    "out = take n (ev_content api e)" "e' = d"
    using assms unfolding buf_read_def readpeek_eq
    by (cases "buf_discard api e (length (take n (ev_content api e)))") auto
  then show "out = take n (ev_content api e)" "ev_content api e' = drop n (ev_content api e)"
    using discard_content [OF d(1)] by (simp_all add: min_def)
qed

lemma write_content:
  "buf_write_ptr api e (Some bs) = Inr e' \<Longrightarrow> ev_content api e' = ev_content api e @ bs"
  by (auto simp: buf_write_ptr_def buf_add_def add split: option.splits)

lemma peek_content: "buf_peek api e n = Inr (take n (ev_content api e), e)"
  by (simp add: buf_peek_def readpeek_eq)

lemma readn_refines:
  assumes "buf_readn api e n = Inr (out, e')"
  shows "(out, ev_content api e') = bb_readn n (ev_content api e)"
  using assms read_content [of e n out e']
  by (auto simp: buf_readn_def bb_readn_def bb_read_def buf_length_def length_content split: if_splits)

lemma readline_refines:
  assumes "buf_readline api e maxline = Inr (r, e')"
  shows "(r, ev_content api e') = bb_readline maxline (ev_content api e)"
proof (cases "find_eol (ev_content api e)")
  case None
  then show ?thesis
    using assms by (auto simp: buf_readline_def bb_readline_def search_eol buf_length_def
        length_content split: if_splits)
next
  case (Some p)
  obtain pos n where p: "p = (pos, n)"
    by (cases p)
  have n: "n = 1 \<or> n = 2"
    using find_eol_bound(2) Some p by blast
  show ?thesis
  proof (cases "pos + n > maxline")
    case True
    then show ?thesis
      using assms Some p n by (auto simp: buf_readline_def bb_readline_def search_eol)
  next
    case False
    then have "map_sum id (\<lambda>(s, e'). ((new NoError, s), e')) (buf_read api e (pos + n)) = Inr (r, e')"
      using assms Some p n by (auto simp: buf_readline_def search_eol)
    then obtain s where "buf_read api e (pos + n) = Inr (s, e')" "r = (new NoError, s)"
      by (cases "buf_read api e (pos + n)") auto
    then show ?thesis
      using False Some p read_content by (simp add: bb_readline_def)
  qed
qed

lemma read_uint_refines:
  assumes "buf_read_uint api sz e = Inr (r, e')"
  shows "(r, ev_content api e') = bb_read_uint sz (ev_content api e)"
proof (cases "ev_length api e < sz")
  case True
  then show ?thesis
    using assms by (simp add: buf_read_uint_def bb_read_uint_def buf_length_def length_content)
next
  case False
  then obtain s where "buf_read api e sz = Inr (s, e')" "r = (new NoError, word_of_nat (be_nat s))"
    using assms by (cases "buf_read api e sz") (auto simp: buf_read_uint_def buf_length_def)
  then show ?thesis
    using False read_content [of e sz s e'] by (simp add: bb_read_uint_def length_content)
qed

end

text \<open>The contract of the class for its users: a queue of bytes.\<close>

datatype fifo_op = FWrite bytes | FRead nat

fun fifo_run :: "('b \<Rightarrow> bytes \<Rightarrow> 'b res) \<Rightarrow> ('b \<Rightarrow> nat \<Rightarrow> (bytes \<times> 'b) res) \<Rightarrow>
    'b \<Rightarrow> fifo_op list \<Rightarrow> (bytes \<times> 'b) res" where
  "fifo_run wr rd b [] = Inr ([], b)"
| "fifo_run wr rd b (FWrite bs # ops) =
    (case wr b bs of Inl x \<Rightarrow> Inl x | Inr b' \<Rightarrow> fifo_run wr rd b' ops)"
| "fifo_run wr rd b (FRead n # ops) =
    (case rd b n of Inl x \<Rightarrow> Inl x
     | Inr (out, b') \<Rightarrow> map_sum id (\<lambda>(outs, c). (out @ outs, c)) (fifo_run wr rd b' ops))"

fun fifo_written :: "fifo_op list \<Rightarrow> bytes" where
  "fifo_written [] = []"
| "fifo_written (FWrite bs # ops) = bs @ fifo_written ops"
| "fifo_written (FRead n # ops) = fifo_written ops"

locale byte_fifo =
  fixes contents :: "'b \<Rightarrow> bytes"
    and wr :: "'b \<Rightarrow> bytes \<Rightarrow> 'b res"
    and rd :: "'b \<Rightarrow> nat \<Rightarrow> (bytes \<times> 'b) res"
  assumes wr: "wr b bs = Inr b' \<Longrightarrow> contents b' = contents b @ bs"
    and rd: "rd b n = Inr (out, b') \<Longrightarrow> out = take n (contents b) \<and> contents b' = drop n (contents b)"
begin

lemma run_content:
  "fifo_run wr rd b ops = Inr (outs, b') \<Longrightarrow> outs @ contents b' = contents b @ fifo_written ops"
proof (induction ops arbitrary: b outs rule: fifo_written.induct)
  case (2 bs ops)
  then obtain c where "wr b bs = Inr c" "fifo_run wr rd c ops = Inr (outs, b')"
    by (auto split: sum.splits)
  then show ?case
    using "2.IH" wr by simp
next
  case (3 n ops)
  then obtain out c rest where r: "rd b n = Inr (out, c)" "fifo_run wr rd c ops = Inr (rest, b')"
    "outs = out @ rest"
    by (auto split: sum.splits)
  then have "rest @ contents b' = contents c @ fifo_written ops"
    using "3.IH" by blast
  then show ?case
    using r rd [OF r(1)] by simp
qed simp

end

sublocale evbuffer \<subseteq> byte_fifo "ev_content api" "\<lambda>e bs. buf_write_ptr api e (Some bs)" "buf_read api"
  by unfold_locales (use write_content read_content in auto)

section \<open>A queue of segments\<close>

text \<open>A representation that has every documented property: the list of the segments.  Draining
  may split the first one.\<close>

fun seg_drain :: "bytes list \<Rightarrow> nat \<Rightarrow> bytes list" where
  "seg_drain [] n = []"
| "seg_drain (s # segs) n =
    (if n = 0 then s # segs else if length s \<le> n then seg_drain segs (n - length s) else drop n s # segs)"

definition seg_api :: "bytes list evbuffer_api" where
  "seg_api =
    \<lparr>ev_empty = [],
     ev_add = (\<lambda>e bs. Some (e @ [bs])),
     ev_add_buffer = (\<lambda>d s. Some (d @ s, [])),
     ev_drain = (\<lambda>e n. Some (seg_drain e n)),
     ev_length = (\<lambda>e. sum_list (map length e)),
     ev_iov = (\<lambda>e. e),
     ev_search_eol = (\<lambda>e. find_eol (concat e))\<rparr>"

lemma concat_seg_drain: "concat (seg_drain e n) = drop n (concat e)"
  by (induction e arbitrary: n) simp_all

interpretation seg: evbuffer seg_api
  by unfold_locales (auto simp: seg_api_def ev_content_def concat_seg_drain length_concat)

section \<open>Facts for the properties\<close>

lemma new_net_distinct [simp]:
  "new NoError \<noteq> new EOLNotFoundError" "new EOLNotFoundError \<noteq> new NoError"
  "new NoError \<noteq> new LineTooLongError" "new LineTooLongError \<noteq> new NoError"
  "new EOLNotFoundError \<noteq> new LineTooLongError" "new LineTooLongError \<noteq> new EOLNotFoundError"
  "new NotEnoughDataError \<noteq> new NoError" "new NoError \<noteq> new NotEnoughDataError"
  by (simp_all add: new_def mk_error_def err_simps)

context evbuffer
begin

lemma buffer_fifo:
  "fifo_run (\<lambda>e bs. buf_write_ptr api e (Some bs)) (buf_read api) e ops = Inr (outs, e') \<Longrightarrow>
    outs @ ev_content api e' = ev_content api e @ fifo_written ops"
  by (rule run_content)

lemma readline_cases:
  assumes "buf_readline api e maxline = Inr ((err, line), e')"
  shows "line @ ev_content api e' = ev_content api e"
    and "err = new EOLNotFoundError \<Longrightarrow> line = [] \<and> 10 \<notin> set (ev_content api e)
      \<and> maxline < length (ev_content api e)"
    and "err = new NoError \<Longrightarrow> (line = [] \<and> 10 \<notin> set (ev_content api e)
        \<and> length (ev_content api e) \<le> maxline)
      \<or> (line \<noteq> [] \<and> last line = 10 \<and> 10 \<notin> set (butlast line) \<and> length line \<le> maxline)"
    and "err \<in> {new NoError, new EOLNotFoundError, new LineTooLongError}"
proof -
  let ?bs = "ev_content api e"
  note r = readline_refines [OF assms]
  have eol: "take (pos + n) ?bs \<noteq> [] \<and> last (take (pos + n) ?bs) = 10
      \<and> 10 \<notin> set (butlast (take (pos + n) ?bs)) \<and> length (take (pos + n) ?bs) = pos + n"
    if "find_eol ?bs = Some (pos, n)" for pos n
  proof -
    note b = find_eol_bound [OF that]
    have "butlast (take (pos + n) ?bs) = take (pos + n - 1) ?bs"
      using b(1) by (simp add: butlast_take)
    moreover have "last (take (pos + n) ?bs) = ?bs ! (pos + n - 1)"
      using b(1,2) by (subst last_conv_nth) (auto simp: min_def)
    ultimately show ?thesis
      using b by (auto simp: min_def)
  qed
  show "line @ ev_content api e' = ?bs"
    using r by (auto simp: bb_readline_def split: option.splits if_splits)
  show "err = new EOLNotFoundError \<Longrightarrow> line = [] \<and> 10 \<notin> set ?bs \<and> maxline < length ?bs"
    using r by (auto simp: bb_readline_def find_eol_None split: option.splits if_splits)
  show "err = new NoError \<Longrightarrow> (line = [] \<and> 10 \<notin> set ?bs \<and> length ?bs \<le> maxline)
      \<or> (line \<noteq> [] \<and> last line = 10 \<and> 10 \<notin> set (butlast line) \<and> length line \<le> maxline)"
  proof (cases "find_eol ?bs")
    case None
    then have "10 \<notin> set ?bs"
      using find_eol_None by blast
    with None show "err = new NoError \<Longrightarrow> ?thesis"
      using r by (auto simp: bb_readline_def split: if_splits)
  next
    case (Some p)
    obtain pos n where p: "p = (pos, n)"
      by (cases p)
    then show "err = new NoError \<Longrightarrow> ?thesis"
      using r Some eol [of pos n] by (auto simp: bb_readline_def split: if_splits)
  qed
  show "err \<in> {new NoError, new EOLNotFoundError, new LineTooLongError}"
    using r by (auto simp: bb_readline_def split: option.splits if_splits)
qed

lemma uint_roundtrip:
  assumes "buf_write_ptr api e (Some bs) = Inr e1" and "ev_content api e = []"
    and "be_nat bs = unat w" and "buf_read_uint api (length bs) e1 = Inr (r, e2)"
  shows "r = (new NoError, w) \<and> ev_content api e2 = []"
proof -
  have "ev_content api e1 = bs"
    using write_content [OF assms(1)] assms(2) by simp
  then show ?thesis
    using read_uint_refines [OF assms(4)] assms(3) by (simp add: bb_read_uint_def)
qed

end

section \<open>Properties\<close>

text \<open>C21: A buffer is a queue of bytes: whatever the segments of the underlying evbuffer, after any
  sequence of writes and reads that did not throw, what was read followed by what is
  left is what was there followed by what was written, in order and without loss.\<close>

theorem buffer_is_fifo:
  assumes "evbuffer api"
    and "fifo_run (\<lambda>e bs. buf_write_ptr api e (Some bs)) (buf_read api) e ops = Inr (outs, e')"
  shows "outs @ ev_content api e' = ev_content api e @ fifo_written ops"
  by (rule evbuffer.buffer_fifo [OF assms])

theorem buffer_is_fifo_witness:
  "\<exists>outs e'. fifo_run (\<lambda>e bs. buf_write_ptr seg_api e (Some bs)) (buf_read seg_api) []
      [FWrite [1, 2], FWrite [3], FRead 2, FWrite [4], FRead 7] = Inr (outs, e')
    \<and> outs @ ev_content seg_api e' = [1, 2, 3, 4]"
proof -
  let ?ops = "[FWrite [1, 2], FWrite [3], FRead 2, FWrite [4], FRead 7]"
  have run: "fifo_run (\<lambda>e bs. buf_write_ptr seg_api e (Some bs)) (buf_read seg_api) [] ?ops =
      Inr ([1, 2, 3, 4], [])"
    by (simp add: seg_api_def buf_write_ptr_def buf_add_def buf_read_def buf_readpeek_def
        buf_for_each_def buf_discard_def Let_def)
  from buffer_is_fifo [OF seg.evbuffer_axioms run] run show ?thesis
    by (simp add: seg_api_def ev_content_def)
qed

text \<open>C35: \<open>readline\<close> loses no byte and tells its outcomes apart: a returned line is the first
  line with its terminator and within the limit, the empty line without error means that
  no terminator has arrived yet and the limit is not exceeded.\<close>

theorem buffer_readline_correct:
  assumes "evbuffer api" and "buf_readline api e maxline = Inr ((err, line), e')"
  shows "line @ ev_content api e' = ev_content api e
    \<and> err \<in> {new NoError, new EOLNotFoundError, new LineTooLongError}
    \<and> (err = new EOLNotFoundError \<longrightarrow> line = [] \<and> 10 \<notin> set (ev_content api e)
        \<and> maxline < length (ev_content api e))
    \<and> (err = new NoError \<longrightarrow> (line = [] \<and> 10 \<notin> set (ev_content api e)
          \<and> length (ev_content api e) \<le> maxline)
        \<or> (line \<noteq> [] \<and> last line = 10 \<and> 10 \<notin> set (butlast line) \<and> length line \<le> maxline))"
  using evbuffer.readline_cases [OF assms] by blast

theorem buffer_readline_correct_witness:
  "\<exists>e'. buf_readline seg_api [[65, 13], [10, 66]] 8 = Inr ((new NoError, [65, 13, 10]), e')
    \<and> [65, 13, 10] @ ev_content seg_api e' = [65, 13, 10, 66]"
proof -
  have run: "buf_readline seg_api [[65, 13], [10, 66]] 8 = Inr ((new NoError, [65, 13, 10]), [[66]])"
    by (simp add: seg_api_def buf_readline_def find_eol_def buf_read_def buf_readpeek_def
        buf_for_each_def buf_discard_def Let_def)
  from buffer_readline_correct [OF seg.evbuffer_axioms run] run show ?thesis
    by (simp add: seg_api_def ev_content_def)
qed

text \<open>C32: Integers survive the wire: what \<open>write_uint16\<close> and \<open>write_uint32\<close> put into an empty
  buffer, most significant byte first, \<open>read_uint16\<close> and \<open>read_uint32\<close> take out.\<close>

theorem buffer_uint_roundtrip:
  assumes "evbuffer api" and "ev_content api e = []"
  shows "(buf_write_uint32 api e w = Inr e1 \<and> buf_read_uint32 api e1 = Inr (r, e2) \<longrightarrow>
      r = (new NoError, w) \<and> ev_content api e2 = [])
    \<and> (buf_write_uint16 api e v = Inr e3 \<and> buf_read_uint16 api e3 = Inr (q, e4) \<longrightarrow>
      q = (new NoError, v) \<and> ev_content api e4 = [])"
proof (intro conjI impI; (elim conjE)?)
  show "r = (new NoError, w)" "ev_content api e2 = []"
    if "buf_write_uint32 api e w = Inr e1" "buf_read_uint32 api e1 = Inr (r, e2)"
    using evbuffer.uint_roundtrip [OF assms(1) _ assms(2) be32_value] that
    unfolding buf_write_uint32_def buf_read_uint32_def length_be by blast+
  show "q = (new NoError, v)" "ev_content api e4 = []"
    if "buf_write_uint16 api e v = Inr e3" "buf_read_uint16 api e3 = Inr (q, e4)"
    using evbuffer.uint_roundtrip [OF assms(1) _ assms(2) be16_value] that
    unfolding buf_write_uint16_def buf_read_uint16_def length_be by blast+
qed

theorem buffer_uint_roundtrip_witness:
  "\<exists>e1 e2. buf_write_uint16 seg_api [] 443 = Inr e1
    \<and> buf_read_uint16 seg_api e1 = Inr ((new NoError, 443), e2)"
proof -
  have e: "ev_content seg_api [] = []"
    by (simp add: ev_content_def seg_api_def)
  have wr: "buf_write_uint16 seg_api [] 443 = Inr [be16 443]"
    by (simp add: buf_write_uint16_def buf_write_ptr_def buf_add_def seg_api_def)
  obtain q e2 where rd: "buf_read_uint16 seg_api [be16 443] = Inr (q, e2)"
    by (simp add: buf_read_uint16_def buf_read_uint_def buf_length_def seg_api_def buf_read_def
        buf_readpeek_def buf_for_each_def buf_discard_def Let_def be16_def)
  have "q = (new NoError, 443)"
    using buffer_uint_roundtrip [OF seg.evbuffer_axioms e] wr rd by blast
  then show ?thesis
    using wr rd by blast
qed

end
