(* ===== verification/Emitter.thy ===== *)
theory Emitter
  imports Buffer
begin

text \<open>
  \<open>net/emitter.hpp\<close>, \<open>net/emitter.cpp\<close> and \<open>net/libevent_emitter.hpp\<close>: the base class of every
  connection, which keeps the handlers of its user and delivers events to them, and the
  class that feeds it from a libevent bufferevent.  A handler is a number, \<open>None\<close> standing for
  the null function; a delivery is recorded in a trace, and what the handler does in turn
  is part of the sequence of operations that follows.  The virtual functions that
  \<open>EmitterBase\<close> calls are a record, the locale \<open>emitter_virtuals\<close> states what the base class
  needs of them, and it is interpreted for \<open>Emitter\<close> and \<open>LibeventEmitter\<close>.
\<close>

section \<open>State\<close>

datatype em_event = EvConnect | EvData bytes | EvFlush | EvError error

record emitter =
  do_connect :: "nat option"
  do_data :: "nat option"
  do_flush :: "nat option"
  do_error :: "nat option"
  rec_received :: bool
  received_data :: bytes
  rec_sent :: bool
  sent_data :: bytes
  output_buff :: bytes
  close_pending :: bool
  close_cb :: "nat option"
  du_down :: nat
  du_up :: nat
  em_trace :: "(nat \<times> em_event) list"

record 'e virtuals =
  v_start_reading :: "'e \<Rightarrow> 'e"
  v_stop_reading :: "'e \<Rightarrow> 'e"
  v_start_writing :: "'e \<Rightarrow> 'e"
  v_shutdown :: "'e \<Rightarrow> 'e"
  v_adjust_timeout :: "rat \<Rightarrow> 'e \<Rightarrow> 'e"

section \<open>EmitterBase\<close>

definition deliver :: "nat \<Rightarrow> em_event \<Rightarrow> 'a emitter_scheme \<Rightarrow> 'a emitter_scheme" where
  "deliver h ev s = s\<lparr>em_trace := em_trace s @ [(h, ev)]\<rparr>"

definition emit_connect :: "'a emitter_scheme \<Rightarrow> 'a emitter_scheme" where
  "emit_connect s =
    (if close_pending s then s
     else case do_connect s of None \<Rightarrow> s | Some h \<Rightarrow> deliver h EvConnect s)"

definition emit_data :: "bytes \<Rightarrow> 'a emitter_scheme \<Rightarrow> 'a emitter_scheme" where
  "emit_data d s =
    (if close_pending s then s
     else
       let s = (if rec_received s then s\<lparr>received_data := received_data s @ d\<rparr> else s) in
       case do_data s of None \<Rightarrow> s
       | Some h \<Rightarrow> deliver h (EvData d) (s\<lparr>du_down := du_down s + length d\<rparr>))"

definition emit_flush :: "'a emitter_scheme \<Rightarrow> 'a emitter_scheme" where
  "emit_flush s =
    (if close_pending s then s
     else case do_flush s of None \<Rightarrow> s | Some h \<Rightarrow> deliver h EvFlush s)"

definition emit_error :: "error \<Rightarrow> 'a emitter_scheme \<Rightarrow> 'a emitter_scheme" where
  "emit_error err s =
    (if close_pending s then s
     else case do_error s of None \<Rightarrow> s | Some h \<Rightarrow> deliver h (EvError err) s)"

definition on_connect :: "nat option \<Rightarrow> 'a emitter_scheme \<Rightarrow> 'a emitter_scheme" where
  "on_connect fn s = s\<lparr>do_connect := fn\<rparr>"

definition on_data ::
  "'a emitter_scheme virtuals \<Rightarrow> nat option \<Rightarrow> 'a emitter_scheme \<Rightarrow> 'a emitter_scheme" where
  "on_data vt fn s =
    (if close_pending s then s
     else (if fn \<noteq> None then v_start_reading vt s else v_stop_reading vt s)\<lparr>do_data := fn\<rparr>)"

definition on_flush :: "nat option \<Rightarrow> 'a emitter_scheme \<Rightarrow> 'a emitter_scheme" where
  "on_flush fn s = s\<lparr>do_flush := fn\<rparr>"

definition on_error :: "nat option \<Rightarrow> 'a emitter_scheme \<Rightarrow> 'a emitter_scheme" where
  "on_error fn s = s\<lparr>do_error := fn\<rparr>"

definition em_close ::
  "'a emitter_scheme virtuals \<Rightarrow> nat option \<Rightarrow> 'a emitter_scheme \<Rightarrow> 'a emitter_scheme res" where
  "em_close vt cb s =
    (if close_pending s then Inl (RuntimeError ''close already pending'')
     else
       let s = s\<lparr>close_pending := True\<rparr>;
           s = v_shutdown vt s;
           s = on_connect None s;
           s = on_data vt None s;
           s = on_flush None s;
           s = on_error None s
       in Inr (s\<lparr>close_cb := cb\<rparr>))"

definition em_write ::
  "'a emitter_scheme virtuals \<Rightarrow> bytes \<Rightarrow> 'a emitter_scheme \<Rightarrow> 'a emitter_scheme" where
  "em_write vt d s =
    (let s = (if rec_sent s then s\<lparr>sent_data := sent_data s @ d\<rparr> else s);
         s = s\<lparr>du_up := du_up s + length d\<rparr>;
         s = s\<lparr>output_buff := output_buff s @ d\<rparr>
     in if close_pending s then s else v_start_writing vt s)"

definition em_write_ptr ::
  "'a emitter_scheme virtuals \<Rightarrow> bytes option \<Rightarrow> 'a emitter_scheme \<Rightarrow> 'a emitter_scheme res" where
  "em_write_ptr vt p s =
    (case p of None \<Rightarrow> Inl (RuntimeError ''null pointer'') | Some d \<Rightarrow> Inr (em_write vt d s))"

definition record_received_data :: "bool \<Rightarrow> 'a emitter_scheme \<Rightarrow> 'a emitter_scheme" where
  "record_received_data b s = s\<lparr>rec_received := b\<rparr>"

definition record_sent_data :: "bool \<Rightarrow> 'a emitter_scheme \<Rightarrow> 'a emitter_scheme" where
  "record_sent_data b s = s\<lparr>rec_sent := b\<rparr>"

definition set_timeout ::
  "'a emitter_scheme virtuals \<Rightarrow> rat \<Rightarrow> 'a emitter_scheme \<Rightarrow> 'a emitter_scheme" where
  "set_timeout vt timeo s = (if close_pending s then s else v_adjust_timeout vt timeo s)"

definition clear_timeout :: "'a emitter_scheme virtuals \<Rightarrow> 'a emitter_scheme \<Rightarrow> 'a emitter_scheme" where
  "clear_timeout vt s = set_timeout vt (-1) s"

definition emitter_init :: emitter where
  "emitter_init =
    \<lparr>do_connect = None, do_data = None, do_flush = None, do_error = None,
     rec_received = False, received_data = [], rec_sent = False, sent_data = [],
     output_buff = [], close_pending = False, close_cb = None, du_down = 0, du_up = 0,
     em_trace = []\<rparr>"

section \<open>Sequences of operations\<close>

datatype em_op =
  OpEmitConnect | OpEmitData bytes | OpEmitFlush | OpEmitError error
| OpOnConnect "nat option" | OpOnData "nat option" | OpOnFlush "nat option" | OpOnError "nat option"
| OpClose "nat option" | OpWrite bytes | OpRecordReceived bool | OpRecordSent bool
| OpSetTimeout rat

text \<open>A second \<open>close\<close> throws before it changes anything.\<close>

fun em_step :: "'a emitter_scheme virtuals \<Rightarrow> em_op \<Rightarrow> 'a emitter_scheme \<Rightarrow> 'a emitter_scheme" where
  "em_step vt OpEmitConnect s = emit_connect s"
| "em_step vt (OpEmitData d) s = emit_data d s"
| "em_step vt OpEmitFlush s = emit_flush s"
| "em_step vt (OpEmitError e) s = emit_error e s"
| "em_step vt (OpOnConnect fn) s = on_connect fn s"
| "em_step vt (OpOnData fn) s = on_data vt fn s"
| "em_step vt (OpOnFlush fn) s = on_flush fn s"
| "em_step vt (OpOnError fn) s = on_error fn s"
| "em_step vt (OpClose cb) s = (case em_close vt cb s of Inl _ \<Rightarrow> s | Inr s' \<Rightarrow> s')"
| "em_step vt (OpWrite d) s = em_write vt d s"
| "em_step vt (OpRecordReceived b) s = record_received_data b s"
| "em_step vt (OpRecordSent b) s = record_sent_data b s"
| "em_step vt (OpSetTimeout t) s = set_timeout vt t s"

definition em_run :: "'a emitter_scheme virtuals \<Rightarrow> em_op list \<Rightarrow> 'a emitter_scheme \<Rightarrow> 'a emitter_scheme" where
  "em_run vt ops s = foldl (\<lambda>s op. em_step vt op s) s ops"

section \<open>What the base class needs of its virtual functions\<close>

text \<open>All of the base class but the output buffer, which \<open>start_writing\<close> empties.\<close>

definition em_view :: "'a emitter_scheme \<Rightarrow> _" where
  "em_view s = (do_connect s, do_data s, do_flush s, do_error s, rec_received s, received_data s,
    rec_sent s, sent_data s, close_pending s, du_down s, du_up s, em_trace s)"

locale emitter_virtuals =
  fixes vt :: "'a emitter_scheme virtuals"
  assumes start_reading: "em_view (v_start_reading vt s) = em_view s"
    and stop_reading: "em_view (v_stop_reading vt s) = em_view s"
    and start_writing: "em_view (v_start_writing vt s) = em_view s"
    and shutdown: "em_view (v_shutdown vt s) = em_view s"
    and adjust_timeout: "em_view (v_adjust_timeout vt t s) = em_view s"
begin

lemmas kept [simp] = start_reading [unfolded em_view_def prod.inject]
  stop_reading [unfolded em_view_def prod.inject] start_writing [unfolded em_view_def prod.inject]
  shutdown [unfolded em_view_def prod.inject] adjust_timeout [unfolded em_view_def prod.inject]

lemmas em_op_defs = emit_connect_def emit_data_def emit_flush_def emit_error_def on_connect_def
  on_data_def on_flush_def on_error_def em_close_def em_write_def record_received_data_def
  record_sent_data_def set_timeout_def Let_def

lemma step_after_close:
  assumes "close_pending s"
  shows "close_pending (em_step vt op s)" "em_trace (em_step vt op s) = em_trace s"
  using assms by (cases op; simp add: em_op_defs)+

lemma run_after_close:
  assumes "close_pending s"
  shows "close_pending (em_run vt ops s) \<and> em_trace (em_run vt ops s) = em_trace s"
  using assms unfolding em_run_def
  by (induction ops arbitrary: s) (simp_all add: step_after_close del: em_step.simps)

lemma close_effect:
  assumes "em_close vt cb s = Inr s'"
  shows "\<not> close_pending s" "close_pending s'" "do_connect s' = None" "do_flush s' = None"
    "do_error s' = None" "do_data s' = do_data s" "em_trace s' = em_trace s" "close_cb s' = cb"
  using assms by (auto simp: em_op_defs split: if_splits)

text \<open>The bytes an operation list writes.\<close>

lemma step_writes:
  "du_up (em_step vt op s) = du_up s + (case op of OpWrite d \<Rightarrow> length d | _ \<Rightarrow> 0)"
  "op \<noteq> OpRecordSent False \<Longrightarrow> rec_sent s \<Longrightarrow> rec_sent (em_step vt op s)
    \<and> sent_data (em_step vt op s) = sent_data s @ (case op of OpWrite d \<Rightarrow> d | _ \<Rightarrow> [])"
  by (cases op; simp add: em_op_defs deliver_def split: option.splits)+

end

fun em_written :: "em_op list \<Rightarrow> bytes" where
  "em_written [] = []"
| "em_written (OpWrite d # ops) = d @ em_written ops"
| "em_written (_ # ops) = em_written ops"

context emitter_virtuals
begin

lemma run_usage: "du_up (em_run vt ops s) = du_up s + length (em_written ops)"
  unfolding em_run_def
  by (induction ops arbitrary: s rule: em_written.induct) (simp_all add: step_writes del: em_step.simps)

lemma run_recorded:
  assumes "OpRecordSent False \<notin> set ops" "rec_sent s"
  shows "sent_data (em_run vt ops s) = sent_data s @ em_written ops"
  using assms unfolding em_run_def
  by (induction ops arbitrary: s rule: em_written.induct) (simp_all add: step_writes del: em_step.simps)

end

section \<open>Emitter\<close>

definition plain_virtuals :: "emitter virtuals" where
  "plain_virtuals =
    \<lparr>v_start_reading = (\<lambda>s. s), v_stop_reading = (\<lambda>s. s), v_start_writing = (\<lambda>s. s),
     v_shutdown = (\<lambda>s. s), v_adjust_timeout = (\<lambda>_ s. s)\<rparr>"

interpretation plain: emitter_virtuals plain_virtuals
  by unfold_locales (simp_all add: plain_virtuals_def)

section \<open>LibeventEmitter\<close>

text \<open>\<open>timeval_init\<close> of \<open>common/utils.cpp\<close>: no timeval for a negative delay.\<close>

definition timeval_init :: "rat \<Rightarrow> (int \<times> int) option" where
  "timeval_init delta =
    (if delta < 0 then None
     else Some (\<lfloor>delta\<rfloor>, \<lfloor>(delta - of_int \<lfloor>delta\<rfloor>) * 1000000\<rfloor>))"

text \<open>The bufferevent is seen through its input and output buffers, whether reading is enabled,
  whether callbacks are set and its timeout; its functions are taken to succeed.\<close>

record libevent_emitter = emitter +
  bev_input :: bytes
  bev_output :: bytes
  bev_reading :: bool
  bev_callbacks :: bool
  bev_timeout :: "(int \<times> int) option"
  suppressed_eof :: bool
  shutdown_called :: bool
  release_scheduled :: bool

definition libevent_shutdown :: "libevent_emitter \<Rightarrow> libevent_emitter" where
  "libevent_shutdown s =
    (if shutdown_called s then s
     else s\<lparr>shutdown_called := True, bev_callbacks := False, release_scheduled := True\<rparr>)"

definition libevent_virtuals :: "libevent_emitter virtuals" where
  "libevent_virtuals =
    \<lparr>v_start_reading = (\<lambda>s. s\<lparr>bev_reading := True\<rparr>),
     v_stop_reading = (\<lambda>s. s\<lparr>bev_reading := False\<rparr>),
     v_start_writing = (\<lambda>s. s\<lparr>bev_output := bev_output s @ output_buff s, output_buff := []\<rparr>),
     v_shutdown = libevent_shutdown,
     v_adjust_timeout = (\<lambda>t s. s\<lparr>bev_timeout := timeval_init t\<rparr>)\<rparr>"

interpretation libevent: emitter_virtuals libevent_virtuals
  by unfold_locales (simp_all add: libevent_virtuals_def em_view_def libevent_shutdown_def)

definition libevent_make :: libevent_emitter where
  "libevent_make = emitter.extend emitter_init
    \<lparr>bev_input = [], bev_output = [], bev_reading = False, bev_callbacks = True, bev_timeout = None,
     suppressed_eof = False, shutdown_called = False, release_scheduled = False\<rparr>"

text \<open>The error of an event: \<open>errno\<close> and the queue of OpenSSL errors.\<close>

definition bev_sys_error :: "sys_errno \<Rightarrow> string list \<Rightarrow> error" where
  "bev_sys_error eno ssl_errors =
    (let sys_error = map_errno eno in
     if err_eq sys_error (new NoError)
     then
       let sys_error = foldl (\<lambda>err buff.
             let err = (if err_eq err (new NoError) then new SslError else err)
             in add_child_error (new_s SslError buff) err) sys_error ssl_errors
       in if \<not> err_eq sys_error (new SslError) then new SslDirtyShutdownError else sys_error
     else sys_error)"

definition handle_event ::
  "bool \<Rightarrow> bool \<Rightarrow> sys_errno \<Rightarrow> string list \<Rightarrow> libevent_emitter \<Rightarrow> libevent_emitter" where
  "handle_event eof timeout eno ssl_errors s =
    (if eof
     then if bev_input s \<noteq> [] then s\<lparr>suppressed_eof := True\<rparr> else emit_error (new EofError) s
     else if timeout then emit_error (new TimeoutError) s
     else emit_error (bev_sys_error eno ssl_errors) s)"

text \<open>The last argument is the \<open>Error\<close> that the data handler throws, if any.\<close>

definition handle_read :: "error option \<Rightarrow> libevent_emitter \<Rightarrow> libevent_emitter" where
  "handle_read thrown s =
    (let buff = bev_input s;
         delivered = (\<not> close_pending s \<and> do_data s \<noteq> None);
         s = emit_data buff (s\<lparr>bev_input := []\<rparr>)
     in if delivered \<and> thrown \<noteq> None then emit_error (the thrown) s
        else if suppressed_eof s then emit_error (new EofError) (s\<lparr>suppressed_eof := False\<rparr>)
        else s)"

definition handle_write :: "error option \<Rightarrow> libevent_emitter \<Rightarrow> libevent_emitter" where
  "handle_write thrown s =
    (let delivered = (\<not> close_pending s \<and> do_flush s \<noteq> None); s = emit_flush s
     in if delivered \<and> thrown \<noteq> None then emit_error (the thrown) s else s)"

text \<open>What libevent does: bytes arrive, and its callbacks run unless they have been unset.\<close>

datatype bev_step =
  BevBytes bytes | BevReadCb "error option" | BevWriteCb "error option"
| BevEventCb bool bool sys_errno "string list"

fun libevent_step :: "bev_step \<Rightarrow> libevent_emitter \<Rightarrow> libevent_emitter" where
  "libevent_step (BevBytes d) s = s\<lparr>bev_input := bev_input s @ d\<rparr>"
| "libevent_step (BevReadCb t) s = (if bev_callbacks s then handle_read t s else s)"
| "libevent_step (BevWriteCb t) s = (if bev_callbacks s then handle_write t s else s)"
| "libevent_step (BevEventCb eof tmo eno errs) s =
    (if bev_callbacks s then handle_event eof tmo eno errs s else s)"

definition libevent_run :: "bev_step list \<Rightarrow> libevent_emitter \<Rightarrow> libevent_emitter" where
  "libevent_run steps s = foldl (\<lambda>s st. libevent_step st s) s steps"

definition trace_data :: "(nat \<times> em_event) list \<Rightarrow> bytes" where
  "trace_data tr = concat (map (\<lambda>(_, ev). case ev of EvData d \<Rightarrow> d | _ \<Rightarrow> []) tr)"

fun bev_received :: "bev_step list \<Rightarrow> bytes" where
  "bev_received [] = []"
| "bev_received (BevBytes d # st) = d @ bev_received st"
| "bev_received (_ # st) = bev_received st"

section \<open>No byte is overtaken by the end of the stream\<close>

text \<open>The connection while its user listens for data and has not closed it.\<close>

definition listening :: "libevent_emitter \<Rightarrow> bool" where
  "listening s \<longleftrightarrow> \<not> close_pending s \<and> bev_callbacks s \<and> do_data s \<noteq> None"

lemma trace_data_simps [simp]:
  "trace_data [] = []" "trace_data (tr @ tr') = trace_data tr @ trace_data tr'"
  "trace_data [(h, EvData d)] = d" "trace_data [(h, EvConnect)] = []"
  "trace_data [(h, EvFlush)] = []" "trace_data [(h, EvError e)] = []"
  by (simp_all add: trace_data_def)

lemma emit_error_keeps [simp]:
  "bev_input (emit_error e s) = bev_input s" "bev_callbacks (emit_error e s) = bev_callbacks s"
  "do_data (emit_error e s) = do_data s" "close_pending (emit_error e s) = close_pending s"
  "trace_data (em_trace (emit_error e s)) = trace_data (em_trace s)"
  by (simp_all add: emit_error_def deliver_def split: option.split)

lemma emit_flush_keeps [simp]:
  "bev_input (emit_flush s) = bev_input s" "bev_callbacks (emit_flush s) = bev_callbacks s"
  "do_data (emit_flush s) = do_data s" "close_pending (emit_flush s) = close_pending s"
  "trace_data (em_trace (emit_flush s)) = trace_data (em_trace s)"
  by (simp_all add: emit_flush_def deliver_def split: option.split)

lemma emit_data_keeps [simp]:
  "bev_input (emit_data d s) = bev_input s" "bev_callbacks (emit_data d s) = bev_callbacks s"
  "do_data (emit_data d s) = do_data s" "close_pending (emit_data d s) = close_pending s"
  "suppressed_eof (emit_data d s) = suppressed_eof s" "do_error (emit_data d s) = do_error s"
  by (simp_all add: emit_data_def deliver_def Let_def split: option.split)

lemma emit_data_trace:
  assumes "\<not> close_pending s" "do_data s = Some h"
  shows "em_trace (emit_data d s) = em_trace s @ [(h, EvData d)]"
  using assms by (simp add: emit_data_def deliver_def Let_def)

lemma handle_read_fields:
  assumes "\<not> close_pending s" "do_data s = Some h"
  shows "bev_input (handle_read t s) = []" "bev_callbacks (handle_read t s) = bev_callbacks s"
    "do_data (handle_read t s) = do_data s" "close_pending (handle_read t s) = close_pending s"
    "trace_data (em_trace (handle_read t s)) = trace_data (em_trace s) @ bev_input s"
  using assms by (simp_all add: handle_read_def Let_def emit_data_trace)

lemma step_listening:
  assumes "listening s"
  shows "listening (libevent_step st s) \<and>
    trace_data (em_trace (libevent_step st s)) @ bev_input (libevent_step st s) =
      trace_data (em_trace s) @ bev_input s @ bev_received [st]"
proof -
  obtain h where s: "\<not> close_pending s" "bev_callbacks s" "do_data s = Some h"
    using assms by (auto simp: listening_def)
  show ?thesis
    using s by (cases st)
      (simp_all add: listening_def handle_read_fields handle_write_def handle_event_def Let_def)
qed

lemma run_listening:
  assumes "listening s"
  shows "listening (libevent_run steps s)
    \<and> trace_data (em_trace (libevent_run steps s)) @ bev_input (libevent_run steps s) =
      trace_data (em_trace s) @ bev_input s @ bev_received steps"
  using assms unfolding libevent_run_def
proof (induction steps arbitrary: s)
  case (Cons st steps)
  have "bev_received (st # steps) = bev_received [st] @ bev_received steps"
    by (cases st) simp_all
  then show ?case
    using step_listening [OF Cons.prems, of st] Cons.IH [of "libevent_step st s"]
    by (simp del: libevent_step.simps bev_received.simps)
qed simp

lemma bev_sys_error_code: "code (bev_sys_error eno errs) \<noteq> fst EofError"
proof -
  define f where "f = (\<lambda>err buff. add_child_error (new_s SslError buff)
    (if err_eq err (new NoError) then new SslError else err))"
  have "code (foldl f e errs) \<in> {0, 1021}" if "code e \<in> {0, 1021}" for e
    by (rule foldl_invariant) (use that in \<open>auto simp: f_def err_eq_def err_simps\<close>)
  moreover have "code (map_errno eno) \<in> {0, 1, 1011}"
    by (simp add: map_errno_code)
  ultimately show ?thesis
    unfolding bev_sys_error_def Let_def f_def [symmetric]
    by (auto simp: err_eq_def err_simps)
qed

lemma eof_needs_empty_input:
  assumes "listening s" and "\<And>e. st \<noteq> BevWriteCb (Some e)"
    and "em_trace (libevent_step st s) = em_trace s @ evs"
    and "(h, EvError (new EofError)) \<in> set evs"
  shows "bev_input (libevent_step st s) = []"
proof -
  obtain d where s: "\<not> close_pending s" "bev_callbacks s" "do_data s = Some d"
    using assms(1) by (auto simp: listening_def)
  show ?thesis
  proof (cases st)
    case (BevBytes x)
    then show ?thesis
      using assms(3,4) by simp
  next
    case (BevReadCb t)
    then show ?thesis
      using s by (simp add: handle_read_fields)
  next
    case (BevWriteCb t)
    then have "t = None"
      using assms(2) by (cases t) auto
    then show ?thesis
      using BevWriteCb assms(3,4) s
      by (auto simp: handle_write_def Let_def emit_flush_def deliver_def split: option.splits)
  next
    case (BevEventCb eof tmo eno errs)
    have ne: "bev_sys_error eno errs \<noteq> new EofError" "new TimeoutError \<noteq> new EofError"
      using bev_sys_error_code [of eno errs] by (auto simp: new_def mk_error_def err_simps)
    show ?thesis
    proof (rule ccontr)
      assume "bev_input (libevent_step st s) \<noteq> []"
      then have "bev_input s \<noteq> []"
        using BevEventCb s by (auto simp: handle_event_def split: if_splits)
      then show False
        using BevEventCb assms(3,4) s ne
        by (auto simp: handle_event_def emit_error_def deliver_def split: if_splits option.splits)
    qed
  qed
qed

section \<open>User and libevent together\<close>

fun conn_step :: "em_op + bev_step \<Rightarrow> libevent_emitter \<Rightarrow> libevent_emitter" where
  "conn_step (Inl op) s = em_step libevent_virtuals op s"
| "conn_step (Inr st) s = libevent_step st s"

definition conn_run :: "(em_op + bev_step) list \<Rightarrow> libevent_emitter \<Rightarrow> libevent_emitter" where
  "conn_run steps s = foldl (\<lambda>s st. conn_step st s) s steps"

lemma em_step_callbacks: "\<not> bev_callbacks s \<Longrightarrow> \<not> bev_callbacks (em_step libevent_virtuals op s)"
  by (cases op) (simp_all add: libevent.em_op_defs libevent_virtuals_def libevent_shutdown_def
      deliver_def split: option.split)

lemma conn_run_closed:
  assumes "close_pending s" "\<not> bev_callbacks s"
  shows "em_trace (conn_run steps s) = em_trace s \<and> close_pending (conn_run steps s)"
  using assms unfolding conn_run_def
proof (induction steps arbitrary: s)
  case (Cons st steps)
  have "close_pending (conn_step st s) \<and> \<not> bev_callbacks (conn_step st s)
      \<and> em_trace (conn_step st s) = em_trace s"
  proof (cases st)
    case (Inl op)
    then show ?thesis
      using Cons.prems libevent.step_after_close [of s op] em_step_callbacks [of s op] by simp
  next
    case (Inr b)
    then show ?thesis
      using Cons.prems by (cases b) simp_all
  qed
  then show ?case
    using Cons.IH [of "conn_step st s"] by simp
qed simp

section \<open>Properties\<close>

text \<open>C7: Once a connection has been closed its handlers are never called again, whatever its user
  and libevent do afterwards, and closing it a second time throws.\<close>

theorem closed_connection_is_silent:
  assumes "em_close libevent_virtuals cb s = Inr s1"
    and "shutdown_called s \<longrightarrow> \<not> bev_callbacks s"
  shows "em_trace (conn_run steps s1) = em_trace s
    \<and> em_close libevent_virtuals cb' (conn_run steps s1) =
        Inl (RuntimeError ''close already pending'')"
proof -
  have "\<not> bev_callbacks s1"
    using assms by (auto simp: libevent.em_op_defs libevent_virtuals_def libevent_shutdown_def
        split: if_splits)
  then show ?thesis
    using libevent.close_effect [OF assms(1)] conn_run_closed [of s1 steps]
    by (simp add: em_close_def)
qed

theorem closed_connection_is_silent_witness:
  "\<exists>s1. em_close libevent_virtuals None (libevent_make\<lparr>do_data := Some 1\<rparr>) = Inr s1
    \<and> em_trace (conn_run [Inr (BevBytes [1]), Inr (BevReadCb None), Inl (OpEmitData [2])] s1) = []"
proof -
  let ?s = "libevent_make\<lparr>do_data := Some 1\<rparr>"
  obtain s1 where c: "em_close libevent_virtuals None ?s = Inr s1"
    by (simp add: em_close_def libevent_make_def emitter.extend_def emitter_init_def Let_def)
  moreover have "shutdown_called ?s \<longrightarrow> \<not> bev_callbacks ?s" "em_trace ?s = []"
    by (simp_all add: libevent_make_def emitter.extend_def emitter_init_def)
  ultimately show ?thesis
    using closed_connection_is_silent [OF c] by metis
qed

text \<open>C55: \<open>close\<close> means to drop all the handlers but keeps the one for data: it sets \<open>close_pending\<close>
  before it calls \<open>on_data(nullptr)\<close>, which then returns at once.\<close>

theorem close_keeps_data_handler:
  "em_close libevent_virtuals cb s = Inr s1 \<Longrightarrow>
    do_connect s1 = None \<and> do_flush s1 = None \<and> do_error s1 = None \<and> do_data s1 = do_data s"
  using libevent.close_effect by blast

theorem close_keeps_data_handler_witness:
  "\<exists>s1. em_close libevent_virtuals None (libevent_make\<lparr>do_data := Some 1\<rparr>) = Inr s1
    \<and> do_data s1 = Some 1"
proof -
  obtain s1 where c: "em_close libevent_virtuals None (libevent_make\<lparr>do_data := Some 1\<rparr>) = Inr s1"
    by (simp add: em_close_def libevent_make_def emitter.extend_def emitter_init_def Let_def)
  from close_keeps_data_handler [OF c] c show ?thesis
    by simp
qed

text \<open>C9: The end of the stream never overtakes data: when a listening connection reports
  \<open>EofError\<close>, the data handler has been given every byte that arrived, in order.\<close>

theorem eof_after_all_data:
  assumes "listening s0" and "bev_input s0 = []" and "em_trace s0 = []"
    and "\<And>e. st \<noteq> BevWriteCb (Some e)"
    and "em_trace (libevent_step st (libevent_run steps s0)) = em_trace (libevent_run steps s0) @ evs"
    and "(h, EvError (new EofError)) \<in> set evs"
  shows "trace_data (em_trace (libevent_step st (libevent_run steps s0))) =
    bev_received (steps @ [st])"
proof -
  let ?s = "libevent_run steps s0"
  have run: "listening ?s" "trace_data (em_trace ?s) @ bev_input ?s = bev_received steps"
    using run_listening [OF assms(1), of steps] assms(2,3) by simp_all
  have app: "bev_received (steps @ [st]) = bev_received steps @ bev_received [st]"
    by (induction steps rule: bev_received.induct) simp_all
  have "bev_input (libevent_step st ?s) = []"
    by (rule eof_needs_empty_input [OF run(1) assms(4-6)])
  then show ?thesis
    using step_listening [OF run(1), of st] run(2) unfolding app
    by (metis append.right_neutral append_assoc)
qed

theorem eof_after_all_data_witness:
  "let s0 = libevent_make\<lparr>do_data := Some 1, do_error := Some 2\<rparr>;
       steps = [BevBytes [104, 105], BevEventCb True False Ezero []]
   in trace_data (em_trace (libevent_step (BevReadCb None) (libevent_run steps s0))) = [104, 105]"
proof -
  let ?s0 = "libevent_make\<lparr>do_data := Some 1, do_error := Some 2\<rparr>"
  let ?steps = "[BevBytes [104, 105], BevEventCb True False Ezero []]"
  let ?evs = "[(1, EvData [104, 105]), (2, EvError (new EofError))]"
  have s0: "listening ?s0" "bev_input ?s0 = []" "em_trace ?s0 = []"
    by (simp_all add: listening_def libevent_make_def emitter.extend_def emitter_init_def)
  have "em_trace (libevent_step (BevReadCb None) (libevent_run ?steps ?s0)) =
      em_trace (libevent_run ?steps ?s0) @ ?evs"
    by (simp add: libevent_run_def handle_event_def handle_read_def emit_data_def emit_error_def
        deliver_def libevent_make_def emitter.extend_def emitter_init_def Let_def)
  moreover have "(2, EvError (new EofError)) \<in> set ?evs"
    by simp
  ultimately have "trace_data (em_trace (libevent_step (BevReadCb None) (libevent_run ?steps ?s0))) =
      bev_received (?steps @ [BevReadCb None])"
    using eof_after_all_data [OF s0, of "BevReadCb None" ?steps ?evs 2] by blast
  then show ?thesis
    by simp
qed

text \<open>C54: The usage counter and the record of sent data account for every byte written, before and
  after \<open>close\<close>.\<close>

theorem writes_are_accounted:
  "du_up (em_run libevent_virtuals ops s) = du_up s + length (em_written ops)
    \<and> (rec_sent s \<and> OpRecordSent False \<notin> set ops \<longrightarrow>
        sent_data (em_run libevent_virtuals ops s) = sent_data s @ em_written ops)"
  using libevent.run_usage libevent.run_recorded by blast

theorem writes_are_accounted_witness:
  "sent_data (em_run libevent_virtuals [OpWrite [1], OpClose None, OpWrite [2]]
    (libevent_make\<lparr>rec_sent := True\<rparr>)) = [1, 2]"
proof -
  have "rec_sent (libevent_make\<lparr>rec_sent := True\<rparr>)"
    "sent_data (libevent_make\<lparr>rec_sent := True\<rparr>) = []"
    "OpRecordSent False \<notin> set [OpWrite [1], OpClose None, OpWrite [2]]"
    by (simp_all add: libevent_make_def emitter.extend_def emitter_init_def)
  then show ?thesis
    using writes_are_accounted
      [of "[OpWrite [1], OpClose None, OpWrite [2]]" "libevent_make\<lparr>rec_sent := True\<rparr>"] by simp
qed

end
