(* ===== verification/Socks5.thy ===== *)
theory Socks5
  imports Emitter Settings "HOL-Library.Sublist"
begin

text \<open>
  \<open>net/socks5.cpp\<close> and \<open>net/socks5.hpp\<close>: the client side of SOCKSv5 over an existing connection.
  \<open>s5_on_data\<close> is the handler registered on that connection; the source replaces it at each
  step of the handshake, which is the phase of the state here.  Whether a plain \<open>char\<close> is
  signed belongs to the platform and is the argument \<open>cs\<close>; sizes are 64-bit words.
\<close>

section \<open>Messages\<close>

definition char_val :: "bool \<Rightarrow> uint8 \<Rightarrow> int" where
  "char_val cs b = (if cs then sint b else uint b)"

definition socks5_format_auth_request :: bytes where
  "socks5_format_auth_request = [5, 1, 0]"

definition socks5_parse_auth_response :: "bool \<Rightarrow> bytes \<Rightarrow> bool error_or \<times> bytes" where
  "socks5_parse_auth_response cs buffer =
    (let (readbuf, buffer) = bb_readn 2 buffer in
     if readbuf = [] then (no_err False, buffer)
     else if char_val cs (readbuf ! 0) \<noteq> 5 then ((new BadSocksVersionError, False), buffer)
     else if char_val cs (readbuf ! 1) \<noteq> 0
     then ((new NoAvailableSocksAuthenticationError, False), buffer)
     else (no_err True, buffer))"

definition socks5_format_connect_request :: "settings \<Rightarrow> bytes error_or res" where
  "socks5_format_connect_request st =
    (let out = [5, 1, 0, 3]; address = settings_at st ''net/address'' in
     if length address > 255 then Inr (new SocksAddressTooLongError, [])
     else
       let out = out @ [word_of_nat (length address)] @ bytes_of address in
       case as_int (settings_at st ''net/port'') of
         Inl x \<Rightarrow> Inl x
       | Inr portnum \<Rightarrow>
           if portnum < 0 \<or> portnum > 65535 then Inr (new SocksInvalidPortError, [])
           else Inr (no_err (out @ be16 (word_of_int portnum))))"

text \<open>The size of a reply from its type of address and its fifth byte, as a \<open>size_t\<close>.\<close>

definition socks5_reply_total :: "bool \<Rightarrow> int \<Rightarrow> uint8 \<Rightarrow> uint64 option" where
  "socks5_reply_total cs atype len =
    (let tot = 4 in
     map_option (\<lambda>tot. tot + 2)
       (if atype = 1 then Some (tot + 4)
        else if atype = 3 then Some (tot + word_of_int (1 + char_val cs len))
        else if atype = 4 then Some (tot + 16)
        else None))"

definition socks5_parse_connect_response :: "bool \<Rightarrow> bytes \<Rightarrow> bool error_or \<times> bytes" where
  "socks5_parse_connect_response cs buffer =
    (if length buffer < 5 then (no_err False, buffer)
     else
       let peekbuf = take 5 buffer in
       if char_val cs (peekbuf ! 0) \<noteq> 5 then ((new BadSocksVersionError, False), buffer)
       else if char_val cs (peekbuf ! 1) \<noteq> 0 then ((new SocksError, False), buffer)
       else if char_val cs (peekbuf ! 2) \<noteq> 0 then ((new BadSocksReservedFieldError, False), buffer)
       else case socks5_reply_total cs (char_val cs (peekbuf ! 3)) (peekbuf ! 4) of
         None \<Rightarrow> ((new BadSocksAtypeValueError, False), buffer)
       | Some tot \<Rightarrow>
           if (word_of_nat (length buffer) :: uint64) < tot then (no_err False, buffer)
           else (no_err True, drop (unat tot) buffer))"

section \<open>The handshake\<close>

datatype s5_phase = WaitAuth | WaitConnect | Established

record socks5 =
  s5_phase :: s5_phase
  s5_buffer :: bytes
  s5_written :: bytes
  s5_closed :: bool
  s5_events :: "em_event list"

definition s5_emit :: "em_event \<Rightarrow> socks5 \<Rightarrow> socks5" where
  "s5_emit ev s = s\<lparr>s5_events := s5_events s @ [ev]\<rparr>"

definition s5_write :: "bytes \<Rightarrow> socks5 \<Rightarrow> socks5" where
  "s5_write d s = s\<lparr>s5_written := s5_written s @ d\<rparr>"

definition s5_close :: "socks5 \<Rightarrow> socks5" where
  "s5_close s = s\<lparr>s5_closed := True\<rparr>"

definition socks5_connect_start :: socks5 where
  "socks5_connect_start =
    s5_write socks5_format_auth_request
      \<lparr>s5_phase = WaitAuth, s5_buffer = [], s5_written = [], s5_closed = False, s5_events = []\<rparr>"

text \<open>\<open>closes\<close> says whether the user's handler of the connect event closes the connection; a closed
  connection delivers no more data.\<close>

definition s5_on_data :: "bool \<Rightarrow> settings \<Rightarrow> bool \<Rightarrow> bytes \<Rightarrow> socks5 \<Rightarrow> socks5 res" where
  "s5_on_data cs st closes d s =
    (if s5_closed s then Inr s
     else case s5_phase s of
       WaitAuth \<Rightarrow>
         (let (result, buf) = socks5_parse_auth_response cs (s5_buffer s @ d);
              s = s\<lparr>s5_buffer := buf\<rparr>
          in if \<not> has_value result then Inr (s5_emit (EvError (as_error result)) s)
             else if \<not> snd result then Inr s
             else (case socks5_format_connect_request st of
                 Inl x \<Rightarrow> Inl x
               | Inr out \<Rightarrow>
                   if \<not> has_value out then Inr (s5_emit (EvError (as_error out)) s)
                   else Inr ((s5_write (snd out) s)\<lparr>s5_phase := WaitConnect\<rparr>)))
     | WaitConnect \<Rightarrow>
         (let (rc, buf) = socks5_parse_connect_response cs (s5_buffer s @ d);
              s = s\<lparr>s5_buffer := buf\<rparr>
          in if \<not> has_value rc then Inr (s5_emit (EvError (as_error rc)) s)
             else if \<not> snd rc then Inr s
             else
               let s = s\<lparr>s5_phase := Established\<rparr>;
                   s = s5_emit EvConnect s;
                   s = (if closes then s5_close s else s)
               in Inr (if \<not> s5_closed s \<and> 0 < length (s5_buffer s)
                       then s5_emit (EvData (s5_buffer s)) s else s))
     | Established \<Rightarrow> Inr (s5_emit (EvData d) s))"

fun s5_run :: "bool \<Rightarrow> settings \<Rightarrow> bool \<Rightarrow> bytes list \<Rightarrow> socks5 \<Rightarrow> socks5 res" where
  "s5_run cs st closes [] s = Inr s"
| "s5_run cs st closes (d # ds) s =
    (case s5_on_data cs st closes d s of Inl x \<Rightarrow> Inl x | Inr s' \<Rightarrow> s5_run cs st closes ds s')"

text \<open>\<open>socks5_connect\<close> splits the proxy at its first colon.\<close>

definition socks5_proxy_endpoint :: "settings \<Rightarrow> (string \<times> int) res" where
  "socks5_proxy_endpoint st =
    (let proxy = settings_at st ''net/socks5_proxy'' in
     if CHR '':'' \<notin> set proxy then Inl (RuntimeError ''invalid argument'')
     else
       let address = takeWhile (\<lambda>c. c \<noteq> CHR '':'') proxy;
           port = tl (dropWhile (\<lambda>c. c \<noteq> CHR '':'') proxy)
       in map_sum id (Pair address) (lexical_cast_int port))"

definition socks5_connect_settings :: "string \<Rightarrow> int \<Rightarrow> settings \<Rightarrow> settings" where
  "socks5_connect_settings address port st =
    st(''net/address'' \<mapsto> address, ''net/port'' \<mapsto> scalar_of_int port)"

section \<open>Replies\<close>

text \<open>The replies of RFC 1928 that the client can measure: with signed characters a name must be
  shorter than 128 bytes.\<close>

definition s5_reply :: "bool \<Rightarrow> bytes \<Rightarrow> bool" where
  "s5_reply cs resp \<longleftrightarrow>
    (\<exists>atype body port. resp = [5, 0, 0, atype] @ body @ port \<and> length port = 2
      \<and> (atype = 1 \<and> length body = 4 \<or> atype = 4 \<and> length body = 16
         \<or> atype = 3 \<and> (\<exists>n name. body = n # name \<and> length name = unat n
              \<and> (cs \<longrightarrow> unat n < 128))))"

lemma char_val_unsigned: "\<not> cs \<Longrightarrow> char_val cs b = int (unat b)"
  unfolding char_val_def uint_nat by (simp only: if_False)

lemma signed_bits:
  fixes x :: int
  shows "0 \<le> x \<Longrightarrow> x < 128 \<Longrightarrow> signed_take_bit 7 x = x"
    and "128 \<le> x \<Longrightarrow> x < 256 \<Longrightarrow> signed_take_bit 7 x = x - 256"
proof -
  show "0 \<le> x \<Longrightarrow> x < 128 \<Longrightarrow> signed_take_bit 7 x = x"
    by (rule signed_take_bit_int_eq_self) simp_all
  assume "128 \<le> x" "x < 256"
  then have "signed_take_bit 7 (x - 256) = x - 256"
    by (intro signed_take_bit_int_eq_self) simp_all
  moreover have "signed_take_bit 7 x = signed_take_bit 7 (x - 256)"
    by (rule signed_take_bit_eq_iff_take_bit_eq [THEN iffD2]) (simp add: take_bit_eq_mod)
  ultimately show "signed_take_bit 7 x = x - 256"
    by simp
qed

lemma sint_small: "unat (b :: uint8) < 128 \<Longrightarrow> sint b = int (unat b)"
proof -
  assume "unat b < 128"
  then have "0 \<le> int (unat b)" "int (unat b) < 128"
    by linarith+
  from signed_bits(1) [OF this] show ?thesis
    unfolding sint_uint uint_nat by simp
qed

lemma sint_big: "128 \<le> unat (b :: uint8) \<Longrightarrow> sint b = int (unat b) - 256"
proof -
  assume "128 \<le> unat b"
  then have "128 \<le> int (unat b)" "int (unat b) < 256"
    using uint8_lt [of b] by linarith+
  from signed_bits(2) [OF this] show ?thesis
    unfolding sint_uint uint_nat by simp
qed

lemma char_val_small:
  assumes "cs \<Longrightarrow> unat b < 128"
  shows "char_val cs b = int (unat b)"
  using assms sint_small char_val_unsigned by (cases cs) (simp_all add: char_val_def)

lemma char_val_consts [simp]:
  "char_val cs 0 = 0" "char_val cs 1 = 1" "char_val cs 3 = 3" "char_val cs 4 = 4" "char_val cs 5 = 5"
  by (simp_all add: char_val_def)

lemma unat_word_nat64: "n < 2 ^ 64 \<Longrightarrow> unat (word_of_nat n :: uint64) = n"
  by (simp add: unsigned_of_nat take_bit_nat_eq_self_iff)

lemma s5_reply_length:
  assumes "s5_reply cs resp"
  shows "7 \<le> length resp \<and> length resp < 300"
proof -
  obtain atype body port where r: "resp = [5, 0, 0, atype] @ body @ port" "length port = 2"
    and t: "atype = 1 \<and> length body = 4 \<or> atype = 4 \<and> length body = 16
         \<or> atype = 3 \<and> (\<exists>n name. body = n # name \<and> length name = unat n \<and> (cs \<longrightarrow> unat n < 128))"
    using assms unfolding s5_reply_def by blast
  from t have "1 \<le> length body \<and> length body < 257"
  proof (elim disjE conjE exE)
    fix n name assume "body = n # name" "length name = unat n"
    then show ?thesis
      using uint8_lt [of n] by simp
  qed simp_all
  then show ?thesis
    using r by simp
qed

lemma word64_less_iff:
  "m < 2 ^ 64 \<Longrightarrow> n < 2 ^ 64 \<Longrightarrow> (word_of_nat m :: uint64) < word_of_nat n \<longleftrightarrow> m < n"
  by (simp add: word_less_nat_alt unat_word_nat64)

text \<open>The client waits for the whole of a reply it can measure and takes exactly that.\<close>

lemma parse_reply:
  assumes "s5_reply cs resp" and "length buf < 2 ^ 64" and "prefix buf resp \<or> prefix resp buf"
  shows "socks5_parse_connect_response cs buf =
    (if length buf < length resp then (no_err False, buf) else (no_err True, drop (length resp) buf))"
proof (cases "length buf < 5")
  case True
  then show ?thesis
    using s5_reply_length [OF assms(1)] by (simp add: socks5_parse_connect_response_def)
next
  case False
  obtain atype body port where r: "resp = [5, 0, 0, atype] @ body @ port" "length port = 2"
    and t: "atype = 1 \<and> length body = 4 \<or> atype = 4 \<and> length body = 16
         \<or> atype = 3 \<and> (\<exists>n name. body = n # name \<and> length name = unat n \<and> (cs \<longrightarrow> unat n < 128))"
    using assms(1) unfolding s5_reply_def by blast
  define L where "L = length resp"
  have L: "L < 300" "5 \<le> L"
    using s5_reply_length [OF assms(1)] by (simp_all add: L_def)
  have five: "take 5 buf = take 5 resp"
    using assms(3) False L(2) unfolding L_def prefix_def by (elim disjE exE) simp_all
  obtain x xs where body: "body = x # xs"
    using t by (cases body) auto
  have peek: "take 5 buf ! 0 = 5" "take 5 buf ! 1 = 0" "take 5 buf ! 2 = 0" "take 5 buf ! 3 = atype"
    "take 5 buf ! 4 = x"
    unfolding five r(1) body by simp_all
  have total: "socks5_reply_total cs (char_val cs atype) x = Some (word_of_nat L)"
    using t
  proof (elim disjE conjE exE)
    fix n name
    assume n: "atype = 3" "body = n # name" "length name = unat n" "cs \<longrightarrow> unat n < 128"
    then have "char_val cs x = int (unat n)"
      using char_val_small [of cs n] body by auto
    moreover have "L = 7 + unat n"
      using n r by (simp add: L_def)
    ultimately show ?thesis
      using n(1) by (simp add: socks5_reply_total_def)
  qed (use r in \<open>simp_all add: L_def socks5_reply_total_def\<close>)
  have lt: "(word_of_nat (length buf) :: uint64) < word_of_nat L \<longleftrightarrow> length buf < L"
    using assms(2) L(1) by (intro word64_less_iff) simp_all
  have unat: "unat (word_of_nat L :: uint64) = L"
    using L(1) by (intro unat_word_nat64) simp
  show ?thesis
    using False unfolding socks5_parse_connect_response_def Let_def peek total option.case lt unat
    by (simp add: L_def)
qed

section \<open>Runs of the handshake\<close>

lemma s5_run_append:
  "s5_run cs st closes (ds @ ds') s =
    (case s5_run cs st closes ds s of Inl x \<Rightarrow> Inl x | Inr s' \<Rightarrow> s5_run cs st closes ds' s')"
  by (induction ds arbitrary: s) (simp_all split: sum.split)

lemma established_run:
  assumes "s5_phase s = Established" "\<not> s5_closed s"
  shows "s5_run cs st closes ds s = Inr (s\<lparr>s5_events := s5_events s @ map EvData ds\<rparr>)"
  using assms by (induction ds arbitrary: s) (simp_all add: s5_on_data_def s5_emit_def)

lemma auth_run:
  assumes "s5_phase s = WaitAuth" "\<not> s5_closed s" "s5_buffer s @ concat ds = [5, 0]"
    "length (s5_buffer s) < 2" "[] \<notin> set ds"
    "socks5_format_connect_request st = Inr (no_err req)"
  shows "s5_run cs st closes ds s =
    Inr (s\<lparr>s5_buffer := [], s5_written := s5_written s @ req, s5_phase := WaitConnect\<rparr>)"
  using assms
proof (induction ds arbitrary: s)
  case Nil
  then show ?case by simp
next
  case (Cons d ds)
  have le: "length (s5_buffer s @ d) \<le> 2"
    using arg_cong [OF Cons.prems(3), of length] by simp
  show ?case
  proof (cases "length (s5_buffer s @ d) < 2")
    case True
    then have "socks5_parse_auth_response cs (s5_buffer s @ d) = (no_err False, s5_buffer s @ d)"
      by (simp add: socks5_parse_auth_response_def bb_readn_def)
    then have "s5_on_data cs st closes d s = Inr (s\<lparr>s5_buffer := s5_buffer s @ d\<rparr>)"
      using Cons.prems(1,2) by (simp add: s5_on_data_def no_err_def NoError_def)
    moreover have "s5_run cs st closes ds (s\<lparr>s5_buffer := s5_buffer s @ d\<rparr>) =
        Inr (s\<lparr>s5_buffer := [], s5_written := s5_written s @ req, s5_phase := WaitConnect\<rparr>)"
      using Cons.IH [of "s\<lparr>s5_buffer := s5_buffer s @ d\<rparr>"] Cons.prems True by simp
    ultimately show ?thesis
      by simp
  next
    case False
    then have two: "length (s5_buffer s @ d) = 2"
      using le by simp
    then have all: "s5_buffer s @ d = [5, 0]" and "concat ds = []"
      using Cons.prems(3) append_eq_append_conv [of "s5_buffer s @ d" "[5, 0]" "concat ds" "[]"]
      by simp_all
    then have "ds = []"
      using Cons.prems(5) by (cases ds) auto
    moreover have "socks5_parse_auth_response cs [5, 0] = (no_err True, [])"
      by (simp add: socks5_parse_auth_response_def bb_readn_def bb_read_def)
    then have "s5_on_data cs st closes d s =
        Inr (s\<lparr>s5_buffer := [], s5_written := s5_written s @ req, s5_phase := WaitConnect\<rparr>)"
      using Cons.prems(1,2,6) all by (simp add: s5_on_data_def s5_write_def no_err_def NoError_def)
    ultimately show ?thesis
      by simp
  qed
qed

lemma connect_run:
  assumes "s5_phase s = WaitConnect" "\<not> s5_closed s" "s5_buffer s @ concat ds = resp @ extra"
    "length (s5_buffer s) < length resp" "s5_reply cs resp" "length (resp @ extra) < 2 ^ 64"
  shows "\<exists>ds' buf. s5_run cs st False ds s =
      Inr (s\<lparr>s5_buffer := buf, s5_phase := Established,
             s5_events := s5_events s @ EvConnect # map EvData ds'\<rparr>)
    \<and> concat ds' = extra"
  using assms
proof (induction ds arbitrary: s)
  case Nil
  then show ?case
    using arg_cong [OF Nil.prems(3), of length] by simp
next
  case (Cons d ds)
  let ?buf = "s5_buffer s @ d"
  have eq: "?buf @ concat ds = resp @ extra"
    using Cons.prems(3) by simp
  have pre: "prefix ?buf resp \<or> prefix resp ?buf"
    using eq by (metis prefix_same_cases prefixI)
  have len: "length ?buf < 2 ^ 64"
    using arg_cong [OF eq, of length] Cons.prems(6) by simp
  note parse = parse_reply [OF Cons.prems(5) len pre]
  show ?case
  proof (cases "length ?buf < length resp")
    case True
    then have "s5_on_data cs st False d s = Inr (s\<lparr>s5_buffer := ?buf\<rparr>)"
      using Cons.prems(1,2) parse by (simp add: s5_on_data_def no_err_def NoError_def)
    then show ?thesis
      using Cons.IH [of "s\<lparr>s5_buffer := ?buf\<rparr>"] Cons.prems True by simp
  next
    case False
    define e where "e = drop (length resp) ?buf"
    obtain zs where zs: "?buf = resp @ zs"
    proof (cases "prefix resp ?buf")
      case True
      then show ?thesis using that by (auto simp: prefix_def)
    next
      case no: False
      then have "?buf = resp"
        using pre False by (metis append_eq_conv_conj linorder_not_less prefix_def take_all_iff)
      then show ?thesis using that by simp
    qed
    then have split: "?buf = resp @ e"
      unfolding e_def zs by simp
    then have extra: "e @ concat ds = extra"
      using eq by simp
    let ?s = "s\<lparr>s5_buffer := e, s5_phase := Established,
      s5_events := s5_events s @ EvConnect # (if e = [] then [] else [EvData e])\<rparr>"
    have p: "socks5_parse_connect_response cs ?buf = (no_err True, e)"
      unfolding parse e_def using False by (simp only: if_False)
    have "s5_on_data cs st False d s = Inr ?s"
      using Cons.prems(1,2) p by (simp add: s5_on_data_def no_err_def NoError_def s5_emit_def Let_def)
    then have "s5_run cs st False (d # ds) s = Inr (?s\<lparr>s5_events := s5_events ?s @ map EvData ds\<rparr>)"
      using established_run [of ?s cs st False ds] Cons.prems(2) by simp
    moreover have "?s\<lparr>s5_events := s5_events ?s @ map EvData ds\<rparr> =
        s\<lparr>s5_buffer := e, s5_phase := Established, s5_events := s5_events s
          @ EvConnect # map EvData ((if e = [] then [] else [e]) @ ds)\<rparr>"
      by simp
    moreover have "concat ((if e = [] then [] else [e]) @ ds) = extra"
      using extra by auto
    ultimately show ?thesis
      by metis
  qed
qed

section \<open>Properties\<close>

lemma format_connect_request_ok:
  assumes "length address \<le> 255" "0 \<le> port" "port \<le> 65535"
  shows "socks5_format_connect_request (socks5_connect_settings address port st) =
    Inr (no_err ([5, 1, 0, 3, word_of_nat (length address)] @ bytes_of address @ be16 (word_of_int port)))"
proof -
  have "as_int (scalar_of_int port) = Inr port"
    using assms by (intro as_int_of_int) (simp add: int_range_def INT_MIN_def INT_MAX_def)
  then show ?thesis
    using assms by (simp add: socks5_format_connect_request_def socks5_connect_settings_def
        settings_at_def Let_def)
qed

text \<open>C12: However the network cuts the proxy's answers into chunks, the handshake writes the two
  requests, reports the connection once and then hands over exactly the bytes that follow
  the reply, in order; provided the proxy answers each request after it was sent.\<close>

theorem socks5_handshake_chunks:
  assumes "length address \<le> 255" and "0 \<le> port" and "port \<le> 65535"
    and "concat ds1 = [5, 0]" and "[] \<notin> set ds1"
    and "s5_reply cs resp" and "concat ds2 = resp @ extra" and "length (resp @ extra) < 2 ^ 64"
  shows "\<exists>s ds'. s5_run cs (socks5_connect_settings address port st) False (ds1 @ ds2)
        socks5_connect_start = Inr s
    \<and> s5_events s = EvConnect # map EvData ds' \<and> concat ds' = extra
    \<and> s5_written s = [5, 1, 0] @ [5, 1, 0, 3, word_of_nat (length address)]
        @ bytes_of address @ be16 (word_of_int port)"
proof -
  let ?st = "socks5_connect_settings address port st"
  let ?req = "[5, 1, 0, 3, word_of_nat (length address)] @ bytes_of address @ be16 (word_of_int port)"
  let ?s1 = "socks5_connect_start\<lparr>s5_buffer := [],
    s5_written := s5_written socks5_connect_start @ ?req, s5_phase := WaitConnect\<rparr>"
  have start: "s5_phase socks5_connect_start = WaitAuth" "\<not> s5_closed socks5_connect_start"
    "s5_buffer socks5_connect_start = []" "s5_events socks5_connect_start = []"
    "s5_written socks5_connect_start = [5, 1, 0]"
    by (simp_all add: socks5_connect_start_def s5_write_def socks5_format_auth_request_def)
  have run1: "s5_run cs ?st False ds1 socks5_connect_start = Inr ?s1"
    by (rule auth_run) (use assms(4,5) start format_connect_request_ok [OF assms(1-3)] in simp_all)
  obtain ds' buf where run2: "s5_run cs ?st False ds2 ?s1 = Inr (?s1\<lparr>s5_buffer := buf,
      s5_phase := Established, s5_events := s5_events ?s1 @ EvConnect # map EvData ds'\<rparr>)"
    and ds': "concat ds' = extra"
  proof -
    have "s5_phase ?s1 = WaitConnect" "\<not> s5_closed ?s1" "s5_buffer ?s1 @ concat ds2 = resp @ extra"
      "length (s5_buffer ?s1) < length resp"
      using assms(7) start s5_reply_length [OF assms(6)] by auto
    from connect_run [OF this assms(6,8)] show ?thesis
      using that by blast
  qed
  show ?thesis
    unfolding s5_run_append run1 sum.case run2
    using ds' start by (intro exI conjI) (rule refl, simp_all)
qed

theorem socks5_handshake_chunks_witness:
  "\<exists>s ds'. s5_run True (socks5_connect_settings ''a.b'' 80 Map.empty) False
      ([[5], [0]] @ [[5, 0, 0], [1, 0, 0, 0, 0, 0, 0, 7, 8]]) socks5_connect_start = Inr s
    \<and> s5_events s = EvConnect # map EvData ds' \<and> concat ds' = [7, 8]"
proof -
  have "s5_reply True ([5, 0, 0, 1] @ [0, 0, 0, 0] @ [0, 0])"
    unfolding s5_reply_def by (intro exI conjI) (rule refl, simp_all)
  then have "s5_reply True [5, 0, 0, 1, 0, 0, 0, 0, 0, 0]"
    by simp
  moreover have "length ''a.b'' \<le> 255" "(0 :: int) \<le> 80" "(80 :: int) \<le> 65535"
    "concat [[5], [0]] = [5, 0 :: uint8]" "[] \<notin> set [[5], [0 :: uint8]]"
    "concat [[5, 0, 0], [1, 0, 0, 0, 0, 0, 0, 7, 8]] = [5, 0, 0, 1, 0, 0, 0, 0, 0, 0] @ [7, 8 :: uint8]"
    "length ([5, 0, 0, 1, 0, 0, 0, 0, 0, 0] @ [7, 8 :: uint8]) < 2 ^ 64"
    by simp_all
  ultimately show ?thesis
    using socks5_handshake_chunks by blast
qed

text \<open>C51: Where \<open>char\<close> is signed, a proxy that answers with a domain name of 128 to 248 bytes is
  never understood: the length byte is read as a negative number, the computed size wraps
  around, and the client waits for more bytes whatever it has received.\<close>

theorem socks5_long_name_stalls:
  assumes "128 \<le> unat n" and "unat n \<le> 248" and "length rest < 2 ^ 63"
  shows "socks5_parse_connect_response True ([5, 0, 0, 3, n] @ rest) =
    (no_err False, [5, 0, 0, 3, n] @ rest)"
proof -
  let ?buf = "[5, 0, 0, 3, n] @ rest"
  have peek: "take 5 ?buf ! 0 = 5" "take 5 ?buf ! 1 = 0" "take 5 ?buf ! 2 = 0" "take 5 ?buf ! 3 = 3"
    "take 5 ?buf ! 4 = n"
    by simp_all
  have n: "char_val True n = int (unat n) - 256"
    using sint_big [OF assms(1)] by (simp add: char_val_def)
  define m where "m = 249 - unat n"
  have m: "int (unat n) - 249 = - int m" "m \<le> 2 ^ 64" "1 \<le> m" "m < 122"
    using assms(1,2) by (simp_all add: m_def)
  have "(word_of_nat (2 ^ 64) :: uint64) = 0"
    by simp
  then have neg: "(word_of_nat (2 ^ 64 - m) :: uint64) = - word_of_nat m"
    using of_nat_diff [OF m(2), where 'a = uint64] by simp
  have "(4 :: uint64) + word_of_int (1 + (int (unat n) - 256)) + 2 = word_of_int (int (unat n) - 249)"
    by simp
  also have "\<dots> = word_of_nat (2 ^ 64 - m)"
    unfolding m(1) neg by simp
  finally have tot: "socks5_reply_total True (char_val True 3) n = Some (word_of_nat (2 ^ 64 - m))"
    by (simp add: socks5_reply_total_def n)
  have "(word_of_nat (length ?buf) :: uint64) < word_of_nat (2 ^ 64 - m)"
    using assms m by (subst word64_less_iff) simp_all
  then show ?thesis
    unfolding socks5_parse_connect_response_def Let_def peek tot option.case by simp
qed

theorem socks5_long_name_stalls_witness:
  "socks5_parse_connect_response True ([5, 0, 0, 3, 200] @ replicate 202 0) =
    (no_err False, [5, 0, 0, 3, 200] @ replicate 202 0)"
  by (rule socks5_long_name_stalls) simp_all

end
