(* ===== verification/Concurrent.thy ===== *)
theory Concurrent
  imports Errors
begin

text \<open>
  \<open>common/parallel.hpp\<close>, \<open>common/worker.cpp\<close> and \<open>common/every.cpp\<close>: running asynchronous
  operations side by side on one thread, and tasks on a bounded number of threads.  The
  environment chooses which operation completes, which thread runs next; every choice is
  a step, and the theorems hold for every order of the steps.
\<close>

section \<open>parallel\<close>

text \<open>\<open>par_next\<close> is the counter of the loop that starts the first \<open>parallelism\<close> operations (an
  operation may complete before the loop goes on), \<open>par_running\<close> the operations that were
  started and have not called back, \<open>par_calls\<close> the arguments \<open>cb\<close> was called with.\<close>

record par =
  par_overall :: error
  par_completed :: nat
  par_next :: nat
  par_running :: "nat set"
  par_started :: "nat list"
  par_calls :: "error list"

datatype par_step = ParLoop | ParDone nat error

definition set_child :: "nat \<Rightarrow> error \<Rightarrow> error \<Rightarrow> error" where
  "set_child idx e ov = Error ((child_errors ov)[idx := e]) (code ov) (reason ov)"

definition par_run :: "nat \<Rightarrow> nat \<Rightarrow> par \<Rightarrow> par" where
  "par_run n idx s =
    (if idx < n
     then s\<lparr>par_running := insert idx (par_running s), par_started := par_started s @ [idx]\<rparr>
     else s)"

definition par_complete :: "nat \<Rightarrow> nat \<Rightarrow> nat \<Rightarrow> error \<Rightarrow> par \<Rightarrow> par res" where
  "par_complete n parallelism idx error s =
    (let overall = par_overall s;
         overall = (if is_err error \<and> err_eq overall (new NoError)
                    then Error (child_errors overall) (code (new ParallelOperationError))
                           (reason (new ParallelOperationError))
                    else overall);
         overall = set_child idx error overall;
         s = s\<lparr>par_overall := overall, par_completed := par_completed s + 1,
               par_running := par_running s - {idx}\<rparr>
     in if par_completed s = n then Inr (s\<lparr>par_calls := par_calls s @ [overall]\<rparr>)
        else if par_completed s > n then Inl (RuntimeError ''unexpected *complete value'')
        else Inr (par_run n (idx + parallelism) s))"

definition par_init :: "nat \<Rightarrow> par" where
  "par_init n =
    \<lparr>par_overall = Error (replicate n (new NoError)) 0 [], par_completed = 0, par_next = 0,
     par_running = {}, par_started = [],
     par_calls = (if n = 0 then [new NoError] else [])\<rparr>"

definition par_width :: "nat \<Rightarrow> nat \<Rightarrow> nat" where
  "par_width n parallelism = (if parallelism = 0 then n else parallelism)"

text \<open>One step of the loop, or the callback of a running operation.\<close>

inductive par_exec :: "nat \<Rightarrow> nat \<Rightarrow> par \<Rightarrow> par_step \<Rightarrow> par \<Rightarrow> bool" for n w where
  par_loop: "par_next s < w \<Longrightarrow>
    par_exec n w s ParLoop ((par_run n (par_next s) s)\<lparr>par_next := par_next s + 1\<rparr>)"
| par_done: "idx \<in> par_running s \<Longrightarrow> par_complete n w idx e s = Inr s' \<Longrightarrow>
    par_exec n w s (ParDone idx e) s'"

inductive par_reach :: "nat \<Rightarrow> nat \<Rightarrow> par_step list \<Rightarrow> par \<Rightarrow> bool" for n w where
  par_start: "par_reach n w [] (par_init n)"
| par_next: "par_reach n w steps s \<Longrightarrow> par_exec n w s st s' \<Longrightarrow> par_reach n w (steps @ [st]) s'"

inductive_cases par_exec_loopE: "par_exec n w s ParLoop s'"
inductive_cases par_exec_doneE: "par_exec n w s (ParDone idx e) s'"

definition par_results :: "par_step list \<Rightarrow> (nat \<times> error) list" where
  "par_results steps = concat (map (\<lambda>st. case st of ParLoop \<Rightarrow> [] | ParDone i e \<Rightarrow> [(i, e)]) steps)"

text \<open>What holds after any steps, the results so far being \<open>rs\<close>.\<close>

definition par_inv :: "nat \<Rightarrow> nat \<Rightarrow> (nat \<times> error) list \<Rightarrow> par \<Rightarrow> bool" where
  "par_inv n w rs s \<longleftrightarrow>
    par_completed s = length rs \<and> distinct (map fst rs)
    \<and> set (par_started s) = fst ` set rs \<union> par_running s \<and> distinct (par_started s)
    \<and> fst ` set rs \<inter> par_running s = {}
    \<and> set (par_started s) = {i. i < n \<and> (i < w \<and> i < par_next s \<or> w \<le> i \<and> i - w \<in> fst ` set rs)}
    \<and> par_next s \<le> w
    \<and> code (par_overall s) = (if \<exists>r \<in> set rs. is_err (snd r) then 10 else 0)
    \<and> length (child_errors (par_overall s)) = n
    \<and> (\<forall>(i, e) \<in> set rs. child_errors (par_overall s) ! i = e)
    \<and> par_calls s = (if length rs = n then [par_overall s] else [])"

lemma par_inv_init:
  assumes "0 < n"
  shows "par_inv n w [] (par_init n)"
  using assms by (auto simp: par_inv_def par_init_def)

lemma par_invI:
  assumes "par_completed s = length rs" "distinct (map fst rs)" "distinct (par_started s)"
    "set (par_started s) = fst ` set rs \<union> par_running s" "fst ` set rs \<inter> par_running s = {}"
    "set (par_started s) = {i. i < n \<and> (i < w \<and> i < par_next s \<or> w \<le> i \<and> i - w \<in> fst ` set rs)}"
    "par_next s \<le> w" "code (par_overall s) = (if \<exists>r \<in> set rs. is_err (snd r) then 10 else 0)"
    "length (child_errors (par_overall s)) = n"
    "\<forall>(i, e) \<in> set rs. child_errors (par_overall s) ! i = e"
    "par_calls s = (if length rs = n then [par_overall s] else [])"
  shows "par_inv n w rs s"
  unfolding par_inv_def by (intro conjI assms)

lemma par_invD:
  assumes "par_inv n w rs s"
  shows "par_completed s = length rs" "distinct (map fst rs)" "distinct (par_started s)"
    "set (par_started s) = fst ` set rs \<union> par_running s" "fst ` set rs \<inter> par_running s = {}"
    "set (par_started s) = {i. i < n \<and> (i < w \<and> i < par_next s \<or> w \<le> i \<and> i - w \<in> fst ` set rs)}"
    "par_next s \<le> w" "code (par_overall s) = (if \<exists>r \<in> set rs. is_err (snd r) then 10 else 0)"
    "length (child_errors (par_overall s)) = n"
    "\<forall>(i, e) \<in> set rs. child_errors (par_overall s) ! i = e"
    "par_calls s = (if length rs = n then [par_overall s] else [])"
  by (insert assms [unfolded par_inv_def], (elim conjE, assumption)+)

lemma par_inv_loop:
  assumes "par_inv n w rs s" and "par_next s < w"
  shows "par_inv n w rs ((par_run n (par_next s) s)\<lparr>par_next := par_next s + 1\<rparr>)"
    (is "par_inv n w rs ?s")
proof -
  note D = par_invD [OF assms(1)]
  let ?i = "par_next s"
  have new: "?i \<notin> set (par_started s)"
    unfolding D(6) using assms(2) by simp
  then have notin: "?i \<notin> fst ` set rs" "?i \<notin> par_running s"
    unfolding D(4) by blast+
  have shape: "{i. i < n \<and> (i < w \<and> i < Suc ?i \<or> w \<le> i \<and> i - w \<in> fst ` set rs)} =
      set (par_started s) \<union> (if ?i < n then {?i} else {})"
    unfolding D(6) using assms(2) by (auto simp: less_Suc_eq)
  show ?thesis
  proof (rule par_invI)
    show "distinct (par_started ?s)"
      using D(3) new by (simp add: par_run_def)
    show "set (par_started ?s) = fst ` set rs \<union> par_running ?s"
      using D(4) by (simp add: par_run_def)
    show "fst ` set rs \<inter> par_running ?s = {}"
      using D(5) notin by (simp add: par_run_def)
    show "set (par_started ?s) =
        {i. i < n \<and> (i < w \<and> i < par_next ?s \<or> w \<le> i \<and> i - w \<in> fst ` set rs)}"
      using shape by (simp add: par_run_def)
  qed (use D assms(2) in \<open>simp_all add: par_run_def\<close>)
qed

lemma par_inv_bound:
  assumes "par_inv n w rs s"
  shows "length rs \<le> n" and "idx \<in> par_running s \<Longrightarrow> length rs < n \<and> idx < n"
proof -
  have sub: "fst ` set rs \<union> par_running s \<subseteq> {..<n}"
    using assms by (auto simp: par_inv_def)
  have card: "card (fst ` set rs) = length rs"
    using assms by (simp add: par_inv_def distinct_card flip: set_map)
  show "length rs \<le> n"
    using card_mono [of "{..<n}" "fst ` set rs"] sub card by simp
  assume idx: "idx \<in> par_running s"
  then have "idx \<notin> fst ` set rs" "idx < n"
    using assms sub by (auto simp: par_inv_def)
  moreover from this have "card (insert idx (fst ` set rs)) \<le> n"
    using card_mono [of "{..<n}" "insert idx (fst ` set rs)"] sub idx by auto
  ultimately show "length rs < n \<and> idx < n"
    using card by simp
qed

lemma set_child_simps [simp]:
  "code (set_child i e ov) = code ov" "child_errors (set_child i e ov) = (child_errors ov)[i := e]"
  by (simp_all add: set_child_def)

text \<open>The state right after the counters were updated, before the next operation is started.\<close>

definition par_settle :: "nat \<Rightarrow> error \<Rightarrow> par \<Rightarrow> par" where
  "par_settle idx error s =
    (let overall = par_overall s;
         overall = (if is_err error \<and> err_eq overall (new NoError)
                    then Error (child_errors overall) (code (new ParallelOperationError))
                           (reason (new ParallelOperationError))
                    else overall)
     in s\<lparr>par_overall := set_child idx error overall, par_completed := par_completed s + 1,
          par_running := par_running s - {idx}\<rparr>)"

lemma par_complete_eq:
  "par_complete n w idx e s =
    (let s' = par_settle idx e s in
     if par_completed s' = n then Inr (s'\<lparr>par_calls := par_calls s' @ [par_overall s']\<rparr>)
     else if par_completed s' > n then Inl (RuntimeError ''unexpected *complete value'')
     else Inr (par_run n (idx + w) s'))"
  by (simp add: par_complete_def par_settle_def Let_def)

lemma par_settle_overall:
  assumes "par_inv n w rs s" and "idx \<in> par_running s"
  shows "code (par_overall (par_settle idx e s)) = (if \<exists>r \<in> set (rs @ [(idx, e)]). is_err (snd r) then 10 else 0)"
    and "length (child_errors (par_overall (par_settle idx e s))) = n"
    and "\<forall>(i, f) \<in> set (rs @ [(idx, e)]). child_errors (par_overall (par_settle idx e s)) ! i = f"
proof -
  note c = par_invD(8) [OF assms(1)] and len = par_invD(9) [OF assms(1)]
    and ch = par_invD(10) [OF assms(1)]
  have dis: "idx \<notin> fst ` set rs"
    using par_invD(5) [OF assms(1)] assms(2) by blast
  have idx: "idx < n"
    using par_inv_bound(2) [OF assms] by blast
  show "code (par_overall (par_settle idx e s)) = (if \<exists>r \<in> set (rs @ [(idx, e)]). is_err (snd r) then 10 else 0)"
    using c by (simp add: par_settle_def Let_def err_eq_def err_simps)
  have ce: "child_errors (par_overall (par_settle idx e s)) = (child_errors (par_overall s))[idx := e]"
    by (simp add: par_settle_def Let_def)
  show "length (child_errors (par_overall (par_settle idx e s))) = n"
    unfolding ce using len by simp
  show "\<forall>(i, f) \<in> set (rs @ [(idx, e)]). child_errors (par_overall (par_settle idx e s)) ! i = f"
  proof (intro ballI)
    fix r assume r: "r \<in> set (rs @ [(idx, e)])"
    obtain i f where if': "r = (i, f)"
      by (cases r)
    show "case r of (i, f) \<Rightarrow> child_errors (par_overall (par_settle idx e s)) ! i = f"
    proof (cases "i = idx")
      case True
      then have "f = e"
        using r dis if' by (auto simp: rev_image_eqI)
      then show ?thesis
        using True if' idx len by (simp add: ce)
    next
      case False
      then show ?thesis
        using r ch if' by (auto simp: ce)
    qed
  qed
qed

lemma par_inv_done:
  assumes inv: "par_inv n w rs s" and idx: "idx \<in> par_running s" and w: "0 < w"
  shows "\<exists>s'. par_complete n w idx e s = Inr s' \<and> par_inv n w (rs @ [(idx, e)]) s'"
proof -
  let ?s = "par_settle idx e s" and ?rs = "rs @ [(idx, e)]"
  note D = par_invD [OF inv] and ov = par_settle_overall [OF inv idx, of e]
  note bound = par_inv_bound(2) [OF inv idx]
  have fields: "par_completed ?s = length ?rs" "par_running ?s = par_running s - {idx}"
    "par_started ?s = par_started s" "par_next ?s = par_next s" "par_calls ?s = []"
    using D(1,11) bound by (simp_all add: par_settle_def Let_def)
  have dis: "idx \<notin> fst ` set rs"
    using D(5) idx by blast
  have d2: "distinct (map fst ?rs)"
    using D(2) dis by simp
  have st2: "set (par_started s) = fst ` set ?rs \<union> (par_running s - {idx})"
    using D(4) idx by auto
  have disj2: "fst ` set ?rs \<inter> (par_running s - {idx}) = {}"
    using D(5) by auto
  have grow: "{i. i < n \<and> (i < w \<and> i < par_next s \<or> w \<le> i \<and> i - w \<in> fst ` set ?rs)} =
      set (par_started s) \<union> (if idx + w < n then {idx + w} else {})"
    unfolding D(6) by (auto simp: le_imp_diff_is_add)
  have fresh: "idx + w \<notin> set (par_started s)"
    unfolding D(6) using w dis by simp
  show ?thesis
  proof (cases "length ?rs = n")
    case True
    let ?s' = "?s\<lparr>par_calls := par_calls ?s @ [par_overall ?s]\<rparr>"
    have "par_complete n w idx e s = Inr ?s'"
      using True fields by (simp add: par_complete_eq Let_def)
    moreover have "\<not> idx + w < n"
    proof
      assume lt: "idx + w < n"
      have "fst ` set ?rs \<subseteq> {..<n}"
        using st2 D(6) by auto
      moreover have "card (fst ` set ?rs) = n"
        using True d2 by (metis distinct_card length_map set_map)
      ultimately have "fst ` set ?rs = {..<n}"
        by (intro card_subset_eq) simp_all
      then have "idx + w \<in> fst ` set ?rs"
        using lt by blast
      then show False
        using fresh st2 by blast
    qed
    then have "par_inv n w ?rs ?s'"
      by (intro par_invI) (use fields ov True st2 d2 disj2 D(3,7) grow in simp_all)
    ultimately show ?thesis
      by blast
  next
    case False
    let ?s' = "par_run n (idx + w) ?s"
    have "par_complete n w idx e s = Inr ?s'"
      using False fields bound by (simp add: par_complete_eq Let_def)
    moreover have "par_inv n w ?rs ?s'"
    proof (rule par_invI)
      show "distinct (par_started ?s')"
        using D(3) fresh fields by (simp add: par_run_def)
      show "set (par_started ?s') = fst ` set ?rs \<union> par_running ?s'"
        using st2 fields by (simp add: par_run_def insert_commute)
      show "fst ` set ?rs \<inter> par_running ?s' = {}"
        using disj2 fresh fields st2 by (simp add: par_run_def)
      show "set (par_started ?s') =
          {i. i < n \<and> (i < w \<and> i < par_next ?s' \<or> w \<le> i \<and> i - w \<in> fst ` set ?rs)}"
        using grow fields by (simp add: par_run_def)
    qed (use fields ov False d2 D(7) in \<open>simp_all add: par_run_def\<close>)
    ultimately show ?thesis
      by blast
  qed
qed

lemma par_results_snoc [simp]:
  "par_results [] = []" "par_results (steps @ [ParLoop]) = par_results steps"
  "par_results (steps @ [ParDone i e]) = par_results steps @ [(i, e)]"
  by (simp_all add: par_results_def)

lemma par_reach_inv:
  assumes "par_reach n w steps s" and "0 < n" and "0 < w"
  shows "par_inv n w (par_results steps) s"
  using assms
proof (induction rule: par_reach.induct)
  case par_start
  then show ?case
    by (simp add: par_inv_init)
next
  case (par_next steps s st s')
  then have inv: "par_inv n w (par_results steps) s"
    by blast
  show ?case
  proof (cases st)
    case ParLoop
    with par_next.hyps(2) have "par_next s < w"
      "s' = (par_run n (par_next s) s)\<lparr>par_next := par_next s + 1\<rparr>"
      by (auto elim: par_exec_loopE)
    then show ?thesis
      using par_inv_loop [OF inv] ParLoop by simp
  next
    case (ParDone i e)
    with par_next.hyps(2) have "i \<in> par_running s" "par_complete n w i e s = Inr s'"
      by (auto elim: par_exec_doneE)
    then show ?thesis
      using par_inv_done [OF inv, of i e] par_next.prems ParDone by auto
  qed
qed

text \<open>An operation that was started has every operation of its chain before it completed.\<close>

lemma par_chain:
  assumes "par_inv n w rs s" and "i \<in> set (par_started s)" and "i = j + k * w" and "0 < k"
    and "0 < w"
  shows "j \<in> fst ` set rs"
  using assms(2-4)
proof (induction k arbitrary: i)
  case (Suc k)
  have "w \<le> i" "i - w = j + k * w"
    using Suc.prems by simp_all
  then have done': "j + k * w \<in> fst ` set rs"
    using Suc.prems(1) assms(5) unfolding par_invD(6) [OF assms(1)] by auto
  show ?case
  proof (cases "k = 0")
    case True
    then show ?thesis
      using done' by simp
  next
    case False
    have "j + k * w \<in> set (par_started s)"
      using done' unfolding par_invD(4) [OF assms(1)] by blast
    then show ?thesis
      using Suc.IH False by blast
  qed
qed simp

lemma par_running_width:
  assumes "par_inv n w rs s" and "0 < w"
  shows "card (par_running s) \<le> w"
proof -
  have lt: False if "i \<in> par_running s" "j \<in> par_running s" "i mod w = j mod w" "j < i" for i j
  proof -
    define a b where "a = i div w" and "b = j div w"
    have ij: "i = a * w + j mod w" "j = b * w + j mod w"
      using div_mult_mod_eq [of i w] div_mult_mod_eq [of j w] that(3) by (simp_all add: a_def b_def)
    have "b \<le> a"
      using that(4) by (simp add: a_def b_def div_le_mono)
    then have "a * w = b * w + (a - b) * w"
      by (simp flip: add_mult_distrib)
    then have eq: "i = j + (a - b) * w"
      using ij by linarith
    moreover have "0 < a - b"
      using eq that(4) by (cases "a - b") simp_all
    moreover have "i \<in> set (par_started s)"
      using that(1) par_invD(4) [OF assms(1)] by blast
    ultimately have "j \<in> fst ` set rs"
      using par_chain [OF assms(1) _ _ _ assms(2)] by blast
    then show False
      using that(2) par_invD(5) [OF assms(1)] by blast
  qed
  have "inj_on (\<lambda>i. i mod w) (par_running s)"
  proof (rule inj_onI)
    fix i j assume ij: "i \<in> par_running s" "j \<in> par_running s" "i mod w = j mod w"
    show "i = j"
      using lt [OF ij] lt [OF ij(2,1) ij(3) [symmetric]] by (cases i j rule: linorder_cases) blast+
  qed
  moreover have "(\<lambda>i. i mod w) ` par_running s \<subseteq> {..<w}"
    using assms(2) by auto
  ultimately have "card (par_running s) \<le> card {..<w}"
    by (rule card_inj_on_le) simp
  then show ?thesis
    by simp
qed

lemma par_progress:
  assumes "par_inv n w rs s" and "par_completed s < n" and "0 < w"
  shows "par_next s < w \<or> par_running s \<noteq> {}"
proof (rule ccontr)
  assume no: "\<not> ?thesis"
  have "par_next s = w" "fst ` set rs = set (par_started s)"
    using no par_invD(4,7) [OF assms(1)] by auto
  then have step: "i \<in> fst ` set rs" if "i < n" "i < w \<or> i - w \<in> fst ` set rs" for i
    using that par_invD(6) [OF assms(1)] by auto
  have all: "i < n \<Longrightarrow> i \<in> fst ` set rs" for i
  proof (induction i rule: less_induct)
    case (less i)
    show ?case
    proof (cases "i < w")
      case False
      then have "i - w < i"
        using assms(3) by simp
      then show ?thesis
        using less step by simp
    qed (use less step in blast)
  qed
  have "{..<n} \<subseteq> fst ` set rs"
    using all by blast
  then have "card {..<n} \<le> card (fst ` set rs)"
    by (rule card_mono [rotated]) simp
  then have "n \<le> length rs"
    using card_image_le [of "set rs" fst] card_length [of rs] by simp
  then show False
    using assms(2) par_invD(1) [OF assms(1)] by simp
qed

section \<open>Worker\<close>

text \<open>A task is \<open>None\<close> when the function object is empty.  A thread is fetching its next task, runs
  one, or has exited; \<open>active\<close> and \<open>parallelism\<close> are \<open>unsigned short\<close>, and the first never
  exceeds the second when it is incremented, so that it does not wrap.\<close>

datatype thread = Fetching | Running nat | Exited

record worker =
  w_active :: nat
  w_parallelism :: nat
  w_queue :: "nat option list"
  w_threads :: "thread list"
  w_started :: "nat list"

definition worker_make :: "nat \<Rightarrow> worker" where
  "worker_make p =
    \<lparr>w_active = 0, w_parallelism = p, w_queue = [], w_threads = [], w_started = []\<rparr>"

definition call_in_thread :: "nat option \<Rightarrow> worker \<Rightarrow> worker" where
  "call_in_thread func s =
    (let s = s\<lparr>w_queue := w_queue s @ [func]\<rparr> in
     if w_active s \<ge> w_parallelism s then s
     else s\<lparr>w_threads := w_threads s @ [Fetching], w_active := w_active s + 1\<rparr>)"

text \<open>The critical section of a thread: take the front of the queue, or leave.\<close>

definition worker_fetch :: "nat \<Rightarrow> worker \<Rightarrow> worker" where
  "worker_fetch i s =
    (case w_queue s of
       [] \<Rightarrow> s\<lparr>w_active := w_active s - 1, w_threads := (w_threads s)[i := Exited]\<rparr>
     | None # q \<Rightarrow> s\<lparr>w_queue := q, w_threads := (w_threads s)[i := Exited]\<rparr>
     | Some t # q \<Rightarrow> s\<lparr>w_queue := q, w_threads := (w_threads s)[i := Running t],
                      w_started := w_started s @ [t]\<rparr>)"

definition set_parallelism :: "nat \<Rightarrow> worker \<Rightarrow> worker" where
  "set_parallelism newval s = s\<lparr>w_parallelism := newval\<rparr>"

definition concurrency :: "worker \<Rightarrow> nat" where
  "concurrency s = w_active s"

datatype worker_step = WCall "nat option" | WFetch nat | WFinish nat | WSetParallelism nat

inductive worker_exec :: "worker \<Rightarrow> worker_step \<Rightarrow> worker \<Rightarrow> bool" where
  w_call: "worker_exec s (WCall func) (call_in_thread func s)"
| w_fetch: "i < length (w_threads s) \<Longrightarrow> w_threads s ! i = Fetching \<Longrightarrow>
    worker_exec s (WFetch i) (worker_fetch i s)"
| w_finish: "i < length (w_threads s) \<Longrightarrow> w_threads s ! i = Running t \<Longrightarrow>
    worker_exec s (WFinish i) (s\<lparr>w_threads := (w_threads s)[i := Fetching]\<rparr>)"
| w_set: "worker_exec s (WSetParallelism p) (set_parallelism p s)"

inductive worker_reach :: "nat \<Rightarrow> worker_step list \<Rightarrow> worker \<Rightarrow> bool" for p where
  w_init: "worker_reach p [] (worker_make p)"
| w_step: "worker_reach p steps s \<Longrightarrow> worker_exec s st s' \<Longrightarrow> worker_reach p (steps @ [st]) s'"

inductive_simps worker_exec_simps:
  "worker_exec s (WCall func) s'" "worker_exec s (WFetch i) s'" "worker_exec s (WFinish i) s'"
  "worker_exec s (WSetParallelism p) s'"

definition live :: "thread list \<Rightarrow> nat" where
  "live ts = length (filter (\<lambda>t. t \<noteq> Exited) ts)"

fun submitted :: "worker_step list \<Rightarrow> nat option list" where
  "submitted [] = []"
| "submitted (WCall f # st) = f # submitted st"
| "submitted (_ # st) = submitted st"

fun limits_ok :: "nat \<Rightarrow> worker_step list \<Rightarrow> bool" where
  "limits_ok P [] = True"
| "limits_ok P (WSetParallelism p # st) = (1 \<le> p \<and> p \<le> P \<and> limits_ok P st)"
| "limits_ok P (_ # st) = limits_ok P st"

lemma live_simps [simp]:
  "live [] = 0" "live (ts @ [Fetching]) = live ts + 1"
  by (simp_all add: live_def)

lemma live_Cons: "live (t # ts) = (if t = Exited then 0 else 1) + live ts"
  by (simp add: live_def)

lemma live_update:
  "i < length ts \<Longrightarrow>
    live (ts[i := t]) + (if ts ! i = Exited then 0 else 1) = live ts + (if t = Exited then 0 else 1)"
proof (induction ts arbitrary: i)
  case (Cons a ts)
  show ?case
  proof (cases i)
    case (Suc j)
    then show ?thesis
      using Cons.IH [of j] Cons.prems by (simp add: live_Cons)
  qed (simp add: live_Cons)
qed simp

lemma submitted_append [simp]: "submitted (xs @ ys) = submitted xs @ submitted ys"
  by (induction xs rule: submitted.induct) simp_all

lemma limits_append [simp]: "limits_ok P (xs @ ys) \<longleftrightarrow> limits_ok P xs \<and> limits_ok P ys"
  by (induction P xs rule: limits_ok.induct) auto

definition worker_inv :: "nat \<Rightarrow> nat option list \<Rightarrow> worker \<Rightarrow> bool" where
  "worker_inv P sub s \<longleftrightarrow>
    w_active s = live (w_threads s) \<and> w_active s \<le> P
    \<and> 1 \<le> w_parallelism s \<and> w_parallelism s \<le> P
    \<and> map Some (w_started s) @ w_queue s = sub
    \<and> (w_queue s \<noteq> [] \<longrightarrow> 0 < live (w_threads s))"

lemma worker_inv_step:
  assumes "worker_inv P sub s" and "worker_exec s st s'"
    and "None \<notin> set sub" and "None \<notin> set (submitted [st])" and "limits_ok P [st]"
  shows "worker_inv P (sub @ submitted [st]) s'"
proof (cases st)
  case (WCall f)
  then have "s' = call_in_thread f s"
    using assms(2) by (simp add: worker_exec_simps)
  then show ?thesis
    using assms(1) WCall by (auto simp: worker_inv_def call_in_thread_def Let_def)
next
  case (WFetch i)
  then have s': "s' = worker_fetch i s" and i: "i < length (w_threads s)" "w_threads s ! i = Fetching"
    using assms(2) by (simp_all add: worker_exec_simps)
  have up: "live ((w_threads s)[i := Running t]) = live (w_threads s)"
    "live ((w_threads s)[i := Exited]) + 1 = live (w_threads s)" for t
    using live_update [OF i(1), of "Running t"] live_update [OF i(1), of Exited] i(2) by simp_all
  show ?thesis
  proof (cases "w_queue s")
    case Nil
    then show ?thesis
      using assms(1) up(2) WFetch s' by (auto simp: worker_inv_def worker_fetch_def)
  next
    case (Cons f q)
    then obtain t where "f = Some t"
      using assms(1,3) by (cases f) (auto simp: worker_inv_def)
    then show ?thesis
      using assms(1) up(1) WFetch s' Cons by (auto simp: worker_inv_def worker_fetch_def)
  qed
next
  case (WFinish i)
  then obtain t where s': "s' = s\<lparr>w_threads := (w_threads s)[i := Fetching]\<rparr>"
    and i: "i < length (w_threads s)" "w_threads s ! i = Running t"
    using assms(2) by (auto simp: worker_exec_simps)
  have "live ((w_threads s)[i := Fetching]) = live (w_threads s)"
    using live_update [OF i(1), of Fetching] i(2) by simp
  then show ?thesis
    using assms(1) WFinish s' by (auto simp: worker_inv_def)
next
  case (WSetParallelism p)
  then have "s' = set_parallelism p s"
    using assms(2) by (simp add: worker_exec_simps)
  then show ?thesis
    using assms(1,5) WSetParallelism by (auto simp: worker_inv_def set_parallelism_def)
qed

lemma worker_reach_inv:
  assumes "worker_reach p steps s" and "1 \<le> p" "p \<le> P" and "None \<notin> set (submitted steps)"
    and "limits_ok P steps"
  shows "worker_inv P (submitted steps) s"
  using assms
proof (induction rule: worker_reach.induct)
  case w_init
  then show ?case
    by (simp add: worker_inv_def worker_make_def)
next
  case (w_step steps s st s')
  then show ?case
    using worker_inv_step [of P "submitted steps" s st s'] by simp
qed

section \<open>every\<close>

text \<open>The answers of the stop predicate are the script; the result is the number of calls of
  \<open>callable\<close> and the error given to \<open>callback\<close>, \<open>None\<close> while it goes on.\<close>

fun every :: "rat \<Rightarrow> bool list \<Rightarrow> nat \<times> error option" where
  "every delay [] = (if delay \<le> 0 then (0, Some (new ValueError)) else (0, None))"
| "every delay (stop # stops) =
    (if delay \<le> 0 then (0, Some (new ValueError))
     else if stop then (0, Some (new NoError))
     else (let (n, r) = every delay stops in (n + 1, r)))"

lemma every_count:
  "0 < delay \<Longrightarrow> every delay stops =
    (length (takeWhile (\<lambda>b. \<not> b) stops), if True \<in> set stops then Some (new NoError) else None)"
  by (induction stops) auto

section \<open>Properties\<close>

text \<open>C1: \<open>parallel\<close> calls back exactly once, after every operation has called back, whatever the
  order; the error it passes is set iff one of the operations failed, with the error of
  operation i as its i-th child.  Until then some step is possible, no step throws, and
  no more operations run at a time than the parallelism allows.\<close>

theorem parallel_calls_back_once:
  assumes "par_reach n (par_width n parallelism) steps s" and "0 < n"
  shows "(par_completed s = n \<longrightarrow>
      (\<exists>err. par_calls s = [err] \<and> is_err err = (\<exists>(i, e) \<in> set (par_results steps). is_err e)
        \<and> length (child_errors err) = n \<and> length (par_results steps) = n
        \<and> (\<forall>(i, e) \<in> set (par_results steps). child_errors err ! i = e)))
    \<and> (par_completed s < n \<longrightarrow> par_calls s = []
        \<and> (par_next s < par_width n parallelism \<or> par_running s \<noteq> {}))
    \<and> par_completed s \<le> n
    \<and> card (par_running s) \<le> par_width n parallelism
    \<and> (\<forall>idx \<in> par_running s. \<forall>e. \<exists>s'. par_complete n (par_width n parallelism) idx e s = Inr s')"
proof -
  let ?w = "par_width n parallelism" and ?rs = "par_results steps"
  have w: "0 < ?w"
    using assms(2) by (simp add: par_width_def)
  have inv: "par_inv n ?w ?rs s"
    by (rule par_reach_inv [OF assms w])
  note D = par_invD [OF inv]
  have bound: "length ?rs \<le> n"
    by (rule par_inv_bound(1) [OF inv])
  have err: "is_err (par_overall s) = (\<exists>(i, e) \<in> set ?rs. is_err e)"
    unfolding is_err_def [of "par_overall s"] D(8) by (auto simp: case_prod_beta)
  have done': "par_completed s = n \<longrightarrow>
      (\<exists>err. par_calls s = [err] \<and> is_err err = (\<exists>(i, e) \<in> set ?rs. is_err e)
        \<and> length (child_errors err) = n \<and> length ?rs = n
        \<and> (\<forall>(i, e) \<in> set ?rs. child_errors err ! i = e))"
    using D(1,9,10,11) err by auto
  have early: "par_completed s < n \<longrightarrow> par_calls s = [] \<and> (par_next s < ?w \<or> par_running s \<noteq> {})"
    using D(1,11) par_progress [OF inv _ w] by auto
  have safe: "\<forall>idx \<in> par_running s. \<forall>e. \<exists>s'. par_complete n ?w idx e s = Inr s'"
    using par_inv_done [OF inv _ w] by blast
  show ?thesis
    using done' early safe bound par_running_width [OF inv w] unfolding D(1) by blast
qed

theorem parallel_calls_back_once_witness:
  "\<exists>s. par_reach 1 (par_width 1 0) [ParLoop, ParDone 0 (new TimeoutError)] s \<and> length (par_calls s) = 1"
proof -
  let ?s1 = "(par_run 1 0 (par_init 1))\<lparr>par_next := 1\<rparr>"
  have "par_exec 1 1 (par_init 1) ParLoop ?s1"
    using par_loop [of "par_init 1" 1 1] by (simp add: par_init_def)
  then have r1: "par_reach 1 1 ([] @ [ParLoop]) ?s1"
    by (rule par_reach.par_next [OF par_start])
  have "0 \<in> par_running ?s1"
    by (simp add: par_run_def)
  moreover obtain s where c: "par_complete 1 1 0 (new TimeoutError) ?s1 = Inr s" "par_completed s = 1"
    by (simp add: par_complete_def par_run_def par_init_def Let_def)
  ultimately have "par_exec 1 1 ?s1 (ParDone 0 (new TimeoutError)) s"
    by (intro par_done)
  then have r: "par_reach 1 (par_width 1 0) [ParLoop, ParDone 0 (new TimeoutError)] s"
    using par_reach.par_next [OF r1] by (simp add: par_width_def)
  from parallel_calls_back_once [OF r] c(2) r show ?thesis
    by auto
qed

text \<open>C16: A worker starts the tasks in the order in which they were submitted, each once, on no more
  threads than the largest limit that was set, and as long as a task waits there is a
  thread that will take it; its counter is the number of threads alive.\<close>

theorem worker_runs_tasks_in_order:
  assumes "worker_reach p steps s" and "1 \<le> p" and "p \<le> P" and "None \<notin> set (submitted steps)"
    and "limits_ok P steps"
  shows "map Some (w_started s) @ w_queue s = submitted steps
    \<and> concurrency s = live (w_threads s) \<and> live (w_threads s) \<le> P
    \<and> (w_queue s \<noteq> [] \<longrightarrow> (\<exists>i st s'. i < length (w_threads s) \<and> st \<in> {WFetch i, WFinish i}
          \<and> worker_exec s st s'))"
proof -
  have inv: "worker_inv P (submitted steps) s"
    by (rule worker_reach_inv [OF assms])
  have "\<exists>i st s'. i < length (w_threads s) \<and> st \<in> {WFetch i, WFinish i} \<and> worker_exec s st s'"
    if "w_queue s \<noteq> []"
  proof -
    have "filter (\<lambda>t. t \<noteq> Exited) (w_threads s) \<noteq> []"
      using inv that unfolding worker_inv_def live_def by auto
    then obtain t where "t \<in> set (w_threads s)" "t \<noteq> Exited"
      by (auto simp: filter_empty_conv)
    then obtain i where i: "i < length (w_threads s)" "w_threads s ! i \<noteq> Exited"
      by (auto simp: in_set_conv_nth)
    show ?thesis
    proof (cases "w_threads s ! i")
      case Fetching
      then show ?thesis using w_fetch i by blast
    next
      case (Running t)
      then show ?thesis using w_finish i by blast
    qed (use i in simp)
  qed
  then show ?thesis
    using inv by (auto simp: worker_inv_def concurrency_def)
qed

theorem worker_runs_tasks_in_order_witness:
  "\<exists>s. worker_reach 1 [WCall (Some 7), WFetch 0] s \<and> w_started s = [7]"
proof -
  let ?s1 = "call_in_thread (Some 7) (worker_make 1)"
  have r1: "worker_reach 1 ([] @ [WCall (Some 7)]) ?s1"
    by (rule w_step [OF w_init w_call])
  have "worker_exec ?s1 (WFetch 0) (worker_fetch 0 ?s1)"
    by (rule w_fetch) (simp_all add: call_in_thread_def worker_make_def Let_def)
  from w_step [OF r1 this] have r: "worker_reach 1 [WCall (Some 7), WFetch 0] (worker_fetch 0 ?s1)"
    by simp
  have "w_queue (worker_fetch 0 ?s1) = []"
    by (simp add: call_in_thread_def worker_make_def worker_fetch_def Let_def)
  moreover have "(1 :: nat) \<le> 1" "None \<notin> set (submitted [WCall (Some 7), WFetch 0])"
    "limits_ok 1 [WCall (Some 7), WFetch 0]"
    by simp_all
  ultimately have "map Some (w_started (worker_fetch 0 ?s1)) = [Some 7]"
    using worker_runs_tasks_in_order [OF r, of 1] by simp
  then have "w_started (worker_fetch 0 ?s1) = [7]"
    by auto
  then show ?thesis
    using r by blast
qed

text \<open>An empty function object stops its thread without giving the slot back: with a
  parallelism of one, every task submitted afterwards waits for ever.\<close>

theorem worker_empty_task_leaks_slot:
  "\<exists>s. worker_reach 1 [WCall None, WFetch 0, WCall (Some t)] s \<and> w_queue s = [Some t]
    \<and> concurrency s = 1 \<and> live (w_threads s) = 0
    \<and> (\<forall>i s'. \<not> worker_exec s (WFetch i) s' \<and> \<not> worker_exec s (WFinish i) s')"
proof -
  let ?s1 = "call_in_thread None (worker_make 1)"
  let ?s2 = "worker_fetch 0 ?s1"
  let ?s3 = "call_in_thread (Some t) ?s2"
  have "worker_reach 1 ([] @ [WCall None]) ?s1"
    by (rule w_step [OF w_init w_call])
  moreover have "worker_exec ?s1 (WFetch 0) ?s2"
    by (rule w_fetch) (simp_all add: call_in_thread_def worker_make_def Let_def)
  ultimately have "worker_reach 1 (([] @ [WCall None]) @ [WFetch 0]) ?s2"
    by (rule w_step)
  from w_step [OF this w_call, of "Some t"]
  have "worker_reach 1 [WCall None, WFetch 0, WCall (Some t)] ?s3"
    by simp
  moreover have "?s3 = \<lparr>w_active = 1, w_parallelism = 1, w_queue = [Some t], w_threads = [Exited],
      w_started = []\<rparr>"
    by (simp add: call_in_thread_def worker_make_def worker_fetch_def Let_def)
  ultimately show ?thesis
    by (intro exI [of _ ?s3]) (auto simp: concurrency_def live_def worker_exec_simps)
qed

end
