(* ===== verification/UrlParser.thy ===== *)
theory UrlParser
  imports Errors
begin

text \<open>
  The URL parser of \<open>ext/http_parser.c\<close>, on which \<open>net/utils.cpp\<close> and \<open>http/parse_url.cpp\<close>
  rest: the state machine of the URL characters, the one of the host part, and
  \<open>http_parser_parse_url\<close>, which turns the runs of characters into fields.  The library is
  built with \<open>HTTP_PARSER_STRICT\<close> set to 0 (\<open>configure.ac\<close>), so this is the lenient variant.
  Offsets and lengths are kept in 16 bits, as in \<open>struct http_parser_url\<close>.
\<close>

section \<open>Character classes\<close>

definition LOWER :: "char \<Rightarrow> nat" where
  "LOWER c = or (of_char c) 32"

definition IS_ALPHA :: "char \<Rightarrow> bool" where
  "IS_ALPHA c \<longleftrightarrow> 97 \<le> LOWER c \<and> LOWER c \<le> 122"

definition IS_ALPHANUM :: "char \<Rightarrow> bool" where
  "IS_ALPHANUM c \<longleftrightarrow> IS_ALPHA c \<or> is_digit c"

definition IS_HEX :: "char \<Rightarrow> bool" where
  "IS_HEX c \<longleftrightarrow> is_digit c \<or> 97 \<le> LOWER c \<and> LOWER c \<le> 102"

definition IS_MARK :: "char \<Rightarrow> bool" where
  "IS_MARK c \<longleftrightarrow> c \<in> set ''-_.!~*()'' \<or> (of_char c :: nat) = 39"

definition IS_USERINFO_CHAR :: "char \<Rightarrow> bool" where
  "IS_USERINFO_CHAR c \<longleftrightarrow> IS_ALPHANUM c \<or> IS_MARK c \<or> c \<in> set ''%;:&=+$,''"

text \<open>The bitmap of the visible characters that need no escape, one byte for eight of them.\<close>

definition normal_url_char :: "nat list" where
  "normal_url_char =
    [0, 2 + 16, 0, 0, 2 + 4 + 16 + 32 + 64 + 128, 255, 255, 127,
     255, 255, 255, 255, 255, 255, 255, 127,
     0, 0, 0, 0, 0, 0, 0, 0, 0, 0, 0, 0, 0, 0, 0, 0]"

definition IS_URL_CHAR :: "char \<Rightarrow> bool" where
  "IS_URL_CHAR c \<longleftrightarrow> bit (normal_url_char ! (of_char c div 8)) (of_char c mod 8)
    \<or> 128 \<le> (of_char c :: nat)"

definition IS_HOST_CHAR :: "char \<Rightarrow> bool" where
  "IS_HOST_CHAR c \<longleftrightarrow> IS_ALPHANUM c \<or> c = CHR ''.'' \<or> c = CHR ''-'' \<or> c = CHR ''_''"

section \<open>The characters of a URL\<close>

datatype url_state =
  s_dead | s_req_spaces_before_url | s_req_schema | s_req_schema_slash | s_req_schema_slash_slash
| s_req_server_start | s_req_server | s_req_server_with_at | s_req_path
| s_req_query_string_start | s_req_query_string | s_req_fragment_start | s_req_fragment

definition server_char :: "char \<Rightarrow> url_state" where
  "server_char ch =
    (if ch = CHR ''/'' then s_req_path
     else if ch = CHR ''?'' then s_req_query_string_start
     else if ch = CHR ''@'' then s_req_server_with_at
     else if IS_USERINFO_CHAR ch \<or> ch = CHR ''['' \<or> ch = CHR '']'' then s_req_server
     else s_dead)"

definition parse_url_char :: "url_state \<Rightarrow> char \<Rightarrow> url_state" where
  "parse_url_char s ch =
    (if ch = CHR '' '' \<or> of_char ch = (13 :: nat) \<or> of_char ch = (10 :: nat) then s_dead
     else case s of
       s_req_spaces_before_url \<Rightarrow>
         if ch = CHR ''/'' \<or> ch = CHR ''*'' then s_req_path
         else if IS_ALPHA ch then s_req_schema else s_dead
     | s_req_schema \<Rightarrow>
         if IS_ALPHA ch then s else if ch = CHR '':'' then s_req_schema_slash else s_dead
     | s_req_schema_slash \<Rightarrow> if ch = CHR ''/'' then s_req_schema_slash_slash else s_dead
     | s_req_schema_slash_slash \<Rightarrow> if ch = CHR ''/'' then s_req_server_start else s_dead
     | s_req_server_with_at \<Rightarrow> if ch = CHR ''@'' then s_dead else server_char ch
     | s_req_server_start \<Rightarrow> server_char ch
     | s_req_server \<Rightarrow> server_char ch
     | s_req_path \<Rightarrow>
         if IS_URL_CHAR ch then s
         else if ch = CHR ''?'' then s_req_query_string_start
         else if ch = CHR ''#'' then s_req_fragment_start else s_dead
     | s_req_query_string_start \<Rightarrow>
         if IS_URL_CHAR ch then s_req_query_string
         else if ch = CHR ''?'' then s_req_query_string
         else if ch = CHR ''#'' then s_req_fragment_start else s_dead
     | s_req_query_string \<Rightarrow>
         if IS_URL_CHAR ch then s_req_query_string
         else if ch = CHR ''?'' then s_req_query_string
         else if ch = CHR ''#'' then s_req_fragment_start else s_dead
     | s_req_fragment_start \<Rightarrow>
         if IS_URL_CHAR ch then s_req_fragment
         else if ch = CHR ''?'' then s_req_fragment
         else if ch = CHR ''#'' then s else s_dead
     | s_req_fragment \<Rightarrow>
         if IS_URL_CHAR ch then s
         else if ch = CHR ''?'' \<or> ch = CHR ''#'' then s else s_dead
     | s_dead \<Rightarrow> s_dead)"

section \<open>The host part\<close>

datatype host_state =
  s_http_host_dead | s_http_userinfo_start | s_http_userinfo | s_http_host_start
| s_http_host_v6_start | s_http_host | s_http_host_v6 | s_http_host_v6_end
| s_http_host_v6_zone_start | s_http_host_v6_zone | s_http_host_port_start | s_http_host_port

definition http_parse_host_char :: "host_state \<Rightarrow> char \<Rightarrow> host_state" where
  "http_parse_host_char s ch =
    (let userinfo = (if ch = CHR ''@'' then s_http_host_start
                     else if IS_USERINFO_CHAR ch then s_http_userinfo else s_http_host_dead);
         v6_end = (if ch = CHR '':'' then s_http_host_port_start else s_http_host_dead);
         v6_start = (if IS_HEX ch \<or> ch = CHR '':'' \<or> ch = CHR ''.'' then s_http_host_v6
                     else if s = s_http_host_v6 \<and> ch = CHR ''%'' then s_http_host_v6_zone_start
                     else s_http_host_dead);
         zone = (if IS_ALPHANUM ch \<or> ch \<in> set ''%.-_~'' then s_http_host_v6_zone
                 else s_http_host_dead);
         port = (if is_digit ch then s_http_host_port else s_http_host_dead)
     in case s of
       s_http_userinfo \<Rightarrow> userinfo
     | s_http_userinfo_start \<Rightarrow> userinfo
     | s_http_host_start \<Rightarrow>
         if ch = CHR ''['' then s_http_host_v6_start
         else if IS_HOST_CHAR ch then s_http_host else s_http_host_dead
     | s_http_host \<Rightarrow> if IS_HOST_CHAR ch then s_http_host else v6_end
     | s_http_host_v6_end \<Rightarrow> v6_end
     | s_http_host_v6 \<Rightarrow> if ch = CHR '']'' then s_http_host_v6_end else v6_start
     | s_http_host_v6_start \<Rightarrow> v6_start
     | s_http_host_v6_zone \<Rightarrow> if ch = CHR '']'' then s_http_host_v6_end else zone
     | s_http_host_v6_zone_start \<Rightarrow> zone
     | s_http_host_port \<Rightarrow> port
     | s_http_host_port_start \<Rightarrow> port
     | s_http_host_dead \<Rightarrow> s_http_host_dead)"

section \<open>The fields\<close>

datatype url_field = UF_SCHEMA | UF_HOST | UF_PORT | UF_PATH | UF_QUERY | UF_FRAGMENT | UF_USERINFO

text \<open>\<open>http_parser_url\<close>: \<open>field_set\<close> and \<open>field_data\<close> as one map from the fields that are set to
  offset and length.\<close>

record http_url =
  field_data :: "url_field \<Rightarrow> (uint16 \<times> uint16) option"
  port_number :: uint16

definition field_start :: "url_field \<Rightarrow> nat \<Rightarrow> uint16 \<Rightarrow> http_url \<Rightarrow> http_url" where
  "field_start f off len u = u\<lparr>field_data := (field_data u)(f \<mapsto> (word_of_nat off, len))\<rparr>"

definition field_more :: "url_field \<Rightarrow> http_url \<Rightarrow> http_url" where
  "field_more f u =
    u\<lparr>field_data := (field_data u)(f := map_option (\<lambda>(off, len). (off, len + 1)) (field_data u f))\<rparr>"

text \<open>\<open>http_parse_host\<close>: the loop over the characters of the host at position \<open>i\<close>.  \<open>None\<close> is
  the result 1.\<close>

definition host_step :: "host_state \<Rightarrow> host_state \<Rightarrow> nat \<Rightarrow> http_url \<Rightarrow> http_url" where
  "host_step s ns i u =
    (case ns of
       s_http_host \<Rightarrow> field_more UF_HOST (if s \<noteq> s_http_host
         then field_start UF_HOST i (snd (the (field_data u UF_HOST))) u else u)
     | s_http_host_v6 \<Rightarrow> field_more UF_HOST (if s \<noteq> s_http_host_v6
         then field_start UF_HOST i (snd (the (field_data u UF_HOST))) u else u)
     | s_http_host_v6_zone_start \<Rightarrow> field_more UF_HOST u
     | s_http_host_v6_zone \<Rightarrow> field_more UF_HOST u
     | s_http_host_port \<Rightarrow>
         field_more UF_PORT (if s \<noteq> s_http_host_port then field_start UF_PORT i 0 u else u)
     | s_http_userinfo \<Rightarrow>
         field_more UF_USERINFO (if s \<noteq> s_http_userinfo then field_start UF_USERINFO i 0 u else u)
     | _ \<Rightarrow> u)"

fun host_loop :: "host_state \<Rightarrow> nat \<Rightarrow> http_url \<Rightarrow> string \<Rightarrow> (host_state \<times> http_url) option" where
  "host_loop s i u [] = Some (s, u)"
| "host_loop s i u (c # cs) =
    (let ns = http_parse_host_char s c in
     if ns = s_http_host_dead then None else host_loop ns (i + 1) (host_step s ns i u) cs)"

definition host_end_ok :: "host_state \<Rightarrow> bool" where
  "host_end_ok s \<longleftrightarrow>
    s \<notin> {s_http_host_start, s_http_host_v6_start, s_http_host_v6, s_http_host_v6_zone_start,
      s_http_host_v6_zone, s_http_host_port_start, s_http_userinfo, s_http_userinfo_start}"

definition http_parse_host :: "string \<Rightarrow> http_url \<Rightarrow> bool \<Rightarrow> http_url option" where
  "http_parse_host buf u found_at =
    (let (off, len) = the (field_data u UF_HOST);
         u = u\<lparr>field_data := (field_data u)(UF_HOST \<mapsto> (off, 0))\<rparr>;
         s = (if found_at then s_http_userinfo_start else s_http_host_start)
     in case host_loop s (unat off) u (take (unat len) (drop (unat off) buf)) of
          None \<Rightarrow> None | Some (s, u) \<Rightarrow> if host_end_ok s then Some u else None)"

section \<open>http\_parser\_parse\_url\<close>

definition url_uf :: "url_state \<Rightarrow> url_field option" where
  "url_uf s =
    (case s of s_req_schema \<Rightarrow> Some UF_SCHEMA | s_req_server_with_at \<Rightarrow> Some UF_HOST
     | s_req_server \<Rightarrow> Some UF_HOST | s_req_path \<Rightarrow> Some UF_PATH
     | s_req_query_string \<Rightarrow> Some UF_QUERY | s_req_fragment \<Rightarrow> Some UF_FRAGMENT
     | _ \<Rightarrow> None)"

text \<open>The loop over the characters; the two states whose arrival is not expected are those
  \<open>parse_url_char\<close> never returns.\<close>

fun url_loop ::
  "url_state \<Rightarrow> url_field option \<Rightarrow> bool \<Rightarrow> nat \<Rightarrow> http_url \<Rightarrow> string \<Rightarrow> (bool \<times> http_url) option" where
  "url_loop s old_uf found_at i u [] = Some (found_at, u)"
| "url_loop s old_uf found_at i u (c # cs) =
    (let s = parse_url_char s c in
     if s = s_dead \<or> s = s_req_spaces_before_url then None
     else let found_at = (found_at \<or> s = s_req_server_with_at) in
       case url_uf s of
         None \<Rightarrow> url_loop s old_uf found_at (i + 1) u cs
       | Some uf \<Rightarrow>
           if old_uf = Some uf then url_loop s old_uf found_at (i + 1) (field_more uf u) cs
           else url_loop s (Some uf) found_at (i + 1) (field_start uf i 1 u) cs)"

fun port_loop :: "nat \<Rightarrow> string \<Rightarrow> nat option" where
  "port_loop v [] = Some v"
| "port_loop v (c # cs) =
    (let v = v * 10 + (of_char c - 48) in if v > 65535 then None else port_loop v cs)"

definition url_field_text :: "string \<Rightarrow> http_url \<Rightarrow> url_field \<Rightarrow> string" where
  "url_field_text buf u f =
    (case field_data u f of None \<Rightarrow> []
     | Some (off, len) \<Rightarrow> take (unat len) (drop (unat off) buf))"

definition field_set :: "http_url \<Rightarrow> url_field list" where
  "field_set u = [f \<leftarrow> [UF_SCHEMA, UF_HOST, UF_PORT, UF_PATH, UF_QUERY, UF_FRAGMENT, UF_USERINFO].
    field_data u f \<noteq> None]"

definition http_parser_parse_url :: "string \<Rightarrow> bool \<Rightarrow> http_url option" where
  "http_parser_parse_url buf is_connect =
    (let s = (if is_connect then s_req_server_start else s_req_spaces_before_url) in
     case url_loop s None False 0 \<lparr>field_data = Map.empty, port_number = 0\<rparr> buf of
       None \<Rightarrow> None
     | Some (found_at, u) \<Rightarrow>
         if field_data u UF_SCHEMA \<noteq> None \<and> field_data u UF_HOST = None then None
         else case (if field_data u UF_HOST \<noteq> None then http_parse_host buf u found_at else Some u) of
           None \<Rightarrow> None
         | Some u \<Rightarrow>
             if is_connect \<and> field_set u \<noteq> [UF_HOST, UF_PORT] then None
             else if field_data u UF_PORT \<noteq> None
             then map_option (\<lambda>v. u\<lparr>port_number := word_of_nat v\<rparr>)
                    (port_loop 0 (url_field_text buf u UF_PORT))
             else Some u)"

section \<open>Runs of characters\<close>

definition field_put :: "url_field \<Rightarrow> nat \<Rightarrow> nat \<Rightarrow> http_url \<Rightarrow> http_url" where
  "field_put f off len u =
    u\<lparr>field_data := (field_data u)(f \<mapsto> (word_of_nat off, word_of_nat len))\<rparr>"

lemma field_start_put: "field_start f i (word_of_nat n) u = field_put f i n u"
  by (simp add: field_start_def field_put_def)

lemma field_more_put [simp]: "field_more f (field_put f off len u) = field_put f off (Suc len) u"
  by (simp add: field_more_def field_put_def add.commute)

lemma field_data_put [simp]:
  "field_data (field_put f off len u) g =
    (if g = f then Some (word_of_nat off, word_of_nat len) else field_data u g)"
  by (simp add: field_put_def)

lemma url_loop_run:
  assumes "\<forall>c \<in> set cs. parse_url_char s c = s"
    and "url_uf s = Some f" and "s \<noteq> s_req_server_with_at"
  shows "url_loop s (Some f) fa i (field_put f off len u) (cs @ rest) =
    url_loop s (Some f) fa (i + length cs) (field_put f off (len + length cs) u) rest"
  using assms
proof (induction cs arbitrary: i len)
  case (Cons c cs)
  have ne: "s \<noteq> s_dead" "s \<noteq> s_req_spaces_before_url"
    using Cons.prems(2) by (auto simp: url_uf_def)
  have "parse_url_char s c = s"
    using Cons.prems(1) by simp
  then show ?case
    using Cons.IH [of "Suc i" "Suc len"] Cons.prems ne by simp
qed simp

text \<open>A field: its first character leads from another state to \<open>s\<close>, the others stay there.\<close>

lemma url_loop_field:
  assumes "parse_url_char p c = s" and "\<forall>c \<in> set cs. parse_url_char s c = s"
    and "url_uf s = Some f" and "s \<noteq> s_req_server_with_at" and "old \<noteq> Some f"
  shows "url_loop p old fa i u ((c # cs) @ rest) =
    url_loop s (Some f) fa (i + Suc (length cs)) (field_put f i (Suc (length cs)) u) rest"
proof -
  have ne: "s \<noteq> s_dead" "s \<noteq> s_req_spaces_before_url"
    using assms(3) by (auto simp: url_uf_def)
  have "url_loop p old fa i u ((c # cs) @ rest) =
      url_loop s (Some f) fa (Suc i) (field_put f i 1 u) (cs @ rest)"
    using assms(1,3-5) ne field_start_put [of f i 1 u] by (simp add: Let_def)
  then show ?thesis
    using url_loop_run [OF assms(2-4), of fa "Suc i" i 1 u rest] by simp
qed

lemma url_loop_delim:
  assumes "parse_url_char p c = s" and "url_uf s = None" and "s \<noteq> s_dead" "s \<noteq> s_req_spaces_before_url"
  shows "url_loop p old fa i u (c # rest) = url_loop s old fa (Suc i) u rest"
proof -
  have "s \<noteq> s_req_server_with_at"
    using assms(2) by (auto simp: url_uf_def)
  then show ?thesis
    using assms by (simp add: Let_def)
qed

lemma host_loop_run:
  assumes "\<forall>c \<in> set cs. http_parse_host_char s c = s"
    and "s = s_http_host \<and> f = UF_HOST \<or> s = s_http_host_v6 \<and> f = UF_HOST
      \<or> s = s_http_host_port \<and> f = UF_PORT"
  shows "host_loop s i (field_put f off len u) (cs @ rest) =
    host_loop s (i + length cs) (field_put f off (len + length cs) u) rest"
  using assms(1)
proof (induction cs arbitrary: i len)
  case (Cons c cs)
  have "http_parse_host_char s c = s"
    using Cons.prems by simp
  moreover have "host_step s s i (field_put f off len u) = field_put f off (Suc len) u"
    using assms(2) by (auto simp: host_step_def)
  moreover have "s \<noteq> s_http_host_dead"
    using assms(2) by auto
  ultimately show ?case
    using Cons.IH [of "Suc i" "Suc len"] Cons.prems by simp
qed simp

lemma host_loop_port:
  assumes "ds \<noteq> []" and "Ball (set ds) is_digit"
  shows "host_loop s_http_host_port_start i u ds =
    Some (s_http_host_port, field_put UF_PORT i (length ds) u)"
proof -
  obtain d ds' where ds: "ds = d # ds'"
    using assms(1) by (cases ds) auto
  have port: "http_parse_host_char s_http_host_port_start c = s_http_host_port"
    "http_parse_host_char s_http_host_port c = s_http_host_port" if "c \<in> set ds" for c
    using assms(2) that by (auto simp: http_parse_host_char_def)
  have "host_step s_http_host_port_start s_http_host_port i u = field_put UF_PORT i 1 u"
    using field_start_put [of UF_PORT i 0 u] by (simp add: host_step_def)
  then show ?thesis
    using host_loop_run [of ds' s_http_host_port UF_PORT "Suc i" i 1 u "[]"] port ds by simp
qed

lemma port_loop_value:
  assumes "Ball (set ds) is_digit" and "dec_value (us @ ds) \<le> 65535"
  shows "port_loop (dec_value us) ds = Some (dec_value (us @ ds))"
  using assms
proof (induction ds arbitrary: us)
  case (Cons d ds)
  have "dec_value (us @ [d]) \<le> dec_value ((us @ [d]) @ ds)"
    by (rule dec_value_append_le)
  then have "dec_value (us @ [d]) \<le> 65535"
    using Cons.prems(2) by simp
  then show ?case
    using Cons.IH [of "us @ [d]"] Cons.prems by (simp add: Let_def)
qed simp

section \<open>Hosts and ports\<close>

lemma host_char_simps:
  assumes "IS_HOST_CHAR c"
  shows "IS_USERINFO_CHAR c" "c \<noteq> CHR ''[''" "c \<noteq> CHR '']''" "c \<noteq> CHR '':''"
  using assms by (auto simp: IS_HOST_CHAR_def IS_USERINFO_CHAR_def IS_ALPHANUM_def IS_ALPHA_def
      IS_MARK_def LOWER_def is_digit_def)

definition is_v6_char :: "char \<Rightarrow> bool" where
  "is_v6_char c \<longleftrightarrow> IS_HEX c \<or> c = CHR '':'' \<or> c = CHR ''.''"

lemma v6_char_simps:
  assumes "is_v6_char c"
  shows "IS_USERINFO_CHAR c" "c \<noteq> CHR '']''"
  using assms by (auto simp: is_v6_char_def IS_HEX_def IS_USERINFO_CHAR_def IS_ALPHANUM_def
      IS_ALPHA_def IS_MARK_def LOWER_def is_digit_def)

definition server_ok :: "char \<Rightarrow> bool" where
  "server_ok c \<longleftrightarrow> IS_USERINFO_CHAR c \<or> c = CHR ''['' \<or> c = CHR '']''"

lemma server_ok_ne:
  assumes "server_ok c"
  shows "c \<noteq> CHR ''/''" "c \<noteq> CHR ''?''" "c \<noteq> CHR ''@''" "c \<noteq> CHR '' ''"
    "of_char c \<noteq> (13 :: nat)" "of_char c \<noteq> (10 :: nat)"
  using assms by (auto simp: server_ok_def IS_USERINFO_CHAR_def IS_ALPHANUM_def
      IS_ALPHA_def IS_MARK_def LOWER_def is_digit_def)

lemma server_ok_char:
  assumes "server_ok c"
  shows "parse_url_char s_req_server_start c = s_req_server"
    "parse_url_char s_req_server c = s_req_server"
  using assms server_ok_ne [OF assms] by (simp_all add: parse_url_char_def server_char_def server_ok_def)

lemma url_loop_server:
  assumes "h \<noteq> []" "Ball (set h) server_ok" "old \<noteq> Some UF_HOST"
  shows "url_loop s_req_server_start old fa i u (h @ rest) =
    url_loop s_req_server (Some UF_HOST) fa (i + length h) (field_put UF_HOST i (length h) u) rest"
proof -
  obtain c cs where h: "h = c # cs"
    using assms(1) by (cases h) auto
  have "\<forall>c \<in> set cs. parse_url_char s_req_server c = s_req_server"
    "parse_url_char s_req_server_start c = s_req_server"
    using assms(2) h server_ok_char by auto
  then show ?thesis
    using url_loop_field [of s_req_server_start c s_req_server cs UF_HOST old fa i u rest] assms(3) h
    by (simp add: url_uf_def)
qed

text \<open>The text of a host, an IPv6 address between brackets, and its optional port.\<close>

definition host_text :: "bool \<Rightarrow> string \<Rightarrow> string" where
  "host_text v6 h = (if v6 then ''['' @ h @ '']'' else h)"

definition port_text :: "string option \<Rightarrow> string" where
  "port_text p = (case p of None \<Rightarrow> [] | Some ds \<Rightarrow> CHR '':'' # ds)"

definition host_ok :: "bool \<Rightarrow> string \<Rightarrow> bool" where
  "host_ok v6 h \<longleftrightarrow> h \<noteq> [] \<and> Ball (set h) (if v6 then is_v6_char else IS_HOST_CHAR)"

definition port_ok :: "string option \<Rightarrow> bool" where
  "port_ok p \<longleftrightarrow> (case p of None \<Rightarrow> True
    | Some ds \<Rightarrow> ds \<noteq> [] \<and> Ball (set ds) is_digit \<and> dec_value ds \<le> 65535)"

lemma server_ok_text:
  assumes "host_ok v6 h" "port_ok p"
  shows "host_text v6 h @ port_text p \<noteq> []" "Ball (set (host_text v6 h @ port_text p)) server_ok"
  using assms host_char_simps(1) v6_char_simps(1)
  by (auto simp: host_ok_def port_ok_def host_text_def port_text_def server_ok_def
      IS_USERINFO_CHAR_def [of "CHR '':''"] split: option.split if_splits
      intro: IS_USERINFO_CHAR_def [THEN iffD2] simp: IS_ALPHANUM_def)

lemma host_loop_start:
  assumes "host_ok v6 h" and "snd (the (field_data u UF_HOST)) = 0"
  shows "host_loop s_http_host_start i u (host_text v6 h @ rest) =
    host_loop (if v6 then s_http_host_v6_end else s_http_host) (i + length (host_text v6 h))
      (field_put UF_HOST (if v6 then Suc i else i) (length h) u) rest"
proof -
  obtain c cs where h: "h = c # cs"
    using assms(1) by (cases h) (auto simp: host_ok_def)
  show ?thesis
  proof (cases v6)
    case False
    then have "\<forall>c \<in> set h. http_parse_host_char s_http_host_start c = s_http_host
        \<and> http_parse_host_char s_http_host c = s_http_host"
      using assms(1) host_char_simps(2) by (auto simp: host_ok_def http_parse_host_char_def)
    moreover have "host_step s_http_host_start s_http_host i u = field_put UF_HOST i 1 u"
      using assms(2) field_start_put [of UF_HOST i 0 u] by (simp add: host_step_def)
    ultimately show ?thesis
      using False h host_loop_run [of cs s_http_host UF_HOST "Suc i" i 1 u rest]
      by (simp add: host_text_def)
  next
    case True
    then have "\<forall>c \<in> set h. http_parse_host_char s_http_host_v6_start c = s_http_host_v6
        \<and> http_parse_host_char s_http_host_v6 c = s_http_host_v6"
      using assms(1) v6_char_simps(2) by (auto simp: host_ok_def is_v6_char_def http_parse_host_char_def)
    moreover have "host_step s_http_host_v6_start s_http_host_v6 (Suc i) u = field_put UF_HOST (Suc i) 1 u"
      using assms(2) field_start_put [of UF_HOST "Suc i" 0 u] by (simp add: host_step_def)
    moreover have "http_parse_host_char s_http_host_start (CHR ''['') = s_http_host_v6_start"
      "http_parse_host_char s_http_host_v6 (CHR '']'') = s_http_host_v6_end"
      "host_step s_http_host_start s_http_host_v6_start i u = u"
      "host_step s_http_host_v6 s_http_host_v6_end j v = v" for j v
      by (simp_all add: http_parse_host_char_def host_step_def)
    ultimately show ?thesis
      using True h host_loop_run [of cs s_http_host_v6 UF_HOST "Suc (Suc i)" "Suc i" 1 u "CHR '']'' # rest"]
      by (simp add: host_text_def)
  qed
qed

definition put_port :: "nat \<Rightarrow> string option \<Rightarrow> http_url \<Rightarrow> http_url" where
  "put_port i p u = (case p of None \<Rightarrow> u | Some ds \<Rightarrow> field_put UF_PORT (Suc i) (length ds) u)"

lemma host_loop_end:
  assumes "port_ok p" and "s = s_http_host \<or> s = s_http_host_v6_end"
  shows "\<exists>s'. host_loop s i u (port_text p) = Some (s', put_port i p u) \<and> host_end_ok s'"
proof (cases p)
  case None
  then show ?thesis
    using assms by (auto simp: port_text_def put_port_def host_end_ok_def)
next
  case (Some ds)
  have "http_parse_host_char s (CHR '':'') = s_http_host_port_start"
    using assms(2) by (auto simp: http_parse_host_char_def IS_HOST_CHAR_def IS_ALPHANUM_def
        IS_ALPHA_def LOWER_def is_digit_def)
  moreover have "host_step s s_http_host_port_start i u = u"
    by (simp add: host_step_def)
  moreover have "host_loop s_http_host_port_start (Suc i) u ds =
      Some (s_http_host_port, field_put UF_PORT (Suc i) (length ds) u)"
    using assms(1) Some host_loop_port [of ds "Suc i" u] by (simp add: port_ok_def)
  ultimately show ?thesis
    using Some by (simp add: port_text_def put_port_def host_end_ok_def)
qed

lemma field_put_override [simp]:
  "field_put f a b (u\<lparr>field_data := (field_data u)(f \<mapsto> x)\<rparr>) = field_put f a b u"
  by (simp add: field_put_def)

lemma unat_word16: "n < 65536 \<Longrightarrow> unat (word_of_nat n :: uint16) = n"
  by (simp add: unsigned_of_nat take_bit_nat_eq_self_iff)

lemma http_parse_host_ok:
  assumes "host_ok v6 h" "port_ok p"
    and "buf = pre @ host_text v6 h @ port_text p @ post" "length buf < 65536"
    and "field_data u UF_HOST =
      Some (word_of_nat (length pre), word_of_nat (length (host_text v6 h @ port_text p)))"
  shows "http_parse_host buf u False = Some (put_port (length pre + length (host_text v6 h)) p
    (field_put UF_HOST (if v6 then Suc (length pre) else length pre) (length h) u))"
proof -
  have len: "unat (word_of_nat (length pre) :: uint16) = length pre"
    "unat (word_of_nat (length (host_text v6 h @ port_text p)) :: uint16) =
      length (host_text v6 h @ port_text p)"
    by (rule unat_word16; use assms(3,4) in simp)+
  let ?u = "u\<lparr>field_data := (field_data u)(UF_HOST \<mapsto> (word_of_nat (length pre), 0))\<rparr>"
  let ?v = "field_put UF_HOST (if v6 then Suc (length pre) else length pre) (length h) u"
  obtain s' where s': "host_loop (if v6 then s_http_host_v6_end else s_http_host)
      (length pre + length (host_text v6 h)) ?v (port_text p) =
      Some (s', put_port (length pre + length (host_text v6 h)) p ?v)" "host_end_ok s'"
    using host_loop_end [OF assms(2), of "if v6 then s_http_host_v6_end else s_http_host"
        "length pre + length (host_text v6 h)" ?v] by (cases v6) auto
  have "host_loop s_http_host_start (length pre) ?u (host_text v6 h @ port_text p) =
      Some (s', put_port (length pre + length (host_text v6 h)) p ?v)"
    using host_loop_start [OF assms(1), of ?u "length pre" "port_text p"] s'(1) by simp
  moreover have "take (length (host_text v6 h @ port_text p)) (drop (length pre) buf) =
      host_text v6 h @ port_text p"
    using assms(3) by simp
  ultimately show ?thesis
    using s'(2) len unfolding http_parse_host_def assms(5) by simp
qed

section \<open>The argument of CONNECT\<close>

theorem parse_connect:
  assumes "host_ok v6 h" "port_ok (Some ds)"
    and "length (host_text v6 h @ port_text (Some ds)) < 65536"
  shows "\<exists>u. http_parser_parse_url (host_text v6 h @ port_text (Some ds)) True = Some u
    \<and> url_field_text (host_text v6 h @ port_text (Some ds)) u UF_HOST = h
    \<and> port_number u = word_of_nat (dec_value ds)"
proof -
  let ?buf = "host_text v6 h @ port_text (Some ds)"
  let ?e = "\<lparr>field_data = Map.empty, port_number = 0\<rparr> :: http_url"
  let ?u = "field_put UF_HOST 0 (length ?buf) ?e"
  let ?v = "put_port (length (host_text v6 h)) (Some ds)
    (field_put UF_HOST (if v6 then 1 else 0) (length h) ?u)"
  have "url_loop s_req_server_start None False 0 ?e ?buf = Some (False, ?u)"
    using url_loop_server [OF server_ok_text [OF assms(1,2)], of None False 0 ?e "[]"] by simp
  moreover have "http_parse_host ?buf ?u False = Some ?v"
    using http_parse_host_ok [OF assms(1,2), of ?buf "[]" "[]" ?u] assms(3) by simp
  moreover have "field_set ?v = [UF_HOST, UF_PORT]"
    by (simp add: field_set_def put_port_def)
  moreover have small: "Suc (length (host_text v6 h)) < 65536" "length h < 65536" "length ds < 65536"
    using assms(3) by (auto simp: port_text_def host_text_def split: if_splits)
  then have "url_field_text ?buf ?v UF_PORT = ds"
    by (simp add: url_field_text_def put_port_def port_text_def unat_word16
        del: of_nat_Suc)
  moreover have "port_loop 0 ds = Some (dec_value ds)"
    using port_loop_value [of ds "[]"] assms(2) by (simp add: port_ok_def dec_value_def)
  moreover have "url_field_text ?buf (?v\<lparr>port_number := w\<rparr>) UF_HOST = h" for w
    using small by (simp add: url_field_text_def put_port_def host_text_def unat_word16)
  ultimately show ?thesis
    by (simp add: http_parser_parse_url_def put_port_def)
qed

section \<open>Absolute URLs\<close>

text \<open>An absolute URL with a path: the scheme, the server, the path and the query.\<close>

definition query_text :: "string \<Rightarrow> string" where
  "query_text q = (if q = [] then [] else CHR ''?'' # q)"

definition url_parts_ok :: "string \<Rightarrow> string \<Rightarrow> string \<Rightarrow> bool" where
  "url_parts_ok sch path q \<longleftrightarrow> sch \<noteq> [] \<and> Ball (set sch) IS_ALPHA
    \<and> path \<noteq> [] \<and> hd path = CHR ''/'' \<and> Ball (set (tl path)) IS_URL_CHAR
    \<and> (\<forall>c \<in> set q. IS_URL_CHAR c \<or> c = CHR ''?'')"

lemma IS_ALPHA_ne:
  assumes "IS_ALPHA c"
  shows "c \<noteq> CHR ''/''" "c \<noteq> CHR ''*''" "c \<noteq> CHR '' ''" "of_char c \<noteq> (13 :: nat)" "of_char c \<noteq> (10 :: nat)"
  using assms by (auto simp: IS_ALPHA_def LOWER_def)

lemma IS_URL_CHAR_ne:
  assumes "IS_URL_CHAR c \<or> c = CHR ''?''"
  shows "c \<noteq> CHR '' ''" "of_char c \<noteq> (13 :: nat)" "of_char c \<noteq> (10 :: nat)"
  using assms by (auto simp: IS_URL_CHAR_def normal_url_char_def bit_iff_odd)

lemma url_char_steps:
  "IS_ALPHA c \<Longrightarrow> parse_url_char s_req_spaces_before_url c = s_req_schema"
  "IS_ALPHA c \<Longrightarrow> parse_url_char s_req_schema c = s_req_schema"
  "parse_url_char s_req_schema (CHR '':'') = s_req_schema_slash"
  "parse_url_char s_req_schema_slash (CHR ''/'') = s_req_schema_slash_slash"
  "parse_url_char s_req_schema_slash_slash (CHR ''/'') = s_req_server_start"
  "parse_url_char s_req_server (CHR ''/'') = s_req_path"
  "IS_URL_CHAR c \<Longrightarrow> parse_url_char s_req_path c = s_req_path"
  "parse_url_char s_req_path (CHR ''?'') = s_req_query_string_start"
  "IS_URL_CHAR c \<or> c = CHR ''?'' \<Longrightarrow> parse_url_char s_req_query_string_start c = s_req_query_string"
  "IS_URL_CHAR c \<or> c = CHR ''?'' \<Longrightarrow> parse_url_char s_req_query_string c = s_req_query_string"
  using IS_ALPHA_ne [of c] IS_URL_CHAR_ne [of c]
  by (auto simp: parse_url_char_def server_char_def IS_ALPHA_def [of "CHR '':''"] LOWER_def
      IS_URL_CHAR_def [of "CHR ''?''"] normal_url_char_def bit_iff_odd)

definition put_query :: "nat \<Rightarrow> string \<Rightarrow> http_url \<Rightarrow> http_url" where
  "put_query i q u = (if q = [] then u else field_put UF_QUERY (Suc i) (length q) u)"

lemma url_loop_query:
  assumes "\<forall>c \<in> set q. IS_URL_CHAR c \<or> c = CHR ''?''"
  shows "url_loop s_req_path (Some UF_PATH) fa i u (query_text q) = Some (fa, put_query i q u)"
proof (cases q)
  case (Cons c cs)
  have "url_loop s_req_path (Some UF_PATH) fa i u (CHR ''?'' # q) =
      url_loop s_req_query_string_start (Some UF_PATH) fa (Suc i) u q"
    by (rule url_loop_delim) (simp_all add: url_char_steps url_uf_def)
  also have "\<dots> = Some (fa, put_query i q u)"
    using url_loop_field [of s_req_query_string_start c s_req_query_string cs UF_QUERY "Some UF_PATH" fa "Suc i" u "[]"]
      assms Cons by (simp add: url_char_steps url_uf_def put_query_def)
  finally show ?thesis
    using Cons by (simp add: query_text_def)
qed (simp add: query_text_def put_query_def)

lemma url_loop_absolute:
  assumes "url_parts_ok sch path q" "hp \<noteq> []" "Ball (set hp) server_ok"
  shows "url_loop s_req_spaces_before_url None False 0 e (sch @ ''://'' @ hp @ path @ query_text q) =
    Some (False, put_query (length sch + 3 + length hp + length path) q
      (field_put UF_PATH (length sch + 3 + length hp) (length path)
      (field_put UF_HOST (length sch + 3) (length hp) (field_put UF_SCHEMA 0 (length sch) e))))"
proof -
  obtain c cs where sch: "sch = c # cs"
    using assms(1) by (cases sch) (auto simp: url_parts_ok_def)
  obtain ps where path: "path = CHR ''/'' # ps"
    using assms(1) by (cases path) (auto simp: url_parts_ok_def)
  let ?s = "field_put UF_SCHEMA 0 (length sch) e"
  let ?h = "field_put UF_HOST (length sch + 3) (length hp) ?s"
  let ?p = "field_put UF_PATH (length sch + 3 + length hp) (length path) ?h"
  let ?r3 = "path @ query_text q" let ?r2 = "hp @ ?r3"
  have "url_loop s_req_spaces_before_url None False 0 e (sch @ ''://'' @ ?r2) =
      url_loop s_req_schema (Some UF_SCHEMA) False (length sch) ?s (''://'' @ ?r2)"
    using url_loop_field [of s_req_spaces_before_url c s_req_schema cs UF_SCHEMA None False 0 e "''://'' @ ?r2"]
      assms(1) sch by (simp add: url_char_steps url_uf_def url_parts_ok_def del: url_loop.simps)
  also have "\<dots> = url_loop s_req_server_start (Some UF_SCHEMA) False (length sch + 3) ?s ?r2"
    by (simp add: url_char_steps url_uf_def eval_nat_numeral)
  also have "\<dots> = url_loop s_req_server (Some UF_HOST) False (length sch + 3 + length hp) ?h ?r3"
    by (rule url_loop_server [OF assms(2,3)]) simp
  also have "\<dots> = url_loop s_req_path (Some UF_PATH) False (length sch + 3 + length hp + length path) ?p (query_text q)"
    using url_loop_field [of s_req_server "CHR ''/''" s_req_path ps UF_PATH "Some UF_HOST" False
        "length sch + 3 + length hp" ?h "query_text q"] assms(1) path
    by (simp add: url_char_steps url_uf_def url_parts_ok_def del: url_loop.simps)
  also have "\<dots> = Some (False, put_query (length sch + 3 + length hp + length path) q ?p)"
    by (rule url_loop_query) (use assms(1) in \<open>simp add: url_parts_ok_def\<close>)
  finally show ?thesis .
qed

lemma url_field_text_at:
  assumes "buf = pre @ t @ post" "length buf < 65536"
    and "field_data u f = Some (word_of_nat (length pre), word_of_nat (length t))"
  shows "url_field_text buf u f = t"
proof -
  have "unat (word_of_nat (length pre) :: uint16) = length pre"
    "unat (word_of_nat (length t) :: uint16) = length t"
    by (rule unat_word16; use assms(1,2) in simp)+
  then show ?thesis
    using assms(1,3) by (simp add: url_field_text_def)
qed

definition absolute_url :: "string \<Rightarrow> bool \<Rightarrow> string \<Rightarrow> string option \<Rightarrow> string \<Rightarrow> string \<Rightarrow> string" where
  "absolute_url sch v6 h p path q =
    sch @ ''://'' @ host_text v6 h @ port_text p @ path @ query_text q"

lemma parse_absolute:
  assumes "url_parts_ok sch path q" "host_ok v6 h" "port_ok p"
    and "buf = absolute_url sch v6 h p path q" "length buf < 65536"
  shows "\<exists>u. http_parser_parse_url buf False = Some u
    \<and> field_data u UF_SCHEMA \<noteq> None \<and> url_field_text buf u UF_SCHEMA = sch
    \<and> field_data u UF_HOST \<noteq> None \<and> url_field_text buf u UF_HOST = h
    \<and> field_data u UF_PATH \<noteq> None \<and> url_field_text buf u UF_PATH = path
    \<and> (field_data u UF_QUERY \<noteq> None) = (q \<noteq> []) \<and> url_field_text buf u UF_QUERY = q
    \<and> (field_data u UF_PORT \<noteq> None) = (p \<noteq> None)
    \<and> port_number u = (case p of None \<Rightarrow> 0 | Some ds \<Rightarrow> word_of_nat (dec_value ds))"
proof -
  let ?e = "\<lparr>field_data = Map.empty, port_number = 0\<rparr> :: http_url"
  let ?ht = "host_text v6 h" and ?pt = "port_text p" and ?qt = "query_text q"
  let ?hp = "?ht @ ?pt" and ?pre = "sch @ ''://''"
  let ?u = "put_query (length sch + 3 + length ?hp + length path) q
      (field_put UF_PATH (length sch + 3 + length ?hp) (length path)
      (field_put UF_HOST (length sch + 3) (length ?hp) (field_put UF_SCHEMA 0 (length sch) ?e)))"
  let ?v = "put_port (length ?pre + length ?ht) p
    (field_put UF_HOST (if v6 then Suc (length ?pre) else length ?pre) (length h) ?u)"
  let ?w = "?v\<lparr>port_number := case p of None \<Rightarrow> 0 | Some ds \<Rightarrow> word_of_nat (dec_value ds)\<rparr>"
  have buf: "buf = ?pre @ ?ht @ ?pt @ path @ ?qt"
    using assms(4) by (simp add: absolute_url_def)
  have "url_loop s_req_spaces_before_url None False 0 ?e buf = Some (False, ?u)"
    using url_loop_absolute [OF assms(1) server_ok_text [OF assms(2,3)], of ?e] buf by simp
  moreover have "http_parse_host buf ?u False = Some ?v"
    by (rule http_parse_host_ok [OF assms(2,3) buf assms(5)]) (simp add: put_query_def)
  moreover have port: "p = Some ds \<Longrightarrow> url_field_text buf ?v UF_PORT = ds
      \<and> port_loop 0 ds = Some (dec_value ds)" for ds
  proof
    assume p: "p = Some ds"
    show "url_field_text buf ?v UF_PORT = ds"
      by (rule url_field_text_at [of _ "?pre @ ?ht @ '':''" _ "path @ ?qt"])
        (use buf p assms(5) in \<open>simp_all add: port_text_def put_port_def\<close>)
    show "port_loop 0 ds = Some (dec_value ds)"
      using port_loop_value [of ds "[]"] assms(3) p by (simp add: port_ok_def dec_value_def)
  qed
  moreover have "?v\<lparr>port_number := 0\<rparr> = ?v" if "p = None"
    using that by (simp add: put_port_def put_query_def field_put_def)
  ultimately have parse: "http_parser_parse_url buf False = Some ?w"
    by (cases p) (simp_all add: http_parser_parse_url_def put_port_def put_query_def)
  have v6: "host_text v6 h = (if v6 then ''['' else []) @ h @ (if v6 then '']'' else [])"
    by (simp add: host_text_def)
  have "url_field_text buf ?w UF_SCHEMA = sch"
    by (rule url_field_text_at [of _ "[]" _ "''://'' @ ?hp @ path @ ?qt"])
      (use buf assms(5) in \<open>simp_all add: put_port_def put_query_def split: option.split\<close>)
  moreover have "url_field_text buf ?w UF_HOST = h"
    by (rule url_field_text_at [of _ "?pre @ (if v6 then ''['' else [])" _ "(if v6 then '']'' else []) @ ?pt @ path @ ?qt"])
      (use buf assms(5) v6 in \<open>simp_all add: put_port_def put_query_def split: option.split\<close>)
  moreover have "url_field_text buf ?w UF_PATH = path"
    by (rule url_field_text_at [of _ "?pre @ ?hp" _ ?qt])
      (use buf assms(5) in \<open>simp_all add: put_port_def put_query_def split: option.split\<close>)
  moreover have "url_field_text buf ?w UF_QUERY = q"
  proof (cases "q = []")
    case True
    then show ?thesis
      by (simp add: url_field_text_def put_port_def put_query_def split: option.split)
  next
    case False
    show ?thesis
      by (rule url_field_text_at [of _ "?pre @ ?hp @ path @ ''?''" _ "[]"])
        (use buf assms(5) False in \<open>simp_all add: put_port_def put_query_def query_text_def split: option.split\<close>)
  qed
  ultimately show ?thesis
    using parse by (simp add: put_port_def put_query_def split: option.split)
qed

end
