(* ===== verification/NetUtils.thy ===== *)
theory NetUtils
  imports NetErrors Settings UrlParser
begin

text \<open>
  \<open>net/utils.cpp\<close> and \<open>portable/strtonum.c\<close>: addresses, endpoints and the names of reverse
  DNS.  \<open>inet_pton\<close> and \<open>inet_ntop\<close> are parameters; a socket address is a value of a datatype
  in place of a \<open>sockaddr_storage\<close>.
\<close>

section \<open>Socket addresses\<close>

datatype sockaddr = SockaddrIn bytes uint16 | SockaddrIn6 bytes uint16 | SockaddrOther

record endpoint =
  hostname :: string
  port :: uint16

text \<open>The two families of \<open>inet_pton\<close>: the address in network order, if the text is one.\<close>

record pton_api =
  pton4 :: "string \<Rightarrow> bytes option"
  pton6 :: "string \<Rightarrow> bytes option"

definition make_sockaddr_ipv4 :: "pton_api \<Rightarrow> string \<Rightarrow> uint16 \<Rightarrow> error \<times> sockaddr option" where
  "make_sockaddr_ipv4 api s p =
    (case pton4 api (c_str s) of None \<Rightarrow> (new ValueError, None)
     | Some a \<Rightarrow> (new NoError, Some (SockaddrIn a p)))"

definition make_sockaddr_ipv6 :: "pton_api \<Rightarrow> string \<Rightarrow> uint16 \<Rightarrow> error \<times> sockaddr option" where
  "make_sockaddr_ipv6 api s p =
    (case pton6 api (c_str s) of None \<Rightarrow> (new ValueError, None)
     | Some a \<Rightarrow> (new NoError, Some (SockaddrIn6 a p)))"

definition make_sockaddr :: "pton_api \<Rightarrow> string \<Rightarrow> uint16 \<Rightarrow> error \<times> sockaddr option" where
  "make_sockaddr api s p =
    (let r = make_sockaddr_ipv4 api s p in
     if \<not> err_eq (fst r) (new NoError) then make_sockaddr_ipv6 api s p else r)"

definition is_ipv4_addr :: "pton_api \<Rightarrow> string \<Rightarrow> bool" where
  "is_ipv4_addr api s = err_eq (fst (make_sockaddr_ipv4 api s 80)) (new NoError)"

definition is_ipv6_addr :: "pton_api \<Rightarrow> string \<Rightarrow> bool" where
  "is_ipv6_addr api s = err_eq (fst (make_sockaddr_ipv6 api s 80)) (new NoError)"

definition is_ip_addr :: "pton_api \<Rightarrow> string \<Rightarrow> bool" where
  "is_ip_addr api s = (is_ipv4_addr api s \<or> is_ipv6_addr api s)"

section \<open>Endpoints\<close>

definition parse_endpoint_internal :: "string \<Rightarrow> endpoint error_or" where
  "parse_endpoint_internal s =
    (case http_parser_parse_url s True of
       None \<Rightarrow> (new ValueError, \<lparr>hostname = [], port = 0\<rparr>)
     | Some u \<Rightarrow> no_err \<lparr>hostname = url_field_text s u UF_HOST, port = port_number u\<rparr>)"

definition serialize_address_port :: "pton_api \<Rightarrow> string \<Rightarrow> uint16 \<Rightarrow> string" where
  "serialize_address_port api a p =
    (let is_ipv6 = is_ipv6_addr api a in
     (if is_ipv6 then ''['' else []) @ a @ (if is_ipv6 then '']'' else []) @ '':'' @ nat_dec (unat p))"

definition parse_endpoint ::
  "pton_api \<Rightarrow> string \<Rightarrow> uint16 \<Rightarrow> endpoint error_or" where
  "parse_endpoint api s default_port =
    (let maybe_epnt = parse_endpoint_internal s in
     if has_value maybe_epnt then maybe_epnt
     else parse_endpoint_internal (serialize_address_port api s default_port))"

definition serialize_endpoint :: "pton_api \<Rightarrow> endpoint \<Rightarrow> string" where
  "serialize_endpoint api epnt = serialize_address_port api (hostname epnt) (port epnt)"

definition endpoint_from_sockaddr ::
  "(bytes \<Rightarrow> string option) \<Rightarrow> (bytes \<Rightarrow> string option) \<Rightarrow> sockaddr \<Rightarrow> endpoint error_or" where
  "endpoint_from_sockaddr ntop4 ntop6 ss =
    (let none = \<lparr>hostname = [], port = 0\<rparr>;
         result = (\<lambda>r p. case r of None \<Rightarrow> (new_s GenericError ''inet_ntop_failure'', none)
                         | Some a \<Rightarrow> no_err \<lparr>hostname = a, port = p\<rparr>)
     in case ss of
          SockaddrIn a p \<Rightarrow> result (ntop4 a) p
        | SockaddrIn6 a p \<Rightarrow> result (ntop6 a) p
        | SockaddrOther \<Rightarrow> (new_s ValueError ''invalid_family'', none))"

section \<open>strtonum and storage\_init\<close>

text \<open>\<open>strtoll\<close> in base ten: the value, whether it was out of range and the characters left;
  \<open>None\<close> when there is no number.\<close>

definition LLONG_MIN :: int where "LLONG_MIN = - (2 ^ 63)"
definition LLONG_MAX :: int where "LLONG_MAX = 2 ^ 63 - 1"

definition strtoll :: "string \<Rightarrow> (int \<times> bool \<times> string) option" where
  "strtoll s =
    (let s = dropWhile is_space s;
         (neg, s) = (case s of [] \<Rightarrow> (False, [])
                     | c # cs \<Rightarrow> if c = CHR ''-'' then (True, cs)
                                 else if c = CHR ''+'' then (False, cs) else (False, c # cs));
         ds = takeWhile is_digit s; rest = dropWhile is_digit s;
         v = (if neg then - int (dec_value ds) else int (dec_value ds))
     in if ds = [] then None
        else if v < LLONG_MIN then Some (LLONG_MIN, True, rest)
        else if v > LLONG_MAX then Some (LLONG_MAX, True, rest)
        else Some (v, False, rest))"

datatype strtonum_error = INVALID | TOOSMALL | TOOLARGE

definition strtonum :: "string \<Rightarrow> int \<Rightarrow> int \<Rightarrow> strtonum_error + int" where
  "strtonum numstr minval maxval =
    (if minval > maxval then Inl INVALID
     else case strtoll numstr of
       None \<Rightarrow> Inl INVALID
     | Some (ll, erange, ep) \<Rightarrow>
         if ep \<noteq> [] then Inl INVALID
         else if (ll = LLONG_MIN \<and> erange) \<or> ll < minval then Inl TOOSMALL
         else if (ll = LLONG_MAX \<and> erange) \<or> ll > maxval then Inl TOOLARGE
         else Inr ll)"

datatype family = PF_INET | PF_INET6 | PF_OTHER

text \<open>\<open>None\<close> is the result -1; a null address is \<open>None\<close>.\<close>

definition storage_init_port ::
  "pton_api \<Rightarrow> family \<Rightarrow> string option \<Rightarrow> int \<Rightarrow> sockaddr option" where
  "storage_init_port api fam address p =
    (if p < 0 \<or> p > 65535 then None
     else case fam of
       PF_INET6 \<Rightarrow> (case address of
           Some a \<Rightarrow> map_option (\<lambda>b. SockaddrIn6 b (word_of_int p)) (pton6 api a)
         | None \<Rightarrow> Some (SockaddrIn6 (replicate 16 0) (word_of_int p)))
     | PF_INET \<Rightarrow> (case address of
           Some a \<Rightarrow> map_option (\<lambda>b. SockaddrIn b (word_of_int p)) (pton4 api a)
         | None \<Rightarrow> Some (SockaddrIn (replicate 4 0) (word_of_int p)))
     | PF_OTHER \<Rightarrow> None)"

definition storage_init_str ::
  "pton_api \<Rightarrow> family \<Rightarrow> string option \<Rightarrow> string \<Rightarrow> sockaddr option" where
  "storage_init_str api fam address p =
    (case strtonum p 0 65535 of Inl _ \<Rightarrow> None | Inr n \<Rightarrow> storage_init_port api fam address n)"

definition storage_init ::
  "pton_api \<Rightarrow> string \<Rightarrow> string option \<Rightarrow> string \<Rightarrow> sockaddr option" where
  "storage_init api fam address p =
    (if fam = ''PF_INET'' then storage_init_str api PF_INET address p
     else if fam = ''PF_INET6'' then storage_init_str api PF_INET6 address p
     else None)"

section \<open>Names of reverse DNS\<close>

text \<open>The state of the loop of \<open>unreverse_ipv4\<close>: \<open>r\<close>, \<open>t\<close>, \<open>seen\<close> and \<open>cur\<close>, an \<open>unsigned\<close>.  The
  result is \<open>None\<close> for the empty string returned in the loop, else the deque and the
  characters not consumed.\<close>

fun unreverse_ipv4_loop ::
  "string \<Rightarrow> string \<Rightarrow> nat \<Rightarrow> uint32 \<Rightarrow> string \<Rightarrow> (string \<times> string) option" where
  "unreverse_ipv4_loop r t seen cur [] = Some (r, [])"
| "unreverse_ipv4_loop r t seen cur (c # s) =
    (if c = CHR ''.''
     then if cur > 255 then None
          else unreverse_ipv4_loop (t @ (if seen > 0 then CHR ''.'' # r else r)) [] (seen + 1) 0 s
     else if is_digit c
     then unreverse_ipv4_loop r (t @ [c]) seen (cur * 10 + word_of_nat (of_char c - 48)) s
     else Some (r, c # s))"

definition unreverse_ipv4 :: "string \<Rightarrow> string" where
  "unreverse_ipv4 s =
    (case unreverse_ipv4_loop [] [] 0 0 s of
       None \<Rightarrow> []
     | Some (r, rest) \<Rightarrow> if rest \<noteq> ''in-addr.arpa'' \<and> rest \<noteq> ''in-addr.arpa.'' then [] else r)"

definition is_xdigit :: "char \<Rightarrow> bool" where
  "is_xdigit c \<longleftrightarrow> (of_char c :: nat) \<in> {48..57} \<union> {65..70} \<union> {97..102}"

fun unreverse_ipv6_loop :: "nat \<Rightarrow> nat \<Rightarrow> string \<Rightarrow> string \<Rightarrow> (string \<times> string) option" where
  "unreverse_ipv6_loop i added r [] = Some (r, [])"
| "unreverse_ipv6_loop i added r (c # s) =
    (if i mod 2 = 0
     then if \<not> is_xdigit c then Some (r, c # s)
          else let r = c # r; added = added + 1 in
            unreverse_ipv6_loop (i + 1) added
              (if added mod 4 = 0 \<and> added \<le> 28 then CHR '':'' # r else r) s
     else if c \<noteq> CHR ''.'' then None
     else unreverse_ipv6_loop (i + 1) added r s)"

definition unreverse_ipv6 :: "string \<Rightarrow> string" where
  "unreverse_ipv6 s =
    (case unreverse_ipv6_loop 0 0 [] s of
       None \<Rightarrow> []
     | Some (r, rest) \<Rightarrow> if rest \<noteq> ''ip6.arpa'' \<and> rest \<noteq> ''ip6.arpa.'' then [] else r)"

section \<open>Endpoints read back\<close>

text \<open>A hostname that the text form of an endpoint can carry: a name, or an IPv6 address when the
  system recognises it as one.\<close>

definition endpoint_ok :: "pton_api \<Rightarrow> endpoint \<Rightarrow> bool" where
  "endpoint_ok api ep \<longleftrightarrow> host_ok (is_ipv6_addr api (hostname ep)) (hostname ep)
    \<and> length (hostname ep) < 65000"

lemma serialize_text:
  "serialize_address_port api a p = host_text (is_ipv6_addr api a) a @ port_text (Some (nat_dec (unat p)))"
  by (simp add: serialize_address_port_def host_text_def port_text_def)

lemma length_nat_dec: "0 < k \<Longrightarrow> n < 10 ^ k \<Longrightarrow> length (nat_dec n) \<le> k"
proof (induction k arbitrary: n)
  case (Suc k)
  show ?case
  proof (cases "n < 10")
    case False
    then have "0 < k" "n div 10 < 10 ^ k"
      using Suc.prems by (auto simp: less_mult_imp_div_less intro!: Suc_leI gr0I)
    then have "length (nat_dec (n div 10)) \<le> k"
      by (rule Suc.IH)
    then show ?thesis
      using False by (simp add: nat_dec.simps [of n])
  qed (simp add: nat_dec.simps [of n])
qed simp

lemma length_port: "length (nat_dec (unat (p :: uint16))) \<le> 5"
proof (rule length_nat_dec)
  show "unat p < 10 ^ 5"
    using uint16_lt [of p] by (rule less_le_trans) simp
qed simp

lemma parse_serialized:
  assumes "host_ok (is_ipv6_addr api a) a" "length a < 65000"
  shows "parse_endpoint_internal (serialize_address_port api a p) = no_err \<lparr>hostname = a, port = p\<rparr>"
proof -
  let ?ds = "nat_dec (unat p)"
  have "port_ok (Some ?ds)"
    using uint16_lt [of p] by (simp add: port_ok_def less_Suc_eq_le [symmetric])
  moreover have "length (host_text (is_ipv6_addr api a) a @ port_text (Some ?ds)) < 65536"
    using assms(2) length_port [of p] by (simp add: host_text_def port_text_def)
  ultimately show ?thesis
    using parse_connect [OF assms(1), of ?ds] unfolding parse_endpoint_internal_def serialize_text
    by auto
qed

lemma connect_needs_port:
  assumes "host_ok False h" "length h < 65000"
  shows "http_parser_parse_url h True = None"
proof -
  let ?e = "\<lparr>field_data = Map.empty, port_number = 0\<rparr> :: http_url"
  let ?u = "field_put UF_HOST 0 (length h) ?e"
  have "url_loop s_req_server_start None False 0 ?e h = Some (False, ?u)"
    using url_loop_server [OF server_ok_text [OF assms(1), of None], of None False 0 ?e "[]"]
    by (simp add: port_ok_def port_text_def host_text_def)
  moreover have "http_parse_host h ?u False = Some ?u"
    using http_parse_host_ok [OF assms(1), of None h "[]" "[]" ?u] assms(2)
    by (simp add: port_ok_def port_text_def host_text_def put_port_def field_put_def)
  moreover have "field_set ?u \<noteq> [UF_HOST, UF_PORT]"
    by (simp add: field_set_def)
  ultimately show ?thesis
    by (simp add: http_parser_parse_url_def)
qed

section \<open>Reading back the octets\<close>

text \<open>A label is digits whose value as an \<open>unsigned\<close> is at most 255.\<close>

definition octet_label :: "string \<Rightarrow> bool" where
  "octet_label t \<longleftrightarrow> t \<noteq> [] \<and> Ball (set t) is_digit \<and> dec_value t mod 4294967296 \<le> 255"

fun join :: "string \<Rightarrow> string list \<Rightarrow> string" where
  "join sep [] = []"
| "join sep [t] = t"
| "join sep (t # ts) = t @ sep @ join sep ts"

lemma join_Cons: "join sep (t # ts) = t @ (if ts = [] then [] else sep @ join sep ts)"
  by (cases ts) simp_all

lemma dot_not_digit [simp]: "\<not> is_digit (CHR ''.'')"
  by (simp add: is_digit_def)

lemma unreverse_ipv4_digits:
  assumes "Ball (set ds) is_digit"
  shows "unreverse_ipv4_loop r t seen (word_of_nat (dec_value u)) (ds @ s) =
    unreverse_ipv4_loop r (t @ ds) seen (word_of_nat (dec_value (u @ ds))) s"
  using assms
proof (induction ds arbitrary: t u)
  case (Cons c ds)
  then have c: "is_digit c" "c \<noteq> CHR ''.''"
    by auto
  have "word_of_nat (dec_value u) * 10 + word_of_nat (of_char c - 48) =
      (word_of_nat (dec_value (u @ [c])) :: uint32)"
    by simp
  then show ?case
    using c Cons.IH [of "t @ [c]" "u @ [c]"] Cons.prems by simp
qed simp

lemma unreverse_ipv4_labels:
  assumes "list_all octet_label ts" and "(0 < seen) = (rs \<noteq> [])" and "list_all octet_label rs"
  shows "unreverse_ipv4_loop (join ''.'' rs) [] seen 0 (concat (map (\<lambda>t. t @ ''.'') ts) @ s) =
    unreverse_ipv4_loop (join ''.'' (rev ts @ rs)) [] (seen + length ts) 0 s"
  using assms
proof (induction ts arbitrary: rs seen)
  case (Cons t ts)
  have t: "Ball (set t) is_digit" "dec_value t mod 4294967296 \<le> 255" "octet_label t"
    using Cons.prems by (auto simp: octet_label_def)
  let ?s = "concat (map (\<lambda>t. t @ ''.'') ts) @ s"
  have "\<not> (255 :: uint32) < word_of_nat (dec_value t)"
    using t(2) by (simp add: word_less_nat_alt unsigned_of_nat take_bit_eq_mod)
  moreover have "unreverse_ipv4_loop (join ''.'' rs) [] seen 0 (t @ ''.'' @ ?s) =
      unreverse_ipv4_loop (join ''.'' rs) t seen (word_of_nat (dec_value t)) (''.'' @ ?s)"
    using unreverse_ipv4_digits [OF t(1), of "join ''.'' rs" "[]" seen "[]" "''.'' @ ?s"]
    by (simp add: dec_value_def)
  ultimately have "unreverse_ipv4_loop (join ''.'' rs) [] seen 0 (t @ ''.'' @ ?s) =
      unreverse_ipv4_loop (join ''.'' (t # rs)) [] (seen + 1) 0 ?s"
    using Cons.prems(2) by (simp add: join_Cons)
  also have "\<dots> = unreverse_ipv4_loop (join ''.'' (rev ts @ t # rs)) [] (seen + 1 + length ts) 0 s"
    by (rule Cons.IH) (use Cons.prems t(3) in auto)
  finally show ?case
    by simp
qed simp

lemma unreverse_ipv4_reads:
  assumes "list_all octet_label ts"
  shows "unreverse_ipv4 (concat (map (\<lambda>t. t @ ''.'') ts) @ ''in-addr.arpa'') = join ''.'' (rev ts)"
proof -
  have "unreverse_ipv4_loop r [] n 0 ''in-addr.arpa'' = Some (r, ''in-addr.arpa'')" for r n
    by (simp add: is_digit_def)
  then show ?thesis
    using unreverse_ipv4_labels [OF assms, of 0 "[]" "''in-addr.arpa''"]
    by (simp add: unreverse_ipv4_def)
qed

section \<open>Properties\<close>

text \<open>The text of an endpoint is read back as the same endpoint, names, IPv4 and IPv6 addresses
  alike, whatever the default port is.\<close>

theorem endpoint_roundtrip:
  assumes "endpoint_ok api ep"
  shows "parse_endpoint api (serialize_endpoint api ep) default_port = no_err ep"
  using assms parse_serialized [of api "hostname ep" "port ep"]
  by (cases ep) (simp add: parse_endpoint_def serialize_endpoint_def endpoint_ok_def Let_def)

theorem endpoint_roundtrip_witness:
  "let api = \<lparr>pton4 = (\<lambda>_. None), pton6 = (\<lambda>s. if s = ''::1'' then Some (replicate 16 0) else None)\<rparr>
   in parse_endpoint api (serialize_endpoint api \<lparr>hostname = ''::1'', port = 53\<rparr>) 80 =
     no_err \<lparr>hostname = ''::1'', port = 53\<rparr>"
proof -
  let ?api = "\<lparr>pton4 = (\<lambda>_. None), pton6 = (\<lambda>s. if s = ''::1'' then Some (replicate 16 0) else None)\<rparr>"
  have "endpoint_ok ?api \<lparr>hostname = ''::1'', port = 53\<rparr>"
    by (simp add: endpoint_ok_def host_ok_def is_v6_char_def IS_HEX_def is_digit_def LOWER_def
        is_ipv6_addr_def make_sockaddr_ipv6_def c_str_def err_eq_def)
  from endpoint_roundtrip [OF this, of 80] show ?thesis
    unfolding Let_def .
qed

text \<open>A name or an IPv4 address without a port gets the default port.\<close>

theorem endpoint_default_port:
  assumes "host_ok False h" "length h < 65000" "\<not> is_ipv6_addr api h"
  shows "parse_endpoint api h default_port = no_err \<lparr>hostname = h, port = default_port\<rparr>"
proof -
  have "\<not> has_value (parse_endpoint_internal h)"
    using connect_needs_port [OF assms(1,2)]
    by (simp add: parse_endpoint_internal_def err_simps)
  then show ?thesis
    using parse_serialized [of api h default_port] assms by (simp add: parse_endpoint_def Let_def)
qed

theorem endpoint_default_port_witness:
  "parse_endpoint \<lparr>pton4 = (\<lambda>_. None), pton6 = (\<lambda>_. None)\<rparr> ''a.b'' 80 =
    no_err \<lparr>hostname = ''a.b'', port = 80\<rparr>"
proof -
  have "host_ok False ''a.b''"
    by (simp add: host_ok_def IS_HOST_CHAR_def IS_ALPHANUM_def IS_ALPHA_def LOWER_def)
  moreover have "\<not> is_ipv6_addr \<lparr>pton4 = (\<lambda>_. None), pton6 = (\<lambda>_. None)\<rparr> ''a.b''"
    by (simp add: is_ipv6_addr_def make_sockaddr_ipv6_def err_eq_def err_simps)
  ultimately show ?thesis
    by (intro endpoint_default_port) simp_all
qed

text \<open>C48: \<open>unreverse_ipv4\<close> turns the name of reverse DNS back into the dotted address, its labels in
  the opposite order; a label is accepted when its value modulo 2 to the 32 is at most 255, so a
  number that wraps the accumulator passes as an octet.\<close>

theorem unreverse_ipv4_reverses:
  assumes "list_all octet_label ts"
  shows "unreverse_ipv4 (concat (map (\<lambda>t. t @ ''.'') ts) @ ''in-addr.arpa'') = join ''.'' (rev ts)"
  by (rule unreverse_ipv4_reads [OF assms])

theorem unreverse_ipv4_reverses_witness:
  "unreverse_ipv4 ''4294967297.0.168.192.in-addr.arpa'' = ''192.168.0.4294967297''"
proof -
  have "list_all octet_label [''4294967297'', ''0'', ''168'', ''192'']"
    by (simp add: octet_label_def dec_value_def is_digit_def)
  from unreverse_ipv4_reverses [OF this] show ?thesis
    by simp
qed

end
