(* ===== verification/HttpUrl.thy ===== *)
theory HttpUrl
  imports NetUtils
begin

text \<open>
  \<open>http/http.hpp\<close> and \<open>http/parse_url.cpp\<close>: the error classes of the HTTP library, the class
  \<open>Url\<close>, its parser and its printer.
\<close>

section \<open>Errors\<close>

definition UpgradeError :: error_class where
  "UpgradeError = (MK_ERR_HTTP 0, ''http_upgrade_error'')"
definition ParserError :: error_class where
  "ParserError = (MK_ERR_HTTP 1, ''http_parser_error'')"
definition UrlParserError :: error_class where
  "UrlParserError = (MK_ERR_HTTP 2, ''http_url_parser_error'')"
definition MissingUrlSchemaError :: error_class where
  "MissingUrlSchemaError = (MK_ERR_HTTP 3, ''http_missing_url_schema'')"
definition MissingUrlHostError :: error_class where
  "MissingUrlHostError = (MK_ERR_HTTP 4, ''http_missing_url_host'')"
definition MissingUrlError :: error_class where
  "MissingUrlError = (MK_ERR_HTTP 5, ''http_missing_url'')"
definition HttpRequestFailedError :: error_class where
  "HttpRequestFailedError = (MK_ERR_HTTP 6, ''http_request_failed'')"
definition HeaderParserInternalError :: error_class where
  "HeaderParserInternalError = (MK_ERR_HTTP 7, ''http_parser_internal_error'')"
definition InvalidMaxRedirectsError :: error_class where
  "InvalidMaxRedirectsError = (MK_ERR_HTTP 8, ''http_invalid_max_redirects_setting'')"
definition InvalidRedirectUrlError :: error_class where
  "InvalidRedirectUrlError = (MK_ERR_HTTP 9, ''http_invalid_redirect_url'')"
definition EmptyLocationError :: error_class where
  "EmptyLocationError = (MK_ERR_HTTP 10, ''http_empty_location_header'')"
definition TooManyRedirectsError :: error_class where
  "TooManyRedirectsError = (MK_ERR_HTTP 11, ''http_too_many_redirects'')"
definition ParserInvalidEofStateError :: error_class where
  "ParserInvalidEofStateError = (MK_ERR_HTTP 12, ''http_parser_invalid_eof_state'')"
definition ParserHeaderOverflowError :: error_class where
  "ParserHeaderOverflowError = (MK_ERR_HTTP 13, ''http_parser_header_overflow'')"
definition ParserClosedConnectionError :: error_class where
  "ParserClosedConnectionError = (MK_ERR_HTTP 14, ''http_parser_connection_closed'')"
definition ParserInvalidVersionError :: error_class where
  "ParserInvalidVersionError = (MK_ERR_HTTP 15, ''http_parser_invalid_version'')"
definition ParserInvalidStatusError :: error_class where
  "ParserInvalidStatusError = (MK_ERR_HTTP 16, ''http_parser_invalid_status'')"
definition ParserInvalidMethodError :: error_class where
  "ParserInvalidMethodError = (MK_ERR_HTTP 17, ''http_parser_invalid_method'')"
definition ParserInvalidUrlError :: error_class where
  "ParserInvalidUrlError = (MK_ERR_HTTP 18, ''http_parser_invalid_url'')"
definition ParserInvalidHostError :: error_class where
  "ParserInvalidHostError = (MK_ERR_HTTP 19, ''http_parser_invalid_host'')"
definition ParserInvalidPortError :: error_class where
  "ParserInvalidPortError = (MK_ERR_HTTP 20, ''http_parser_invalid_port'')"
definition ParserInvalidPathError :: error_class where
  "ParserInvalidPathError = (MK_ERR_HTTP 21, ''http_parser_invalid_path'')"
definition ParserInvalidQueryStringError :: error_class where
  "ParserInvalidQueryStringError = (MK_ERR_HTTP 22, ''http_parser_invalid_query_string'')"
definition ParserInvalidFragmentError :: error_class where
  "ParserInvalidFragmentError = (MK_ERR_HTTP 23, ''http_parser_invalid_fragment'')"
definition ParserLfExpectedError :: error_class where
  "ParserLfExpectedError = (MK_ERR_HTTP 24, ''http_parser_expected_lf'')"
definition ParserInvalidHeaderTokenError :: error_class where
  "ParserInvalidHeaderTokenError = (MK_ERR_HTTP 25, ''http_parser_invalid_header_token'')"
definition ParserInvalidContentLengthError :: error_class where
  "ParserInvalidContentLengthError = (MK_ERR_HTTP 26, ''http_parser_invalid_content_length'')"
definition ParserUnexpectedContentLengthError :: error_class where
  "ParserUnexpectedContentLengthError = (MK_ERR_HTTP 27, ''http_parser_unexpected_content_length'')"
definition ParserInvalidChunkSizeError :: error_class where
  "ParserInvalidChunkSizeError = (MK_ERR_HTTP 28, ''http_parser_invalid_chunk_size'')"
definition ParserInvalidConstantError :: error_class where
  "ParserInvalidConstantError = (MK_ERR_HTTP 29, ''http_parser_invalid_constant'')"
definition ParserInvalidInternalStateError :: error_class where
  "ParserInvalidInternalStateError = (MK_ERR_HTTP 30, ''http_parser_invalid_internal_state'')"
definition ParserStrictModeAssertionError :: error_class where
  "ParserStrictModeAssertionError = (MK_ERR_HTTP 31, ''http_parser_strict_mode_assertion'')"
definition ParserPausedError :: error_class where
  "ParserPausedError = (MK_ERR_HTTP 32, ''http_parser_paused'')"
definition GenericParserError :: error_class where
  "GenericParserError = (MK_ERR_HTTP 33, ''http_parser_generic_error'')"

lemmas http_error_defs [err_simps] =
  UpgradeError_def ParserError_def UrlParserError_def MissingUrlSchemaError_def
  MissingUrlHostError_def MissingUrlError_def HttpRequestFailedError_def
  HeaderParserInternalError_def InvalidMaxRedirectsError_def InvalidRedirectUrlError_def
  EmptyLocationError_def TooManyRedirectsError_def ParserInvalidEofStateError_def
  ParserHeaderOverflowError_def ParserClosedConnectionError_def ParserInvalidVersionError_def
  ParserInvalidStatusError_def ParserInvalidMethodError_def ParserInvalidUrlError_def
  ParserInvalidHostError_def ParserInvalidPortError_def ParserInvalidPathError_def
  ParserInvalidQueryStringError_def ParserInvalidFragmentError_def ParserLfExpectedError_def
  ParserInvalidHeaderTokenError_def ParserInvalidContentLengthError_def
  ParserUnexpectedContentLengthError_def ParserInvalidChunkSizeError_def
  ParserInvalidConstantError_def ParserInvalidInternalStateError_def
  ParserStrictModeAssertionError_def ParserPausedError_def GenericParserError_def

section \<open>Url\<close>

record url =
  schema :: string
  address :: string
  url_port :: int
  path :: string
  query :: string
  pathquery :: string

definition parse_url :: "string \<Rightarrow> error + url" where
  "parse_url url =
    (case http_parser_parse_url url False of
       None \<Rightarrow> Inl (new UrlParserError)
     | Some u \<Rightarrow>
         if field_data u UF_SCHEMA = None then Inl (new MissingUrlSchemaError)
         else if field_data u UF_HOST = None then Inl (new MissingUrlHostError)
         else
           let schema = url_field_text url u UF_SCHEMA;
               address = url_field_text url u UF_HOST;
               port = (if field_data u UF_PORT \<noteq> None then uint (port_number u)
                       else if schema = ''https'' then 443 else 80);
               path = (if field_data u UF_PATH \<noteq> None then url_field_text url u UF_PATH else ''/'');
               (query, pathquery) =
                 (if field_data u UF_QUERY \<noteq> None
                  then (url_field_text url u UF_QUERY, path @ ''?'' @ url_field_text url u UF_QUERY)
                  else ([], path))
           in Inr \<lparr>schema = schema, address = address, url_port = port, path = path, query = query,
                   pathquery = pathquery\<rparr>)"

definition url_none :: url where
  "url_none = \<lparr>schema = [], address = [], url_port = 80, path = [], query = [], pathquery = []\<rparr>"

definition parse_url_noexcept :: "string \<Rightarrow> url error_or" where
  "parse_url_noexcept url =
    (case parse_url url of Inl e \<Rightarrow> (e, url_none) | Inr u \<Rightarrow> (new NoError, u))"

definition url_str :: "pton_api \<Rightarrow> url \<Rightarrow> string" where
  "url_str api u =
    schema u @ ''://''
    @ (if is_ipv6_addr api (address u) then ''['' else [])
    @ address u
    @ (if is_ipv6_addr api (address u) then '']'' else [])
    @ (if schema u = ''http'' \<and> url_port u \<noteq> 80 \<or> schema u = ''https'' \<and> url_port u \<noteq> 443
       then '':'' @ int_dec (url_port u) else [])
    @ (if pathquery u \<noteq> [] then pathquery u else ''/'')"

section \<open>Lemmas\<close>

text \<open>The values of \<open>Url\<close> that their text can carry.\<close>

definition url_ok :: "pton_api \<Rightarrow> url \<Rightarrow> bool" where
  "url_ok api u \<longleftrightarrow> schema u \<in> {''http'', ''https''}
    \<and> host_ok (is_ipv6_addr api (address u)) (address u)
    \<and> 0 \<le> url_port u \<and> url_port u \<le> 65535
    \<and> path u \<noteq> [] \<and> hd (path u) = CHR ''/'' \<and> Ball (set (tl (path u))) IS_URL_CHAR
    \<and> (\<forall>c \<in> set (query u). IS_URL_CHAR c \<or> c = CHR ''?'')
    \<and> pathquery u = path u @ query_text (query u)"

definition printed_port :: "url \<Rightarrow> string option" where
  "printed_port u =
    (if schema u = ''http'' \<and> url_port u \<noteq> 80 \<or> schema u = ''https'' \<and> url_port u \<noteq> 443
     then Some (nat_dec (nat (url_port u))) else None)"

lemma url_str_absolute:
  assumes "url_ok api u"
  shows "url_str api u = absolute_url (schema u) (is_ipv6_addr api (address u)) (address u)
    (printed_port u) (path u) (query u)"
  using assms by (auto simp: url_str_def absolute_url_def host_text_def port_text_def
      printed_port_def url_ok_def int_dec_def)

lemma url_ok_parts:
  assumes "url_ok api u"
  shows "url_parts_ok (schema u) (path u) (query u)" "port_ok (printed_port u)"
proof -
  have "Ball (set ''http'') IS_ALPHA" "Ball (set ''https'') IS_ALPHA"
    by (simp_all add: IS_ALPHA_def LOWER_def)
  then show "url_parts_ok (schema u) (path u) (query u)"
    using assms by (auto simp: url_parts_ok_def url_ok_def)
  show "port_ok (printed_port u)"
    using assms by (simp add: url_ok_def port_ok_def printed_port_def nat_le_iff)
qed

lemma parse_url_str:
  assumes "url_ok api u" and "length (url_str api u) < 65536"
  shows "parse_url (url_str api u) = Inr u"
proof -
  have "host_ok (is_ipv6_addr api (address u)) (address u)"
    using assms(1) by (simp add: url_ok_def)
  then obtain v where v: "http_parser_parse_url (url_str api u) False = Some v"
    "field_data v UF_SCHEMA \<noteq> None" "url_field_text (url_str api u) v UF_SCHEMA = schema u"
    "field_data v UF_HOST \<noteq> None" "url_field_text (url_str api u) v UF_HOST = address u"
    "field_data v UF_PATH \<noteq> None" "url_field_text (url_str api u) v UF_PATH = path u"
    "(field_data v UF_QUERY \<noteq> None) = (query u \<noteq> [])"
    "url_field_text (url_str api u) v UF_QUERY = query u"
    "(field_data v UF_PORT \<noteq> None) = (printed_port u \<noteq> None)"
    "port_number v = (case printed_port u of None \<Rightarrow> 0 | Some ds \<Rightarrow> word_of_nat (dec_value ds))"
    using parse_absolute [OF url_ok_parts(1) [OF assms(1)] _ url_ok_parts(2) [OF assms(1)]
        url_str_absolute [OF assms(1)] assms(2)] by blast
  have port: "(if field_data v UF_PORT \<noteq> None then uint (port_number v)
      else if schema u = ''https'' then 443 else 80) = url_port u"
  proof (cases "printed_port u")
    case None
    then show ?thesis
      using v(10) assms(1) by (auto simp: printed_port_def url_ok_def split: if_splits)
  next
    case (Some ds)
    then have "ds = nat_dec (nat (url_port u))"
      by (auto simp: printed_port_def split: if_splits)
    moreover have "url_port u mod 65536 = url_port u"
      using assms(1) by (simp add: url_ok_def)
    ultimately have "uint (port_number v) = url_port u"
      using v(11) Some assms(1) by (simp add: url_ok_def unsigned_of_nat unsigned_of_int
          take_bit_eq_mod)
    then show ?thesis
      using v(10) Some by simp
  qed
  have "pathquery u = path u @ query_text (query u)"
    using assms(1) by (simp add: url_ok_def)
  then show ?thesis
    using v(2,4,6,8) unfolding parse_url_def v(1) option.case Let_def v(3,5,7,9) port
    by (cases u) (auto simp: query_text_def)
qed

section \<open>Properties\<close>

text \<open>C17: Parsing the text of a URL gives the URL back: default and explicit ports, host names, IPv4
  and bracketed IPv6 addresses, paths and queries.\<close>

theorem url_roundtrip:
  assumes "url_ok api u" and "length (url_str api u) < 65536"
  shows "parse_url (url_str api u) = Inr u"
  by (rule parse_url_str [OF assms])

theorem url_roundtrip_witness:
  "let api = \<lparr>pton4 = (\<lambda>_. None), pton6 = (\<lambda>_. None)\<rparr>
   in parse_url (url_str api \<lparr>schema = ''http'', address = ''a.b'', url_port = 8080, path = ''/x'',
      query = ''y=1'', pathquery = ''/x?y=1''\<rparr>) =
     Inr \<lparr>schema = ''http'', address = ''a.b'', url_port = 8080, path = ''/x'', query = ''y=1'',
      pathquery = ''/x?y=1''\<rparr>"
proof -
  let ?api = "\<lparr>pton4 = (\<lambda>_. None), pton6 = (\<lambda>_. None)\<rparr> :: pton_api"
  let ?u = "\<lparr>schema = ''http'', address = ''a.b'', url_port = 8080, path = ''/x'',
      query = ''y=1'', pathquery = ''/x?y=1''\<rparr>"
  have no6: "\<not> is_ipv6_addr ?api h" for h
    by (simp add: is_ipv6_addr_def make_sockaddr_ipv6_def err_eq_def err_simps)
  have "url_ok ?api ?u"
    by (simp add: url_ok_def no6 host_ok_def IS_HOST_CHAR_def IS_ALPHANUM_def IS_ALPHA_def
        LOWER_def query_text_def IS_URL_CHAR_def normal_url_char_def bit_iff_odd)
  moreover have "length (url_str ?api ?u) < 65536"
    by (simp add: url_str_def no6 int_dec_def nat_dec.simps)
  ultimately show ?thesis
    unfolding Let_def by (rule url_roundtrip)
qed

end
