(* ===== verification/Connect.thy ===== *)
theory Connect
  imports NetUtils
begin

text \<open>
  \<open>net/connect.cpp\<close>, \<open>net/connect_impl.hpp\<close> and \<open>net/libssl.hpp\<close>: how a connection is made.  What
  the system, libevent and OpenSSL answer is an argument (the records \<open>conn_env\<close> and
  \<open>ssl_env\<close>); the callbacks run in the order libevent runs them, so an operation is a
  function from the answers to the arguments of its callback, together with the trace of the
  bufferevents it makes and frees.
\<close>

section \<open>Bufferevents\<close>

text \<open>A bufferevent is named by the attempt that made it; an SSL filter owns the one below it
  (\<open>BEV_OPT_CLOSE_ON_FREE\<close>).\<close>

datatype bev = SockBev nat | SslBev bev

datatype bev_op = BevNew bev | BevFree bev | BevFilter bev

text \<open>The bufferevents alive after a trace; \<open>None\<close> when one is freed or wrapped that is not.\<close>

fun bev_exec :: "bev_op list \<Rightarrow> bev set \<Rightarrow> bev set option" where
  "bev_exec [] live = Some live"
| "bev_exec (BevNew b # ops) live = (if b \<in> live then None else bev_exec ops (insert b live))"
| "bev_exec (BevFree b # ops) live = (if b \<in> live then bev_exec ops (live - {b}) else None)"
| "bev_exec (BevFilter b # ops) live =
    (if b \<in> live then bev_exec ops (insert (SslBev b) (live - {b})) else None)"

section \<open>The event of a connecting bufferevent\<close>

text \<open>\<open>BevFailed\<close> holds \<open>errno\<close> and the text of the OpenSSL error.\<close>

datatype bev_event = BevConnected | BevTimeout | BevFailed sys_errno string

definition mk_bufferevent_on_event :: "bev_event \<Rightarrow> error" where
  "mk_bufferevent_on_event what =
    (case what of
       BevConnected \<Rightarrow> new NoError
     | BevTimeout \<Rightarrow> new TimeoutError
     | BevFailed ecode s \<Rightarrow> if ecode \<noteq> Ezero then map_errno ecode else new_s SslError s)"

section \<open>connect\_base\<close>

record conn_env =
  ce_pton :: pton_api
  ce_socket :: bool
  ce_timeouts :: bool
  ce_connect :: "sys_errno option"
  ce_event :: bev_event
  ce_elapsed :: rat

text \<open>\<open>ce_socket\<close> and \<open>ce_timeouts\<close> tell whether the calls succeed, \<open>ce_connect\<close> is the \<open>errno\<close> of a
  \<open>bufferevent_socket_connect\<close> that fails at once.\<close>

definition connect_base ::
  "conn_env \<Rightarrow> nat \<Rightarrow> string \<Rightarrow> uint16 \<Rightarrow> bev_op list \<times> (error \<times> bev option \<times> rat) res" where
  "connect_base env i address p =
    (let (err, saddr) = make_sockaddr (ce_pton env) address p; bev = SockBev i in
     if \<not> err_eq err (new NoError) then ([], Inr (err, None, 0))
     else if \<not> ce_socket env then ([], Inl (ErrorExn (new GenericError)))
     else if \<not> ce_timeouts env then ([BevNew bev, BevFree bev], Inl (ErrorExn (new GenericError)))
     else case ce_connect env of
       Some errno \<Rightarrow>
         let sys_error = map_errno errno;
             sys_error = (if err_eq sys_error (new NoError) then new GenericError else sys_error)
         in ([BevNew bev, BevFree bev], Inr (sys_error, None, 0))
     | None \<Rightarrow>
         let err = mk_bufferevent_on_event (ce_event env) in
         if is_err err then ([BevNew bev, BevFree bev], Inr (err, None, 0))
         else ([BevNew bev], Inr (err, Some bev, ce_elapsed env)))"

section \<open>connect\_first\_of\<close>

text \<open>The environment gives the answers of the attempt with a given index.  The result is the list
  of errors and the connected bufferevent with the time it took.  A port is an \<open>int\<close> that
  \<open>connect_base\<close> takes as a \<open>uint16_t\<close>.\<close>

function connect_first_of ::
  "(nat \<Rightarrow> conn_env) \<Rightarrow> string list \<Rightarrow> int \<Rightarrow> nat \<Rightarrow> error list \<Rightarrow>
    bev_op list \<times> (error list \<times> (bev \<times> rat) option) res" where
  "connect_first_of env addresses p index errors =
    (if index \<ge> length addresses then ([], Inr (errors, None))
     else case connect_base (env index) index (addresses ! index) (word_of_int p) of
       (ops, Inl e) \<Rightarrow> (ops, Inl e)
     | (ops, Inr (err, bev, connect_time)) \<Rightarrow>
         let errors = errors @ [err] in
         if is_err err then
           let (ops', r) = connect_first_of env addresses p (index + 1) errors in (ops @ ops', r)
         else (ops, Inr (errors, map_option (\<lambda>b. (b, connect_time)) bev)))"
  by pat_completeness auto
termination
  by (relation "measure (\<lambda>(_, addresses, _, index, _). length addresses - index)") auto

declare connect_first_of.simps [simp del]

section \<open>connect\_logic\<close>

record connect_result =
  cr_addresses :: "string list"
  cr_errors :: "error list"
  cr_time :: rat
  cr_bev :: "bev option"

text \<open>\<open>addresses\<close> is what \<open>dns::resolve_hostname\<close> found, \<open>nagle\<close> whether \<open>setsockopt\<close> succeeds.\<close>

definition disable_nagle :: "bool \<Rightarrow> error" where
  "disable_nagle ok = (if ok then new NoError else new NetworkError)"

definition connect_logic ::
  "(nat \<Rightarrow> conn_env) \<Rightarrow> bool \<Rightarrow> string list \<Rightarrow> int \<Rightarrow>
    bev_op list \<times> (error \<times> connect_result) res" where
  "connect_logic env nagle addresses p =
    (let result = \<lparr>cr_addresses = addresses, cr_errors = [], cr_time = 0, cr_bev = None\<rparr> in
     if length addresses = 0 then ([], Inr (new DnsGenericError, result))
     else case connect_first_of env addresses p 0 [] of
       (ops, Inl e) \<Rightarrow> (ops, Inl e)
     | (ops, Inr (e, None)) \<Rightarrow>
         (ops, Inr (if length e = 1 then e ! 0
                    else foldl (\<lambda>ce se. add_child_error se ce) (new ConnectFailedError) e,
                    result\<lparr>cr_errors := e\<rparr>))
     | (ops, Inr (e, Some (b, t))) \<Rightarrow>
         (ops, Inr (foldl (\<lambda>ne se. add_child_error se ne) (disable_nagle nagle) e,
                    result\<lparr>cr_errors := e, cr_bev := Some b, cr_time := t\<rparr>)))"

section \<open>SSL\<close>

text \<open>\<open>ssl_verify\<close> is the result of \<open>SSL_get_verify_result\<close> with its text, the presence of a
  certificate, and what \<open>tls_check_name\<close> returns and stores in \<open>match\<close>.\<close>

record ssl_env =
  ssl_filter :: bool
  ssl_event :: bev_event
  ssl_verify :: "string option"
  ssl_cert :: bool
  ssl_check_name :: "int \<times> bool"

definition verify_peer :: "ssl_env \<Rightarrow> error" where
  "verify_peer env =
    (case ssl_verify env of
       Some s \<Rightarrow> new_s SslInvalidCertificateError s
     | None \<Rightarrow>
         if \<not> ssl_cert env then new SslNoCertificateError
         else let (err, matches) = ssl_check_name env in
           if err \<noteq> 0 then new SslInvalidHostnameError
           else if \<not> matches then new SslMissingHostnameError
           else new NoError)"

definition connect_ssl :: "ssl_env \<Rightarrow> bev \<Rightarrow> bev_op list \<times> error \<times> bev option" where
  "connect_ssl env orig_bev =
    (if \<not> ssl_filter env then ([BevFree orig_bev], new GenericError, None)
     else
       let bev = SslBev orig_bev; err = mk_bufferevent_on_event (ssl_event env) in
       if is_err err then ([BevFilter orig_bev, BevFree bev], err, None)
       else let err = verify_peer env in
         if is_err err then ([BevFilter orig_bev, BevFree bev], err, None)
         else ([BevFilter orig_bev], err, Some bev))"

section \<open>The cache of SSL contexts\<close>

text \<open>\<open>Context::make\<close>: \<open>new\<close> and \<open>load\<close> tell whether the calls of OpenSSL succeed, \<open>libressl\<close>
  whether the built-in bundle can be used.  The context is the path it was made for.\<close>

record ctx_env =
  ctx_new :: bool
  ctx_load :: "string \<Rightarrow> bool"
  ctx_libressl :: bool
  ctx_load_mem :: bool

definition context_make :: "ctx_env \<Rightarrow> string \<Rightarrow> error" where
  "context_make env ca_bundle_path =
    (if \<not> ctx_new env then new SslCtxNewError
     else if ca_bundle_path \<noteq> [] then
       (if \<not> ctx_load env ca_bundle_path then new SslCtxLoadVerifyLocationsError else new NoError)
     else if ctx_libressl env then
       (if \<not> ctx_load_mem env then new SslCtxLoadVerifyMemError else new NoError)
     else new MissingCaBundlePathError)"

definition context_get_client_ssl :: "bool \<Rightarrow> error" where
  "context_get_client_ssl ssl_new = (if \<not> ssl_new then new SslNewError else new NoError)"

text \<open>\<open>all_\<close> as the list of its keys, in the order they were added.\<close>

definition cache_get_client_ssl ::
  "nat \<Rightarrow> (string \<Rightarrow> error) \<Rightarrow> bool \<Rightarrow> string \<Rightarrow> string list \<Rightarrow> error \<times> string list" where
  "cache_get_client_ssl max_cache_size mkctx ssl_new ca_bundle_path all =
    (let all = (if length all \<ge> max_cache_size then [] else all) in
     if ca_bundle_path \<notin> set all
     then let maybe_context = mkctx ca_bundle_path in
       if code maybe_context \<noteq> 0 then (maybe_context, all)
       else (context_get_client_ssl ssl_new, all @ [ca_bundle_path])
     else (context_get_client_ssl ssl_new, all))"

section \<open>connect\<close>

datatype txp_kind = TxpEmitter | TxpLibevent bev | TxpSocks5

record txp =
  txp_kind :: txp_kind
  txp_timeout :: "rat option"
  txp_result :: "connect_result option"

definition make_txp :: "txp_kind \<Rightarrow> rat \<Rightarrow> connect_result option \<Rightarrow> txp" where
  "make_txp k timeout r =
    \<lparr>txp_kind = k, txp_timeout = (if timeout > 0 then Some timeout else None), txp_result = r\<rparr>"

text \<open>Everything the system answers during one \<open>connect\<close>; \<open>net_double\<close> reads a setting as a double,
  \<open>net_socks5\<close> is what \<open>socks5_connect\<close> calls back with, with its own trace, and
  \<open>net_ca_bundle\<close> is the macro \<open>MK_CA_BUNDLE\<close> of the build.\<close>

record net_env =
  net_attempts :: "nat \<Rightarrow> conn_env"
  net_addresses :: "string list"
  net_nagle :: bool
  net_double :: "scalar \<Rightarrow> rat res"
  net_ca_bundle :: string
  net_cssl :: "string \<Rightarrow> error"
  net_ssl :: ssl_env
  net_socks5 :: "bev_op list \<times> (error \<times> txp) res"

definition connect_ssl_txp ::
  "net_env \<Rightarrow> settings \<Rightarrow> rat \<Rightarrow> connect_result \<Rightarrow> bev \<Rightarrow> bev_op list \<times> (error \<times> txp) res" where
  "connect_ssl_txp env st timeout r bev =
    (let cbp = (case st ''net/ca_bundle_path'' of None \<Rightarrow> net_ca_bundle env | Some p \<Rightarrow> p);
         cssl = net_cssl env cbp;
         failed = make_txp TxpEmitter timeout (Some r)
     in if code cssl \<noteq> 0 then ([BevFree bev], Inr (cssl, failed))
        else let allow_ssl23 = settings_get_bool_noexcept st ''net/allow_ssl23'' False in
          if \<not> has_value allow_ssl23 then ([BevFree bev], Inr (new ValueError, failed))
          else case connect_ssl (net_ssl env) bev of
            (ops, err, None) \<Rightarrow> (ops, Inr (err, failed))
          | (ops, err, Some b) \<Rightarrow>
              let allow_dirty = settings_get_bool_noexcept st ''net/ssl_allow_dirty_shutdown'' False in
              if \<not> has_value allow_dirty
              then (ops @ [BevFree b], Inr (as_error allow_dirty, failed))
              else (ops, Inr (err, make_txp (TxpLibevent b) timeout (Some r))))"

definition net_connect :: "net_env \<Rightarrow> settings \<Rightarrow> int \<Rightarrow> bev_op list \<times> (error \<times> txp) res" where
  "net_connect env st p =
    (if st ''net/dumb_transport'' \<noteq> None then ([], Inr (new NoError, make_txp TxpEmitter 0 None))
     else if st ''net/socks5_proxy'' \<noteq> None then net_socks5 env
     else case (case st ''net/timeout'' of None \<Rightarrow> Inr 30 | Some sc \<Rightarrow> net_double env sc) of
       Inl e \<Rightarrow> ([], Inl e)
     | Inr timeout \<Rightarrow>
         (case connect_logic (net_attempts env) (net_nagle env) (net_addresses env) p of
            (ops, Inl e) \<Rightarrow> (ops, Inl e)
          | (ops, Inr (err, r)) \<Rightarrow>
              if is_err err then (ops, Inr (err, make_txp TxpEmitter timeout (Some r)))
              else let bev = the (cr_bev r) in
                if st ''net/ssl'' \<noteq> None
                then let (ops', res) = connect_ssl_txp env st timeout r bev in (ops @ ops', res)
                else (ops, Inr (err, make_txp (TxpLibevent bev) timeout (Some r)))))"

section \<open>connect\_many\<close>

text \<open>\<open>results n\<close> is what the \<open>n\<close>-th call of \<open>connect\<close> calls back with.  \<open>left\<close> is an \<open>int\<close>.\<close>

function connect_many_impl ::
  "(nat \<Rightarrow> error \<times> 't) \<Rightarrow> int \<Rightarrow> 't list \<Rightarrow> error \<times> 't list" where
  "connect_many_impl results left connections =
    (if left \<le> 0 then (new NoError, connections)
     else let (err, txp) = results (length connections); connections = connections @ [txp] in
       if is_err err then (err, connections) else connect_many_impl results (left - 1) connections)"
  by pat_completeness auto
termination
  by (relation "measure (\<lambda>(_, left, _). nat left)") auto

declare connect_many_impl.simps [simp del]

definition connect_many :: "(nat \<Rightarrow> error \<times> 't) \<Rightarrow> int \<Rightarrow> error \<times> 't list" where
  "connect_many results num = connect_many_impl results num []"

section \<open>Attempts\<close>

lemma bev_exec_append:
  "bev_exec (a @ b) live = (case bev_exec a live of None \<Rightarrow> None | Some l \<Rightarrow> bev_exec b l)"
  by (induction a live rule: bev_exec.induct) simp_all

text \<open>What an attempt that does not throw calls back with.\<close>

definition attempt_error :: "conn_env \<Rightarrow> string \<Rightarrow> uint16 \<Rightarrow> error" where
  "attempt_error env a p = (case snd (connect_base env 0 a p) of Inr (e, _) \<Rightarrow> e | Inl _ \<Rightarrow> new GenericError)"

definition no_throw :: "conn_env \<Rightarrow> bool" where
  "no_throw env \<longleftrightarrow> ce_socket env \<and> ce_timeouts env"

lemma map_errno_or_generic:
  "is_err (if err_eq (map_errno e) (new NoError) then new GenericError else map_errno e)"
  by (simp add: is_err_def err_eq_def err_simps)

lemma connect_base_cases:
  obtains (thrown) ops where "connect_base env i a p = (ops, Inl (ErrorExn (new GenericError)))"
      "ops = [] \<or> ops = [BevNew (SockBev i), BevFree (SockBev i)]" "\<not> no_throw env"
  | (failed) ops e where "connect_base env i a p = (ops, Inr (e, None, 0))" "is_err e"
      "ops = [] \<or> ops = [BevNew (SockBev i), BevFree (SockBev i)]" "attempt_error env a p = e"
  | (connected) e where "connect_base env i a p =
      ([BevNew (SockBev i)], Inr (e, Some (SockBev i), ce_elapsed env))" "\<not> is_err e"
      "attempt_error env a p = e"
proof -
  obtain err sa where sa: "make_sockaddr (ce_pton env) a p = (err, sa)"
    by fastforce
  show thesis
  proof (cases "err_eq err (new NoError)")
    case False
    then show thesis
      using failed [of "[]" err] sa
      by (simp add: connect_base_def attempt_error_def is_err_def err_eq_def err_simps)
  next
    case ok: True
    show thesis
    proof (cases "no_throw env")
      case False
      then show thesis
        using thrown ok sa by (cases "ce_socket env") (auto simp: connect_base_def no_throw_def Let_def)
    next
      case True
      then have t: "ce_socket env" "ce_timeouts env"
        by (simp_all add: no_throw_def)
      show thesis
      proof (cases "ce_connect env")
        case (Some errno)
        then show thesis
          using failed [OF _ map_errno_or_generic [of errno]] ok sa t
          by (simp add: connect_base_def attempt_error_def Let_def del: is_err_new)
      next
        case None
        then show thesis
          using failed connected ok sa t
          by (cases "is_err (mk_bufferevent_on_event (ce_event env))")
            (simp_all add: connect_base_def attempt_error_def Let_def)
      qed
    qed
  qed
qed

lemma connect_first_of_exec:
  assumes "\<forall>b \<in> live. \<exists>i < index. b = SockBev i"
    and "connect_first_of env addresses p index errors = (ops, r)"
  shows "bev_exec ops live = Some (case r of Inr (_, Some (b, _)) \<Rightarrow> insert b live | _ \<Rightarrow> live)"
  using assms
proof (induction env addresses p index errors arbitrary: ops r live
    rule: connect_first_of.induct)
  case (1 env addresses p index errors)
  have fresh: "SockBev index \<notin> live"
    using "1.prems"(1) by auto
  show ?case
  proof (cases "index \<ge> length addresses")
    case True
    then show ?thesis
      using "1.prems"(2) by (auto simp: connect_first_of.simps [of env addresses p index])
  next
    case False
    show ?thesis
    proof (cases rule: connect_base_cases [of "env index" index "addresses ! index" "word_of_int p"])
      case (thrown o1)
      then show ?thesis
        using "1.prems"(2) False fresh
        by (auto simp: connect_first_of.simps [of env addresses p index])
    next
      case (failed o1 e)
      obtain o2 r2 where rec: "connect_first_of env addresses p (index + 1) (errors @ [e]) = (o2, r2)"
        by fastforce
      have "\<forall>b \<in> live. \<exists>i < index + 1. b = SockBev i"
        using "1.prems"(1) by (force intro: less_SucI)
      then have "bev_exec o2 live = Some (case r2 of Inr (_, Some (b, _)) \<Rightarrow> insert b live | _ \<Rightarrow> live)"
        using "1.IH" [OF False failed(1) [symmetric] refl refl refl refl _ _ rec] failed(2) by simp
      then show ?thesis
        using "1.prems"(2) False failed fresh rec
        by (auto simp: connect_first_of.simps [of env addresses p index])
    next
      case (connected e)
      then show ?thesis
        using "1.prems"(2) False fresh
        by (auto simp: connect_first_of.simps [of env addresses p index])
    qed
  qed
qed

lemma connect_first_of_skips:
  assumes "k \<le> length addresses"
    and "\<forall>i \<in> {index..<k}. no_throw (env i) \<and> is_err (attempt_error (env i) (addresses ! i) (word_of_int p))"
    and "index \<le> k"
  shows "snd (connect_first_of env addresses p index errors) =
    snd (connect_first_of env addresses p k
      (errors @ map (\<lambda>i. attempt_error (env i) (addresses ! i) (word_of_int p)) [index..<k]))"
  using assms
proof (induction "k - index" arbitrary: index errors)
  case (Suc n)
  then have lt: "index < k" "index < length addresses"
    by auto
  have i: "no_throw (env index)"
    "is_err (attempt_error (env index) (addresses ! index) (word_of_int p))"
    using Suc.prems(2) lt by auto
  have step: "snd (connect_first_of env addresses p index errors) =
    snd (connect_first_of env addresses p (Suc index)
      (errors @ [attempt_error (env index) (addresses ! index) (word_of_int p)]))"
    by (cases rule: connect_base_cases [of "env index" index "addresses ! index" "word_of_int p"])
      (use i lt(2) in \<open>auto simp: connect_first_of.simps [of env addresses p index] split: prod.split\<close>)
  have "n = k - Suc index" "Suc index \<le> k"
    using Suc.hyps(2) lt by simp_all
  then show ?case
    using Suc.hyps(1) [of "Suc index" "errors @ [attempt_error (env index) (addresses ! index) (word_of_int p)]"]
      Suc.prems step lt(1) by (simp add: upt_conv_Cons)
qed simp

lemma connect_first_of_connected:
  assumes "k < length addresses" "no_throw (env k)"
    and "\<not> is_err (attempt_error (env k) (addresses ! k) (word_of_int p))"
  shows "snd (connect_first_of env addresses p k errors) =
    Inr (errors @ [attempt_error (env k) (addresses ! k) (word_of_int p)],
      Some (SockBev k, ce_elapsed (env k)))"
  by (cases rule: connect_base_cases [of "env k" k "addresses ! k" "word_of_int p"])
    (use assms in \<open>auto simp: connect_first_of.simps [of env addresses p k]\<close>)

lemma connect_first_of_all_failed:
  assumes "Ball (set errors) is_err"
    and "connect_first_of env addresses p index errors = (ops, Inr (es, None))"
  shows "Ball (set es) is_err"
  using assms
proof (induction env addresses p index errors arbitrary: ops rule: connect_first_of.induct)
  case (1 env addresses p index errors)
  show ?case
  proof (cases "index \<ge> length addresses")
    case True
    then show ?thesis
      using "1.prems" by (simp add: connect_first_of.simps [of env addresses p index])
  next
    case False
    show ?thesis
    proof (cases rule: connect_base_cases [of "env index" index "addresses ! index" "word_of_int p"])
      case (failed o1 e)
      obtain o2 r2 where rec: "connect_first_of env addresses p (index + 1) (errors @ [e]) = (o2, r2)"
        by fastforce
      then have "r2 = Inr (es, None)"
        using "1.prems"(2) False failed by (simp add: connect_first_of.simps [of env addresses p index])
      then show ?thesis
        using "1.IH" [OF False failed(1) [symmetric] refl refl refl refl failed(2)] rec
          "1.prems"(1) failed(2) by simp
    qed (use "1.prems" False in \<open>simp_all add: connect_first_of.simps [of env addresses p index]\<close>)
  qed
qed

text \<open>The trace and the result of \<open>connect_logic\<close>.\<close>

lemma is_err_foldl_child [simp]: "is_err (foldl (\<lambda>ne se. add_child_error se ne) e es) = is_err e"
  by (induction es arbitrary: e) simp_all

lemma code_foldl_child [simp]: "code (foldl (\<lambda>ne se. add_child_error se ne) e es) = code e"
  by (induction es arbitrary: e) simp_all

lemma child_foldl_child [simp]:
  "child_errors (foldl (\<lambda>ne se. add_child_error se ne) e es) = child_errors e @ es"
  by (induction es arbitrary: e) (simp_all add: add_child_error_def)

lemma connect_logic_exec:
  assumes "connect_logic env nagle addresses p = (ops, res)"
  shows "bev_exec ops {} = Some (case res of Inr (_, r) \<Rightarrow> set_option (cr_bev r) | _ \<Rightarrow> {})"
    and "res = Inr (err, r) \<Longrightarrow> is_err err \<longleftrightarrow> \<not> nagle \<or> cr_bev r = None"
proof -
  obtain o1 r1 where first: "connect_first_of env addresses p 0 [] = (o1, r1)"
    by fastforce
  have ex: "bev_exec o1 {} = Some (case r1 of Inr (_, Some (b, _)) \<Rightarrow> {b} | _ \<Rightarrow> {})"
    using connect_first_of_exec [OF _ first, of "{}"] by (simp split: sum.split option.split prod.split)
  show "bev_exec ops {} = Some (case res of Inr (_, r) \<Rightarrow> set_option (cr_bev r) | _ \<Rightarrow> {})"
    using assms ex first unfolding connect_logic_def Let_def
    by (auto split: sum.splits option.splits prod.splits if_splits)
  have single: "is_err (es ! 0)" if "r1 = Inr (es, None)" "length es = 1" for es
    using connect_first_of_all_failed [of "[]" env addresses p 0 o1 es] first that
    by (cases es) simp_all
  show "res = Inr (err, r) \<Longrightarrow> is_err err \<longleftrightarrow> \<not> nagle \<or> cr_bev r = None"
    using assms first single unfolding connect_logic_def Let_def
    by (auto simp: disable_nagle_def err_simps split: sum.splits option.splits prod.splits if_splits)
qed

lemma verify_peer_ok: "\<not> is_err (verify_peer env) \<longleftrightarrow>
    ssl_verify env = None \<and> ssl_cert env \<and> ssl_check_name env = (0, True)"
  by (cases "ssl_check_name env") (simp add: verify_peer_def err_simps split: option.split)

lemma connect_ssl_cases:
  obtains (failed) ops err where "connect_ssl env b = (ops, err, None)" "is_err err"
      "bev_exec ops {b} = Some {}"
  | (verified) err where "connect_ssl env b = ([BevFilter b], err, Some (SslBev b))" "\<not> is_err err"
      "\<not> is_err (verify_peer env)" "ssl_event env = BevConnected"
proof (cases "ssl_filter env \<and> \<not> is_err (mk_bufferevent_on_event (ssl_event env))")
  case True
  have "ssl_event env = BevConnected"
    using True by (cases "ssl_event env")
      (auto simp: mk_bufferevent_on_event_def is_err_def map_errno_code err_simps split: if_splits)
  then show thesis
    using True failed verified by (cases "is_err (verify_peer env)") (simp_all add: connect_ssl_def Let_def)
next
  case False
  then show thesis
    using failed by (cases "ssl_filter env") (simp_all add: connect_ssl_def Let_def err_simps)
qed

definition txp_bevs :: "txp_kind \<Rightarrow> bev set" where
  "txp_bevs k = (case k of TxpLibevent b \<Rightarrow> {b} | _ \<Rightarrow> {})"

lemma connect_ssl_txp_exec:
  assumes "connect_ssl_txp env st timeout r b = (ops, res)"
  shows "\<exists>e t. res = Inr (e, t) \<and> bev_exec ops {b} = Some (txp_bevs (txp_kind t))
    \<and> (\<not> is_err e \<longleftrightarrow> txp_kind t = TxpLibevent (SslBev b)) \<and> (is_err e \<longrightarrow> txp_kind t = TxpEmitter)
    \<and> (\<not> is_err e \<longrightarrow> \<not> is_err (verify_peer (net_ssl env)) \<and> ssl_event (net_ssl env) = BevConnected)"
proof -
  have err: "\<not> has_value x \<longleftrightarrow> is_err (as_error x)" for x :: "bool error_or"
    by (cases x) (simp add: is_err_def as_error_def)
  have plain: "code x \<noteq> 0 \<longleftrightarrow> is_err x" for x
    by (simp add: is_err_def)
  show ?thesis
    by (cases rule: connect_ssl_cases [of "net_ssl env" b])
      (use assms in \<open>auto simp: connect_ssl_txp_def Let_def make_txp_def txp_bevs_def plain err
        bev_exec_append err_simps split: if_splits\<close>)
qed

text \<open>The bufferevent that a transport owns, and the one that was connected, which its result points to.\<close>

definition owned_bevs :: "(error \<times> txp) res \<Rightarrow> bev set" where
  "owned_bevs res = (case res of Inr (_, t) \<Rightarrow> txp_bevs (txp_kind t) | Inl _ \<Rightarrow> {})"

definition connected_bevs :: "(error \<times> txp) res \<Rightarrow> bev set" where
  "connected_bevs res =
    (case res of
       Inr (_, t) \<Rightarrow> (case txp_result t of Some r \<Rightarrow> set_option (cr_bev r) | None \<Rightarrow> {})
     | Inl _ \<Rightarrow> {})"

lemmas bevs_defs = owned_bevs_def connected_bevs_def txp_bevs_def make_txp_def

lemma connect_after_logic:
  assumes "net_connect env st p = (ops, res)" "st ''net/socks5_proxy'' = None" "st ''net/dumb_transport'' = None"
    and "(case st ''net/timeout'' of None \<Rightarrow> Inr 30 | Some sc \<Rightarrow> net_double env sc) = Inr timeout"
    and logic: "connect_logic (net_attempts env) (net_nagle env) (net_addresses env) p = (o1, r1)" and r1: "r1 = Inr (err, r)"
  shows "bev_exec ops {} = Some (owned_bevs res \<union> (if net_nagle env then {} else connected_bevs res))
    \<and> (\<not> net_nagle env \<longrightarrow> owned_bevs res = {})
    \<and> (st ''net/dumb_transport'' = None \<longrightarrow> (\<forall>e t. res = Inr (e, t) \<longrightarrow> (is_err e \<longleftrightarrow> owned_bevs res = {})))"
proof (cases "is_err err")
  case True
  then show ?thesis
    using assms connect_logic_exec [OF logic] by (auto simp: net_connect_def bevs_defs)
next
  case False
  then obtain b where b: "cr_bev r = Some b" "net_nagle env"
    using connect_logic_exec(2) [OF logic r1] by auto
  obtain o2 r2 where ssl: "connect_ssl_txp env st timeout r b = (o2, r2)"
    by (rule prod.exhaust)
  from connect_ssl_txp_exec [OF ssl] obtain e t where r2: "r2 = Inr (e, t)" "bev_exec o2 {b} = Some (txp_bevs (txp_kind t))"
    "\<not> is_err e \<longleftrightarrow> txp_kind t = TxpLibevent (SslBev b)" "is_err e \<longrightarrow> txp_kind t = TxpEmitter"
    by (elim exE conjE) (rule that)
  show ?thesis
    using assms False b ssl r2 connect_logic_exec(1) [OF logic]
    by (auto simp: net_connect_def bevs_defs bev_exec_append split: if_splits)
qed

section \<open>Properties\<close>

text \<open>C2: Without a SOCKS proxy, \<open>connect\<close> frees no bufferevent twice, and those alive when it calls back (or
  throws) are the one that the transport owns and, only when \<open>TCP_NODELAY\<close> could not be set, the connected one, which
  nobody owns then.  A transport that is not the dumb one owns a bufferevent exactly when there is no error.\<close>

theorem connect_owns_bufferevents:
  assumes "net_connect env st p = (ops, res)" and "st ''net/socks5_proxy'' = None"
  shows "bev_exec ops {} = Some (owned_bevs res \<union> (if net_nagle env then {} else connected_bevs res))
    \<and> (\<not> net_nagle env \<longrightarrow> owned_bevs res = {})
    \<and> (st ''net/dumb_transport'' = None \<longrightarrow> (\<forall>e t. res = Inr (e, t) \<longrightarrow> (is_err e \<longleftrightarrow> owned_bevs res = {})))"
proof (cases "st ''net/dumb_transport'' = None")
  case False
  then show ?thesis
    using assms by (auto simp: net_connect_def bevs_defs)
next
  case plain: True
  show ?thesis
  proof (cases "case st ''net/timeout'' of None \<Rightarrow> Inr 30 | Some sc \<Rightarrow> net_double env sc")
    case (Inl e)
    then show ?thesis
      using assms plain by (auto simp: net_connect_def bevs_defs)
  next
    case (Inr timeout)
    obtain o1 r1 where logic: "connect_logic (net_attempts env) (net_nagle env) (net_addresses env) p = (o1, r1)"
      by (rule prod.exhaust)
    note run = assms plain Inr logic
    show ?thesis
    proof (cases r1)
      case (Inl e)
      then show ?thesis
        using run connect_logic_exec(1) [OF logic] by (auto simp: net_connect_def bevs_defs)
    next
      case (Inr er)
      then obtain err r where er: "r1 = Inr (err, r)"
        by (cases er) simp
      show ?thesis
        by (rule connect_after_logic [OF run er])
    qed
  qed
qed

text \<open>An environment in which every address connects, for the witnesses.\<close>

definition easy_env :: "nat \<Rightarrow> conn_env" where
  "easy_env i = \<lparr>ce_pton = \<lparr>pton4 = (\<lambda>_. Some [127, 0, 0, 1]), pton6 = (\<lambda>_. None)\<rparr>, ce_socket = True,
    ce_timeouts = True, ce_connect = None, ce_event = BevConnected, ce_elapsed = 1\<rparr>"

definition easy_net :: "bool \<Rightarrow> net_env" where
  "easy_net nagle = \<lparr>net_attempts = easy_env, net_addresses = [''127.0.0.1''], net_nagle = nagle,
    net_double = (\<lambda>_. Inr 1), net_ca_bundle = ''ca.pem'', net_cssl = (\<lambda>_. new NoError),
    net_ssl = \<lparr>ssl_filter = True, ssl_event = BevConnected, ssl_verify = None, ssl_cert = True,
      ssl_check_name = (0, True)\<rparr>,
    net_socks5 = ([], Inr (new NoError, make_txp TxpSocks5 0 None))\<rparr>"

lemma easy_attempt [simp]:
  "attempt_error (easy_env i) a p = new NoError" "no_throw (easy_env i)"
  "connect_base (easy_env i) i a p = ([BevNew (SockBev i)], Inr (new NoError, Some (SockBev i), 1))"
  by (simp_all add: attempt_error_def connect_base_def easy_env_def make_sockaddr_def
      make_sockaddr_ipv4_def err_eq_def mk_bufferevent_on_event_def no_throw_def Let_def)

lemma easy_connect:
  "connect_logic (net_attempts (easy_net n)) n (net_addresses (easy_net n)) p =
    ([BevNew (SockBev 0)], Inr (add_child_error (new NoError) (disable_nagle n),
      \<lparr>cr_addresses = [''127.0.0.1''], cr_errors = [new NoError], cr_time = 1, cr_bev = Some (SockBev 0)\<rparr>))"
  by (simp add: easy_net_def connect_logic_def connect_first_of.simps)

theorem connect_owns_bufferevents_witness:
  "bev_exec (fst (net_connect (easy_net True) Map.empty 80)) {} = Some {SockBev 0}"
proof -
  obtain ops res where r: "net_connect (easy_net True) Map.empty 80 = (ops, res)"
    by fastforce
  note owns = connect_owns_bufferevents [OF r]
  have "connect_logic (net_attempts (easy_net True)) (net_nagle (easy_net True))
      (net_addresses (easy_net True)) p = connect_logic (net_attempts (easy_net True)) True
      (net_addresses (easy_net True)) p" for p
    by (simp add: easy_net_def)
  then have "\<exists>e t. res = Inr (e, t) \<and> txp_kind t = TxpLibevent (SockBev 0)"
    using r by (auto simp: net_connect_def easy_connect disable_nagle_def make_txp_def)
  moreover have "net_nagle (easy_net True)"
    by (simp add: easy_net_def)
  ultimately show ?thesis
    using owns r by (auto simp: owned_bevs_def txp_bevs_def)
qed

text \<open>C49: When \<open>TCP_NODELAY\<close> cannot be set on a connection that was made, \<open>connect\<close> reports the error
  with a transport that does not own the connected bufferevent and nobody frees it.\<close>

theorem connect_nagle_leak:
  assumes "connect_logic (net_attempts env) False (net_addresses env) p = (ops, Inr (err, r))"
    and "cr_bev r = Some b" and "\<not> net_nagle env"
    and "st ''net/dumb_transport'' = None" "st ''net/socks5_proxy'' = None" "st ''net/timeout'' = None"
  shows "net_connect env st p = (ops, Inr (err, make_txp TxpEmitter 30 (Some r))) \<and> is_err err
    \<and> bev_exec ops {} = Some {b}"
proof -
  have "is_err err"
    using connect_logic_exec(2) [OF assms(1) refl] by simp
  then show ?thesis
    using assms connect_logic_exec(1) [OF assms(1)] by (simp add: net_connect_def)
qed

theorem connect_nagle_leak_witness:
  "bev_exec (fst (net_connect (easy_net False) Map.empty 80)) {} = Some {SockBev 0}"
proof -
  have "\<not> net_nagle (easy_net False)"
    by (simp add: easy_net_def)
  from connect_nagle_leak [OF easy_connect _ this, of "SockBev 0" Map.empty 80] show ?thesis
    by simp
qed

text \<open>The addresses are tried in order: the first that connects is taken, with the errors of
  those before it; when all fail, the error is the one of a single address, or has the
  error of every address as a child.\<close>

theorem connect_tries_in_order:
  assumes "k \<le> length addresses" "addresses \<noteq> []"
    and "\<forall>i < k. no_throw (env i) \<and> is_err (attempt_error (env i) (addresses ! i) (word_of_int p))"
    and "k < length addresses \<Longrightarrow>
      no_throw (env k) \<and> \<not> is_err (attempt_error (env k) (addresses ! k) (word_of_int p))"
  shows "\<exists>err r. snd (connect_logic env True addresses p) = Inr (err, r)
    \<and> cr_errors r = map (\<lambda>i. attempt_error (env i) (addresses ! i) (word_of_int p))
        [0..<min (length addresses) (Suc k)]
    \<and> cr_bev r = (if k < length addresses then Some (SockBev k) else None)
    \<and> (if k < length addresses then \<not> is_err err \<and> child_errors err = cr_errors r
       else if length addresses = 1 then err = cr_errors r ! 0
       else code err = fst ConnectFailedError \<and> child_errors err = cr_errors r)"
proof -
  let ?e = "\<lambda>i. attempt_error (env i) (addresses ! i) (word_of_int p)"
  have skip: "snd (connect_first_of env addresses p 0 []) =
      snd (connect_first_of env addresses p k (map ?e [0..<k]))"
    using connect_first_of_skips [of k addresses 0 env p "[]"] assms(1,3) by simp
  show ?thesis
  proof (cases "k < length addresses")
    case True
    then have "snd (connect_first_of env addresses p 0 []) =
        Inr (map ?e [0..<Suc k], Some (SockBev k, ce_elapsed (env k)))"
      using skip connect_first_of_connected [of k addresses env p] assms(4) by simp
    moreover have "min (length addresses) (Suc k) = Suc k"
      using True by simp
    ultimately show ?thesis
      using True assms(2)
      by (cases "connect_first_of env addresses p 0 []")
        (simp add: connect_logic_def disable_nagle_def is_err_def NoError_def del: upt_Suc)
  next
    case False
    then have k: "k = length addresses"
      using assms(1) by simp
    then have "snd (connect_first_of env addresses p 0 []) = Inr (map ?e [0..<k], None)"
      using skip by (simp add: connect_first_of.simps [of env addresses p "length addresses"])
    then show ?thesis
      using k assms(2)
      by (cases "connect_first_of env addresses p 0 []") (simp add: connect_logic_def min_def)
  qed
qed

theorem connect_tries_in_order_witness:
  "\<exists>err r. snd (connect_logic easy_env True [''1.1.1.1''] 80) = Inr (err, r) \<and> cr_bev r = Some (SockBev 0)"
  using connect_tries_in_order [of 0 "[''1.1.1.1'']" easy_env 80] by auto

text \<open>C4: A connection over SSL is handed over only when the handshake was completed, the certificate is
  there and valid and it names the host.\<close>

theorem ssl_is_verified:
  assumes "net_connect env st p = (ops, Inr (e, t))" "\<not> is_err e"
    and "st ''net/ssl'' \<noteq> None" "st ''net/dumb_transport'' = None" "st ''net/socks5_proxy'' = None"
  shows "ssl_event (net_ssl env) = BevConnected \<and> ssl_verify (net_ssl env) = None
    \<and> ssl_cert (net_ssl env) \<and> ssl_check_name (net_ssl env) = (0, True)
    \<and> (\<exists>b. txp_kind t = TxpLibevent (SslBev b))"
proof -
  obtain timeout where timeout: "(case st ''net/timeout'' of None \<Rightarrow> Inr 30 | Some sc \<Rightarrow> net_double env sc) = Inr timeout"
    using assms by (cases "case st ''net/timeout'' of None \<Rightarrow> Inr 30 | Some sc \<Rightarrow> net_double env sc")
      (auto simp: net_connect_def)
  obtain o1 r1 where logic: "connect_logic (net_attempts env) (net_nagle env) (net_addresses env) p = (o1, r1)"
    by fastforce
  obtain err r where r1: "r1 = Inr (err, r)" "\<not> is_err err"
    using assms timeout logic by (cases r1) (auto simp: net_connect_def split: if_splits)
  obtain o2 r2 where ssl: "connect_ssl_txp env st timeout r (the (cr_bev r)) = (o2, r2)"
    by fastforce
  then have "r2 = Inr (e, t)"
    using assms timeout logic r1 by (auto simp: net_connect_def)
  then show ?thesis
    using connect_ssl_txp_exec [OF ssl] assms(2) verify_peer_ok by blast
qed

theorem ssl_is_verified_witness:
  "\<exists>ops e t. net_connect (easy_net True) [''net/ssl'' \<mapsto> ''1''] 443 = (ops, Inr (e, t))
    \<and> txp_kind t = TxpLibevent (SslBev (SockBev 0))"
proof -
  let ?st = "[''net/ssl'' \<mapsto> ''1'']"
  obtain ops e t where r: "net_connect (easy_net True) ?st 443 = (ops, Inr (e, t))" "\<not> is_err e"
    "txp_kind t = TxpLibevent (SslBev (SockBev 0))"
    by (simp add: net_connect_def easy_net_def connect_logic_def connect_first_of.simps
        disable_nagle_def connect_ssl_txp_def settings_get_bool_noexcept_def settings_get_bool_def
        connect_ssl_def verify_peer_def mk_bufferevent_on_event_def make_txp_def NoError_def Let_def)
  then show ?thesis
    using ssl_is_verified [OF r(1,2)] by auto
qed

text \<open>C29: \<open>connect_many\<close> makes the connections one after the other: all of them, or up to and
  including the first that fails, whose error it reports.\<close>

theorem connect_many_in_order:
  assumes "\<forall>i < k. \<not> is_err (fst (results i))" "int k \<le> max 0 num"
    and "int k < num \<Longrightarrow> is_err (fst (results k))"
  shows "connect_many results num =
    (if int k < num then (fst (results k), map (snd \<circ> results) [0..<Suc k])
     else (new NoError, map (snd \<circ> results) [0..<k]))"
proof -
  have "connect_many_impl results (num - int j) (map (snd \<circ> results) [0..<j]) =
      (if int k < num then (fst (results k), map (snd \<circ> results) [0..<Suc k])
       else (new NoError, map (snd \<circ> results) [0..<k]))" if "j \<le> k" for j
    using that
  proof (induction "k - j" arbitrary: j)
    case 0
    then have "j = k"
      by simp
    then show ?case
      using assms(2,3)
      by (subst connect_many_impl.simps) (simp add: case_prod_beta max_def split: if_splits)
  next
    case (Suc n)
    then have j: "j < k" "n = k - Suc j"
      by auto
    then have "num - int j > 0" "\<not> is_err (fst (results j))"
      using assms(1,2) by (auto simp: max_def split: if_splits)
    then show ?case
      using Suc.hyps(1) [of "Suc j"] j
      by (subst connect_many_impl.simps) (simp add: case_prod_beta algebra_simps)
  qed
  from this [of 0] show ?thesis
    by (simp add: connect_many_def)
qed

theorem connect_many_in_order_witness:
  "connect_many (\<lambda>i. (if i = 1 then new GenericError else new NoError, i)) 3 =
    (new GenericError, [0, 1])"
  using connect_many_in_order [of 1 "\<lambda>i. (if i = 1 then new GenericError else new NoError, i)" 3]
  by (simp add: GenericError_def)

text \<open>The cache of SSL contexts never holds more contexts than its limit, holds each path once and
  only contexts that were made, and asks for a context only when the path is not cached.\<close>

theorem ssl_cache_bounded:
  assumes "0 < max_size" "length all \<le> max_size" "distinct all" "\<forall>p \<in> set all. code (mkctx p) = 0"
    and "cache_get_client_ssl max_size mkctx ssl_new path all = (err, all')"
  shows "length all' \<le> max_size \<and> distinct all' \<and> (\<forall>p \<in> set all'. code (mkctx p) = 0)
    \<and> (code err = 0 \<longleftrightarrow> code (mkctx path) = 0 \<and> ssl_new)
    \<and> (code (mkctx path) = 0 \<longrightarrow> path \<in> set all')"
proof (cases "length all \<ge> max_size")
  case True
  then show ?thesis
    using assms by (auto simp: cache_get_client_ssl_def context_get_client_ssl_def Let_def err_simps Suc_le_eq
        split: if_splits)
next
  case False
  then show ?thesis
    using assms by (auto simp: cache_get_client_ssl_def context_get_client_ssl_def Let_def err_simps Suc_le_eq
        split: if_splits)
qed

theorem ssl_cache_bounded_witness:
  "\<exists>err all'. cache_get_client_ssl 2 (\<lambda>_. new NoError) True ''c'' [''a'', ''b''] = (err, all')
    \<and> length all' \<le> 2 \<and> ''c'' \<in> set all'"
proof -
  obtain err all' where r: "cache_get_client_ssl 2 (\<lambda>_. new NoError) True ''c'' [''a'', ''b''] = (err, all')"
    by fastforce
  have "code (new NoError) = 0"
    by (simp add: NoError_def)
  then show ?thesis
    using ssl_cache_bounded [OF _ _ _ _ r] r by simp
qed

end
