(* ===== verification/Dns.thy ===== *)
theory Dns
  imports NetUtils
begin

text \<open>
  The DNS library: \<open>dns/error.hpp\<close>, \<open>dns/query_type.hpp\<close>, \<open>dns/query_class.hpp\<close>,
  \<open>dns/getaddrinfo_async.hpp\<close> and \<open>dns/system_resolver.hpp\<close> (the engine on top of
  \<open>getaddrinfo\<close>), \<open>dns/libevent_query.hpp\<close> (the engine on top of evdns), \<open>dns/utils.hpp\<close> and
  \<open>dns/query.cpp\<close>.  What the resolvers of the system answer is an argument.
\<close>

section \<open>Errors\<close>

definition FormatError :: error_class where
  "FormatError = (MK_ERR_DNS 0, ''dns_lookup_error'')"
definition ServerFailedError :: error_class where
  "ServerFailedError = (MK_ERR_DNS 1, ''dns_lookup_error'')"
definition NotExistError :: error_class where
  "NotExistError = (MK_ERR_DNS 2, ''dns_lookup_error'')"
definition DnsNotImplementedError :: error_class where
  "DnsNotImplementedError = (MK_ERR_DNS 3, ''dns_lookup_error'')"
definition RefusedError :: error_class where
  "RefusedError = (MK_ERR_DNS 4, ''dns_lookup_error'')"
definition TruncatedError :: error_class where
  "TruncatedError = (MK_ERR_DNS 5, ''dns_lookup_error'')"
definition UnknownError :: error_class where
  "UnknownError = (MK_ERR_DNS 6, ''dns_unknown_error'')"
definition ShutdownError :: error_class where
  "ShutdownError = (MK_ERR_DNS 8, ''dns_shutdown'')"
definition CancelError :: error_class where
  "CancelError = (MK_ERR_DNS 9, ''dns_cancel'')"
definition NoDataError :: error_class where
  "NoDataError = (MK_ERR_DNS 10, ''dns_lookup_error'')"
definition InvalidIPv4AddressError :: error_class where
  "InvalidIPv4AddressError = (MK_ERR_DNS 11, ''dns_invalid_ipv4'')"
definition InvalidIPv6AddressError :: error_class where
  "InvalidIPv6AddressError = (MK_ERR_DNS 12, ''dns_invalid_ipv6'')"
definition UnsupportedClassError :: error_class where
  "UnsupportedClassError = (MK_ERR_DNS 13, ''dns_unsupported_class'')"
definition InvalidNameForPTRError :: error_class where
  "InvalidNameForPTRError = (MK_ERR_DNS 14, ''dns_invalid_ptr'')"
definition ResolverError :: error_class where
  "ResolverError = (MK_ERR_DNS 15, ''dns_resolver_error'')"
definition UnsupportedTypeError :: error_class where
  "UnsupportedTypeError = (MK_ERR_DNS 16, ''dns_unsupported_type'')"
definition InvalidDnsEngine :: error_class where
  "InvalidDnsEngine = (MK_ERR_DNS 17, ''dns_invalid_engine'')"
definition TemporaryFailureError :: error_class where
  "TemporaryFailureError = (MK_ERR_DNS 18, ''dns_temporary_failure'')"
definition InvalidFlagsValueError :: error_class where
  "InvalidFlagsValueError = (MK_ERR_DNS 19, ''dns_invalid_flags'')"
definition InvalidHintsValueError :: error_class where
  "InvalidHintsValueError = (MK_ERR_DNS 20, ''dns_invalid_hints'')"
definition NonRecoverableFailureError :: error_class where
  "NonRecoverableFailureError = (MK_ERR_DNS 21, ''dns_non_recoverable_failure'')"
definition NotSupportedAIFamilyError :: error_class where
  "NotSupportedAIFamilyError = (MK_ERR_DNS 22, ''dns_unsupported_family'')"
definition MemoryAllocationFailureError :: error_class where
  "MemoryAllocationFailureError = (MK_ERR_DNS 23, ''dns_memory_error'')"
definition HostOrServiceNotProvidedOrNotKnownError :: error_class where
  "HostOrServiceNotProvidedOrNotKnownError = (MK_ERR_DNS 24, ''dns_host_or_service_not_provided_or_not_known'')"
definition ArgumentBufferOverflowError :: error_class where
  "ArgumentBufferOverflowError = (MK_ERR_DNS 25, ''dns_overflow_error'')"
definition UnknownResolvedProtocolError :: error_class where
  "UnknownResolvedProtocolError = (MK_ERR_DNS 26, ''dns_unknown_protocol'')"
definition NotSupportedServnameError :: error_class where
  "NotSupportedServnameError = (MK_ERR_DNS 27, ''dns_unsupported_servname'')"
definition NotSupportedAISocktypeError :: error_class where
  "NotSupportedAISocktypeError = (MK_ERR_DNS 28, ''dns_unsupported_socktype'')"

lemmas dns_error_defs [err_simps] =
  FormatError_def ServerFailedError_def NotExistError_def DnsNotImplementedError_def
  RefusedError_def TruncatedError_def UnknownError_def ShutdownError_def CancelError_def
  NoDataError_def InvalidIPv4AddressError_def InvalidIPv6AddressError_def
  UnsupportedClassError_def InvalidNameForPTRError_def ResolverError_def
  UnsupportedTypeError_def InvalidDnsEngine_def TemporaryFailureError_def
  InvalidFlagsValueError_def InvalidHintsValueError_def NonRecoverableFailureError_def
  NotSupportedAIFamilyError_def MemoryAllocationFailureError_def
  HostOrServiceNotProvidedOrNotKnownError_def ArgumentBufferOverflowError_def
  UnknownResolvedProtocolError_def NotSupportedServnameError_def NotSupportedAISocktypeError_def

section \<open>Types and classes\<close>

datatype query_type =
  MK_DNS_TYPE_INVALID | MK_DNS_TYPE_A | MK_DNS_TYPE_NS
| MK_DNS_TYPE_MD | MK_DNS_TYPE_MF | MK_DNS_TYPE_CNAME
| MK_DNS_TYPE_SOA | MK_DNS_TYPE_MB | MK_DNS_TYPE_MG
| MK_DNS_TYPE_MR | MK_DNS_TYPE_NUL | MK_DNS_TYPE_WKS
| MK_DNS_TYPE_PTR | MK_DNS_TYPE_HINFO | MK_DNS_TYPE_MINFO
| MK_DNS_TYPE_MX | MK_DNS_TYPE_TXT | MK_DNS_TYPE_AAAA
| MK_DNS_TYPE_REVERSE_A | MK_DNS_TYPE_REVERSE_AAAA

datatype query_class =
  MK_DNS_CLASS_INVALID | MK_DNS_CLASS_IN | MK_DNS_CLASS_CS | MK_DNS_CLASS_CH | MK_DNS_CLASS_HS

definition query_type_table :: "(string \<times> query_type) list" where
  "query_type_table =
    [(''INVALID'', MK_DNS_TYPE_INVALID),
     (''A'', MK_DNS_TYPE_A),
     (''NS'', MK_DNS_TYPE_NS),
     (''MD'', MK_DNS_TYPE_MD),
     (''MF'', MK_DNS_TYPE_MF),
     (''CNAME'', MK_DNS_TYPE_CNAME),
     (''SOA'', MK_DNS_TYPE_SOA),
     (''MB'', MK_DNS_TYPE_MB),
     (''MG'', MK_DNS_TYPE_MG),
     (''MR'', MK_DNS_TYPE_MR),
     (''NUL'', MK_DNS_TYPE_NUL),
     (''WKS'', MK_DNS_TYPE_WKS),
     (''PTR'', MK_DNS_TYPE_PTR),
     (''HINFO'', MK_DNS_TYPE_HINFO),
     (''MINFO'', MK_DNS_TYPE_MINFO),
     (''MX'', MK_DNS_TYPE_MX),
     (''TXT'', MK_DNS_TYPE_TXT),
     (''AAAA'', MK_DNS_TYPE_AAAA),
     (''REVERSE_A'', MK_DNS_TYPE_REVERSE_A),
     (''REVERSE_AAAA'', MK_DNS_TYPE_REVERSE_AAAA)]"

definition query_type_ids :: "string \<Rightarrow> query_type" where
  "query_type_ids s =
    (case map_of query_type_table s of None \<Rightarrow> MK_DNS_TYPE_INVALID | Some t \<Rightarrow> t)"

definition query_class_ids :: "string \<Rightarrow> query_class" where
  "query_class_ids s =
    (if s = ''INVALID'' then MK_DNS_CLASS_INVALID
     else if s = ''IN'' then MK_DNS_CLASS_IN
     else if s = ''CS'' then MK_DNS_CLASS_CS
     else if s = ''CH'' then MK_DNS_CLASS_CH
     else if s = ''HS'' then MK_DNS_CLASS_HS
     else MK_DNS_CLASS_INVALID)"

section \<open>Messages\<close>

record answer =
  an_type :: query_type
  an_class :: query_class
  an_code :: int
  an_ttl :: uint32
  an_name :: string
  an_ipv4 :: string
  an_ipv6 :: string
  an_hostname :: string

record dns_query =
  qu_type :: query_type
  qu_class :: query_class
  qu_name :: string

record message =
  rtt :: rat
  error_code :: int
  answers :: "answer list"
  queries :: "dns_query list"

definition answer_init :: answer where
  "answer_init = \<lparr>an_type = query_type_ids [], an_class = query_class_ids [], an_code = 0, an_ttl = 0,
    an_name = [], an_ipv4 = [], an_ipv6 = [], an_hostname = []\<rparr>"

definition message_init :: message where
  "message_init = \<lparr>rtt = 0, error_code = 66, answers = [], queries = []\<rparr>"

record data_usage =
  usage_down :: nat
  usage_up :: nat

definition estimate_answer :: "string \<Rightarrow> answer \<Rightarrow> nat" where
  "estimate_answer query_name a =
    (let fixed = 12 + 4 + length query_name + 10 in
     if an_type a = MK_DNS_TYPE_A then fixed + 4
     else if an_type a = MK_DNS_TYPE_AAAA then fixed + 16
     else if an_type a = MK_DNS_TYPE_CNAME then fixed + length (an_hostname a)
     else 0)"

definition estimate_data_usage :: "string \<Rightarrow> answer list \<Rightarrow> data_usage \<Rightarrow> data_usage" where
  "estimate_data_usage query_name as du =
    foldl (\<lambda>du a. du\<lparr>usage_down := usage_down du + estimate_answer query_name a\<rparr>)
      (du\<lparr>usage_up := usage_up du + (12 + 4 + length query_name)\<rparr>) as"

section \<open>The system engine\<close>

datatype gai_error =
  EAI_none | EAI_AGAIN | EAI_BADFLAGS | EAI_FAIL | EAI_FAMILY | EAI_MEMORY | EAI_NONAME
| EAI_SERVICE | EAI_SOCKTYPE | EAI_OVERFLOW | EAI_BADHINTS | EAI_PROTOCOL | EAI_other

definition getaddrinfo_async_map_error :: "gai_error \<Rightarrow> error" where
  "getaddrinfo_async_map_error e =
    (case e of
       EAI_none \<Rightarrow> new NoError
     | EAI_AGAIN \<Rightarrow> new TemporaryFailureError
     | EAI_BADFLAGS \<Rightarrow> new InvalidFlagsValueError
     | EAI_FAIL \<Rightarrow> new NonRecoverableFailureError
     | EAI_FAMILY \<Rightarrow> new NotSupportedAIFamilyError
     | EAI_MEMORY \<Rightarrow> new MemoryAllocationFailureError
     | EAI_NONAME \<Rightarrow> new HostOrServiceNotProvidedOrNotKnownError
     | EAI_SERVICE \<Rightarrow> new NotSupportedServnameError
     | EAI_SOCKTYPE \<Rightarrow> new NotSupportedAISocktypeError
     | EAI_OVERFLOW \<Rightarrow> new ArgumentBufferOverflowError
     | EAI_BADHINTS \<Rightarrow> new InvalidHintsValueError
     | EAI_PROTOCOL \<Rightarrow> new UnknownResolvedProtocolError
     | EAI_other \<Rightarrow> new ResolverError)"

text \<open>An entry of the list of \<open>getaddrinfo\<close>, and \<open>inet_ntop\<close> for the two families.\<close>

record addrinfo =
  ai_addr :: sockaddr
  ai_canonname :: "string option"

record ntop_api =
  ntop4 :: "bytes \<Rightarrow> string option"
  ntop6 :: "bytes \<Rightarrow> string option"

definition parse_addrinfo :: "ntop_api \<Rightarrow> string \<Rightarrow> addrinfo \<Rightarrow> error + answer list" where
  "parse_addrinfo api name p =
    (let a = answer_init\<lparr>an_name := name, an_class := MK_DNS_CLASS_IN\<rparr>;
         cname = (\<lambda>a. case ai_canonname p of None \<Rightarrow> []
           | Some c \<Rightarrow> [a\<lparr>an_type := MK_DNS_TYPE_CNAME, an_hostname := c\<rparr>]);
         failed = Inl (new_s GenericError ''inet_ntop_failed'')
     in case ai_addr p of
          SockaddrIn b _ \<Rightarrow> (let a = a\<lparr>an_type := MK_DNS_TYPE_A\<rparr> in
            case ntop4 api b of None \<Rightarrow> failed | Some s \<Rightarrow> Inr (cname a @ [a\<lparr>an_ipv4 := s\<rparr>]))
        | SockaddrIn6 b _ \<Rightarrow> (let a = a\<lparr>an_type := MK_DNS_TYPE_AAAA\<rparr> in
            case ntop6 api b of None \<Rightarrow> failed | Some s \<Rightarrow> Inr (cname a @ [a\<lparr>an_ipv6 := s\<rparr>]))
        | SockaddrOther \<Rightarrow> Inl (new ValueError))"

fun getaddrinfo_async_parse_response ::
  "ntop_api \<Rightarrow> string \<Rightarrow> addrinfo list \<Rightarrow> answer list \<Rightarrow> answer list error_or" where
  "getaddrinfo_async_parse_response api name [] as = (new NoError, as)"
| "getaddrinfo_async_parse_response api name (p # rp) as =
    (case parse_addrinfo api name p of
       Inl e \<Rightarrow> (e, [])
     | Inr new_as \<Rightarrow> getaddrinfo_async_parse_response api name rp (as @ new_as))"

text \<open>The result and the list of \<open>getaddrinfo\<close> (empty for a null pointer).\<close>

definition getaddrinfo_async ::
  "ntop_api \<Rightarrow> string \<Rightarrow> gai_error \<times> addrinfo list \<Rightarrow> data_usage \<Rightarrow>
    (error \<times> answer list) \<times> data_usage" where
  "getaddrinfo_async api name gai du =
    (let error = getaddrinfo_async_map_error (fst gai); rp = snd gai;
         (error, as) =
           (if \<not> is_err error \<and> rp \<noteq> [] then
              let maybe_answers = getaddrinfo_async_parse_response api name rp [] in
              if \<not> err_eq (as_error maybe_answers) (new NoError) then (as_error maybe_answers, [])
              else (error, snd maybe_answers)
            else (error, []))
     in ((error, as), estimate_data_usage name as du))"

datatype ai_family = AF_INET | AF_INET6 | AF_UNSPEC

text \<open>\<open>gai\<close> is \<open>getaddrinfo\<close>: the family and the flag \<open>AI_CANONNAME\<close> of the hints, and the name.\<close>

record sys_env =
  se_gai :: "ai_family \<Rightarrow> bool \<Rightarrow> string \<Rightarrow> gai_error \<times> addrinfo list"
  se_ntop :: ntop_api
  se_pton :: pton_api

definition hints_of :: "query_type \<Rightarrow> (ai_family \<times> bool) option" where
  "hints_of dns_type =
    (if dns_type = MK_DNS_TYPE_A then Some (AF_INET, False)
     else if dns_type = MK_DNS_TYPE_AAAA then Some (AF_INET6, False)
     else if dns_type = MK_DNS_TYPE_CNAME then Some (AF_UNSPEC, True)
     else None)"

definition system_resolver ::
  "sys_env \<Rightarrow> settings \<Rightarrow> query_class \<Rightarrow> query_type \<Rightarrow> string \<Rightarrow> data_usage \<Rightarrow>
    (error \<times> message option) \<times> data_usage" where
  "system_resolver env st dns_class dns_type name du =
    (if dns_class \<noteq> MK_DNS_CLASS_IN then ((new UnsupportedClassError, None), du)
     else case hints_of dns_type of
       None \<Rightarrow> ((new UnsupportedTypeError, None), du)
     | Some (family, canon) \<Rightarrow>
         let also_cname = settings_get_bool_noexcept st ''dns/resolve_also_cname'' False in
         if \<not> has_value also_cname then ((as_error also_cname, None), du)
         else
           let canon = (canon \<or> snd also_cname);
               query = \<lparr>qu_type = dns_type, qu_class = dns_class, qu_name = name\<rparr>;
               ((error, as), du) =
                 getaddrinfo_async (se_ntop env) name (se_gai env family canon (c_str name)) du
           in ((error, Some (message_init\<lparr>queries := [query], answers := as\<rparr>)), du))"

section \<open>The libevent engine\<close>

datatype evdns_code =
  DNS_ERR_NONE | DNS_ERR_FORMAT | DNS_ERR_SERVERFAILED | DNS_ERR_NOTEXIST | DNS_ERR_NOTIMPL
| DNS_ERR_REFUSED | DNS_ERR_TRUNCATED | DNS_ERR_UNKNOWN | DNS_ERR_TIMEOUT | DNS_ERR_SHUTDOWN
| DNS_ERR_CANCEL | DNS_ERR_NODATA | DNS_ERR_other int

text \<open>The numbers of \<open>event2/dns.h\<close>.\<close>

definition evdns_number :: "evdns_code \<Rightarrow> int" where
  "evdns_number c =
    (case c of DNS_ERR_NONE \<Rightarrow> 0 | DNS_ERR_FORMAT \<Rightarrow> 1 | DNS_ERR_SERVERFAILED \<Rightarrow> 2
     | DNS_ERR_NOTEXIST \<Rightarrow> 3 | DNS_ERR_NOTIMPL \<Rightarrow> 4 | DNS_ERR_REFUSED \<Rightarrow> 5
     | DNS_ERR_TRUNCATED \<Rightarrow> 65 | DNS_ERR_UNKNOWN \<Rightarrow> 66 | DNS_ERR_TIMEOUT \<Rightarrow> 67
     | DNS_ERR_SHUTDOWN \<Rightarrow> 68 | DNS_ERR_CANCEL \<Rightarrow> 69 | DNS_ERR_NODATA \<Rightarrow> 70
     | DNS_ERR_other n \<Rightarrow> n)"

definition dns_error :: "evdns_code \<Rightarrow> error" where
  "dns_error c =
    (case c of
       DNS_ERR_NONE \<Rightarrow> new NoError
     | DNS_ERR_FORMAT \<Rightarrow> new FormatError
     | DNS_ERR_SERVERFAILED \<Rightarrow> new ServerFailedError
     | DNS_ERR_NOTEXIST \<Rightarrow> new NotExistError
     | DNS_ERR_NOTIMPL \<Rightarrow> new DnsNotImplementedError
     | DNS_ERR_REFUSED \<Rightarrow> new RefusedError
     | DNS_ERR_TRUNCATED \<Rightarrow> new TruncatedError
     | DNS_ERR_UNKNOWN \<Rightarrow> new UnknownError
     | DNS_ERR_TIMEOUT \<Rightarrow> new TimeoutError
     | DNS_ERR_SHUTDOWN \<Rightarrow> new ShutdownError
     | DNS_ERR_CANCEL \<Rightarrow> new CancelError
     | DNS_ERR_NODATA \<Rightarrow> new NoDataError
     | DNS_ERR_other _ \<Rightarrow> new GenericError)"

text \<open>\<open>create_evdns_base\<close>: which calls of libevent succeed, options taking the name and the value.
  A base is made and freed when the function throws.\<close>

datatype base_op = BaseNew | BaseFree

record evdns_env =
  ev_base :: bool
  ev_nameserver :: "string \<Rightarrow> string \<Rightarrow> bool"
  ev_add_server :: bool
  ev_option :: "string \<Rightarrow> string \<Rightarrow> bool"
  ev_resolve :: "query_type \<Rightarrow> string \<Rightarrow> bool"
  ev_pton :: pton_api
  ev_ntop :: ntop_api

definition create_evdns_base :: "evdns_env \<Rightarrow> settings \<Rightarrow> base_op list \<times> unit res" where
  "create_evdns_base env st =
    (let fail = (\<lambda>w. ([BaseNew, BaseFree], Inl (RuntimeError w))) in
     if \<not> ev_base env then ([], Inl BadAlloc)
     else if st ''dns/nameserver'' \<noteq> None \<and>
         \<not> ev_nameserver env (c_str (settings_at st ''dns/nameserver''))
             (c_str (settings_get_str st ''dns/port'' ''53''))
     then fail ''Cannot parse server address: ''
     else if st ''dns/nameserver'' \<noteq> None \<and> \<not> ev_add_server env
     then fail ''Cannot set server address: ''
     else if st ''dns/attempts'' \<noteq> None
         \<and> \<not> ev_option env ''attempts'' (c_str (settings_at st ''dns/attempts''))
     then fail ''Cannot set 'attempts' option''
     else if st ''dns/timeout'' \<noteq> None
         \<and> \<not> ev_option env ''timeout'' (c_str (settings_at st ''dns/timeout''))
     then fail ''Cannot set 'timeout' option''
     else
       let randomiz = (case st ''dns/randomize_case'' of None \<Rightarrow> ''0'' | Some v \<Rightarrow> v) in
       if \<not> ev_option env ''randomize-case'' (c_str randomiz)
       then fail ''Cannot set 'randomize-case' option''
       else ([BaseNew], Inr ()))"

text \<open>\<open>build_answers_evdns\<close>: \<open>addresses\<close> is the memory the pointer leads to, \<open>ptr\<close> the string for a PTR
  answer.  \<open>count\<close> and \<open>ttl\<close> are \<open>int\<close>.\<close>

datatype evdns_type = DNS_IPv4_A | DNS_PTR | DNS_IPv6_AAAA | DNS_type_other

fun evdns_addresses ::
  "(bytes \<Rightarrow> string option) \<Rightarrow> (string \<Rightarrow> answer) \<Rightarrow> int \<Rightarrow> bytes \<Rightarrow> int list \<Rightarrow> answer list res" where
  "evdns_addresses ntop mk sz addresses [] = Inr []"
| "evdns_addresses ntop mk sz addresses (i # is) =
    (case ntop (take (nat sz) (drop (nat (i * sz)) addresses)) of
       None \<Rightarrow> Inl (RuntimeError ''Unexpected inet_ntop failure'')
     | Some s \<Rightarrow> map_sum id (Cons (mk s)) (evdns_addresses ntop mk sz addresses is))"

definition build_answers_evdns ::
  "ntop_api \<Rightarrow> evdns_code \<Rightarrow> evdns_type \<Rightarrow> int \<Rightarrow> int \<Rightarrow> bytes \<Rightarrow> string \<Rightarrow> answer list res" where
  "build_answers_evdns api c type count ttl addresses ptr =
    (let a = answer_init\<lparr>an_code := evdns_number c, an_ttl := word_of_int ttl\<rparr> in
     if c \<noteq> DNS_ERR_NONE then Inr []
     else if type = DNS_PTR then Inr [a\<lparr>an_type := MK_DNS_TYPE_PTR, an_hostname := ptr\<rparr>]
     else if type = DNS_IPv4_A \<or> type = DNS_IPv6_AAAA then
       let (ntop, sz, mk) =
         (if type = DNS_IPv4_A
          then (ntop4 api, 4, \<lambda>s. a\<lparr>an_type := MK_DNS_TYPE_A, an_ipv4 := s\<rparr>)
          else (ntop6 api, 16, \<lambda>s. a\<lparr>an_type := MK_DNS_TYPE_AAAA, an_ipv6 := s\<rparr>))
       in if count \<ge> 0 \<and> count \<le> INT_MAX div sz + 1
          then evdns_addresses ntop mk sz addresses [0..count - 1]
          else Inl (RuntimeError ''We got more responses than the maximum integer size. Something is very wrong.'')
     else Inl (RuntimeError ''Invalid response type.''))"

definition has_rtt :: "evdns_code \<Rightarrow> bool" where
  "has_rtt c \<longleftrightarrow> c \<in> {DNS_ERR_NONE, DNS_ERR_FORMAT, DNS_ERR_SERVERFAILED, DNS_ERR_NOTEXIST,
    DNS_ERR_NOTIMPL, DNS_ERR_REFUSED, DNS_ERR_TRUNCATED, DNS_ERR_NODATA}"

text \<open>\<open>dns_callback\<close> of a context that owns the message; \<open>elapsed\<close> is the time since the query.
  When it throws, the context (and the base it owns) is not deleted.\<close>

definition dns_callback ::
  "ntop_api \<Rightarrow> rat \<Rightarrow> evdns_code \<Rightarrow> evdns_type \<Rightarrow> int \<Rightarrow> int \<Rightarrow> bytes \<Rightarrow> string \<Rightarrow> message \<Rightarrow>
    data_usage \<Rightarrow> base_op list \<times> ((error \<times> message) \<times> data_usage) res" where
  "dns_callback api elapsed c type count ttl addresses ptr msg du =
    (let msg = msg\<lparr>error_code := evdns_number c\<rparr>;
         msg = msg\<lparr>rtt := if has_rtt c then elapsed else 0\<rparr>
     in case build_answers_evdns api c type count ttl addresses ptr of
          Inl e \<Rightarrow> ([], Inl e)
        | Inr as \<Rightarrow>
            let msg = msg\<lparr>answers := as\<rparr> in
            if length (queries msg) < 1 then ([], Inl (RuntimeError ''malformed message''))
            else let query = queries msg ! 0; du = estimate_data_usage (qu_name query) as du in
              ([BaseFree], Inr ((if error_code msg \<noteq> 0 then dns_error c else new NoError, msg), du)))"

text \<open>What \<open>libevent_query\<close> does at once: it calls back, or throws, or leaves a request pending.\<close>

datatype query_outcome =
  QueryCall error "message option" | QueryThrow exn | QueryPending query_type string message

definition libevent_request ::
  "evdns_env \<Rightarrow> query_class \<Rightarrow> query_type \<Rightarrow> string \<Rightarrow> base_op list \<times> query_outcome" where
  "libevent_request env dns_class dns_type name =
    (let query = \<lparr>qu_type = dns_type, qu_class = dns_class, qu_name = name\<rparr>;
         msg = message_init\<lparr>queries := [query]\<rparr>;
         start = (if ev_resolve env dns_type (c_str name)
                  then ([], QueryPending dns_type name msg)
                  else ([BaseFree], QueryCall (new ResolverError) None))
     in if dns_type = MK_DNS_TYPE_A \<or> dns_type = MK_DNS_TYPE_AAAA then start
        else if dns_type = MK_DNS_TYPE_REVERSE_A then
          (if pton4 (ev_pton env) (c_str name) = None
           then ([BaseFree], QueryCall (new InvalidIPv4AddressError) None) else start)
        else if dns_type = MK_DNS_TYPE_REVERSE_AAAA then
          (if pton6 (ev_pton env) (c_str name) = None
           then ([BaseFree], QueryCall (new InvalidIPv6AddressError) None) else start)
        else ([BaseFree], QueryCall (new UnsupportedTypeError) None))"

definition libevent_query ::
  "evdns_env \<Rightarrow> settings \<Rightarrow> query_class \<Rightarrow> query_type \<Rightarrow> string \<Rightarrow> base_op list \<times> query_outcome" where
  "libevent_query env st dns_class dns_type name =
    (let also_cname = settings_get_bool_noexcept st ''dns/resolve_also_cname'' False in
     if \<not> has_value also_cname then ([], QueryCall (as_error also_cname) None)
     else if snd also_cname then ([], QueryCall (new NotImplementedError) None)
     else case create_evdns_base env st of
       (ops, Inl (RuntimeError _)) \<Rightarrow> (ops, QueryCall (new GenericError) None)
     | (ops, Inl e) \<Rightarrow> (ops, QueryThrow e)
     | (ops, Inr _) \<Rightarrow>
         if dns_class \<noteq> MK_DNS_CLASS_IN
         then (ops @ [BaseFree], QueryCall (new UnsupportedClassError) None)
         else if dns_type = MK_DNS_TYPE_PTR then
           (let s = unreverse_ipv4 name; s' = unreverse_ipv6 name;
                (ops', r) =
                  (if s \<noteq> [] then libevent_request env dns_class MK_DNS_TYPE_REVERSE_A s
                   else if s' \<noteq> [] then libevent_request env dns_class MK_DNS_TYPE_REVERSE_AAAA s'
                   else ([BaseFree], QueryCall (new InvalidNameForPTRError) None))
            in (ops @ ops', r))
         else let (ops', r) = libevent_request env dns_class dns_type name in (ops @ ops', r))"

section \<open>query and resolve\_hostname\<close>

text \<open>An engine takes class, type and name; its result is what it calls back with.\<close>

type_synonym engine =
  "query_class \<Rightarrow> query_type \<Rightarrow> string \<Rightarrow> data_usage \<Rightarrow> (error \<times> message option) \<times> data_usage"

definition query :: "(settings \<Rightarrow> engine) \<Rightarrow> sys_env \<Rightarrow> settings \<Rightarrow> engine" where
  "query libevent env st dns_class dns_type name du =
    (let engine = settings_get_str st ''dns/engine'' ''system'' in
     if engine = ''libevent'' then libevent st dns_class dns_type name du
     else if engine = ''system'' then system_resolver env st dns_class dns_type name du
     else ((new InvalidDnsEngine, None), du))"

record resolve_hostname_result =
  inet_pton_ipv4 :: bool
  inet_pton_ipv6 :: bool
  ipv4_err :: error
  ipv4_reply :: message
  ipv6_err :: error
  ipv6_reply :: message
  addresses :: "string list"

definition resolve_init :: resolve_hostname_result where
  "resolve_init = \<lparr>inet_pton_ipv4 = False, inet_pton_ipv6 = False, ipv4_err = new NoError,
    ipv4_reply = message_init, ipv6_err = new NoError, ipv6_reply = message_init, addresses = []\<rparr>"

definition resolve_hostname ::
  "pton_api \<Rightarrow> engine \<Rightarrow> string \<Rightarrow> data_usage \<Rightarrow> resolve_hostname_result \<times> data_usage" where
  "resolve_hostname api q host du =
    (let r = resolve_init in
     if pton4 api (c_str host) \<noteq> None
     then (r\<lparr>addresses := addresses r @ [host], inet_pton_ipv4 := True\<rparr>, du)
     else if pton6 api (c_str host) \<noteq> None
     then (r\<lparr>addresses := addresses r @ [host], inet_pton_ipv6 := True\<rparr>, du)
     else
       let ((err, resp), du) = q (query_class_ids ''IN'') (query_type_ids ''A'') host du;
           r = r\<lparr>ipv4_err := err\<rparr>;
           r = (if \<not> is_err err
                then r\<lparr>ipv4_reply := the resp, addresses := addresses r @ map an_ipv4 (answers (the resp))\<rparr>
                else r);
           ((err, resp), du) = q (query_class_ids ''IN'') (query_type_ids ''AAAA'') host du;
           r = r\<lparr>ipv6_err := err\<rparr>;
           r = (if \<not> is_err err
                then r\<lparr>ipv6_reply := the resp, addresses := addresses r @ map an_ipv6 (answers (the resp))\<rparr>
                else r)
       in (r, du))"

section \<open>Lemmas\<close>

lemma estimate_add:
  "estimate_data_usage n as du =
    du\<lparr>usage_up := usage_up du + (16 + length n), usage_down := usage_down du + sum_list (map (estimate_answer n) as)\<rparr>"
proof -
  have "foldl (\<lambda>du a. du\<lparr>usage_down := usage_down du + estimate_answer n a\<rparr>) d as =
      d\<lparr>usage_down := usage_down d + sum_list (map (estimate_answer n) as)\<rparr>" for d :: data_usage
    by (induction as arbitrary: d) (simp_all add: add.assoc)
  then show ?thesis
    by (simp add: estimate_data_usage_def)
qed

lemma gai_error_none: "is_err (getaddrinfo_async_map_error e) \<longleftrightarrow> e \<noteq> EAI_none"
  by (cases e) (simp_all add: getaddrinfo_async_map_error_def err_simps)

lemma dns_error_none: "is_err (dns_error c) \<longleftrightarrow> c \<noteq> DNS_ERR_NONE"
  by (cases c) (simp_all add: dns_error_def err_simps)

lemma parse_response_ok:
  assumes "\<forall>p \<in> set rp. parse_addrinfo api name p = Inr (f p)"
  shows "getaddrinfo_async_parse_response api name rp as = (new NoError, as @ concat (map f rp))"
  using assms by (induction rp arbitrary: as) simp_all

lemma query_ids [simp]:
  "query_class_ids ''IN'' = MK_DNS_CLASS_IN" "query_type_ids ''A'' = MK_DNS_TYPE_A"
  "query_type_ids ''AAAA'' = MK_DNS_TYPE_AAAA"
  by (simp_all add: query_class_ids_def query_type_ids_def query_type_table_def)

text \<open>The answers of the system engine when every address of the list can be printed.\<close>

definition cname_answers :: "string \<Rightarrow> query_type \<Rightarrow> addrinfo \<Rightarrow> answer list" where
  "cname_answers name t p = (case ai_canonname p of None \<Rightarrow> []
    | Some c \<Rightarrow> [answer_init\<lparr>an_name := name, an_class := MK_DNS_CLASS_IN,
        an_type := MK_DNS_TYPE_CNAME, an_hostname := c\<rparr>])"

definition printed4 :: "ntop_api \<Rightarrow> addrinfo \<Rightarrow> string option" where
  "printed4 api p = (case ai_addr p of SockaddrIn b _ \<Rightarrow> ntop4 api b | _ \<Rightarrow> None)"

definition printed6 :: "ntop_api \<Rightarrow> addrinfo \<Rightarrow> string option" where
  "printed6 api p = (case ai_addr p of SockaddrIn6 b _ \<Rightarrow> ntop6 api b | _ \<Rightarrow> None)"

lemma parse_addrinfo_printed:
  "printed4 api p = Some s \<Longrightarrow> parse_addrinfo api name p = Inr (cname_answers name MK_DNS_TYPE_A p @
    [answer_init\<lparr>an_name := name, an_class := MK_DNS_CLASS_IN, an_type := MK_DNS_TYPE_A, an_ipv4 := s\<rparr>])"
  "printed6 api p = Some s \<Longrightarrow> parse_addrinfo api name p = Inr (cname_answers name MK_DNS_TYPE_AAAA p @
    [answer_init\<lparr>an_name := name, an_class := MK_DNS_CLASS_IN, an_type := MK_DNS_TYPE_AAAA, an_ipv6 := s\<rparr>])"
  by (auto simp: printed4_def printed6_def parse_addrinfo_def cname_answers_def Let_def
      split: sockaddr.splits option.splits)

lemma cname_answers_addresses [simp]:
  "map an_ipv4 (cname_answers name t p) = (if ai_canonname p = None then [] else [[]])"
  "map an_ipv6 (cname_answers name t p) = (if ai_canonname p = None then [] else [[]])"
  by (simp_all add: cname_answers_def answer_init_def split: option.split)

lemma getaddrinfo_printed:
  assumes "\<forall>p \<in> set rp. parse_addrinfo api name p = Inr (f p)"
  shows "fst (getaddrinfo_async api name (EAI_none, rp) du) = (new NoError, concat (map f rp))"
  using parse_response_ok [OF assms, of "[]"]
  by (cases "rp = []") (simp_all add: getaddrinfo_async_def getaddrinfo_async_map_error_def
      as_error_def err_eq_def Let_def)

section \<open>Properties\<close>

text \<open>C31: The addresses of a name are those of its A records and then those of its AAAA records, in
  order, when both look-ups of the system engine succeed; but every canonical name in an
  answer adds an empty string to them, because all answers are copied whatever their type.\<close>

theorem resolve_hostname_addresses:
  assumes "pton4 api (c_str host) = None" "pton6 api (c_str host) = None"
    and "st ''dns/engine'' = None" "settings_get_bool_noexcept st ''dns/resolve_also_cname'' False = no_err canon"
    and "se_gai env AF_INET canon (c_str host) = (EAI_none, rp4)"
    and "se_gai env AF_INET6 canon (c_str host) = (EAI_none, rp6)"
    and "\<forall>p \<in> set rp4. printed4 (se_ntop env) p \<noteq> None" "\<forall>p \<in> set rp6. printed6 (se_ntop env) p \<noteq> None"
  shows "addresses (fst (resolve_hostname api (query lib env st) host du)) =
    concat (map (\<lambda>p. (if ai_canonname p = None then [] else [[]]) @ [the (printed4 (se_ntop env) p)]) rp4)
    @ concat (map (\<lambda>p. (if ai_canonname p = None then [] else [[]]) @ [the (printed6 (se_ntop env) p)]) rp6)"
proof -
  have flag: "has_value (settings_get_bool_noexcept st ''dns/resolve_also_cname'' False)"
    "snd (settings_get_bool_noexcept st ''dns/resolve_also_cname'' False) = canon"
    unfolding assms(4) by (simp_all add: no_err_def)
  have eng: "settings_get_str st ''dns/engine'' ''system'' = ''system''"
    using assms(3) by (simp add: settings_get_str_def)
  let ?f4 = "\<lambda>p. cname_answers host MK_DNS_TYPE_A p @ [answer_init\<lparr>an_name := host,
    an_class := MK_DNS_CLASS_IN, an_type := MK_DNS_TYPE_A, an_ipv4 := the (printed4 (se_ntop env) p)\<rparr>]"
  let ?f6 = "\<lambda>p. cname_answers host MK_DNS_TYPE_AAAA p @ [answer_init\<lparr>an_name := host,
    an_class := MK_DNS_CLASS_IN, an_type := MK_DNS_TYPE_AAAA, an_ipv6 := the (printed6 (se_ntop env) p)\<rparr>]"
  have "\<forall>p \<in> set rp4. parse_addrinfo (se_ntop env) host p = Inr (?f4 p)"
    "\<forall>p \<in> set rp6. parse_addrinfo (se_ntop env) host p = Inr (?f6 p)"
    using assms(7,8) parse_addrinfo_printed by fastforce+
  note gai = this [THEN getaddrinfo_printed]
  have q: "\<exists>m du'. query lib env st MK_DNS_CLASS_IN t host d = ((new NoError, Some m), du') \<and> answers m = as"
    if "hints_of t = Some (fam, False)"
      "fst (getaddrinfo_async (se_ntop env) host (se_gai env fam canon (c_str host)) d) = (new NoError, as)"
    for t fam d as
    using that flag eng
    by (cases "getaddrinfo_async (se_ntop env) host (se_gai env fam canon (c_str host)) d")
      (simp add: query_def system_resolver_def Let_def del: has_value_iff)
  obtain m4 d4 where m4: "query lib env st MK_DNS_CLASS_IN MK_DNS_TYPE_A host du = ((new NoError, Some m4), d4)"
    "answers m4 = concat (map ?f4 rp4)"
    using q [of MK_DNS_TYPE_A AF_INET du] gai(1) assms(5) by (auto simp: hints_of_def)
  obtain m6 d6 where m6: "query lib env st MK_DNS_CLASS_IN MK_DNS_TYPE_AAAA host d4 = ((new NoError, Some m6), d6)"
    "answers m6 = concat (map ?f6 rp6)"
    using q [of MK_DNS_TYPE_AAAA AF_INET6 d4] gai(2) assms(6) by (auto simp: hints_of_def)
  show ?thesis
    using assms(1,2) m4 m6 by (simp add: resolve_hostname_def resolve_init_def map_concat comp_def)
qed

definition example_sys :: sys_env where
  "example_sys = \<lparr>se_gai = (\<lambda>fam canon name. (EAI_none,
      if fam = AF_INET then [\<lparr>ai_addr = SockaddrIn [1, 2, 3, 4] 0, ai_canonname = Some ''www''\<rparr>] else [])),
    se_ntop = \<lparr>ntop4 = (\<lambda>_. Some ''1.2.3.4''), ntop6 = (\<lambda>_. Some ''::1'')\<rparr>,
    se_pton = \<lparr>pton4 = (\<lambda>_. None), pton6 = (\<lambda>_. None)\<rparr>\<rparr>"

theorem resolve_hostname_addresses_witness:
  "addresses (fst (resolve_hostname (se_pton example_sys) (query undefined example_sys
    [''dns/resolve_also_cname'' \<mapsto> ''1'']) ''a.b'' \<lparr>usage_down = 0, usage_up = 0\<rparr>)) = [[], ''1.2.3.4'']"
proof -
  let ?st = "[''dns/resolve_also_cname'' \<mapsto> ''1'']"
  have "settings_get_bool_noexcept ?st ''dns/resolve_also_cname'' False = no_err True"
    by (simp add: settings_get_bool_noexcept_def settings_get_bool_def stream_int_def c_str_def
        is_space_def is_digit_def dec_value_def int_range_def INT_MIN_def INT_MAX_def)
  moreover have "pton4 (se_pton example_sys) h = None" "pton6 (se_pton example_sys) h = None" for h
    by (simp_all add: example_sys_def)
  moreover have "se_gai example_sys AF_INET True n =
      (EAI_none, [\<lparr>ai_addr = SockaddrIn [1, 2, 3, 4] 0, ai_canonname = Some ''www''\<rparr>])"
    "se_gai example_sys AF_INET6 True n = (EAI_none, [])" for n
    by (simp_all add: example_sys_def)
  ultimately show ?thesis
    by (subst resolve_hostname_addresses [where canon = True and
        ?rp4.0 = "[\<lparr>ai_addr = SockaddrIn [1, 2, 3, 4] 0, ai_canonname = Some ''www''\<rparr>]" and ?rp6.0 = "[]"])
      (simp_all add: printed4_def example_sys_def)
qed

definition base_balanced :: "base_op list \<Rightarrow> query_outcome \<Rightarrow> bool" where
  "base_balanced ops r =
    (case r of
       QueryPending _ _ m \<Rightarrow> ops = [BaseNew] \<and> queries m \<noteq> []
     | QueryCall e m \<Rightarrow> (ops = [] \<or> ops = [BaseNew, BaseFree]) \<and> is_err e \<and> m = None
     | QueryThrow e \<Rightarrow> ops = [] \<and> e = BadAlloc)"

lemma has_value_err: "has_value r \<longleftrightarrow> \<not> is_err (as_error r)"
  by (cases r) (simp add: is_err_def as_error_def)

lemma libevent_request_balanced:
  "libevent_request env c t n = (ops, r) \<Longrightarrow> base_balanced (BaseNew # ops) r"
  by (auto simp: libevent_request_def base_balanced_def message_init_def Let_def err_simps
      split: if_splits)

lemma create_evdns_base_cases:
  obtains "create_evdns_base env st = ([], Inl BadAlloc)"
  | w where "create_evdns_base env st = ([BaseNew, BaseFree], Inl (RuntimeError w))"
  | "create_evdns_base env st = ([BaseNew], Inr ())"
proof -
  have "create_evdns_base env st = ([], Inl BadAlloc)
      \<or> (\<exists>w. create_evdns_base env st = ([BaseNew, BaseFree], Inl (RuntimeError w)))
      \<or> create_evdns_base env st = ([BaseNew], Inr ())"
    by (simp add: create_evdns_base_def Let_def)
  then show thesis
    using that by blast
qed

lemma libevent_query_balanced:
  assumes "libevent_query env st c t n = (ops, r)"
  shows "base_balanced ops r"
proof (cases "let a = settings_get_bool_noexcept st ''dns/resolve_also_cname'' False in
    \<not> has_value a \<or> snd a")
  case True
  then show ?thesis
    using assms has_value_err [of "settings_get_bool_noexcept st ''dns/resolve_also_cname'' False"]
    by (auto simp: libevent_query_def base_balanced_def Let_def err_simps split: if_splits)
next
  case False
  note unfold = libevent_query_def Let_def
  show ?thesis
  proof (cases rule: create_evdns_base_cases [of env st])
    case 3
    have pre: "\<exists>o2. ops = BaseNew # o2 \<and> base_balanced (BaseNew # o2) r"
      if "(case libevent_request env c t' n' of (ops', r') \<Rightarrow> ([BaseNew] @ ops', r')) = (ops, r)" for t' n'
      using that libevent_request_balanced [of env c t' n'] by (auto split: prod.splits)
    show ?thesis
    proof (cases "c = MK_DNS_CLASS_IN")
      case True
      then show ?thesis
        using assms False 3 pre [of MK_DNS_TYPE_REVERSE_A "unreverse_ipv4 n"]
          pre [of MK_DNS_TYPE_REVERSE_AAAA "unreverse_ipv6 n"] pre [of t n]
        by (auto simp: unfold base_balanced_def [of "[BaseNew, BaseFree]"] err_simps split: if_splits)
    qed (use assms False 3 in \<open>auto simp: unfold base_balanced_def err_simps\<close>)
  qed (use assms False in \<open>auto simp: unfold base_balanced_def err_simps\<close>)
qed

text \<open>C30: An evdns base is freed exactly once on every path on which \<open>libevent_query\<close> calls back or
  throws at once; when the request is left pending, the base belongs to its context, and
  the callback of the request frees it unless the answer cannot be built.\<close>

theorem evdns_base_freed_once:
  assumes "libevent_query env st c t n = (ops, r)"
  shows "case r of
      QueryPending _ _ m \<Rightarrow> ops = [BaseNew] \<and>
        (\<exists>as. build_answers_evdns api d ty count ttl mem ptr = Inr as) =
        (fst (dns_callback api elapsed d ty count ttl mem ptr m du) = [BaseFree])
    | QueryCall e m \<Rightarrow> (ops = [] \<or> ops = [BaseNew, BaseFree]) \<and> is_err e \<and> m = None
    | QueryThrow e \<Rightarrow> ops = [] \<and> e = BadAlloc"
  using libevent_query_balanced [OF assms]
  by (cases r) (auto simp: base_balanced_def dns_callback_def Let_def Suc_le_eq split: sum.split)

theorem evdns_base_freed_once_witness:
  "\<exists>e. libevent_query \<lparr>ev_base = True, ev_nameserver = (\<lambda>_ _. True), ev_add_server = True,
      ev_option = (\<lambda>_ _. True), ev_resolve = (\<lambda>_ _. True),
      ev_pton = \<lparr>pton4 = (\<lambda>_. None), pton6 = (\<lambda>_. None)\<rparr>,
      ev_ntop = \<lparr>ntop4 = (\<lambda>_. None), ntop6 = (\<lambda>_. None)\<rparr>\<rparr> Map.empty MK_DNS_CLASS_CH MK_DNS_TYPE_A ''a'' =
    ([BaseNew, BaseFree], QueryCall e None) \<and> is_err e"
proof -
  let ?env = "\<lparr>ev_base = True, ev_nameserver = (\<lambda>_ _. True), ev_add_server = True,
      ev_option = (\<lambda>_ _. True), ev_resolve = (\<lambda>_ _. True),
      ev_pton = \<lparr>pton4 = (\<lambda>_. None), pton6 = (\<lambda>_. None)\<rparr>,
      ev_ntop = \<lparr>ntop4 = (\<lambda>_. None), ntop6 = (\<lambda>_. None)\<rparr>\<rparr>"
  have "libevent_query ?env Map.empty MK_DNS_CLASS_CH MK_DNS_TYPE_A ''a'' =
      ([BaseNew, BaseFree], QueryCall (new UnsupportedClassError) None)"
    by (simp add: libevent_query_def create_evdns_base_def settings_get_bool_noexcept_def
        settings_get_bool_def no_err_def Let_def)
  from evdns_base_freed_once [OF this] this show ?thesis
    by simp
qed

lemma evdns_addresses_spec:
  assumes "evdns_addresses ntop mk sz mem is = Inr as"
  shows "length as = length is \<and> (\<forall>k < length is. \<exists>s.
    ntop (take (nat sz) (drop (nat (is ! k * sz)) mem)) = Some s \<and> as ! k = mk s)"
  using assms
proof (induction "is" arbitrary: as)
  case (Cons i "is")
  obtain s as' where s: "ntop (take (nat sz) (drop (nat (i * sz)) mem)) = Some s"
    "evdns_addresses ntop mk sz mem is = Inr as'" "as = mk s # as'"
    using Cons.prems by (auto split: option.splits)
  then show ?case
    using Cons.IH [of as'] by (auto simp: nth_Cons split: nat.split)
qed simp

definition answer_memory :: "ntop_api \<Rightarrow> evdns_type \<Rightarrow> bytes \<Rightarrow> int \<Rightarrow> string option" where
  "answer_memory api ty mem i =
    (if ty = DNS_IPv4_A then ntop4 api (take 4 (drop (nat (i * 4)) mem))
     else ntop6 api (take 16 (drop (nat (i * 16)) mem)))"

lemma count_offsets:
  fixes i :: int
  assumes "0 < sz" "count \<le> INT_MAX div sz + 1" "i < count"
  shows "i * sz \<le> INT_MAX"
proof -
  have "i \<le> INT_MAX div sz"
    using assms(2,3) by simp
  then have "i * sz \<le> (INT_MAX div sz) * sz"
    using assms(1) by simp
  also have "\<dots> \<le> INT_MAX"
    using assms(1) by (simp add: minus_mod_eq_div_mult [symmetric])
  finally show ?thesis .
qed

text \<open>C23: An answer of evdns is turned into as many records as it has addresses, each with the text of
  the address at its place in memory; the offset of no address exceeds the range of \<open>int\<close>.\<close>

theorem evdns_answers_correct:
  assumes "build_answers_evdns api DNS_ERR_NONE ty count ttl mem ptr = Inr as"
    and "ty = DNS_IPv4_A \<or> ty = DNS_IPv6_AAAA"
  shows "0 \<le> count \<and> length as = nat count
    \<and> (\<forall>i < nat count. int i * (if ty = DNS_IPv4_A then 4 else 16) \<le> INT_MAX
      \<and> answer_memory api ty mem (int i) = Some (if ty = DNS_IPv4_A then an_ipv4 (as ! i) else an_ipv6 (as ! i))
      \<and> an_type (as ! i) = (if ty = DNS_IPv4_A then MK_DNS_TYPE_A else MK_DNS_TYPE_AAAA)
      \<and> an_ttl (as ! i) = word_of_int ttl \<and> an_code (as ! i) = 0)"
proof -
  let ?a = "answer_init\<lparr>an_code := 0, an_ttl := word_of_int ttl\<rparr>"
  have idx: "[0..count - 1] ! i = int i" "length [0..count - 1] = nat count" if "i < nat count" for i
    using that by simp_all
  show ?thesis
  proof (cases "ty = DNS_IPv4_A")
    case True
    then have r: "0 \<le> count" "count \<le> INT_MAX div 4 + 1"
      "evdns_addresses (ntop4 api) (\<lambda>s. ?a\<lparr>an_type := MK_DNS_TYPE_A, an_ipv4 := s\<rparr>) 4 mem [0..count - 1] = Inr as"
      using assms by (simp_all add: build_answers_evdns_def evdns_number_def Let_def split: if_splits)
    show ?thesis
      using evdns_addresses_spec [OF r(3)] r(1) idx count_offsets [of 4 count, OF _ r(2)] True
      by (fastforce simp: answer_memory_def)
  next
    case False
    then have r: "0 \<le> count" "count \<le> INT_MAX div 16 + 1"
      "evdns_addresses (ntop6 api) (\<lambda>s. ?a\<lparr>an_type := MK_DNS_TYPE_AAAA, an_ipv6 := s\<rparr>) 16 mem [0..count - 1] = Inr as"
      using assms by (simp_all add: build_answers_evdns_def evdns_number_def Let_def split: if_splits)
    show ?thesis
      using evdns_addresses_spec [OF r(3)] r(1) idx count_offsets [of 16 count, OF _ r(2)] False
      by (fastforce simp: answer_memory_def)
  qed
qed

theorem evdns_answers_correct_witness:
  "let mem = [1, 2, 3, 4, 5, 6, 7, 8]; api = \<lparr>ntop4 = (\<lambda>b. Some (string_of b)), ntop6 = (\<lambda>_. None)\<rparr>
   in \<exists>as. build_answers_evdns api DNS_ERR_NONE DNS_IPv4_A 2 60 mem [] = Inr as \<and> length as = 2"
proof -
  let ?mem = "[1, 2, 3, 4, 5, 6, 7, 8]"
  let ?api = "\<lparr>ntop4 = (\<lambda>b. Some (string_of b)), ntop6 = (\<lambda>_. None)\<rparr>"
  obtain as where as: "build_answers_evdns ?api DNS_ERR_NONE DNS_IPv4_A 2 60 ?mem [] = Inr as"
    by (simp add: build_answers_evdns_def INT_MAX_def upto.simps Let_def)
  from evdns_answers_correct [OF as] have "length as = 2"
    by simp
  with as show ?thesis
    unfolding Let_def by blast
qed

text \<open>C24: When the system engine reports no error there is a message, with the query in it, the class and
  the type are supported and \<open>getaddrinfo\<close> succeeded; the data usage grew by the estimate for the
  query and the answers.\<close>

theorem system_resolver_reports:
  assumes "system_resolver env st c t name du = ((e, m), du')" and "\<not> is_err e"
  shows "\<exists>fam canon msg. m = Some msg \<and> c = MK_DNS_CLASS_IN \<and> hints_of t = Some (fam, canon)
    \<and> queries msg = [\<lparr>qu_type = t, qu_class = c, qu_name = name\<rparr>]
    \<and> (\<exists>canon' rp. se_gai env fam canon' (c_str name) = (EAI_none, rp) \<and> (canon \<longrightarrow> canon'))
    \<and> usage_up du' = usage_up du + 16 + length name
    \<and> usage_down du' = usage_down du + sum_list (map (estimate_answer name) (answers msg))"
proof -
  obtain fam canon where t: "c = MK_DNS_CLASS_IN" "hints_of t = Some (fam, canon)"
    using assms by (auto simp: system_resolver_def err_simps split: if_splits option.splits)
  define flag where "flag = settings_get_bool_noexcept st ''dns/resolve_also_cname'' False"
  have v: "has_value flag"
    using assms t has_value_err [of flag] by (auto simp: system_resolver_def flag_def Let_def)
  obtain g rp where g: "se_gai env fam (canon \<or> snd flag) (c_str name) = (g, rp)"
    by fastforce
  obtain e' as d where a: "getaddrinfo_async (se_ntop env) name (g, rp) du = ((e', as), d)"
    by (metis prod.exhaust)
  have r: "e = e'" "m = Some (message_init\<lparr>queries := [\<lparr>qu_type = t, qu_class = c, qu_name = name\<rparr>], answers := as\<rparr>)"
    "du' = d"
    using assms(1) t v g a by (simp_all add: system_resolver_def flag_def Let_def del: has_value_iff)
  have "g = EAI_none"
    using a assms(2) r(1) gai_error_none [of g]
    by (auto simp: getaddrinfo_async_def Let_def split: if_splits)
  moreover have "d = estimate_data_usage name as du"
    using a by (auto simp: getaddrinfo_async_def Let_def split: if_splits)
  ultimately show ?thesis
    using t r g by (auto simp: estimate_add)
qed

theorem system_resolver_reports_witness:
  "\<exists>e m du'. system_resolver example_sys Map.empty MK_DNS_CLASS_IN MK_DNS_TYPE_A ''a.b''
      \<lparr>usage_down = 0, usage_up = 0\<rparr> = ((e, m), du') \<and> usage_up du' = 19"
proof -
  obtain e m du' where r: "system_resolver example_sys Map.empty MK_DNS_CLASS_IN MK_DNS_TYPE_A ''a.b''
      \<lparr>usage_down = 0, usage_up = 0\<rparr> = ((e, m), du')"
    by (metis prod.exhaust)
  moreover have "\<not> is_err e"
    using r by (auto simp: system_resolver_def hints_of_def settings_get_bool_noexcept_def
        settings_get_bool_def no_err_def example_sys_def getaddrinfo_async_def as_error_def
        getaddrinfo_async_map_error_def parse_addrinfo_def err_eq_def Let_def)
  ultimately show ?thesis
    using system_resolver_reports [OF r] by fastforce
qed

end
