(* ===== verification/Http.thy ===== *)
theory Http
  imports HttpUrl Buffer
begin

text \<open>
  The HTTP client: requests and their text, redirects, the reading of a response and the
  sequence of requests of \<open>http::request\<close> (\<open>http/request.cpp\<close>, \<open>http/request_impl.hpp\<close>), and the
  callbacks that turn the events of the message parser of http-parser into a response
  (\<open>http/response_parser.hpp\<close>).  The message parser itself and the transport are arguments.
\<close>

section \<open>Strings\<close>

definition startswith :: "string \<Rightarrow> string \<Rightarrow> bool" where
  "startswith s p \<longleftrightarrow> take (length p) s = p"

definition endswith :: "string \<Rightarrow> string \<Rightarrow> bool" where
  "endswith s p \<longleftrightarrow> length s \<ge> length p \<and> drop (length s - length p) s = p"

section \<open>Headers\<close>

text \<open>\<open>std::map\<close> with \<open>strcasecmp\<close>: an association list ordered by the lower-case bytes of the
  keys, one entry for each key up to case.\<close>

definition tolower :: "char \<Rightarrow> nat" where
  "tolower c = (let n = of_char c in if 65 \<le> n \<and> n \<le> 90 then n + 32 else n)"

definition ci_key :: "string \<Rightarrow> nat list" where
  "ci_key s = map tolower (c_str s)"

fun key_less :: "nat list \<Rightarrow> nat list \<Rightarrow> bool" where
  "key_less [] ys = (ys \<noteq> [])"
| "key_less (x # xs) [] = False"
| "key_less (x # xs) (y # ys) = (x < y \<or> x = y \<and> key_less xs ys)"

definition headers_less :: "string \<Rightarrow> string \<Rightarrow> bool" where
  "headers_less l r = key_less (ci_key l) (ci_key r)"

type_synonym headers = "(string \<times> string) list"

fun headers_put :: "string \<Rightarrow> string \<Rightarrow> headers \<Rightarrow> headers" where
  "headers_put k v [] = [(k, v)]"
| "headers_put k v ((k', v') # hs) =
    (if headers_less k k' then (k, v) # (k', v') # hs
     else if headers_less k' k then (k', v') # headers_put k v hs
     else (k', v) # hs)"

definition headers_find :: "string \<Rightarrow> headers \<Rightarrow> string option" where
  "headers_find k hs = map_option snd (find (\<lambda>(k', _). ci_key k' = ci_key k) hs)"

section \<open>Requests\<close>

record request =
  rq_method :: string
  rq_url :: url
  rq_url_path :: string
  rq_protocol :: string
  rq_headers :: headers
  rq_body :: string

definition request_init :: "settings \<Rightarrow> headers \<Rightarrow> string \<Rightarrow> error + request" where
  "request_init st hdrs bd =
    (case st ''http/url'' of
       None \<Rightarrow> Inl (new MissingUrlError)
     | Some u \<Rightarrow>
         let maybe_url = parse_url_noexcept u in
         if \<not> has_value maybe_url then Inl (as_error maybe_url)
         else
           let url_path = settings_get_str st ''http/path'' [] in
           Inr \<lparr>rq_method = settings_get_str st ''http/method'' ''GET'', rq_url = snd maybe_url,
             rq_url_path = (if url_path \<noteq> [] \<and> hd url_path \<noteq> CHR ''/''
                            then CHR ''/'' # url_path else url_path),
             rq_protocol = settings_get_str st ''http/http_version'' ''HTTP/1.1'',
             rq_headers = hdrs, rq_body = bd\<rparr>)"

definition crlf :: string where
  "crlf = [char_of (13 :: nat), char_of (10 :: nat)]"

definition host_header :: "url \<Rightarrow> string" where
  "host_header u = ''Host: '' @ address u
    @ (if schema u = ''http'' \<and> url_port u \<noteq> 80 \<or> schema u = ''https'' \<and> url_port u \<noteq> 443
       then '':'' @ int_dec (url_port u) else []) @ crlf"

definition serialize :: "request \<Rightarrow> string" where
  "serialize r =
    rq_method r @ '' '' @ (if rq_url_path r \<noteq> [] then rq_url_path r else pathquery (rq_url r))
    @ '' '' @ rq_protocol r @ crlf
    @ concat (map (\<lambda>(k, v). k @ '': '' @ v @ crlf) (rq_headers r))
    @ (if headers_find ''host'' (rq_headers r) = None then host_header (rq_url r) else [])
    @ (if rq_body r \<noteq> [] then ''Content-Length: '' @ nat_dec (length (rq_body r)) @ crlf else [])
    @ crlf
    @ (if rq_body r \<noteq> [] then rq_body r else [])"

section \<open>Redirects\<close>

definition redirect :: "pton_api \<Rightarrow> url \<Rightarrow> string \<Rightarrow> url error_or" where
  "redirect api orig_url location =
    (let s =
      (if startswith location ''//'' then schema orig_url @ '':'' @ location
       else if startswith location ''/'' then url_str api (orig_url\<lparr>pathquery := location\<rparr>)
       else if startswith location ''http://'' \<or> startswith location ''https://'' then location
       else
         let path = path orig_url;
             path = (if \<not> endswith path ''/'' then path @ ''/'' else path);
             path = path @ location
         in url_str api (orig_url\<lparr>path := path, query := [], pathquery := path\<rparr>))
     in parse_url_noexcept s)"

section \<open>The response and its parser\<close>

text \<open>A response, its request being the one that was sent, if it is set.  \<open>unsigned short\<close> and
  \<open>unsigned int\<close> are kept at their width.\<close>

record response =
  rs_request :: "request option"
  rs_line :: string
  rs_major :: uint16
  rs_minor :: uint16
  rs_status :: uint32
  rs_reason :: string
  rs_headers :: headers
  rs_body :: string

definition response_empty :: response where
  "response_empty = \<lparr>rs_request = None, rs_line = [], rs_major = 0, rs_minor = 0, rs_status = 0,
    rs_reason = [], rs_headers = [], rs_body = []\<rparr>"

text \<open>The callbacks of the message parser; \<open>HeadersComplete\<close> carries version and status of
  \<open>parser_\<close>.\<close>

datatype parser_cb =
  MessageBegin | Status string | HeaderField string | HeaderValue string
| HeadersComplete uint16 uint16 uint16 | Body string | MessageComplete

datatype header_parser_state = NOTHING | FIELD | VALUE

text \<open>\<open>ResponseParserNg\<close> while parsing, and the events it delivers to its owner.\<close>

datatype rp_event = RpBegin | RpResponse response | RpBody string | RpEnd

record rparser =
  rp_response :: response
  rp_prev :: header_parser_state
  rp_field :: string
  rp_value :: string

definition rparser_init :: rparser where
  "rparser_init = \<lparr>rp_response = response_empty, rp_prev = NOTHING, rp_field = [], rp_value = []\<rparr>"

definition do_header_internal :: "header_parser_state \<Rightarrow> string \<Rightarrow> rparser \<Rightarrow> rparser res" where
  "do_header_internal cur s rp =
    (let set_header = (\<lambda>rp. rp\<lparr>rp_response := (rp_response rp)\<lparr>rs_headers :=
           headers_put (rp_field rp) (rp_value rp) (rs_headers (rp_response rp))\<rparr>\<rparr>)
     in map_sum id (\<lambda>rp. rp\<lparr>rp_prev := cur\<rparr>)
       (if rp_prev rp = NOTHING \<and> cur = FIELD then Inr (rp\<lparr>rp_field := s\<rparr>)
        else if rp_prev rp = VALUE \<and> cur = FIELD then Inr ((set_header rp)\<lparr>rp_field := s\<rparr>)
        else if rp_prev rp = FIELD \<and> cur = FIELD then Inr (rp\<lparr>rp_field := rp_field rp @ s\<rparr>)
        else if rp_prev rp = FIELD \<and> cur = VALUE then Inr (rp\<lparr>rp_value := s\<rparr>)
        else if rp_prev rp = VALUE \<and> cur = VALUE then Inr (rp\<lparr>rp_value := rp_value rp @ s\<rparr>)
        else Inl (ErrorExn (new HeaderParserInternalError))))"

definition do_headers_complete :: "uint16 \<Rightarrow> uint16 \<Rightarrow> uint16 \<Rightarrow> rparser \<Rightarrow> rparser" where
  "do_headers_complete major minor status rp =
    (let r = rp_response rp;
         r = (if rp_field rp \<noteq> [] then r\<lparr>rs_headers := headers_put (rp_field rp) (rp_value rp) (rs_headers r)\<rparr>
              else r);
         r = r\<lparr>rs_major := major, rs_status := ucast status, rs_minor := minor\<rparr>;
         line = ''HTTP/'' @ nat_dec (unat major) @ ''.'' @ nat_dec (unat minor) @ '' ''
           @ nat_dec (unat status) @ '' '' @ rs_reason r
     in rp\<lparr>rp_response := r\<lparr>rs_line := line\<rparr>\<rparr>)"

definition rp_callback :: "parser_cb \<Rightarrow> rparser \<Rightarrow> (rp_event list \<times> rparser) res" where
  "rp_callback cb rp =
    (case cb of
       MessageBegin \<Rightarrow> Inr ([RpBegin], rparser_init)
     | Status s \<Rightarrow> Inr ([], rp\<lparr>rp_response := (rp_response rp)\<lparr>rs_reason := rs_reason (rp_response rp) @ s\<rparr>\<rparr>)
     | HeaderField s \<Rightarrow> map_sum id (Pair []) (do_header_internal FIELD s rp)
     | HeaderValue s \<Rightarrow> map_sum id (Pair []) (do_header_internal VALUE s rp)
     | HeadersComplete major minor status \<Rightarrow>
         let rp = do_headers_complete major minor status rp in Inr ([RpResponse (rp_response rp)], rp)
     | Body s \<Rightarrow> Inr ([RpBody s], rp)
     | MessageComplete \<Rightarrow> Inr ([RpEnd], rp))"

fun rp_callbacks :: "parser_cb list \<Rightarrow> rparser \<Rightarrow> rp_event list \<times> rparser res" where
  "rp_callbacks [] rp = ([], Inr rp)"
| "rp_callbacks (cb # cbs) rp =
    (case rp_callback cb rp of
       Inl e \<Rightarrow> ([], Inl e)
     | Inr (evs, rp) \<Rightarrow> let (evs', r) = rp_callbacks cbs rp in (evs @ evs', r))"

text \<open>The message parser: executing it on bytes gives the callbacks it makes, the number of bytes it
  accepted and its next state, from which \<open>HTTP_PARSER_ERRNO\<close> is read.\<close>

datatype http_errno =
  HPE_OK | HPE_INVALID_EOF_STATE | HPE_HEADER_OVERFLOW
| HPE_CLOSED_CONNECTION | HPE_INVALID_VERSION | HPE_INVALID_STATUS
| HPE_INVALID_METHOD | HPE_INVALID_URL | HPE_INVALID_HOST
| HPE_INVALID_PORT | HPE_INVALID_PATH | HPE_INVALID_QUERY_STRING
| HPE_INVALID_FRAGMENT | HPE_LF_EXPECTED | HPE_INVALID_HEADER_TOKEN
| HPE_INVALID_CONTENT_LENGTH | HPE_UNEXPECTED_CONTENT_LENGTH | HPE_INVALID_CHUNK_SIZE
| HPE_INVALID_CONSTANT | HPE_INVALID_INTERNAL_STATE | HPE_STRICT
| HPE_PAUSED | HPE_other

definition parser_error_table :: "(http_errno \<times> error_class) list" where
  "parser_error_table =
    [(HPE_OK, NoError),
     (HPE_INVALID_EOF_STATE, ParserInvalidEofStateError),
     (HPE_HEADER_OVERFLOW, ParserHeaderOverflowError),
     (HPE_CLOSED_CONNECTION, ParserClosedConnectionError),
     (HPE_INVALID_VERSION, ParserInvalidVersionError),
     (HPE_INVALID_STATUS, ParserInvalidStatusError),
     (HPE_INVALID_METHOD, ParserInvalidMethodError),
     (HPE_INVALID_URL, ParserInvalidUrlError),
     (HPE_INVALID_HOST, ParserInvalidHostError),
     (HPE_INVALID_PORT, ParserInvalidPortError),
     (HPE_INVALID_PATH, ParserInvalidPathError),
     (HPE_INVALID_QUERY_STRING, ParserInvalidQueryStringError),
     (HPE_INVALID_FRAGMENT, ParserInvalidFragmentError),
     (HPE_LF_EXPECTED, ParserLfExpectedError),
     (HPE_INVALID_HEADER_TOKEN, ParserInvalidHeaderTokenError),
     (HPE_INVALID_CONTENT_LENGTH, ParserInvalidContentLengthError),
     (HPE_UNEXPECTED_CONTENT_LENGTH, ParserUnexpectedContentLengthError),
     (HPE_INVALID_CHUNK_SIZE, ParserInvalidChunkSizeError),
     (HPE_INVALID_CONSTANT, ParserInvalidConstantError),
     (HPE_INVALID_INTERNAL_STATE, ParserInvalidInternalStateError),
     (HPE_STRICT, ParserStrictModeAssertionError),
     (HPE_PAUSED, ParserPausedError)]"

definition map_parser_error :: "http_errno \<Rightarrow> error" where
  "map_parser_error e =
    (case map_of parser_error_table e of None \<Rightarrow> new GenericParserError | Some k \<Rightarrow> new k)"

record 'p hp_api =
  hp_init :: 'p
  hp_execute :: "'p \<Rightarrow> bytes \<Rightarrow> parser_cb list \<times> nat \<times> 'p"
  hp_errno :: "'p \<Rightarrow> http_errno"

definition parser_execute ::
  "'p hp_api \<Rightarrow> 'p \<times> rparser \<Rightarrow> bytes \<Rightarrow> rp_event list \<times> ('p \<times> rparser) res" where
  "parser_execute api s p =
    (let (cbs, x, p') = hp_execute api (fst s) p; (evs, r) = rp_callbacks cbs (snd s)
     in case r of
          Inl e \<Rightarrow> (evs, Inl e)
        | Inr rp \<Rightarrow>
            if x \<noteq> length p then (evs, Inl (ErrorExn (new_e ParserError (map_parser_error (hp_errno api p')))))
            else (evs, Inr (p', rp)))"

text \<open>\<open>parse\<close> runs over the segments of the buffer.\<close>

fun parse_segments ::
  "'p hp_api \<Rightarrow> 'p \<times> rparser \<Rightarrow> bytes list \<Rightarrow> rp_event list \<times> ('p \<times> rparser) res" where
  "parse_segments api s [] = ([], Inr s)"
| "parse_segments api s (seg # segs) =
    (case parser_execute api s seg of
       (evs, Inl e) \<Rightarrow> (evs, Inl e)
     | (evs, Inr s) \<Rightarrow> let (evs', r) = parse_segments api s segs in (evs @ evs', r))"

section \<open>Receiving a response\<close>

record recv =
  rv_response :: response
  rv_valid :: bool
  rv_end :: bool

definition recv_event :: "bool \<Rightarrow> rp_event \<Rightarrow> recv \<Rightarrow> recv" where
  "recv_event ignore_body ev rv =
    (case ev of
       RpBegin \<Rightarrow> rv
     | RpResponse r \<Rightarrow> rv\<lparr>rv_response := r, rv_valid := True\<rparr>
     | RpBody s \<Rightarrow>
         if ignore_body then rv
         else rv\<lparr>rv_response := (rv_response rv)\<lparr>rs_body := rs_body (rv_response rv) @ s\<rparr>\<rparr>
     | RpEnd \<Rightarrow> rv\<lparr>rv_end := True\<rparr>)"

definition recv_events :: "bool \<Rightarrow> rp_event list \<Rightarrow> recv \<Rightarrow> recv" where
  "recv_events ignore_body evs rv = foldl (\<lambda>rv ev. recv_event ignore_body ev rv) rv evs"

definition recv_init :: recv where
  "recv_init = \<lparr>rv_response = response_empty, rv_valid = False, rv_end = False\<rparr>"

text \<open>What \<open>net::read\<close> calls back with, again and again: bytes in segments, or an error.  The result
  is \<open>None\<close> while the loop still waits.\<close>

datatype read_result = ReadData "bytes list" | ReadError error

definition exn_error :: "exn \<Rightarrow> error" where
  "exn_error e = (case e of ErrorExn err \<Rightarrow> err | _ \<Rightarrow> new GenericError)"

definition recv_finish ::
  "'p hp_api \<Rightarrow> bool \<Rightarrow> error \<Rightarrow> 'p \<times> rparser \<Rightarrow> recv \<Rightarrow> error \<times> recv" where
  "recv_finish api ignore_body err s rv =
    (if err_eq err (new EofError) \<and> rv_valid rv then
       let (evs, r) = parser_execute api s []; rv = recv_events ignore_body evs rv in
       (case r of Inl e \<Rightarrow> exn_error e | Inr _ \<Rightarrow> new NoError, rv)
     else (err, rv))"

fun recv_loop ::
  "'p hp_api \<Rightarrow> bool \<Rightarrow> 'p \<times> rparser \<Rightarrow> recv \<Rightarrow> read_result list \<Rightarrow> (error \<times> recv) option" where
  "recv_loop api ignore_body s rv [] = None"
| "recv_loop api ignore_body s rv (ReadError err # reads) =
    (if \<not> is_err err \<and> \<not> rv_end rv then recv_loop api ignore_body s rv reads
     else Some (recv_finish api ignore_body err s rv))"
| "recv_loop api ignore_body s rv (ReadData segs # reads) =
    (let (evs, r) = parse_segments api s segs; rv = recv_events ignore_body evs rv in
     case r of
       Inl e \<Rightarrow> Some (recv_finish api ignore_body (exn_error e) s rv)
     | Inr s \<Rightarrow>
         if \<not> rv_end rv then recv_loop api ignore_body s rv reads
         else Some (recv_finish api ignore_body (new NoError) s rv))"

definition request_recv_response ::
  "'p hp_api \<Rightarrow> settings \<Rightarrow> read_result list \<Rightarrow> (error \<times> response) option" where
  "request_recv_response api st reads =
    (let ignore_body = settings_get_bool_noexcept st ''http/ignore_body'' False in
     if \<not> has_value ignore_body then Some (new ValueError, response_empty)
     else map_option (\<lambda>(e, rv). (e, rv_response rv))
       (recv_loop api (snd ignore_body) (hp_init api, rparser_init) recv_init reads))"

text \<open>\<open>request_maybe_sendrecv\<close>: \<open>sent\<close> is the error of \<open>net::write\<close>.\<close>

definition request_sendrecv ::
  "'p hp_api \<Rightarrow> settings \<Rightarrow> headers \<Rightarrow> string \<Rightarrow> error \<Rightarrow> read_result list \<Rightarrow>
    (error \<times> response) option" where
  "request_sendrecv api st hdrs bd sent reads =
    (case request_init st hdrs bd of
       Inl e \<Rightarrow> Some (e, response_empty)
     | Inr rq \<Rightarrow>
         if is_err sent then Some (sent, response_empty\<lparr>rs_request := Some rq\<rparr>)
         else (case request_recv_response api st reads of
           None \<Rightarrow> None
         | Some (err, r) \<Rightarrow>
             if is_err err then Some (err, r) else Some (err, r\<lparr>rs_request := Some rq\<rparr>)))"

section \<open>request\<close>

text \<open>\<open>request_connect_impl\<close>: the endpoint and the settings \<open>net::connect\<close> is called with.\<close>

definition request_connect_args :: "settings \<Rightarrow> error + (string \<times> int \<times> settings)" where
  "request_connect_args st =
    (case st ''http/url'' of
       None \<Rightarrow> Inl (new MissingUrlError)
     | Some u \<Rightarrow>
         let url = parse_url_noexcept u in
         if \<not> has_value url then Inl (as_error url)
         else
           let st =
             (if schema (snd url) = ''httpo'' then
                (case st ''net/tor_socks_port'' of
                   Some p \<Rightarrow> st(''net/socks5_proxy'' \<mapsto> ''127.0.0.1:'' @ p)
                 | None \<Rightarrow> if st ''net/socks5_proxy'' = None
                     then st(''net/socks5_proxy'' \<mapsto> ''127.0.0.1:9050'') else st)
              else if schema (snd url) = ''https'' then st(''net/ssl'' \<mapsto> ''1'')
              else st)
           in Inr (address (snd url), url_port (snd url), st))"

text \<open>A response with those it was redirected from, the latest first.  \<open>attempt\<close> says what
  connecting and exchanging the request with the given number and settings leads to: the error
  of the connection and, when there is none, what \<open>request_sendrecv\<close> calls back with.\<close>

type_synonym attempt = "nat \<Rightarrow> settings \<Rightarrow> error \<times> (error \<times> response)"

definition request_unsent :: "settings \<Rightarrow> headers \<Rightarrow> string \<Rightarrow> response list" where
  "request_unsent st hdrs bd =
    (case request_init st hdrs bd of Inl _ \<Rightarrow> []
     | Inr rq \<Rightarrow> [response_empty\<lparr>rs_request := Some rq\<rparr>])"

text \<open>Where the answer leads: a final result, or the settings of the next request.\<close>

definition next_request ::
  "pton_api \<Rightarrow> settings \<Rightarrow> int \<Rightarrow> int \<Rightarrow> response \<Rightarrow> error + settings" where
  "next_request api st max_redirects num_redirs r =
    (if unat (rs_status r) div 100 = 3 \<and> max_redirects > 0 then
       let loc = (case headers_find ''Location'' (rs_headers r) of None \<Rightarrow> [] | Some l \<Rightarrow> l) in
       if loc = [] then Inl (new EmptyLocationError)
       else
         let url = redirect api (rq_url (the (rs_request r))) loc in
         if \<not> has_value url then Inl (new_e InvalidRedirectUrlError (as_error url))
         else if num_redirs \<ge> max_redirects then Inl (new TooManyRedirectsError)
         else Inr (st(''http/url'' \<mapsto> url_str api (snd url)))
     else Inl (new NoError))"

function request_loop ::
  "pton_api \<Rightarrow> attempt \<Rightarrow> headers \<Rightarrow> string \<Rightarrow> int \<Rightarrow> settings \<Rightarrow> response list \<Rightarrow> nat \<Rightarrow>
    error \<times> response list" where
  "request_loop api attempt hdrs bd max_redirects st previous num_redirs =
    (case attempt num_redirs st of
       (err, error, r) \<Rightarrow>
         if is_err err then (err, request_unsent st hdrs bd)
         else if is_err error then (error, [r])
         else (case next_request api st max_redirects (int num_redirs) r of
           Inl e \<Rightarrow> (e, r # previous)
         | Inr st \<Rightarrow>
             request_loop api attempt hdrs bd max_redirects st (r # previous) (num_redirs + 1)))"
  by pat_completeness auto
termination
  by (relation "measure (\<lambda>(_, _, _, _, max_redirects, _, _, num). nat (max_redirects - int num))")
    (auto simp: next_request_def Let_def split: if_splits)

declare request_loop.simps [simp del]

definition http_request ::
  "pton_api \<Rightarrow> attempt \<Rightarrow> settings \<Rightarrow> headers \<Rightarrow> string \<Rightarrow> error \<times> response list" where
  "http_request api attempt st hdrs bd =
    (let max_redirects = settings_get_int_noexcept st ''http/max_redirects'' 0 in
     if \<not> has_value max_redirects
     then (new_e InvalidMaxRedirectsError (as_error max_redirects), [])
     else request_loop api attempt hdrs bd (snd max_redirects) st [] 0)"

section \<open>The header block\<close>

text \<open>A reader of lines up to the first empty one, to say what the text of a request means.\<close>

definition is_cr :: "char \<Rightarrow> bool" where
  "is_cr c \<longleftrightarrow> c = char_of (13 :: nat)"

function read_head :: "string \<Rightarrow> string list \<times> string" where
  "read_head s =
    (let l = takeWhile (\<lambda>c. \<not> is_cr c) s; r = drop 2 (dropWhile (\<lambda>c. \<not> is_cr c) s) in
     if l = [] then ([], r) else let (ls, b) = read_head r in (l # ls, b))"
  by pat_completeness auto
termination
proof (relation "measure length", goal_cases)
  case (2 s l r)
  have "length s = length l + length (dropWhile (\<lambda>c. \<not> is_cr c) s)"
    unfolding 2(1) by (metis length_append takeWhile_dropWhile_id)
  moreover have "0 < length l"
    using 2(3) by simp
  ultimately have "length (dropWhile (\<lambda>c. \<not> is_cr c) s) - 2 < length s"
    by linarith
  then show ?case
    unfolding 2(2) by simp
qed simp

declare read_head.simps [simp del]

definition line_ok :: "string \<Rightarrow> bool" where
  "line_ok l \<longleftrightarrow> l \<noteq> [] \<and> (\<forall>c \<in> set l. \<not> is_cr c)"

lemma is_cr_of_char: "is_cr c \<longleftrightarrow> of_char c = (13 :: nat)"
proof
  show "is_cr c" if "of_char c = (13 :: nat)"
    unfolding is_cr_def that [symmetric] by simp
qed (simp add: is_cr_def of_char_of)

lemma read_head_line:
  assumes "line_ok l"
  shows "read_head (l @ crlf @ s) = (l # fst (read_head s), snd (read_head s))"
proof -
  have "takeWhile (\<lambda>c. \<not> is_cr c) (l @ crlf @ s) = l"
    "dropWhile (\<lambda>c. \<not> is_cr c) (l @ crlf @ s) = crlf @ s"
    using assms by (simp_all add: line_ok_def crlf_def is_cr_def takeWhile_append2 dropWhile_append2)
  then show ?thesis
    using assms by (subst read_head.simps) (simp add: line_ok_def crlf_def case_prod_beta)
qed

lemma read_head_lines:
  assumes "Ball (set ls) line_ok"
  shows "read_head (concat (map (\<lambda>l. l @ crlf) ls) @ crlf @ body) = (ls, body)"
  using assms
proof (induction ls)
  case Nil
  show ?case
    by (subst read_head.simps) (simp add: crlf_def is_cr_def)
next
  case (Cons l ls)
  then show ?case
    using read_head_line [of l "concat (map (\<lambda>l. l @ crlf) ls) @ crlf @ body"] by simp
qed

text \<open>The lines of a request.\<close>

definition request_lines :: "request \<Rightarrow> string list" where
  "request_lines r =
    (rq_method r @ '' '' @ (if rq_url_path r \<noteq> [] then rq_url_path r else pathquery (rq_url r))
      @ '' '' @ rq_protocol r)
    # map (\<lambda>(k, v). k @ '': '' @ v) (rq_headers r)
    @ (if headers_find ''host'' (rq_headers r) = None
       then [''Host: '' @ address (rq_url r)
         @ (if schema (rq_url r) = ''http'' \<and> url_port (rq_url r) \<noteq> 80
              \<or> schema (rq_url r) = ''https'' \<and> url_port (rq_url r) \<noteq> 443
            then '':'' @ int_dec (url_port (rq_url r)) else [])] else [])
    @ (if rq_body r \<noteq> [] then [''Content-Length: '' @ nat_dec (length (rq_body r))] else [])"

lemma serialize_lines: "serialize r = concat (map (\<lambda>l. l @ crlf) (request_lines r)) @ crlf @ rq_body r"
proof -
  have "concat (map ((\<lambda>l. l @ crlf) \<circ> (\<lambda>(k, v). k @ '': '' @ v)) hs) =
      concat (map (\<lambda>(k, v). k @ '': '' @ v @ crlf) hs)" for hs :: headers
    by (induction hs) auto
  then show ?thesis
    by (simp add: serialize_def request_lines_def host_header_def)
qed

section \<open>Header fragments\<close>

lemma rp_callbacks_append:
  "rp_callbacks (a @ b) rp = (case rp_callbacks a rp of
     (evs, Inl e) \<Rightarrow> (evs, Inl e)
   | (evs, Inr rp) \<Rightarrow> (evs @ fst (rp_callbacks b rp), snd (rp_callbacks b rp)))"
  by (induction a arbitrary: rp) (auto split: sum.splits prod.splits)

lemma rp_fields:
  assumes "rp_prev rp = FIELD"
  shows "rp_callbacks (map HeaderField fs) rp = ([], Inr (rp\<lparr>rp_field := rp_field rp @ concat fs\<rparr>))"
  using assms
proof (induction fs arbitrary: rp)
  case (Cons f fs)
  have "rp_callback (HeaderField f) rp = Inr ([], rp\<lparr>rp_field := rp_field rp @ f, rp_prev := FIELD\<rparr>)"
    using Cons.prems by (simp add: rp_callback_def do_header_internal_def)
  then show ?case
    using Cons.IH [of "rp\<lparr>rp_field := rp_field rp @ f, rp_prev := FIELD\<rparr>"] Cons.prems
    by (cases rp) simp
qed (cases rp; simp)

lemma rp_values:
  assumes "rp_prev rp = VALUE"
  shows "rp_callbacks (map HeaderValue vs) rp = ([], Inr (rp\<lparr>rp_value := rp_value rp @ concat vs\<rparr>))"
  using assms
proof (induction vs arbitrary: rp)
  case (Cons v vs)
  have "rp_callback (HeaderValue v) rp = Inr ([], rp\<lparr>rp_value := rp_value rp @ v, rp_prev := VALUE\<rparr>)"
    using Cons.prems by (simp add: rp_callback_def do_header_internal_def)
  then show ?case
    using Cons.IH [of "rp\<lparr>rp_value := rp_value rp @ v, rp_prev := VALUE\<rparr>"] Cons.prems
    by (cases rp) simp
qed (cases rp; simp)

text \<open>The parser state stands for the headers seen: those in the response and the pending one.\<close>

definition rp_headers :: "rparser \<Rightarrow> headers" where
  "rp_headers rp = (if rp_prev rp = NOTHING then rs_headers (rp_response rp)
    else headers_put (rp_field rp) (rp_value rp) (rs_headers (rp_response rp)))"

definition header_cbs :: "string list \<times> string list \<Rightarrow> parser_cb list" where
  "header_cbs h = map HeaderField (fst h) @ map HeaderValue (snd h)"

lemma rp_header:
  assumes "rp_prev rp \<noteq> FIELD" "fst h \<noteq> []" "snd h \<noteq> []"
  shows "\<exists>rp'. rp_callbacks (header_cbs h) rp = ([], Inr rp') \<and> rp_prev rp' = VALUE
    \<and> rp_field rp' = concat (fst h) \<and> rs_reason (rp_response rp') = rs_reason (rp_response rp)
    \<and> rs_body (rp_response rp') = rs_body (rp_response rp)
    \<and> rs_request (rp_response rp') = rs_request (rp_response rp)
    \<and> rp_headers rp' = headers_put (concat (fst h)) (concat (snd h)) (rp_headers rp)"
proof -
  obtain f fs v vs where h: "fst h = f # fs" "snd h = v # vs"
    using assms(2,3) by (meson neq_Nil_conv)
  define r1 where "r1 = (if rp_prev rp = VALUE then rp\<lparr>rp_response := (rp_response rp)\<lparr>rs_headers :=
      headers_put (rp_field rp) (rp_value rp) (rs_headers (rp_response rp))\<rparr>\<rparr> else rp)"
  have f: "rp_callback (HeaderField f) rp = Inr ([], r1\<lparr>rp_field := f, rp_prev := FIELD\<rparr>)"
    using assms(1) by (cases "rp_prev rp") (simp_all add: rp_callback_def do_header_internal_def r1_def)
  have r1: "rs_headers (rp_response r1) = rp_headers rp" "rs_reason (rp_response r1) = rs_reason (rp_response rp)"
    "rs_body (rp_response r1) = rs_body (rp_response rp)" "rs_request (rp_response r1) = rs_request (rp_response rp)"
    using assms(1) by (cases "rp_prev rp"; simp add: r1_def rp_headers_def)+
  let ?r2 = "r1\<lparr>rp_field := f @ concat fs, rp_prev := FIELD\<rparr>"
  have fs: "rp_callbacks (map HeaderField (f # fs)) rp = ([], Inr ?r2)"
    using f rp_fields [of "r1\<lparr>rp_field := f, rp_prev := FIELD\<rparr>" fs] by simp
  have "rp_callback (HeaderValue v) ?r2 = Inr ([], ?r2\<lparr>rp_value := v, rp_prev := VALUE\<rparr>)"
    by (simp add: rp_callback_def do_header_internal_def)
  then have vs: "rp_callbacks (map HeaderValue (v # vs)) ?r2 =
      ([], Inr (?r2\<lparr>rp_value := v @ concat vs, rp_prev := VALUE\<rparr>))"
    using rp_values [of "?r2\<lparr>rp_value := v, rp_prev := VALUE\<rparr>" vs] by simp
  show ?thesis
    unfolding header_cbs_def rp_callbacks_append h fs using vs r1
    by (simp add: rp_headers_def del: list.map rp_callbacks.simps)
qed

lemma rp_headers_run:
  assumes "rp_prev rp \<noteq> FIELD" "\<forall>h \<in> set hs. fst h \<noteq> [] \<and> snd h \<noteq> []"
  shows "\<exists>rp'. rp_callbacks (concat (map header_cbs hs)) rp = ([], Inr rp') \<and> rp_prev rp' \<noteq> FIELD
    \<and> (if hs = [] then rp' = rp else rp_prev rp' = VALUE \<and> rp_field rp' = concat (fst (last hs)))
    \<and> rs_reason (rp_response rp') = rs_reason (rp_response rp)
    \<and> rs_body (rp_response rp') = rs_body (rp_response rp)
    \<and> rs_request (rp_response rp') = rs_request (rp_response rp)
    \<and> rp_headers rp' = foldl (\<lambda>m h. headers_put (concat (fst h)) (concat (snd h)) m) (rp_headers rp) hs"
  using assms
proof (induction hs arbitrary: rp)
  case (Cons h hs)
  obtain rp1 where r1: "rp_callbacks (header_cbs h) rp = ([], Inr rp1)" "rp_prev rp1 = VALUE"
    "rp_field rp1 = concat (fst h)" "rs_reason (rp_response rp1) = rs_reason (rp_response rp)"
    "rs_body (rp_response rp1) = rs_body (rp_response rp)"
    "rs_request (rp_response rp1) = rs_request (rp_response rp)"
    "rp_headers rp1 = headers_put (concat (fst h)) (concat (snd h)) (rp_headers rp)"
    using rp_header [of rp h] Cons.prems by auto
  obtain rp2 where r2: "rp_callbacks (concat (map header_cbs hs)) rp1 = ([], Inr rp2)" "rp_prev rp2 \<noteq> FIELD"
    "if hs = [] then rp2 = rp1 else rp_prev rp2 = VALUE \<and> rp_field rp2 = concat (fst (last hs))"
    "rs_reason (rp_response rp2) = rs_reason (rp_response rp1)"
    "rs_body (rp_response rp2) = rs_body (rp_response rp1)"
    "rs_request (rp_response rp2) = rs_request (rp_response rp1)"
    "rp_headers rp2 = foldl (\<lambda>m h. headers_put (concat (fst h)) (concat (snd h)) m) (rp_headers rp1) hs"
    using Cons.IH [of rp1] Cons.prems r1(2) by auto
  show ?case
    by (rule exI [of _ rp2]) (use r1 r2 in \<open>auto simp: rp_callbacks_append split: if_splits\<close>)
qed simp

section \<open>Properties\<close>

text \<open>The text of a request is its request line, its headers, a Host line unless the headers have
  one, a Content-Length with the length of a body that is not empty, an empty line and the
  body: a reader of lines finds exactly them when no part contains a carriage return.\<close>

theorem serialize_readable:
  assumes "\<forall>l \<in> set (request_lines r). \<forall>c \<in> set l. \<not> is_cr c"
    and "\<forall>l \<in> set (map (\<lambda>(k, v). k @ '': '' @ v) (rq_headers r)). l \<noteq> []"
  shows "read_head (serialize r) = (request_lines r, rq_body r)"
proof -
  have "Ball (set (request_lines r)) line_ok"
    using assms by (auto simp: line_ok_def request_lines_def)
  then show ?thesis
    unfolding serialize_lines by (rule read_head_lines)
qed

definition example_request :: request where
  "example_request = \<lparr>rq_method = ''POST'', rq_url = url_none\<lparr>schema := ''http'', address := ''a.b''\<rparr>,
    rq_url_path = ''/x'', rq_protocol = ''HTTP/1.1'', rq_headers = [(''Accept'', ''x'')],
    rq_body = ''data''\<rparr>"

theorem serialize_readable_witness:
  "read_head (serialize example_request) =
    ([''POST /x HTTP/1.1'', ''Accept: x'', ''Host: a.b'', ''Content-Length: 4''], ''data'')"
proof -
  have four: "nat_dec 4 = ''4''"
    by (subst nat_dec.simps) (simp add: char_of_def bit_iff_odd)
  have host: "headers_find ''host'' [(''Accept'', ''x'')] = None"
    by (simp add: headers_find_def ci_key_def c_str_def tolower_def)
  have "length ''data'' = 4"
    by simp
  then have lines: "request_lines example_request =
      [''POST /x HTTP/1.1'', ''Accept: x'', ''Host: a.b'', ''Content-Length: 4'']"
    by (simp add: request_lines_def example_request_def url_none_def host four del: list.size)
  have cr: "\<forall>l \<in> set (request_lines example_request). \<forall>c \<in> set l. \<not> is_cr c"
    unfolding lines by (simp add: is_cr_of_char)
  have ne: "\<forall>l \<in> set (map (\<lambda>(k, v). k @ '': '' @ v) (rq_headers example_request)). l \<noteq> []"
    by (simp add: example_request_def)
  have "rq_body example_request = ''data''"
    by (simp add: example_request_def)
  then show ?thesis
    using serialize_readable [OF cr ne] unfolding lines by simp
qed

text \<open>C22: However the message parser cuts the names and the values of the headers into pieces, the
  response that is delivered has every header with its whole name and value, a later one
  replacing an earlier one of the same name, and the whole reason.\<close>

theorem header_fragments:
  assumes "\<forall>h \<in> set hs. fst h \<noteq> [] \<and> snd h \<noteq> [] \<and> concat (fst h) \<noteq> []"
  shows "\<exists>r rp'. rp_callbacks ([MessageBegin] @ map Status ss @ concat (map header_cbs hs)
      @ [HeadersComplete major minor status]) rp = ([RpBegin, RpResponse r], Inr rp')
    \<and> rs_headers r = foldl (\<lambda>m h. headers_put (concat (fst h)) (concat (snd h)) m) [] hs
    \<and> rs_reason r = concat ss \<and> unat (rs_status r) = unat status \<and> rs_body r = []"
proof -
  let ?rp = "rparser_init\<lparr>rp_response := response_empty\<lparr>rs_reason := concat ss\<rparr>\<rparr>"
  have "rp_callbacks (map Status ss) rp =
      ([], Inr (rp\<lparr>rp_response := (rp_response rp)\<lparr>rs_reason := rs_reason (rp_response rp) @ concat ss\<rparr>\<rparr>))" for rp
    by (induction ss arbitrary: rp) (simp_all add: rp_callback_def)
  then have st: "rp_callbacks (map Status ss) rparser_init = ([], Inr ?rp)"
    by (simp add: rparser_init_def response_empty_def)
  obtain rp1 where r1: "rp_callbacks (concat (map header_cbs hs)) ?rp = ([], Inr rp1)"
    "if hs = [] then rp1 = ?rp else rp_prev rp1 = VALUE \<and> rp_field rp1 = concat (fst (last hs))"
    "rs_reason (rp_response rp1) = concat ss" "rs_body (rp_response rp1) = []"
    "rp_headers rp1 = foldl (\<lambda>m h. headers_put (concat (fst h)) (concat (snd h)) m) [] hs"
    using rp_headers_run [of ?rp hs] assms
    by (auto simp: rparser_init_def response_empty_def rp_headers_def)
  have "rs_headers (rp_response (do_headers_complete major minor status rp1)) = rp_headers rp1"
  proof (cases "hs = []")
    case True
    then show ?thesis
      using r1(2) by (simp add: do_headers_complete_def rp_headers_def rparser_init_def Let_def)
  next
    case False
    then have "rp_field rp1 \<noteq> []"
      using r1(2) assms last_in_set [of hs] by simp
    then show ?thesis
      using r1(2) False by (simp add: do_headers_complete_def rp_headers_def Let_def)
  qed
  moreover have "unat (ucast status :: uint32) = unat status"
    by (simp add: unsigned_ucast_eq take_bit_nat_eq_self_iff less_trans [OF uint16_lt])
  ultimately show ?thesis
    using st r1 by (simp add: rp_callbacks_append rp_callback_def [of MessageBegin]
        rp_callback_def [of "HeadersComplete major minor status"] do_headers_complete_def Let_def)
qed

theorem header_fragments_witness:
  "\<exists>r rp'. rp_callbacks ([MessageBegin] @ map Status [''O'', ''K'']
      @ concat (map header_cbs [([''Lo'', ''cation''], [''/'', ''x''])]) @ [HeadersComplete 1 1 301])
      rparser_init = ([RpBegin, RpResponse r], Inr rp')
    \<and> rs_headers r = [(''Location'', ''/x'')] \<and> rs_reason r = ''OK''"
proof -
  have "\<forall>h \<in> set [([''Lo'', ''cation''], [''/'', ''x''])]. fst h \<noteq> [] \<and> snd h \<noteq> [] \<and> concat (fst h) \<noteq> []"
    by simp
  from header_fragments [OF this, of "[''O'', ''K'']" 1 1 301 rparser_init] show ?thesis
    by auto
qed

lemma startswith_slash: "startswith (CHR ''/'' # l) ''//'' \<longleftrightarrow> l \<noteq> [] \<and> hd l = CHR ''/''"
  by (cases l) (auto simp: startswith_def)

text \<open>A redirect to an absolute path stays on the scheme, the host and the port it came from and
  takes the path and the query of the location.\<close>

theorem redirect_absolute_path:
  assumes "url_ok api u" "Ball (set p) IS_URL_CHAR" "\<forall>c \<in> set q. IS_URL_CHAR c \<or> c = CHR ''?''"
    and "\<not> startswith (CHR ''/'' # p) ''//''"
    and "location = CHR ''/'' # p @ query_text q"
    and "length (url_str api (u\<lparr>pathquery := location\<rparr>)) < 65536"
  shows "redirect api u location =
    (new NoError, u\<lparr>path := CHR ''/'' # p, query := q, pathquery := location\<rparr>)"
proof -
  let ?u = "u\<lparr>path := CHR ''/'' # p, query := q, pathquery := location\<rparr>"
  have ok: "url_ok api ?u"
    using assms(1-3,5) by (simp add: url_ok_def)
  have eq: "url_str api (u\<lparr>pathquery := location\<rparr>) = url_str api ?u"
    by (simp add: url_str_def)
  have parse: "parse_url (url_str api ?u) = Inr ?u"
    by (rule parse_url_str [OF ok]) (use assms(6) in \<open>simp only: eq\<close>)
  have "\<not> startswith location ''//''" "startswith location ''/''"
    using assms(4,5) by (auto simp: startswith_slash query_text_def startswith_def split: if_splits)
      (cases p; simp)+
  then have "redirect api u location = parse_url_noexcept (url_str api ?u)"
    unfolding redirect_def eq by simp
  then show ?thesis
    unfolding parse_url_noexcept_def parse by simp
qed

text \<open>C42: A relative location is appended to the whole path of the page instead of replacing its last
  segment, so a link in \<open>/dir/page\<close> to \<open>other\<close> leads to \<open>/dir/page/other\<close>.\<close>

theorem redirect_relative_appends:
  assumes "url_ok api u" "Ball (set location) IS_URL_CHAR" "location \<noteq> []" "hd location \<noteq> CHR ''/''"
    and "\<not> startswith location ''http://''" "\<not> startswith location ''https://''"
    and "p = path u @ (if endswith (path u) ''/'' then [] else ''/'') @ location"
    and "length (url_str api (u\<lparr>pathquery := p\<rparr>)) < 65536"
  shows "redirect api u location = (new NoError, u\<lparr>path := p, query := [], pathquery := p\<rparr>)"
proof -
  let ?u = "u\<lparr>path := p, query := [], pathquery := p\<rparr>"
  have slash: "IS_URL_CHAR (CHR ''/'')"
    by (simp add: IS_URL_CHAR_def normal_url_char_def bit_iff_odd)
  have ok: "url_ok api ?u"
    using assms(1,2,7) slash by (auto simp: url_ok_def query_text_def tl_append2)
  have eq: "url_str api (u\<lparr>pathquery := p\<rparr>) = url_str api ?u"
    by (simp add: url_str_def)
  have parse: "parse_url (url_str api ?u) = Inr ?u"
    by (rule parse_url_str [OF ok]) (use assms(8) in \<open>simp only: eq\<close>)
  have "\<not> startswith location ''//''" "\<not> startswith location ''/''"
    using assms(3,4) by (cases location; simp add: startswith_def)+
  moreover have "(if \<not> endswith (path u) ''/'' then path u @ ''/'' else path u) @ location = p"
    unfolding assms(7) by simp
  ultimately have "redirect api u location = parse_url_noexcept (url_str api ?u)"
    using assms(5,6) unfolding redirect_def Let_def by simp
  then show ?thesis
    unfolding parse_url_noexcept_def parse by simp
qed


definition example_url :: url where
  "example_url = \<lparr>schema = ''http'', address = ''a.b'', url_port = 80, path = ''/dir/page'',
    query = [], pathquery = ''/dir/page''\<rparr>"

definition no_pton :: pton_api where
  "no_pton = \<lparr>pton4 = (\<lambda>_. None), pton6 = (\<lambda>_. None)\<rparr>"

lemma no_pton6 [simp]: "\<not> is_ipv6_addr no_pton h"
  by (simp add: is_ipv6_addr_def make_sockaddr_ipv6_def err_eq_def err_simps no_pton_def)

lemma example_url_ok: "url_ok no_pton example_url"
  by (simp add: url_ok_def example_url_def host_ok_def IS_HOST_CHAR_def IS_ALPHANUM_def
      IS_ALPHA_def LOWER_def query_text_def IS_URL_CHAR_def normal_url_char_def bit_iff_odd)

theorem redirect_absolute_path_witness:
  "redirect no_pton example_url ''/x?y'' =
    (new NoError, example_url\<lparr>path := ''/x'', query := ''y'', pathquery := ''/x?y''\<rparr>)"
  by (rule redirect_absolute_path [OF example_url_ok])
    (simp_all add: IS_URL_CHAR_def normal_url_char_def bit_iff_odd startswith_def query_text_def
      url_str_def example_url_def)

theorem redirect_relative_appends_witness:
  "redirect no_pton example_url ''other'' = (new NoError,
    example_url\<lparr>path := ''/dir/page/other'', query := [], pathquery := ''/dir/page/other''\<rparr>)"
  by (rule redirect_relative_appends [OF example_url_ok])
    (simp_all add: IS_URL_CHAR_def normal_url_char_def bit_iff_odd startswith_def endswith_def
      url_str_def example_url_def)

lemma next_request_final:
  "next_request api st m n r = Inl e \<Longrightarrow> \<not> is_err e \<Longrightarrow> m > 0 \<Longrightarrow> unat (rs_status r) div 100 \<noteq> 3"
  by (auto simp: next_request_def Let_def err_simps split: if_splits)

lemma next_request_more: "next_request api st m n r = Inr st' \<Longrightarrow> n < m"
  by (auto simp: next_request_def Let_def split: if_splits)

lemma request_loop_spec:
  assumes "request_loop api attempt hdrs bd m st prev n = (e, rs)"
    and "\<forall>k. int k \<le> max (int n) m \<longrightarrow> attempt' k = attempt k"
  shows "request_loop api attempt' hdrs bd m st prev n = (e, rs)
    \<and> length rs \<le> length prev + 1 + nat (m - int n)
    \<and> (\<not> is_err e \<longrightarrow> rs \<noteq> [] \<and> (m > 0 \<longrightarrow> unat (rs_status (hd rs)) div 100 \<noteq> 3))"
  using assms
proof (induction api attempt hdrs bd m st prev n arbitrary: e rs rule: request_loop.induct)
  case (1 api attempt hdrs bd m st prev n)
  obtain err error r where at: "attempt n st = (err, error, r)"
    by (metis prod.exhaust)
  have at': "attempt' n st = (err, error, r)"
    using "1.prems"(2) at by simp
  note unfold = request_loop.simps [of api _ hdrs bd m st prev n]
  show ?case
  proof (cases "is_err err \<or> is_err error")
    case True
    then show ?thesis
      using "1.prems"(1) unfold at at' by (auto simp: request_unsent_def split: sum.splits if_splits)
  next
    case ok: False
    show ?thesis
    proof (cases "next_request api st m (int n) r")
      case (Inl e')
      then have "rs = r # prev" "e = e'"
        using "1.prems"(1) unfold at ok by auto
      then show ?thesis
        using Inl ok at' unfold next_request_final [OF Inl] by auto
    next
      case (Inr st')
      note lt = next_request_more [OF Inr]
      have "request_loop api attempt hdrs bd m st' (r # prev) (n + 1) = (e, rs)"
        using "1.prems"(1) unfold at ok Inr by auto
      moreover have "\<forall>k. int k \<le> max (int (n + 1)) m \<longrightarrow> attempt' k = attempt k"
        using "1.prems"(2) lt by auto
      ultimately have "request_loop api attempt' hdrs bd m st' (r # prev) (n + 1) = (e, rs)
          \<and> length rs \<le> length (r # prev) + 1 + nat (m - int (n + 1))
          \<and> (\<not> is_err e \<longrightarrow> rs \<noteq> [] \<and> (m > 0 \<longrightarrow> unat (rs_status (hd rs)) div 100 \<noteq> 3))"
        using "1.IH" [OF at [symmetric] refl _ _ Inr] ok by auto
      then show ?thesis
        using lt ok at' unfold Inr by auto
    qed
  qed
qed

text \<open>C25: \<open>request\<close> always calls back, after at most one request more than \<open>http/max_redirects\<close>: what
  later requests would lead to has no influence.  When it reports no error, the last response
  is not a redirect unless redirects are off.\<close>

theorem request_bounded:
  assumes "settings_get_int_noexcept st ''http/max_redirects'' 0 = no_err m"
    and "\<forall>k. int k \<le> max 0 m \<longrightarrow> attempt' k = attempt k"
    and "http_request api attempt st hdrs bd = (e, rs)"
  shows "http_request api attempt' st hdrs bd = (e, rs) \<and> length rs \<le> 1 + nat m
    \<and> (\<not> is_err e \<longrightarrow> rs \<noteq> [] \<and> (m > 0 \<longrightarrow> unat (rs_status (hd rs)) div 100 \<noteq> 3))"
proof -
  have "has_value (settings_get_int_noexcept st ''http/max_redirects'' 0)"
    "snd (settings_get_int_noexcept st ''http/max_redirects'' 0) = m"
    unfolding assms(1) by (simp_all add: no_err_def)
  then show ?thesis
    using request_loop_spec [of api attempt hdrs bd m st "[]" 0 e rs attempt'] assms(2,3)
    by (simp add: http_request_def del: has_value_iff)
qed

theorem request_bounded_witness:
  "\<exists>e rs. http_request no_pton (\<lambda>k st. (new NoError, new NoError, response_empty\<lparr>rs_status := 200\<rparr>))
      Map.empty [] [] = (e, rs) \<and> length rs \<le> 1"
proof -
  let ?a = "\<lambda>(k :: nat) (st :: settings). (new NoError, new NoError, response_empty\<lparr>rs_status := 200\<rparr>)"
  obtain e rs where r: "http_request no_pton ?a Map.empty [] [] = (e, rs)"
    by fastforce
  have m: "settings_get_int_noexcept Map.empty ''http/max_redirects'' 0 = no_err 0"
    by (simp add: settings_get_int_noexcept_def)
  have "\<forall>k. int k \<le> max 0 0 \<longrightarrow> ?a k = ?a k"
    by simp
  from request_bounded [OF m this r] r show ?thesis
    by auto
qed

section \<open>The end of a response\<close>

text \<open>The events delivered while the reads are processed up to the callback.\<close>

lemma recv_events_end: "rv_end (recv_events ib evs rv) \<longleftrightarrow> rv_end rv \<or> RpEnd \<in> set evs"
proof (induction evs arbitrary: rv)
  case (Cons ev evs)
  have "rv_end (recv_event ib ev rv) \<longleftrightarrow> rv_end rv \<or> ev = RpEnd"
    by (cases ev) (simp_all add: recv_event_def)
  then show ?case
    using Cons.IH [of "recv_event ib ev rv"] by (auto simp: recv_events_def)
qed (simp add: recv_events_def)

lemma rp_callbacks_error:
  "rp_callbacks cbs rp = (evs, Inl e) \<Longrightarrow> code (exn_error e) = fst HeaderParserInternalError"
proof (induction cbs arbitrary: rp evs)
  case (Cons cb cbs)
  show ?case
  proof (cases "rp_callback cb rp")
    case (Inl e')
    then have "e = e'"
      using Cons.prems by simp
    moreover have "code (exn_error e') = fst HeaderParserInternalError"
      using Inl by (cases cb) (auto simp: rp_callback_def do_header_internal_def exn_error_def Let_def
          split: if_splits)
    ultimately show ?thesis
      by simp
  next
    case (Inr er)
    then show ?thesis
      using Cons by (cases er) (auto split: prod.splits)
  qed
qed simp

lemma parse_segments_error:
  "parse_segments api s segs = (evs, Inl e) \<Longrightarrow>
    code (exn_error e) \<in> {fst HeaderParserInternalError, fst ParserError}"
proof (induction segs arbitrary: s evs)
  case (Cons seg segs)
  obtain evs' r where p: "parser_execute api s seg = (evs', r)"
    by fastforce
  show ?case
  proof (cases r)
    case (Inl e')
    then have "e = e'"
      using Cons.prems p by simp
    moreover have "code (exn_error e') \<in> {fst HeaderParserInternalError, fst ParserError}"
      using p Inl rp_callbacks_error
      by (fastforce simp: parser_execute_def exn_error_def split: prod.splits sum.splits if_splits)
    ultimately show ?thesis
      by simp
  next
    case (Inr s')
    then show ?thesis
      using Cons p by (auto split: prod.splits)
  qed
qed simp

lemma recv_events_valid: "rv_valid rv \<Longrightarrow> rv_valid (recv_events ib evs rv)"
  unfolding recv_events_def
  by (rule foldl_invariant) (auto simp: recv_event_def split: rp_event.split)

lemma recv_loop_complete:
  assumes "recv_loop api ib s rv reads = Some (e, rv')" and "\<not> is_err e" and "\<not> rv_end rv"
  shows "rv_end rv' \<or> rv_valid rv' \<and> (\<exists>err. ReadError err \<in> set reads \<and> err_eq err (new EofError))"
  using assms
proof (induction api ib s rv reads rule: recv_loop.induct)
  case (2 api ib s rv err reads)
  then show ?case
    by (cases "is_err err") (auto simp: recv_finish_def recv_events_valid split: if_splits prod.splits)
next
  case (3 api ib s rv segs reads)
  obtain evs r where p: "parse_segments api s segs = (evs, r)"
    by fastforce
  show ?case
  proof (cases r)
    case (Inl ex)
    have "code (exn_error ex) \<in> {fst HeaderParserInternalError, fst ParserError}"
      using parse_segments_error p Inl by blast
    then have "e = exn_error ex" "is_err e"
      using "3.prems"(1) p Inl by (auto simp: recv_finish_def err_eq_def is_err_def err_simps split: if_splits)
    then show ?thesis
      using "3.prems"(2) by simp
  next
    case (Inr s')
    show ?thesis
    proof (cases "rv_end (recv_events ib evs rv)")
      case True
      then show ?thesis
        using "3.prems"(1) p Inr by (auto simp: recv_finish_def err_eq_def err_simps)
    next
      case False
      then show ?thesis
        using "3.IH" [OF p [symmetric] refl refl Inr False] "3.prems" p Inr by auto
    qed
  qed
qed simp

text \<open>The reading of a response reports success only when it is complete: the parser announced the
  end of the message, or the connection ended after the headers of a response and the parser
  accepted the end of the input there.\<close>

theorem response_is_complete:
  assumes "recv_loop api ib (hp_init api, rparser_init) recv_init reads = Some (e, rv)" and "\<not> is_err e"
  shows "rv_end rv \<or> rv_valid rv \<and> (\<exists>err. ReadError err \<in> set reads \<and> err_eq err (new EofError))"
  by (rule recv_loop_complete [OF assms]) (simp add: recv_init_def)

theorem response_is_complete_witness:
  "let api = \<lparr>hp_init = (), hp_execute = (\<lambda>_ bs. ([HeadersComplete 1 1 200, MessageComplete], length bs, ())),
         hp_errno = (\<lambda>_. HPE_OK)\<rparr>
   in \<exists>e rv. recv_loop api False (hp_init api, rparser_init) recv_init [ReadData [[65]]] = Some (e, rv)
     \<and> rv_end rv"
proof -
  let ?api = "\<lparr>hp_init = (), hp_execute = (\<lambda>_ bs. ([HeadersComplete 1 1 200, MessageComplete], length bs, ())),
         hp_errno = (\<lambda>_. HPE_OK)\<rparr>"
  obtain e rv where r: "recv_loop ?api False (hp_init ?api, rparser_init) recv_init [ReadData [[65]]] = Some (e, rv)"
    and e: "\<not> is_err e"
    by (auto simp: parser_execute_def rp_callback_def recv_events_def recv_event_def recv_finish_def
        recv_init_def err_eq_def err_simps Let_def)
  have "\<not> (\<exists>err. ReadError err \<in> set [ReadData [[65]]] \<and> err_eq err (new EofError))"
    by simp
  with response_is_complete [OF r e] r show ?thesis
    unfolding Let_def by blast
qed

end
