(* ===== verification/Ndt.thy ===== *)
theory Ndt
  imports Buffer Settings
begin

text \<open>
  The control channel of the NDT client: \<open>net/transport.cpp\<close> (\<open>readn\<close>), \<open>ndt/messages_impl.hpp\<close>,
  \<open>ndt/messages.cpp\<close>, \<open>ndt/protocol_impl.hpp\<close>, \<open>ndt/test_meta_impl.hpp\<close> and the sequence of
  phases of \<open>ndt/run_impl.hpp\<close>.  The transport is the list of what it will still deliver; a
  phase takes the state of the session and gives what it calls back with and the next state,
  or \<open>None\<close> when it does not call back: the connection delivers nothing more, or (when it
  reports an error that is none) reading from too short a buffer throws.  The JSON library
  and the results of writing are arguments.
\<close>

section \<open>Errors\<close>

definition ReadingMessageTypeLengthError :: error_class where
  "ReadingMessageTypeLengthError = (MK_ERR_NDT 0, ''ndt_cannot_read_type_length'')"
definition ReadingMessagePayloadError :: error_class where
  "ReadingMessagePayloadError = (MK_ERR_NDT 1, ''ndt_cannot_read_payload'')"
definition MessageTooLongError :: error_class where
  "MessageTooLongError = (MK_ERR_NDT 2, ''ndt_message_too_long'')"
definition ConnectControlConnectionError :: error_class where
  "ConnectControlConnectionError = (MK_ERR_NDT 3, ''ndt_cannot_establish_control_connection'')"
definition FormatExtendedLoginMessageError :: error_class where
  "FormatExtendedLoginMessageError = (MK_ERR_NDT 4, ''ndt_cannot_format_extended_login_message'')"
definition WriteExtendedLoginMessageError :: error_class where
  "WriteExtendedLoginMessageError = (MK_ERR_NDT 5, ''ndt_cannot_write_extended_login_message'')"
definition ReadingKickoffMessageError :: error_class where
  "ReadingKickoffMessageError = (MK_ERR_NDT 6, ''ndt_cannot_read_kickoff_message'')"
definition InvalidKickoffMessageError :: error_class where
  "InvalidKickoffMessageError = (MK_ERR_NDT 7, ''ndt_invalid_kickoff_message'')"
definition ReadingSrvQueueMessageError :: error_class where
  "ReadingSrvQueueMessageError = (MK_ERR_NDT 8, ''ndt_cannot_read_srv_queue_message'')"
definition NotSrvQueueMessageError :: error_class where
  "NotSrvQueueMessageError = (MK_ERR_NDT 9, ''ndt_missing_expected_srv_queue_message'')"
definition InvalidSrvQueueMessageError :: error_class where
  "InvalidSrvQueueMessageError = (MK_ERR_NDT 10, ''ndt_invalid_srv_queue_message'')"
definition QueueServerFaultError :: error_class where
  "QueueServerFaultError = (MK_ERR_NDT 11, ''ndt_server_queue_fault'')"
definition ReadingServerVersionMessageError :: error_class where
  "ReadingServerVersionMessageError = (MK_ERR_NDT 12, ''ndt_cannot_read_server_version'')"
definition NotServerVersionMessageError :: error_class where
  "NotServerVersionMessageError = (MK_ERR_NDT 13, ''ndt_missing_expected_server_version'')"
definition ReadingTestsIdMessageError :: error_class where
  "ReadingTestsIdMessageError = (MK_ERR_NDT 14, ''ndt_cannot_read_tests_id'')"
definition NotTestsIdMessageError :: error_class where
  "NotTestsIdMessageError = (MK_ERR_NDT 15, ''ndt_missing_expected_tests_id_message'')"
definition InvalidTestIdError :: error_class where
  "InvalidTestIdError = (MK_ERR_NDT 16, ''ndt_invalid_tests_id_message'')"
definition UnknownTestIdError :: error_class where
  "UnknownTestIdError = (MK_ERR_NDT 17, ''ndt_received_unknown_test_id'')"
definition TestFailedError :: error_class where
  "TestFailedError = (MK_ERR_NDT 18, ''ndt_test_failed'')"
definition ReadingResultsOrLogoutError :: error_class where
  "ReadingResultsOrLogoutError = (MK_ERR_NDT 19, ''ndt_cannot_read_results_or_logout_message'')"
definition NotResultsOrLogoutError :: error_class where
  "NotResultsOrLogoutError = (MK_ERR_NDT 20, ''ndt_missing_expected_results_or_logout_message'')"
definition WaitingCloseError :: error_class where
  "WaitingCloseError = (MK_ERR_NDT 21, ''ndt_error_while_waiting_for_close_message'')"
definition DataAfterLogoutError :: error_class where
  "DataAfterLogoutError = (MK_ERR_NDT 22, ''ndt_received_data_after_logout_message'')"
definition InvalidPortError :: error_class where
  "InvalidPortError = (MK_ERR_NDT 23, ''ndt_received_invalid_port'')"
definition MlabnsQueryError :: error_class where
  "MlabnsQueryError = (MK_ERR_NDT 24, ''ndt_error_querying_mlabns'')"
definition ReadingTestPrepareError :: error_class where
  "ReadingTestPrepareError = (MK_ERR_NDT 25, ''ndt_cannot_read_test_prepare_message'')"
definition NotTestPrepareError :: error_class where
  "NotTestPrepareError = (MK_ERR_NDT 26, ''ndt_missing_expected_test_prepare_message'')"
definition ConnectTestConnectionError :: error_class where
  "ConnectTestConnectionError = (MK_ERR_NDT 27, ''ndt_cannot_establish_testing_connection'')"
definition ReadingTestStartError :: error_class where
  "ReadingTestStartError = (MK_ERR_NDT 28, ''ndt_cannot_read_test_start_message'')"
definition NotTestStartError :: error_class where
  "NotTestStartError = (MK_ERR_NDT 29, ''ndt_missing_expected_test_start_error'')"
definition ReadingTestMsgError :: error_class where
  "ReadingTestMsgError = (MK_ERR_NDT 30, ''ndt_cannot_read_test_msg_message'')"
definition NotTestMsgError :: error_class where
  "NotTestMsgError = (MK_ERR_NDT 31, ''ndt_missing_expected_test_msg'')"
definition ReadingTestFinalizeError :: error_class where
  "ReadingTestFinalizeError = (MK_ERR_NDT 32, ''ndt_cannot_read_test_finalize_message'')"
definition NotTestFinalizeError :: error_class where
  "NotTestFinalizeError = (MK_ERR_NDT 33, ''ndt_missing_expected_test_finalize_message'')"
definition SerializingClientVersionError :: error_class where
  "SerializingClientVersionError = (MK_ERR_NDT 34, ''ndt_cannot_serialize_client_version'')"
definition SerializingClientApplicationError :: error_class where
  "SerializingClientApplicationError = (MK_ERR_NDT 35, ''ndt_cannot_serialize_client_application'')"
definition SerializingFinalMetaError :: error_class where
  "SerializingFinalMetaError = (MK_ERR_NDT 36, ''ndt_cannot_serialize_final_meta_message'')"
definition WritingMetaError :: error_class where
  "WritingMetaError = (MK_ERR_NDT 37, ''ndt_cannot_write_meta_message'')"
definition SerializingTestMsgError :: error_class where
  "SerializingTestMsgError = (MK_ERR_NDT 38, ''ndt_cannot_serialize_test_msg_message'')"
definition WritingTestMsgError :: error_class where
  "WritingTestMsgError = (MK_ERR_NDT 39, ''ndt_cannot_write_test_msg_message'')"
definition QueueServerBusyError :: error_class where
  "QueueServerBusyError = (MK_ERR_NDT 40, ''ndt_server_busy'')"
definition FormatMsgWaitingError :: error_class where
  "FormatMsgWaitingError = (MK_ERR_NDT 41, ''ndt_cannot_format_msg_waiting_message'')"
definition InvalidDurationError :: error_class where
  "InvalidDurationError = (MK_ERR_NDT 42, ''ndt_invalid_duration_setting'')"
definition InvalidSnapsDelayError :: error_class where
  "InvalidSnapsDelayError = (MK_ERR_NDT 43, ''ndt_invalid_snaps_delay_setting'')"
definition InvalidNumStreamsError :: error_class where
  "InvalidNumStreamsError = (MK_ERR_NDT 44, ''ndt_invalid_num_streams_setting'')"

lemmas ndt_error_defs [err_simps] =
  ReadingMessageTypeLengthError_def ReadingMessagePayloadError_def MessageTooLongError_def
  ConnectControlConnectionError_def FormatExtendedLoginMessageError_def
  WriteExtendedLoginMessageError_def ReadingKickoffMessageError_def
  InvalidKickoffMessageError_def ReadingSrvQueueMessageError_def NotSrvQueueMessageError_def
  InvalidSrvQueueMessageError_def QueueServerFaultError_def ReadingServerVersionMessageError_def
  NotServerVersionMessageError_def ReadingTestsIdMessageError_def NotTestsIdMessageError_def
  InvalidTestIdError_def UnknownTestIdError_def TestFailedError_def
  ReadingResultsOrLogoutError_def NotResultsOrLogoutError_def WaitingCloseError_def
  DataAfterLogoutError_def InvalidPortError_def MlabnsQueryError_def ReadingTestPrepareError_def
  NotTestPrepareError_def ConnectTestConnectionError_def ReadingTestStartError_def
  NotTestStartError_def ReadingTestMsgError_def NotTestMsgError_def ReadingTestFinalizeError_def
  NotTestFinalizeError_def SerializingClientVersionError_def
  SerializingClientApplicationError_def SerializingFinalMetaError_def WritingMetaError_def
  SerializingTestMsgError_def WritingTestMsgError_def QueueServerBusyError_def
  FormatMsgWaitingError_def InvalidDurationError_def InvalidSnapsDelayError_def
  InvalidNumStreamsError_def

section \<open>Reading from a transport\<close>

datatype txp_event = TxpData bytes | TxpError error

text \<open>\<open>net::readn\<close>: the data handler collects until there are \<open>n\<close> bytes.\<close>

fun readn_wait :: "nat \<Rightarrow> bytes \<Rightarrow> txp_event list \<Rightarrow> (error \<times> bytes \<times> txp_event list) option" where
  "readn_wait n buff [] = None"
| "readn_wait n buff (TxpData d # evs) =
    (let buff = buff @ d in
     if length buff < n then readn_wait n buff evs else Some (new NoError, buff, evs))"
| "readn_wait n buff (TxpError e # evs) = Some (e, buff, evs)"

definition readn :: "nat \<Rightarrow> bytes \<Rightarrow> txp_event list \<Rightarrow> (error \<times> bytes \<times> txp_event list) option" where
  "readn n buff evs = (if length buff \<ge> n then Some (new NoError, buff, evs) else readn_wait n buff evs)"

definition net_read :: "bytes \<Rightarrow> txp_event list \<Rightarrow> (error \<times> bytes \<times> txp_event list) option" where
  "net_read buff evs = readn 1 buff evs"

section \<open>The session\<close>

text \<open>\<open>Context\<close>: the part of it that the phases change, with the messages written and the report.\<close>

datatype summary_value = SvLong int | SvDouble string | SvString string

record ndt =
  nd_buff :: bytes
  nd_in :: "txp_event list"
  nd_out :: "bytes list"
  nd_suite :: "string list"
  nd_version :: "string option"
  nd_summary :: "string \<rightharpoonup> summary_value"
  nd_phases :: "string \<rightharpoonup> string"

text \<open>\<open>ne_write\<close> is the result of the write with the given number, \<open>ne_msg\<close> what parsing a JSON and
  taking its field \<open>msg\<close> gives, \<open>ne_dump\<close> the text of a JSON object and \<open>ne_is_double\<close> whether a
  text reads as a floating-point number.\<close>

record ndt_env =
  ne_write :: "nat \<Rightarrow> error"
  ne_msg :: "string \<Rightarrow> error + string"
  ne_dump :: "(string \<times> string) list \<Rightarrow> string"
  ne_is_double :: "string \<Rightarrow> bool"

definition COMM_FAILURE :: uint8 where "COMM_FAILURE = 0"
definition SRV_QUEUE :: uint8 where "SRV_QUEUE = 1"
definition MSG_LOGIN :: uint8 where "MSG_LOGIN = 2"
definition TEST_PREPARE :: uint8 where "TEST_PREPARE = 3"
definition TEST_START :: uint8 where "TEST_START = 4"
definition TEST_MSG :: uint8 where "TEST_MSG = 5"
definition TEST_FINALIZE :: uint8 where "TEST_FINALIZE = 6"
definition MSG_ERROR :: uint8 where "MSG_ERROR = 7"
definition MSG_RESULTS :: uint8 where "MSG_RESULTS = 8"
definition MSG_LOGOUT :: uint8 where "MSG_LOGOUT = 9"
definition MSG_WAITING :: uint8 where "MSG_WAITING = 10"
definition MSG_EXTENDED_LOGIN :: uint8 where "MSG_EXTENDED_LOGIN = 11"

definition TEST_C2S :: int where "TEST_C2S = 2"
definition TEST_S2C :: int where "TEST_S2C = 4"
definition TEST_STATUS :: int where "TEST_STATUS = 16"
definition TEST_META :: int where "TEST_META = 32"
definition TEST_S2C_EXT :: int where "TEST_S2C_EXT = 128"

section \<open>Messages\<close>

text \<open>\<open>format_any\<close> on the text of the message.\<close>

definition format_any :: "uint8 \<Rightarrow> string \<Rightarrow> bytes error_or" where
  "format_any ty s =
    (let out = [ty] in
     if length s > 65535 then (new MessageTooLongError, [])
     else (new NoError, out @ be16 (word_of_nat (length s)) @ bytes_of s))"

definition read_ll_payload :: "uint8 \<Rightarrow> nat \<Rightarrow> ndt \<Rightarrow> ((error \<times> uint8 \<times> string) \<times> ndt) option" where
  "read_ll_payload type len s =
    (case readn len (nd_buff s) (nd_in s) of
       None \<Rightarrow> None
     | Some (err, b, evs) \<Rightarrow>
         if is_err err
         then Some ((new_e ReadingMessagePayloadError err, 0, []), s\<lparr>nd_buff := b, nd_in := evs\<rparr>)
         else if length b < len then None
         else let (m, b) = bb_readn len b in
           Some ((new NoError, type, string_of m), s\<lparr>nd_buff := b, nd_in := evs\<rparr>))"

definition read_ll :: "ndt \<Rightarrow> ((error \<times> uint8 \<times> string) \<times> ndt) option" where
  "read_ll s =
    (case readn 3 (nd_buff s) (nd_in s) of
       None \<Rightarrow> None
     | Some (err, b, evs) \<Rightarrow>
         if is_err err
         then Some ((new_e ReadingMessageTypeLengthError err, 0, []), s\<lparr>nd_buff := b, nd_in := evs\<rparr>)
         else if length b < 3 then None
         else let (t, b) = bb_read 1 b; (l, b) = bb_read 2 b in
           read_ll_payload (t ! 0) (be_nat l) (s\<lparr>nd_buff := b, nd_in := evs\<rparr>))"

definition read_msg :: "ndt_env \<Rightarrow> ndt \<Rightarrow> ((error \<times> uint8 \<times> string) \<times> ndt) option" where
  "read_msg env s =
    (case read_ll s of
       None \<Rightarrow> None
     | Some ((err, type, m), s) \<Rightarrow>
         if is_err err then Some ((err, 0, []), s)
         else (case ne_msg env m of
           Inl e \<Rightarrow> Some ((e, 0, []), s)
         | Inr msg \<Rightarrow> Some ((new NoError, type, msg), s)))"

definition format_msg_extended_login :: "ndt_env \<Rightarrow> uint8 \<Rightarrow> bytes error_or" where
  "format_msg_extended_login env tests =
    format_any MSG_EXTENDED_LOGIN
      (ne_dump env [(''msg'', ''v3.7.0''), (''tests'', nat_dec (unat tests))])"

definition format_test_msg :: "ndt_env \<Rightarrow> string \<Rightarrow> bytes error_or" where
  "format_test_msg env s = format_any TEST_MSG (ne_dump env [(''msg'', s)])"

definition format_msg_waiting :: "ndt_env \<Rightarrow> bytes error_or" where
  "format_msg_waiting env = format_any MSG_WAITING (ne_dump env [(''msg'', [])])"

definition ndt_write :: "ndt_env \<Rightarrow> bytes \<Rightarrow> ndt \<Rightarrow> error \<times> ndt" where
  "ndt_write env b s = (ne_write env (length (nd_out s)), s\<lparr>nd_out := nd_out s @ [b]\<rparr>)"

definition write_noasync :: "bytes \<Rightarrow> ndt \<Rightarrow> ndt" where
  "write_noasync b s = s\<lparr>nd_out := nd_out s @ [b]\<rparr>"

section \<open>Progress\<close>

text \<open>The bytes the session has not consumed yet.\<close>

definition data_of :: "txp_event list \<Rightarrow> bytes" where
  "data_of evs = concat (map (\<lambda>ev. case ev of TxpData d \<Rightarrow> d | TxpError _ \<Rightarrow> []) evs)"

definition nd_left :: "ndt \<Rightarrow> nat" where
  "nd_left s = length (nd_buff s) + length (data_of (nd_in s))"

lemma data_of_simps [simp]:
  "data_of [] = []" "data_of (TxpData d # evs) = d @ data_of evs" "data_of (TxpError e # evs) = data_of evs"
  by (simp_all add: data_of_def)

lemma readn_wait_conserves:
  "readn_wait n b evs = Some (e, b', evs') \<Longrightarrow>
    b' @ data_of evs' = b @ data_of evs \<and> length evs' < length evs"
proof (induction n b evs rule: readn_wait.induct)
  case (2 n b d evs)
  then show ?case
    by (cases "length (b @ d) < n") (auto simp: Let_def)
qed auto

lemma readn_conserves:
  assumes "readn n b evs = Some (e, b', evs')"
  shows "b' @ data_of evs' = b @ data_of evs" "length evs' \<le> length evs"
    "length b < n \<Longrightarrow> length evs' < length evs"
  using assms readn_wait_conserves [of n b evs e b' evs'] by (auto simp: readn_def split: if_splits)

definition nd_work :: "ndt \<Rightarrow> nat" where
  "nd_work s = nd_left s + length (nd_in s)"

lemma readn_work:
  assumes "readn n b evs = Some (e, b', evs')"
  shows "length b' + length (data_of evs') = length b + length (data_of evs)" "length evs' \<le> length evs"
    "b' @ data_of evs' = b @ data_of evs"
  using readn_conserves [OF assms] by (metis length_append)+

lemma payload_work:
  assumes "read_ll_payload t n s = Some ((err, ty, m), s')"
  shows "nd_work s' \<le> nd_work s"
proof -
  obtain e b evs where r: "readn n (nd_buff s) (nd_in s) = Some (e, b, evs)"
    using assms by (auto simp: read_ll_payload_def split: option.splits)
  show ?thesis
    using assms r readn_work [OF r]
    by (auto simp: read_ll_payload_def bb_readn_def bb_read_def nd_work_def nd_left_def split: if_splits)
qed

lemma read_ll_work:
  assumes "read_ll s = Some ((err, ty, m), s')"
  shows "nd_work s' \<le> nd_work s \<and> (\<not> is_err err \<longrightarrow> nd_work s' < nd_work s)"
proof -
  obtain e b evs where r: "readn 3 (nd_buff s) (nd_in s) = Some (e, b, evs)"
    using assms by (auto simp: read_ll_def split: option.splits)
  note w = readn_work [OF r]
  show ?thesis
  proof (cases "is_err e \<or> length b < 3")
    case True
    then show ?thesis
      using assms r w by (auto simp: read_ll_def nd_work_def nd_left_def err_simps split: if_splits)
  next
    case False
    let ?s = "s\<lparr>nd_buff := drop 2 (drop 1 b), nd_in := evs\<rparr>"
    have "read_ll_payload (take 1 b ! 0) (be_nat (take 2 (drop 1 b))) ?s = Some ((err, ty, m), s')"
      using assms r False by (simp add: read_ll_def bb_read_def)
    then have "nd_work s' \<le> nd_work ?s"
      by (rule payload_work)
    moreover have "length (drop 2 (drop 1 b)) < length b"
      using False by (simp only: length_drop) linarith
    then have "nd_work ?s < nd_work s"
      using w(1,2) by (simp add: nd_work_def nd_left_def del: length_drop drop_drop)
    ultimately show ?thesis
      by simp
  qed
qed

lemma read_msg_work:
  assumes "read_msg env s = Some ((err, ty, m), s')" and "\<not> is_err err"
  shows "nd_work s' < nd_work s"
proof -
  obtain e1 t1 m1 where "read_ll s = Some ((e1, t1, m1), s')" "\<not> is_err e1"
    using assms by (auto simp: read_msg_def split: option.splits if_splits sum.splits)
  then show ?thesis
    using read_ll_work by blast
qed

section \<open>The phases\<close>

text \<open>\<open>lexical_cast<unsigned>\<close>: a stream reads a sign too, and a negative number wraps around.\<close>

definition stream_uint :: "string \<Rightarrow> int option \<times> bool" where
  "stream_uint s =
    (let s = dropWhile is_space s;
         (neg, s) = (case s of [] \<Rightarrow> (False, [])
                     | c # cs \<Rightarrow> if c = CHR ''-'' then (True, cs)
                                 else if c = CHR ''+'' then (False, cs) else (False, c # cs));
         ds = takeWhile is_digit s; v = int (dec_value ds)
     in (if ds \<noteq> [] \<and> v \<le> 4294967295 then Some (if neg then (- v) mod 4294967296 else v) else None,
         dropWhile is_digit s = []))"

definition lexical_cast_uint_noexcept :: "string \<Rightarrow> int error_or" where
  "lexical_cast_uint_noexcept sc =
    (let (v, eof) = stream_uint (c_str sc) in
     if \<not> eof then (new_s ValueError ''not_all_input_was_converted'', 0)
     else case v of None \<Rightarrow> (new_s ValueError ''wrong_input_format'', 0) | Some i \<Rightarrow> no_err i)"

type_synonym phase = "ndt \<Rightarrow> (error \<times> ndt) option"

definition send_extended_login :: "ndt_env \<Rightarrow> uint8 \<Rightarrow> phase" where
  "send_extended_login env test_suite s =
    (let out = format_msg_extended_login env test_suite in
     if \<not> has_value out then Some (new_e FormatExtendedLoginMessageError (as_error out), s)
     else let (err, s) = ndt_write env (snd out) s in
       if is_err err then Some (new_e WriteExtendedLoginMessageError err, s)
       else Some (new NoError, s))"

definition KICKOFF_MESSAGE :: string where "KICKOFF_MESSAGE = ''123456 654321''"

definition recv_and_ignore_kickoff :: phase where
  "recv_and_ignore_kickoff s =
    (case readn (length KICKOFF_MESSAGE) (nd_buff s) (nd_in s) of
       None \<Rightarrow> None
     | Some (err, b, evs) \<Rightarrow>
         let s = s\<lparr>nd_buff := b, nd_in := evs\<rparr> in
         if is_err err then Some (new_e ReadingKickoffMessageError err, s)
         else let (k, b) = bb_readn (length KICKOFF_MESSAGE) b; s = s\<lparr>nd_buff := b\<rparr> in
           if string_of k \<noteq> KICKOFF_MESSAGE then Some (new InvalidKickoffMessageError, s)
           else Some (new NoError, s))"

definition SRV_QUEUE_HEARTBEAT :: int where "SRV_QUEUE_HEARTBEAT = 9990"
definition SRV_QUEUE_SERVER_FAULT :: int where "SRV_QUEUE_SERVER_FAULT = 9977"
definition SRV_QUEUE_SERVER_BUSY :: int where "SRV_QUEUE_SERVER_BUSY = 9987"
definition SRV_QUEUE_SERVER_BUSY_60s :: int where "SRV_QUEUE_SERVER_BUSY_60s = 9999"

text \<open>What a message in the queue leads to: the end of the phase, or waiting for another one.\<close>

definition queue_message :: "ndt_env \<Rightarrow> error \<times> uint8 \<times> string \<Rightarrow> ndt \<Rightarrow> (error option \<times> ndt)" where
  "queue_message env msg s =
    (let (err, type, m) = msg in
     if is_err err then (Some (new_e ReadingSrvQueueMessageError err), s)
     else if type \<noteq> SRV_QUEUE then (Some (new NotSrvQueueMessageError), s)
     else
       let wait_time = lexical_cast_uint_noexcept m; w = snd wait_time in
       if \<not> has_value wait_time then (Some (new_e InvalidSrvQueueMessageError (as_error wait_time)), s)
       else if w > 0 then
         (if w = SRV_QUEUE_SERVER_FAULT then (Some (new QueueServerFaultError), s)
          else if w = SRV_QUEUE_SERVER_BUSY \<or> w = SRV_QUEUE_SERVER_BUSY_60s
          then (Some (new QueueServerBusyError), s)
          else if w = SRV_QUEUE_HEARTBEAT then
            let buff = format_msg_waiting env in
            if \<not> has_value buff then (Some (new_e FormatMsgWaitingError (as_error buff)), s)
            else (None, write_noasync (snd buff) s)
          else (None, s))
       else (Some (new NoError), s))"

lemma queue_message_input:
  "nd_work (snd (queue_message env msg s)) = nd_work s"
  by (simp add: queue_message_def nd_work_def nd_left_def write_noasync_def Let_def split: prod.split)

lemma queue_message_more: "fst (queue_message env (err, t, m) s) = None \<Longrightarrow> \<not> is_err err"
  by (auto simp: queue_message_def Let_def split: if_splits)

function wait_in_queue :: "ndt_env \<Rightarrow> phase" where
  "wait_in_queue env s =
    (case read_msg env s of
       None \<Rightarrow> None
     | Some (msg, s') \<Rightarrow>
         (case queue_message env msg s' of
            (Some e, s') \<Rightarrow> Some (e, s')
          | (None, s') \<Rightarrow> wait_in_queue env s'))"
  by pat_completeness auto
termination
proof (relation "measure (nd_work \<circ> snd)", goal_cases)
  case (2 env s r msg s1 q s2)
  obtain err t m where msg: "msg = (err, t, m)"
    by (metis prod.exhaust)
  have "queue_message env msg s1 = (None, s2)"
    using 2 by simp
  then have "\<not> is_err err" "nd_work s2 = nd_work s1"
    using queue_message_more [of env err t m s1] queue_message_input [of env msg s1] msg by auto
  moreover have "read_msg env s = Some ((err, t, m), s1)"
    using 2 msg by simp
  ultimately show ?case
    using read_msg_work by simp
qed simp

declare wait_in_queue.simps [simp del]

text \<open>\<open>split\<close> with the pattern of white space, and with a single character.\<close>

function split_ws :: "string \<Rightarrow> string list" where
  "split_ws s =
    (let t = takeWhile (\<lambda>c. \<not> is_space c) s; r = dropWhile (\<lambda>c. \<not> is_space c) s;
         r' = dropWhile is_space r
     in if r = [] \<or> r' = [] then [t] else t # split_ws r')"
  by pat_completeness auto
termination
proof (relation "measure length", goal_cases)
  case (2 s t r r')
  have "length s = length t + length r" "length r = length (takeWhile is_space r) + length r'"
    unfolding 2(1-3) by (metis length_append takeWhile_dropWhile_id)+
  moreover have "r \<noteq> []"
    using 2(4) by simp
  then have "is_space (hd r)"
    using hd_dropWhile [of "\<lambda>c. \<not> is_space c" s] unfolding 2(2) by simp
  then have "takeWhile is_space r \<noteq> []"
    using \<open>r \<noteq> []\<close> by (cases r) simp_all
  ultimately show ?case
    by (simp add: less_le_trans)
qed simp

declare split_ws.simps [simp del]

fun split_at :: "char \<Rightarrow> string \<Rightarrow> string \<Rightarrow> string list" where
  "split_at c t [] = (if t = [] then [] else [t])"
| "split_at c t (d # s) = (if d = c then t # split_at c [] s else split_at c (t @ [d]) s)"

definition split_char :: "char \<Rightarrow> string \<Rightarrow> string list" where
  "split_char c s = (if c \<in> set s then split_at c [] s else [s])"

definition recv_version :: "ndt_env \<Rightarrow> phase" where
  "recv_version env s =
    (case read_msg env s of
       None \<Rightarrow> None
     | Some ((err, type, m), s) \<Rightarrow>
         if is_err err then Some (new_e ReadingServerVersionMessageError err, s)
         else if type \<noteq> MSG_LOGIN then Some (new NotServerVersionMessageError, s)
         else Some (new NoError, s\<lparr>nd_version := Some m\<rparr>))"

definition recv_tests_id :: "ndt_env \<Rightarrow> phase" where
  "recv_tests_id env s =
    (case read_msg env s of
       None \<Rightarrow> None
     | Some ((err, type, m), s) \<Rightarrow>
         if is_err err then Some (new_e ReadingTestsIdMessageError err, s)
         else if type \<noteq> MSG_LOGIN then Some (new NotTestsIdMessageError, s)
         else Some (new NoError, s\<lparr>nd_suite := split_ws m\<rparr>))"

text \<open>\<open>test_meta::run\<close>.\<close>

definition test_meta_run :: "ndt_env \<Rightarrow> string \<Rightarrow> phase" where
  "test_meta_run env version s =
    (case read_msg env s of
       None \<Rightarrow> None
     | Some ((err, type, _), s) \<Rightarrow>
         if is_err err then Some (new_e ReadingTestPrepareError err, s)
         else if type \<noteq> TEST_PREPARE then Some (new NotTestPrepareError, s)
         else (case read_msg env s of
           None \<Rightarrow> None
         | Some ((err, type, _), s) \<Rightarrow>
             if is_err err then Some (new_e ReadingTestStartError err, s)
             else if type \<noteq> TEST_START then Some (new NotTestStartError, s)
             else
               let out = format_test_msg env (''client.version:'' @ version) in
               if \<not> has_value out then Some (new SerializingClientVersionError, s)
               else
                 let s = write_noasync (snd out) s;
                     out = format_test_msg env ''client.application:measurement-kit'' in
                 if \<not> has_value out then Some (new SerializingClientApplicationError, s)
                 else
                   let s = write_noasync (snd out) s; out = format_test_msg env [] in
                   if \<not> has_value out then Some (new SerializingFinalMetaError, s)
                   else
                     let (err, s) = ndt_write env (snd out) s in
                     if is_err err then Some (new_e WritingMetaError err, s)
                     else (case read_msg env s of
                       None \<Rightarrow> None
                     | Some ((err, type, _), s) \<Rightarrow>
                         if is_err err then Some (new_e ReadingTestFinalizeError err, s)
                         else if type \<noteq> TEST_FINALIZE then Some (new NotTestFinalizeError, s)
                         else Some (new NoError, s))))"

text \<open>The names of the tests in the report.\<close>

definition TEST_MID :: int where "TEST_MID = 1"
definition TEST_SFW :: int where "TEST_SFW = 8"
definition TEST_C2S_EXT :: int where "TEST_C2S_EXT = 64"

definition id_to_name :: "int \<Rightarrow> string" where
  "id_to_name n =
    (if n = TEST_MID then ''middlebox'' else if n = TEST_C2S then ''upload''
     else if n = TEST_S2C then ''download'' else if n = TEST_SFW then ''simple_firewall''
     else if n = TEST_STATUS then ''status'' else if n = TEST_META then ''meta''
     else if n = TEST_C2S_EXT then ''upload_ext'' else if n = TEST_S2C_EXT then ''download_ext''
     else ''unknown'')"

text \<open>\<open>run_tests\<close>: the download and upload tests are arguments.\<close>

definition test_func :: "ndt_env \<Rightarrow> string \<Rightarrow> phase \<Rightarrow> phase \<Rightarrow> int \<Rightarrow> phase option" where
  "test_func env version test_c2s test_s2c num =
    (if num = TEST_C2S then Some test_c2s
     else if num = TEST_META then Some (test_meta_run env version)
     else if num = TEST_S2C \<or> num = TEST_S2C_EXT then Some test_s2c
     else None)"

fun run_tests_loop :: "(int \<Rightarrow> phase option) \<Rightarrow> string list \<Rightarrow> phase" where
  "run_tests_loop tests [] s = Some (new NoError, s\<lparr>nd_suite := []\<rparr>)"
| "run_tests_loop tests (t # ts) s =
    (let num = lexical_cast_int_noexcept t; s = s\<lparr>nd_suite := ts\<rparr> in
     if \<not> has_value num then Some (new_e InvalidTestIdError (as_error num), s)
     else case tests (snd num) of
       None \<Rightarrow> Some (new UnknownTestIdError, s)
     | Some func \<Rightarrow>
         (case func s of
            None \<Rightarrow> None
          | Some (err, s) \<Rightarrow>
              run_tests_loop tests ts (s\<lparr>nd_phases := (nd_phases s)(id_to_name (snd num) \<mapsto> reason err)\<rparr>)))"

definition run_tests :: "(int \<Rightarrow> phase option) \<Rightarrow> phase" where
  "run_tests tests s = run_tests_loop tests (nd_suite s) s"

text \<open>\<open>add_to_report\<close>: a line with a variable and a value goes into the report as an integer when the
  value reads as one, as a floating-point number when it reads as one, and as a string otherwise.\<close>

definition lexical_cast_long_noexcept :: "string \<Rightarrow> int error_or" where
  "lexical_cast_long_noexcept sc =
    (let s = dropWhile is_space (c_str sc);
         (neg, s) = (case s of [] \<Rightarrow> (False, [])
                     | c # cs \<Rightarrow> if c = CHR ''-'' then (True, cs)
                                 else if c = CHR ''+'' then (False, cs) else (False, c # cs));
         ds = takeWhile is_digit s; v = (if neg then - int (dec_value ds) else int (dec_value ds))
     in if dropWhile is_digit s \<noteq> [] then (new_s ValueError ''not_all_input_was_converted'', 0)
        else if ds = [] \<or> v < - 9223372036854775808 \<or> v > 9223372036854775807
        then (new_s ValueError ''wrong_input_format'', 0)
        else no_err v)"

definition add_to_report :: "ndt_env \<Rightarrow> string \<Rightarrow> (string \<rightharpoonup> summary_value) \<Rightarrow> error \<times> (string \<rightharpoonup> summary_value)" where
  "add_to_report env item summary =
    (case split_char (CHR '':'') item of
       [variable, value] \<Rightarrow>
         let as_long = lexical_cast_long_noexcept value in
         if has_value as_long then (new NoError, summary(variable \<mapsto> SvLong (snd as_long)))
         else if ne_is_double env value then (new NoError, summary(variable \<mapsto> SvDouble value))
         else (new NoError, summary(variable \<mapsto> SvString value))
     | _ \<Rightarrow> (new GenericError, summary))"

definition add_results :: "ndt_env \<Rightarrow> string \<Rightarrow> (string \<rightharpoonup> summary_value) \<Rightarrow> (string \<rightharpoonup> summary_value)" where
  "add_results env m summary =
    foldl (\<lambda>sm x. if x \<noteq> [] then snd (add_to_report env x sm) else sm) summary
      (split_char (char_of (10 :: nat)) m)"

text \<open>\<open>recv_results_and_logout\<close>: the lines of the results go into the report.\<close>

function recv_results_and_logout :: "ndt_env \<Rightarrow> phase" where
  "recv_results_and_logout env s =
    (case read_msg env s of
       None \<Rightarrow> None
     | Some ((err, type, m), s) \<Rightarrow>
         if is_err err then Some (new_e ReadingResultsOrLogoutError err, s)
         else if type = MSG_RESULTS then
           recv_results_and_logout env
             (s\<lparr>nd_summary := add_results env m (nd_summary s)\<rparr>)
         else if type \<noteq> MSG_LOGOUT then Some (new NotResultsOrLogoutError, s)
         else Some (new NoError, s))"
  by pat_completeness auto
termination
proof (relation "measure (nd_work \<circ> snd)", goal_cases)
  case (2 env s r msg s1 err y type m)
  then have "read_msg env s = Some ((err, type, m), s1)" "\<not> is_err err"
    by simp_all
  then have "nd_work s1 < nd_work s"
    by (rule read_msg_work)
  then show ?case
    by (simp add: nd_work_def nd_left_def)
qed simp

declare recv_results_and_logout.simps [simp del]

text \<open>\<open>wait_close\<close> reads into a buffer of its own.\<close>

definition wait_close :: phase where
  "wait_close s =
    (case net_read [] (nd_in s) of
       None \<Rightarrow> None
     | Some (err, b, evs) \<Rightarrow>
         let s = s\<lparr>nd_in := evs\<rparr> in
         if err_eq err (new EofError) then Some (new NoError, s)
         else if err_eq err (new TimeoutError) then Some (new NoError, s)
         else if is_err err then Some (new_e WaitingCloseError err, s)
         else Some (new DataAfterLogoutError, s))"

section \<open>The sequence of phases\<close>

text \<open>\<open>TRAP_ERRORS\<close>: the first phase that fails ends the test; \<open>disconnect_and_callback\<close> then closes
  the connection, if there is one, and calls back with the error.\<close>

fun run_phases :: "phase list \<Rightarrow> phase" where
  "run_phases [] s = Some (new NoError, s)"
| "run_phases (p # ps) s =
    (case p s of
       None \<Rightarrow> None
     | Some (err, s) \<Rightarrow> if is_err err then Some (err, s) else run_phases ps s)"

definition ndt_phases :: "ndt_env \<Rightarrow> uint8 \<Rightarrow> (int \<Rightarrow> phase option) \<Rightarrow> phase list" where
  "ndt_phases env suite tests =
    [send_extended_login env suite, recv_and_ignore_kickoff, wait_in_queue env, recv_version env,
     recv_tests_id env, run_tests tests, recv_results_and_logout env, wait_close]"

definition ndt_connect :: "error \<Rightarrow> error" where
  "ndt_connect err = (if is_err err then new_e ConnectControlConnectionError err else new NoError)"

definition run_with_specific_server ::
  "ndt_env \<Rightarrow> error \<Rightarrow> int \<Rightarrow> (int \<Rightarrow> phase option) \<Rightarrow> phase" where
  "run_with_specific_server env conn test_suite tests s =
    (let err = ndt_connect conn in
     if is_err err then Some (err, s)
     else run_phases (ndt_phases env (word_of_int test_suite) tests) s)"

section \<open>What the server sent\<close>

text \<open>The session still has the bytes \<open>bs\<close> before it, in whatever chunks, and then the events \<open>later\<close>.\<close>

definition pending :: "ndt \<Rightarrow> bytes \<Rightarrow> txp_event list \<Rightarrow> bool" where
  "pending s bs later \<longleftrightarrow> (\<exists>ds. nd_in s = map TxpData ds @ later \<and> nd_buff s @ concat ds = bs)"

definition rebuff :: "ndt \<Rightarrow> ndt \<Rightarrow> bool" where
  "rebuff s s' \<longleftrightarrow> (\<exists>b evs. s' = s\<lparr>nd_buff := b, nd_in := evs\<rparr>)"

definition frame :: "uint8 \<Rightarrow> string \<Rightarrow> bytes" where
  "frame ty m = [ty] @ be16 (word_of_nat (length m)) @ bytes_of m"

lemma rebuffI [simp]: "rebuff s (s\<lparr>nd_buff := b, nd_in := evs\<rparr>)"
  by (auto simp: rebuff_def)

lemma rebuff_refl [simp]: "rebuff s s"
  using rebuffI [where s = s and b = "nd_buff s" and evs = "nd_in s"] by simp

lemma rebuff_trans: "rebuff s s1 \<Longrightarrow> rebuff s1 s2 \<Longrightarrow> rebuff s s2"
  unfolding rebuff_def by force

lemma rebuff_fields:
  assumes "rebuff s s'"
  shows "nd_out s' = nd_out s" "nd_suite s' = nd_suite s" "nd_version s' = nd_version s"
    "nd_summary s' = nd_summary s" "nd_phases s' = nd_phases s"
  using assms by (auto simp: rebuff_def)

lemma readn_wait_chunks:
  assumes "n \<le> length (b @ concat ds)" "length b < n"
  shows "\<exists>b' ds'. readn_wait n b (map TxpData ds @ later) = Some (new NoError, b', map TxpData ds' @ later)
    \<and> n \<le> length b' \<and> b' @ concat ds' = b @ concat ds"
  using assms
proof (induction ds arbitrary: b)
  case (Cons d ds)
  show ?case
  proof (cases "length (b @ d) < n")
    case True
    then show ?thesis
      using Cons.IH [of "b @ d"] Cons.prems by simp
  next
    case False
    then show ?thesis
      by (intro exI [of _ "b @ d"] exI [of _ ds]) (simp add: Let_def)
  qed
qed simp

lemma readn_pending:
  assumes "pending s bs later" "n \<le> length bs"
  shows "\<exists>b evs. readn n (nd_buff s) (nd_in s) = Some (new NoError, b, evs) \<and> n \<le> length b
    \<and> take n b = take n bs \<and> pending (s\<lparr>nd_buff := drop n b, nd_in := evs\<rparr>) (drop n bs) later"
proof -
  obtain ds where ds: "nd_in s = map TxpData ds @ later" "nd_buff s @ concat ds = bs"
    using assms(1) by (auto simp: pending_def)
  have "\<exists>b ds'. readn n (nd_buff s) (nd_in s) = Some (new NoError, b, map TxpData ds' @ later)
      \<and> n \<le> length b \<and> b @ concat ds' = bs"
  proof (cases "n \<le> length (nd_buff s)")
    case True
    then show ?thesis
      using ds by (auto simp: readn_def)
  next
    case False
    then show ?thesis
      using readn_wait_chunks [of n "nd_buff s" ds later] ds assms(2) by (auto simp: readn_def)
  qed
  then obtain b ds' where r: "readn n (nd_buff s) (nd_in s) = Some (new NoError, b, map TxpData ds' @ later)"
    "n \<le> length b" "bs = b @ concat ds'"
    by metis
  have "pending (s\<lparr>nd_buff := drop n b, nd_in := map TxpData ds' @ later\<rparr>) (drop n bs) later"
    using r(2,3) by (auto simp: pending_def)
  then show ?thesis
    using r by (intro exI [of _ b] exI [of _ "map TxpData ds' @ later"]) simp
qed

lemma frame_bytes:
  assumes "length m < 65536"
  shows "take 1 (frame ty m @ rest) = [ty]" "be_nat (take 2 (drop 1 (frame ty m @ rest))) = length m"
    "drop 3 (frame ty m @ rest) = bytes_of m @ rest" "3 \<le> length (frame ty m @ rest)"
proof -
  obtain h l where be: "be16 (word_of_nat (length m)) = [h, l]"
    by (simp add: be16_def)
  have "be_nat [h, l] = length m"
    using be16_value [of "word_of_nat (length m)"] assms unfolding be
    by (simp add: unsigned_of_nat take_bit_nat_eq_self_iff)
  then show "take 1 (frame ty m @ rest) = [ty]" "be_nat (take 2 (drop 1 (frame ty m @ rest))) = length m"
    "drop 3 (frame ty m @ rest) = bytes_of m @ rest" "3 \<le> length (frame ty m @ rest)"
    unfolding frame_def be by simp_all
qed

lemma read_ll_pending:
  assumes "pending s (frame ty m @ rest) later" "length m < 65536"
  shows "\<exists>s'. read_ll s = Some ((new NoError, ty, m), s') \<and> pending s' rest later \<and> rebuff s s'"
proof -
  note F = frame_bytes [OF assms(2), of ty rest]
  obtain b evs where r: "readn 3 (nd_buff s) (nd_in s) = Some (new NoError, b, evs)" "3 \<le> length b"
    "take 3 b = take 3 (frame ty m @ rest)"
    "pending (s\<lparr>nd_buff := drop 3 b, nd_in := evs\<rparr>) (bytes_of m @ rest) later"
    using readn_pending [OF assms(1) F(4)] unfolding F(3) by auto
  let ?s = "s\<lparr>nd_buff := drop 3 b, nd_in := evs\<rparr>"
  have hd: "take 1 b = take 1 (take 3 b)" "take 2 (drop 1 b) = take 2 (drop 1 (take 3 b))"
    by (simp_all add: drop_take)
  have b1: "take 1 b = [ty]" "be_nat (take 2 (drop 1 b)) = length m"
    unfolding hd r(3) using F(1,2) by (simp_all only: take_take drop_take) simp_all
  obtain b' evs' where r': "readn (length m) (nd_buff ?s) (nd_in ?s) = Some (new NoError, b', evs')"
    "length m \<le> length b'" "take (length m) b' = bytes_of m"
    "pending (?s\<lparr>nd_buff := drop (length m) b', nd_in := evs'\<rparr>) rest later"
    using readn_pending [OF r(4), of "length m"] by auto
  have "read_ll_payload ty (length m) ?s =
      Some ((new NoError, ty, m), s\<lparr>nd_buff := drop (length m) b', nd_in := evs'\<rparr>)"
    using r' by (simp add: read_ll_payload_def bb_readn_def bb_read_def)
  moreover have "drop 2 (drop 1 b) = drop 3 b"
    by simp
  ultimately have "read_ll s = Some ((new NoError, ty, m), s\<lparr>nd_buff := drop (length m) b', nd_in := evs'\<rparr>)"
    using r(1,2) b1 by (simp add: read_ll_def bb_read_def)
  then show ?thesis
    using r'(4) by simp
qed

lemma read_msg_pending:
  assumes "pending s (frame ty j @ rest) later" "length j < 65536" "ne_msg env j = Inr m"
  shows "\<exists>s'. read_msg env s = Some ((new NoError, ty, m), s') \<and> pending s' rest later \<and> rebuff s s'"
  using read_ll_pending [OF assms(1,2)] assms(3) by (auto simp: read_msg_def)

text \<open>A message of the queue with the waiting time \<open>w\<close>, and the answers it leads to.\<close>

definition queue_msg :: "ndt_env \<Rightarrow> int \<Rightarrow> string \<Rightarrow> bool" where
  "queue_msg env w j \<longleftrightarrow> length j < 65536 \<and>
    (case ne_msg env j of Inl _ \<Rightarrow> False | Inr m \<Rightarrow> lexical_cast_uint_noexcept m = no_err w)"

definition waits :: "int \<Rightarrow> bool" where
  "waits w \<longleftrightarrow> 0 < w \<and> w \<noteq> SRV_QUEUE_SERVER_FAULT \<and> w \<noteq> SRV_QUEUE_SERVER_BUSY \<and> w \<noteq> SRV_QUEUE_SERVER_BUSY_60s"

definition queue_replies :: "ndt_env \<Rightarrow> int list \<Rightarrow> bytes list" where
  "queue_replies env ws = map (\<lambda>_. snd (format_msg_waiting env)) [w \<leftarrow> ws. w = SRV_QUEUE_HEARTBEAT]"

definition queue_frames :: "(int \<times> string) list \<Rightarrow> bytes" where
  "queue_frames qs = concat (map (\<lambda>(w, j). frame SRV_QUEUE j) qs)"

lemma queue_message_cases:
  assumes "lexical_cast_uint_noexcept m = no_err w" "has_value (format_msg_waiting env)"
  shows "w = 0 \<Longrightarrow> queue_message env (new NoError, SRV_QUEUE, m) s = (Some (new NoError), s)"
    "waits w \<Longrightarrow> queue_message env (new NoError, SRV_QUEUE, m) s =
      (None, s\<lparr>nd_out := nd_out s @ queue_replies env [w]\<rparr>)"
  using assms by (auto simp: queue_message_def waits_def write_noasync_def queue_replies_def Let_def no_err_def)

lemma queue_replies_replicate:
  "queue_replies env ws = replicate (count_list ws SRV_QUEUE_HEARTBEAT) (snd (format_msg_waiting env))"
  by (induction ws) (auto simp: queue_replies_def)

lemma wait_in_queue_pending:
  assumes "\<forall>(w, j) \<in> set qs. queue_msg env w j \<and> waits w" "queue_msg env 0 j0"
    "has_value (format_msg_waiting env)"
    "pending s (queue_frames qs @ frame SRV_QUEUE j0 @ rest) later"
  shows "\<exists>s'. wait_in_queue env s = Some (new NoError, s') \<and> pending s' rest later
    \<and> rebuff (s\<lparr>nd_out := nd_out s @ queue_replies env (map fst qs)\<rparr>) s'"
  using assms(1,4)
proof (induction qs arbitrary: s)
  case Nil
  obtain m where m: "length j0 < 65536" "ne_msg env j0 = Inr m" "lexical_cast_uint_noexcept m = no_err 0"
    using assms(2) by (auto simp: queue_msg_def split: sum.splits)
  obtain s' where "read_msg env s = Some ((new NoError, SRV_QUEUE, m), s')" "pending s' rest later" "rebuff s s'"
    using read_msg_pending [of s SRV_QUEUE j0 rest later env m] Nil m by (auto simp: queue_frames_def)
  then show ?case
    using queue_message_cases(1) [OF m(3) assms(3) refl]
    by (simp add: wait_in_queue.simps [of env s] queue_replies_def)
next
  case (Cons q qs)
  obtain w j where q: "q = (w, j)"
    by force
  obtain m where m: "length j < 65536" "ne_msg env j = Inr m" "lexical_cast_uint_noexcept m = no_err w" "waits w"
    using Cons.prems(1) q by (auto simp: queue_msg_def split: sum.splits)
  let ?r = "queue_frames qs @ frame SRV_QUEUE j0 @ rest"
  obtain s1 where s1: "read_msg env s = Some ((new NoError, SRV_QUEUE, m), s1)" "pending s1 ?r later" "rebuff s s1"
    using read_msg_pending [of s SRV_QUEUE j ?r later env m] Cons.prems m q by (auto simp: queue_frames_def)
  let ?s2 = "s1\<lparr>nd_out := nd_out s1 @ queue_replies env [w]\<rparr>"
  have "pending ?s2 ?r later"
    using s1(2) by (simp add: pending_def)
  then obtain s' where s': "wait_in_queue env ?s2 = Some (new NoError, s')" "pending s' rest later"
    "rebuff (?s2\<lparr>nd_out := nd_out ?s2 @ queue_replies env (map fst qs)\<rparr>) s'"
    using Cons.IH [of ?s2] Cons.prems(1) by auto
  have "wait_in_queue env s = wait_in_queue env ?s2"
    using s1(1) queue_message_cases(2) [OF m(3) assms(3) m(4), of s1]
    by (simp add: wait_in_queue.simps [of env s])
  moreover have "queue_replies env (map fst (q # qs)) = queue_replies env [w] @ queue_replies env (map fst qs)"
    by (simp add: queue_replies_def q)
  moreover have "rebuff (s\<lparr>nd_out := nd_out s @ queue_replies env [w] @ queue_replies env (map fst qs)\<rparr>) s'"
    using s'(3) s1(3) unfolding rebuff_def by force
  ultimately show ?case
    using s'(1,2) by simp
qed

text \<open>A test on the connection takes the bytes \<open>bs\<close> and leaves the report alone.\<close>

definition takes :: "phase \<Rightarrow> bytes \<Rightarrow> error \<Rightarrow> bool" where
  "takes f bs e \<longleftrightarrow> (\<forall>s rest later. pending s (bs @ rest) later \<longrightarrow>
    (\<exists>s' out. f s = Some (e, s') \<and> pending s' rest later \<and> rebuff (s\<lparr>nd_out := out\<rparr>) s'))"

lemma takes_pending:
  assumes "takes f bs e" "pending s (bs @ rest) later"
  obtains s' out where "f s = Some (e, s')" "pending s' rest later" "rebuff (s\<lparr>nd_out := out\<rparr>) s'"
  using assms unfolding takes_def by blast

lemma pending_update [simp]:
  "pending (s\<lparr>nd_out := out\<rparr>) bs later = pending s bs later"
  "pending (s\<lparr>nd_suite := su\<rparr>) bs later = pending s bs later"
  "pending (s\<lparr>nd_version := v\<rparr>) bs later = pending s bs later"
  "pending (s\<lparr>nd_summary := sm\<rparr>) bs later = pending s bs later"
  "pending (s\<lparr>nd_phases := ph\<rparr>) bs later = pending s bs later"
  by (simp_all add: pending_def)

text \<open>A test of the session: its identifier, number, bytes and result.\<close>

type_synonym session_test = "string \<times> int \<times> bytes \<times> error"

fun tests_ok :: "(int \<Rightarrow> phase option) \<Rightarrow> session_test list \<Rightarrow> bool" where
  "tests_ok tests [] \<longleftrightarrow> True"
| "tests_ok tests ((t, n, bs, e) # ts) \<longleftrightarrow>
    lexical_cast_int_noexcept t = no_err n \<and> (\<exists>f. tests n = Some f \<and> takes f bs e) \<and> tests_ok tests ts"

definition tests_bytes :: "session_test list \<Rightarrow> bytes" where
  "tests_bytes ts = concat (map (\<lambda>(t, n, bs, e). bs) ts)"

definition tests_phases :: "session_test list \<Rightarrow> (string \<rightharpoonup> string) \<Rightarrow> (string \<rightharpoonup> string)" where
  "tests_phases ts ph = foldl (\<lambda>ph (t, n, bs, e). ph(id_to_name n \<mapsto> reason e)) ph ts"

lemma run_tests_loop_pending:
  assumes "tests_ok tests ts" "pending s (tests_bytes ts @ rest) later"
  shows "\<exists>s' out. run_tests_loop tests (map fst ts) s = Some (new NoError, s') \<and> pending s' rest later
    \<and> rebuff (s\<lparr>nd_suite := [], nd_phases := tests_phases ts (nd_phases s), nd_out := out\<rparr>) s'"
  using assms
proof (induction tests ts arbitrary: s rule: tests_ok.induct)
  case (1 tests)
  then show ?case
    by (auto simp: tests_phases_def tests_bytes_def intro: exI [of _ "nd_out s"])
next
  case (2 tests t n bs e ts)
  let ?s = "s\<lparr>nd_suite := map fst ts\<rparr>"
  obtain f where f: "tests n = Some f" "takes f bs e" "lexical_cast_int_noexcept t = no_err n"
    using 2(2) by auto
  have "pending ?s (bs @ tests_bytes ts @ rest) later"
    using 2(3) by (simp add: tests_bytes_def)
  then obtain s1 out where s1: "f ?s = Some (e, s1)" "pending s1 (tests_bytes ts @ rest) later"
    "rebuff (?s\<lparr>nd_out := out\<rparr>) s1"
    using takes_pending [OF f(2)] by blast
  let ?s1 = "s1\<lparr>nd_phases := (nd_phases s1)(id_to_name n \<mapsto> reason e)\<rparr>"
  have ph: "nd_phases s1 = nd_phases s"
    using s1(3) by (auto simp: rebuff_def)
  have "pending ?s1 (tests_bytes ts @ rest) later"
    using s1(2) by simp
  then have "\<exists>s' out'. run_tests_loop tests (map fst ts) ?s1 = Some (new NoError, s') \<and> pending s' rest later
    \<and> rebuff (?s1\<lparr>nd_suite := [], nd_phases := tests_phases ts (nd_phases ?s1), nd_out := out'\<rparr>) s'"
    using 2(1) [of ?s1] 2(2) by (simp only: tests_ok.simps)
  then obtain s' out' where s': "run_tests_loop tests (map fst ts) ?s1 = Some (new NoError, s')"
    "pending s' rest later"
    "rebuff (?s1\<lparr>nd_suite := [], nd_phases := tests_phases ts (nd_phases ?s1), nd_out := out'\<rparr>) s'"
    by blast
  have "run_tests_loop tests (map fst ((t, n, bs, e) # ts)) s = Some (new NoError, s')"
    using f s1(1) s'(1) by (simp add: no_err_def Let_def)
  moreover have "rebuff (s\<lparr>nd_suite := [], nd_phases := tests_phases ((t, n, bs, e) # ts) (nd_phases s),
      nd_out := out'\<rparr>) s'"
    using s'(3) s1(3) unfolding rebuff_def ph by (force simp: tests_phases_def)
  ultimately show ?case
    using s'(2) by blast
qed

text \<open>A message whose JSON is \<open>j\<close> and whose field \<open>msg\<close> is \<open>m\<close>.\<close>

definition json_msg :: "ndt_env \<Rightarrow> string \<Rightarrow> string \<Rightarrow> bool" where
  "json_msg env j m \<longleftrightarrow> length j < 65536 \<and> ne_msg env j = Inr m"

definition add_all :: "ndt_env \<Rightarrow> (string \<times> string) list \<Rightarrow> (string \<rightharpoonup> summary_value) \<Rightarrow> (string \<rightharpoonup> summary_value)" where
  "add_all env rs sm = foldl (\<lambda>sm (j, m). add_results env m sm) sm rs"

lemma json_msg_read:
  assumes "json_msg env j m" "pending s (frame ty j @ rest) later"
  obtains s' where "read_msg env s = Some ((new NoError, ty, m), s')" "pending s' rest later" "rebuff s s'"
  using read_msg_pending [OF assms(2)] assms(1) by (auto simp: json_msg_def)

lemma results_pending:
  assumes "\<forall>(j, m) \<in> set rs. json_msg env j m" "json_msg env jl ml"
    "pending s (concat (map (\<lambda>(j, m). frame MSG_RESULTS j) rs) @ frame MSG_LOGOUT jl @ rest) later"
  shows "\<exists>s'. recv_results_and_logout env s = Some (new NoError, s') \<and> pending s' rest later
    \<and> rebuff (s\<lparr>nd_summary := add_all env rs (nd_summary s)\<rparr>) s'"
  using assms(1,3)
proof (induction rs arbitrary: s)
  case Nil
  have "pending s (frame MSG_LOGOUT jl @ rest) later"
    using Nil by simp
  then obtain s' where "read_msg env s = Some ((new NoError, MSG_LOGOUT, ml), s')" "pending s' rest later" "rebuff s s'"
    using json_msg_read [OF assms(2)] by blast
  then show ?case
    by (simp add: recv_results_and_logout.simps [of env s] MSG_LOGOUT_def MSG_RESULTS_def add_all_def)
next
  case (Cons r rs)
  obtain j m where r: "r = (j, m)"
    by force
  let ?r = "concat (map (\<lambda>(j, m). frame MSG_RESULTS j) rs) @ frame MSG_LOGOUT jl @ rest"
  have "json_msg env j m" "pending s (frame MSG_RESULTS j @ ?r) later"
    using Cons.prems r by auto
  then obtain s1 where s1: "read_msg env s = Some ((new NoError, MSG_RESULTS, m), s1)" "pending s1 ?r later" "rebuff s s1"
    by (rule json_msg_read)
  let ?s1 = "s1\<lparr>nd_summary := add_results env m (nd_summary s1)\<rparr>"
  have rs: "\<forall>(j, m) \<in> set rs. json_msg env j m" and p1: "pending ?s1 ?r later"
    using Cons.prems(1) s1(2) by simp_all
  obtain s' where s': "recv_results_and_logout env ?s1 = Some (new NoError, s')" "pending s' rest later"
    "rebuff (?s1\<lparr>nd_summary := add_all env rs (nd_summary ?s1)\<rparr>) s'"
    using Cons.IH [OF rs p1] by blast
  have "recv_results_and_logout env s = recv_results_and_logout env ?s1"
    using s1(1) by (simp add: recv_results_and_logout.simps [of env s])
  moreover have "rebuff (s\<lparr>nd_summary := add_all env (r # rs) (nd_summary s)\<rparr>) s'"
    using s'(3) s1(3) unfolding rebuff_def by (force simp: r add_all_def)
  ultimately show ?case
    using s'(1,2) by metis
qed

lemma wait_close_pending:
  assumes "pending s [] (TxpError (new EofError) # evs)"
  shows "\<exists>s'. wait_close s = Some (new NoError, s') \<and> s' = s\<lparr>nd_in := evs\<rparr>"
proof -
  obtain ds where ds: "nd_in s = map TxpData ds @ TxpError (new EofError) # evs" "concat ds = []"
    using assms by (auto simp: pending_def)
  have "readn_wait 1 [] (map TxpData ds @ TxpError (new EofError) # evs) = Some (new EofError, [], evs)"
    using ds(2) by (induction ds) simp_all
  then show ?thesis
    by (simp add: wait_close_def net_read_def readn_def ds(1) Let_def err_eq_def)
qed

lemma kickoff_pending:
  assumes "pending s (bytes_of KICKOFF_MESSAGE @ rest) later"
  shows "\<exists>s'. recv_and_ignore_kickoff s = Some (new NoError, s') \<and> pending s' rest later \<and> rebuff s s'"
proof -
  obtain b evs where r: "readn (length KICKOFF_MESSAGE) (nd_buff s) (nd_in s) = Some (new NoError, b, evs)"
    "take (length KICKOFF_MESSAGE) b = bytes_of KICKOFF_MESSAGE" "length KICKOFF_MESSAGE \<le> length b"
    "pending (s\<lparr>nd_buff := drop (length KICKOFF_MESSAGE) b, nd_in := evs\<rparr>) rest later"
    using readn_pending [OF assms, of "length KICKOFF_MESSAGE"] by auto
  then have "recv_and_ignore_kickoff s =
      Some (new NoError, s\<lparr>nd_buff := drop (length KICKOFF_MESSAGE) b, nd_in := evs\<rparr>)"
    by (simp add: recv_and_ignore_kickoff_def bb_readn_def bb_read_def Let_def)
  then show ?thesis
    using r(4) by simp
qed

lemma session_phases:
  assumes "\<not> is_err conn" "has_value (format_msg_extended_login env (word_of_int suite))"
    and "\<not> is_err (ne_write env (length (nd_out s)))"
    and "has_value (format_msg_waiting env)" "\<forall>(w, j) \<in> set qs. queue_msg env w j \<and> waits w" "queue_msg env 0 j0"
    and "json_msg env jv v" "json_msg env jt (mt)"
    and "split_ws (mt) = map fst ts" "tests_ok tests ts"
    and "\<forall>(j, m) \<in> set rs. json_msg env j m" "json_msg env jl ml"
    and "pending s (bytes_of KICKOFF_MESSAGE @ queue_frames qs @ frame SRV_QUEUE j0 @ frame MSG_LOGIN jv
      @ frame MSG_LOGIN jt @ tests_bytes ts @ concat (map (\<lambda>(j, m). frame MSG_RESULTS j) rs)
      @ frame MSG_LOGOUT jl) (TxpError (new EofError) # evs)"
  shows "\<exists>s'. run_with_specific_server env conn suite tests s = Some (new NoError, s') \<and> nd_version s' = Some v
    \<and> nd_summary s' = add_all env rs (nd_summary s)
    \<and> nd_phases s' = tests_phases ts (nd_phases s) \<and> nd_in s' = evs"
proof -
  let ?e = "TxpError (new EofError) # evs"
  let ?rs = "concat (map (\<lambda>(j, m). frame MSG_RESULTS j) rs) @ frame MSG_LOGOUT jl"
  let ?v = "frame MSG_LOGIN jv @ frame MSG_LOGIN jt @ tests_bytes ts @ ?rs"
  let ?s1 = "s\<lparr>nd_out := nd_out s @ [snd (format_msg_extended_login env (word_of_int suite))]\<rparr>"
  have s1: "send_extended_login env (word_of_int suite) s = Some (new NoError, ?s1)"
    using assms(2,3) by (simp add: send_extended_login_def ndt_write_def Let_def)
  have "pending ?s1 (bytes_of KICKOFF_MESSAGE @ queue_frames qs @ frame SRV_QUEUE j0 @ ?v) ?e"
    using assms(13) by simp
  from kickoff_pending [OF this] obtain s2 where s2: "recv_and_ignore_kickoff ?s1 = Some (new NoError, s2)"
    "pending s2 (queue_frames qs @ frame SRV_QUEUE j0 @ ?v) ?e" "rebuff ?s1 s2"
    by blast
  from wait_in_queue_pending [OF assms(5,6,4) s2(2)] obtain s3 where s3:
    "wait_in_queue env s2 = Some (new NoError, s3)" "pending s3 ?v ?e"
    "rebuff (s2\<lparr>nd_out := nd_out s2 @ queue_replies env (map fst qs)\<rparr>) s3"
    by blast
  from json_msg_read [OF assms(7) s3(2)] obtain s4 where s4:
    "read_msg env s3 = Some ((new NoError, MSG_LOGIN, v), s4)"
    "pending s4 (frame MSG_LOGIN jt @ tests_bytes ts @ ?rs) ?e" "rebuff s3 s4" .
  let ?s4 = "s4\<lparr>nd_version := Some v\<rparr>"
  have "pending ?s4 (frame MSG_LOGIN jt @ tests_bytes ts @ ?rs) ?e"
    using s4(2) by simp
  from json_msg_read [OF assms(8) this] obtain s5 where s5:
    "read_msg env ?s4 = Some ((new NoError, MSG_LOGIN, mt), s5)"
    "pending s5 (tests_bytes ts @ ?rs) ?e" "rebuff ?s4 s5" .
  let ?s5 = "s5\<lparr>nd_suite := map fst ts\<rparr>"
  have "pending ?s5 (tests_bytes ts @ ?rs) ?e"
    using s5(2) by simp
  from run_tests_loop_pending [OF assms(10) this] obtain s6 out where s6:
    "run_tests tests ?s5 = Some (new NoError, s6)" "pending s6 ?rs ?e"
    "rebuff (?s5\<lparr>nd_suite := [], nd_phases := tests_phases ts (nd_phases ?s5), nd_out := out\<rparr>) s6"
    by (auto simp: run_tests_def)
  have "pending s6 (concat (map (\<lambda>(j, m). frame MSG_RESULTS j) rs) @ frame MSG_LOGOUT jl @ []) ?e"
    using s6(2) by simp
  from results_pending [OF assms(11,12) this] obtain s7 where s7:
    "recv_results_and_logout env s6 = Some (new NoError, s7)" "pending s7 [] ?e"
    "rebuff (s6\<lparr>nd_summary := add_all env rs (nd_summary s6)\<rparr>) s7"
    by blast
  have s8: "wait_close s7 = Some (new NoError, s7\<lparr>nd_in := evs\<rparr>)"
    using wait_close_pending [OF s7(2)] by simp
  have "recv_version env s3 = Some (new NoError, ?s4)"
    using s4(1) by (simp add: recv_version_def)
  moreover have "recv_tests_id env ?s4 = Some (new NoError, ?s5)"
    using s5(1) assms(9) by (simp add: recv_tests_id_def)
  ultimately have run: "run_with_specific_server env conn suite tests s = Some (new NoError, s7\<lparr>nd_in := evs\<rparr>)"
    using assms(1) s1 s2(1) s3(1) s6(1) s7(1) s8
    by (simp add: run_with_specific_server_def ndt_connect_def ndt_phases_def Let_def)
  note R = rebuff_fields [OF s2(3)] rebuff_fields [OF s3(3)] rebuff_fields [OF s4(3)] rebuff_fields [OF s5(3)]
    rebuff_fields [OF s6(3)] rebuff_fields [OF s7(3)]
  show ?thesis
    by (intro exI [of _ "s7\<lparr>nd_in := evs\<rparr>"] conjI run) (simp_all add: R)
qed

lemma takesI:
  assumes "\<And>s rest later. pending s (bs @ rest) later \<Longrightarrow>
    \<exists>s' out. f s = Some (e, s') \<and> pending s' rest later \<and> rebuff (s\<lparr>nd_out := out\<rparr>) s'"
  shows "takes f bs e"
  using assms by (simp add: takes_def)

text \<open>The test that sends the metadata of the client takes three messages.\<close>

lemma test_meta_takes:
  assumes "json_msg env jp p" "json_msg env js b" "json_msg env jf f"
    "has_value (format_test_msg env (''client.version:'' @ version))"
    "has_value (format_test_msg env ''client.application:measurement-kit'')" "has_value (format_test_msg env [])"
    "\<forall>k. \<not> is_err (ne_write env k)"
  shows "takes (test_meta_run env version)
    (frame TEST_PREPARE jp @ frame TEST_START js @ frame TEST_FINALIZE jf) (new NoError)"
proof (rule takesI)
  fix s rest later
  assume "pending s ((frame TEST_PREPARE jp @ frame TEST_START js @ frame TEST_FINALIZE jf) @ rest) later"
  then have "pending s (frame TEST_PREPARE jp @ frame TEST_START js @ frame TEST_FINALIZE jf @ rest) later"
    by simp
  from json_msg_read [OF assms(1) this] obtain s1 where s1:
    "read_msg env s = Some ((new NoError, TEST_PREPARE, p), s1)"
    "pending s1 (frame TEST_START js @ frame TEST_FINALIZE jf @ rest) later" "rebuff s s1" .
  from json_msg_read [OF assms(2) s1(2)] obtain s2 where s2:
    "read_msg env s1 = Some ((new NoError, TEST_START, b), s2)"
    "pending s2 (frame TEST_FINALIZE jf @ rest) later" "rebuff s1 s2" .
  define out where "out = nd_out s2 @ [snd (format_test_msg env (''client.version:'' @ version)),
      snd (format_test_msg env ''client.application:measurement-kit''), snd (format_test_msg env [])]"
  have "pending (s2\<lparr>nd_out := out\<rparr>) (frame TEST_FINALIZE jf @ rest) later"
    using s2(2) by simp
  from json_msg_read [OF assms(3) this] obtain s3 where s3:
    "read_msg env (s2\<lparr>nd_out := out\<rparr>) = Some ((new NoError, TEST_FINALIZE, f), s3)"
    "pending s3 rest later" "rebuff (s2\<lparr>nd_out := out\<rparr>) s3" .
  have "test_meta_run env version s = Some (new NoError, s3)"
    using s1(1) s2(1) s3(1) assms(4-7)
    by (simp add: test_meta_run_def Let_def write_noasync_def ndt_write_def out_def)
  moreover have "rebuff (s\<lparr>nd_out := out\<rparr>) s3"
    using s1(3) s2(3) s3(3) unfolding rebuff_def by force
  ultimately show "\<exists>s' out. test_meta_run env version s = Some (new NoError, s') \<and> pending s' rest later
      \<and> rebuff (s\<lparr>nd_out := out\<rparr>) s'"
    using s3(2) by blast
qed

section \<open>Properties\<close>

text \<open>C36: A message that \<open>format_any\<close> makes is read back with its type and payload whatever the chunks in
  which it arrives, and the bytes after it are kept; a payload of more than 65535 bytes is
  refused.\<close>

theorem message_roundtrip:
  assumes "has_value (format_any ty m)" and "nd_in s = map TxpData ds @ later"
    and "nd_buff s @ concat ds = snd (format_any ty m) @ rest"
  shows "length m \<le> 65535 \<and> (\<exists>s' ds'. read_ll s = Some ((new NoError, ty, m), s')
    \<and> nd_in s' = map TxpData ds' @ later \<and> nd_buff s' @ concat ds' = rest)"
proof -
  have m: "length m \<le> 65535" "snd (format_any ty m) = frame ty m"
    using assms(1) by (auto simp: format_any_def frame_def err_simps split: if_splits)
  have "pending s (frame ty m @ rest) later"
    using assms(2,3) m(2) by (auto simp: pending_def)
  then show ?thesis
    using read_ll_pending [of s ty m rest later] m(1) by (auto simp: pending_def)
qed

theorem message_roundtrip_witness:
  "\<exists>s'. read_ll \<lparr>nd_buff = [5], nd_in = [TxpData [0, 1], TxpData [65, 9]], nd_out = [], nd_suite = [],
      nd_version = None, nd_summary = Map.empty, nd_phases = Map.empty\<rparr> = Some ((new NoError, 5, ''A''), s')"
proof -
  let ?s = "\<lparr>nd_buff = [5], nd_in = [TxpData [0, 1], TxpData [65, 9]], nd_out = [], nd_suite = [],
      nd_version = None, nd_summary = Map.empty, nd_phases = Map.empty\<rparr> :: ndt"
  have "has_value (format_any 5 ''A'')" "nd_in ?s = map TxpData [[0, 1], [65, 9]] @ []"
    "nd_buff ?s @ concat [[0, 1], [65, 9]] = snd (format_any 5 ''A'') @ [9]"
    by (simp_all add: format_any_def be16_def byte_of_def)
  from message_roundtrip [OF this] show ?thesis
    by blast
qed

definition test_env :: ndt_env where
  "test_env = \<lparr>ne_write = \<lambda>_. new NoError, ne_msg = Inr, ne_dump = \<lambda>_. [], ne_is_double = \<lambda>_. False\<rparr>"

definition test_session :: "txp_event list \<Rightarrow> ndt" where
  "test_session evs = \<lparr>nd_buff = [], nd_in = evs, nd_out = [], nd_suite = [], nd_version = None,
    nd_summary = Map.empty, nd_phases = Map.empty\<rparr>"

lemma test_env_simps [simp]:
  "\<not> is_err (ne_write test_env k)" "has_value (format_msg_waiting test_env)"
  "has_value (format_msg_extended_login test_env suite)" "has_value (format_test_msg test_env m)"
  "json_msg test_env j m \<longleftrightarrow> length j < 65536 \<and> j = m"
  by (simp_all add: test_env_def format_msg_waiting_def format_msg_extended_login_def format_test_msg_def
    format_any_def json_msg_def)

lemma test_queue:
  "lexical_cast_uint_noexcept ''0'' = no_err 0" "lexical_cast_uint_noexcept ''3'' = no_err 3"
  "lexical_cast_uint_noexcept ''9990'' = no_err 9990"
  by (simp_all add: lexical_cast_uint_noexcept_def stream_uint_def c_str_def is_space_def is_digit_def
    dec_value_def no_err_def)

text \<open>In the queue the client waits until the server says 0, answers every heartbeat, and nothing
  else, with one waiting message, whatever the chunks in which the messages arrive, and
  leaves the bytes after the queue to the next phase.\<close>

theorem queue_waits_for_turn:
  assumes "\<forall>(w, j) \<in> set qs. queue_msg env w j \<and> waits w" "queue_msg env 0 j0"
    and "has_value (format_msg_waiting env)" and "nd_in s = map TxpData ds @ later"
    and "nd_buff s @ concat ds = queue_frames qs @ frame SRV_QUEUE j0 @ rest"
  shows "\<exists>s' ds'. wait_in_queue env s = Some (new NoError, s') \<and> nd_in s' = map TxpData ds' @ later
    \<and> nd_buff s' @ concat ds' = rest
    \<and> nd_out s' = nd_out s @ replicate (count_list (map fst qs) SRV_QUEUE_HEARTBEAT) (snd (format_msg_waiting env))"
proof -
  have "pending s (queue_frames qs @ frame SRV_QUEUE j0 @ rest) later"
    using assms(4,5) by (auto simp: pending_def)
  from wait_in_queue_pending [OF assms(1-3) this] obtain s' where s':
    "wait_in_queue env s = Some (new NoError, s')" "pending s' rest later"
    "rebuff (s\<lparr>nd_out := nd_out s @ queue_replies env (map fst qs)\<rparr>) s'"
    by blast
  then show ?thesis
    using rebuff_fields(1) [OF s'(3)] by (auto simp: pending_def queue_replies_replicate)
qed

theorem queue_waits_for_turn_witness:
  "\<exists>s'. wait_in_queue test_env (test_session [TxpData ([1, 0, 4] @ bytes_of ''9990'' @ [1, 0]),
      TxpData ([1] @ bytes_of ''3'' @ [1, 0, 1] @ bytes_of ''0'')]) = Some (new NoError, s')
    \<and> nd_out s' = [snd (format_msg_waiting test_env)]"
proof -
  let ?ds = "[[1, 0, 4] @ bytes_of ''9990'' @ [1, 0], [1] @ bytes_of ''3'' @ [1, 0, 1] @ bytes_of ''0'']"
  let ?qs = "[(9990, ''9990''), (3, ''3'')] :: (int \<times> string) list"
  have "\<forall>(w, j) \<in> set ?qs. queue_msg test_env w j \<and> waits w" "queue_msg test_env 0 ''0''"
    by (auto simp: queue_msg_def test_env_def test_queue waits_def SRV_QUEUE_SERVER_FAULT_def
      SRV_QUEUE_SERVER_BUSY_def SRV_QUEUE_SERVER_BUSY_60s_def)
  moreover have "nd_in (test_session (map TxpData ?ds)) = map TxpData ?ds @ []"
    by (simp add: test_session_def)
  moreover have "nd_buff (test_session (map TxpData ?ds)) @ concat ?ds = queue_frames ?qs @ frame SRV_QUEUE ''0'' @ []"
    by (simp add: test_session_def queue_frames_def frame_def SRV_QUEUE_def be16_def byte_of_def)
  ultimately obtain s' where "wait_in_queue test_env (test_session (map TxpData ?ds)) = Some (new NoError, s')"
    "nd_out s' = nd_out (test_session (map TxpData ?ds))
      @ replicate (count_list (map fst ?qs) SRV_QUEUE_HEARTBEAT) (snd (format_msg_waiting test_env))"
    using queue_waits_for_turn [of ?qs test_env "''0''" "test_session (map TxpData ?ds)" ?ds "[]" "[]"] by auto
  then show ?thesis
    by (simp add: test_session_def SRV_QUEUE_HEARTBEAT_def)
qed

text \<open>C14: A session in which the server accepts the client, sends its version, the tests to run,
  the results and the logout, and then closes, succeeds: every announced test runs in order
  and is recorded with its result, a test that fails does not end the session, and the version and the
  variables of the results are in the report.\<close>

theorem session_completes:
  assumes "\<not> is_err conn" "has_value (format_msg_extended_login env (word_of_int suite))"
    and "\<not> is_err (ne_write env (length (nd_out s)))"
    and "has_value (format_msg_waiting env)" "\<forall>(w, j) \<in> set qs. queue_msg env w j \<and> waits w" "queue_msg env 0 j0"
    and "json_msg env jv v" "json_msg env jt mt" "split_ws mt = map fst ts" "tests_ok tests ts"
    and "\<forall>(j, m) \<in> set rs. json_msg env j m" "json_msg env jl ml"
    and "nd_in s = map TxpData ds @ TxpError (new EofError) # evs"
    and "nd_buff s @ concat ds = bytes_of KICKOFF_MESSAGE @ queue_frames qs @ frame SRV_QUEUE j0 @ frame MSG_LOGIN jv
      @ frame MSG_LOGIN jt @ tests_bytes ts @ concat (map (\<lambda>(j, m). frame MSG_RESULTS j) rs)
      @ frame MSG_LOGOUT jl"
  shows "\<exists>s'. run_with_specific_server env conn suite tests s = Some (new NoError, s') \<and> nd_version s' = Some v
    \<and> nd_summary s' = add_all env rs (nd_summary s)
    \<and> nd_phases s' = tests_phases ts (nd_phases s) \<and> nd_in s' = evs"
proof (rule session_phases [OF assms(1-12)])
  show "pending s (bytes_of KICKOFF_MESSAGE @ queue_frames qs @ frame SRV_QUEUE j0 @ frame MSG_LOGIN jv
      @ frame MSG_LOGIN jt @ tests_bytes ts @ concat (map (\<lambda>(j, m). frame MSG_RESULTS j) rs)
      @ frame MSG_LOGOUT jl) (TxpError (new EofError) # evs)"
    using assms(13,14) by (auto simp: pending_def)
qed

theorem session_completes_witness:
  "\<exists>s'. run_with_specific_server test_env (new NoError) 0
      (test_func test_env ''1'' (\<lambda>s. None) (\<lambda>s. None))
      (test_session [TxpData (bytes_of KICKOFF_MESSAGE @ frame SRV_QUEUE ''0'' @ frame MSG_LOGIN ''v''
        @ frame MSG_LOGIN ''32'' @ frame TEST_PREPARE [] @ frame TEST_START [] @ frame TEST_FINALIZE []
        @ frame MSG_RESULTS ''a:1'' @ frame MSG_LOGOUT []), TxpError (new EofError)]) = Some (new NoError, s')
    \<and> nd_version s' = Some ''v'' \<and> nd_summary s' = [''a'' \<mapsto> SvLong 1] \<and> nd_phases s' = [''meta'' \<mapsto> []]"
proof -
  let ?t = "test_func test_env ''1'' (\<lambda>s. None) (\<lambda>s. None)"
  let ?b = "frame TEST_PREPARE [] @ frame TEST_START [] @ frame TEST_FINALIZE []"
  let ?ds = "[bytes_of KICKOFF_MESSAGE @ frame SRV_QUEUE ''0'' @ frame MSG_LOGIN ''v''
        @ frame MSG_LOGIN ''32'' @ ?b @ frame MSG_RESULTS ''a:1'' @ frame MSG_LOGOUT []]"
  let ?s = "test_session (map TxpData ?ds @ [TxpError (new EofError)])"
  have num: "lexical_cast_int_noexcept ''32'' = no_err 32"
    by (simp add: lexical_cast_int_noexcept_def as_int_noexcept_def as_int_def stream_int_def c_str_def is_space_def is_digit_def
      dec_value_def no_err_def int_range_def INT_MIN_def INT_MAX_def)
  have ws: "split_ws ''32'' = [''32'']"
    by (simp add: split_ws.simps is_space_def)
  have "takes (test_meta_run test_env ''1'') ?b (new NoError)"
    by (rule test_meta_takes) simp_all
  then have tests: "tests_ok ?t [(''32'', 32, ?b, new NoError)]"
    by (simp add: num test_func_def TEST_C2S_def TEST_META_def)
  have q: "queue_msg test_env 0 ''0''"
    by (simp add: queue_msg_def test_env_def test_queue)
  obtain s' where s': "run_with_specific_server test_env (new NoError) 0 ?t ?s = Some (new NoError, s')"
    "nd_version s' = Some ''v''"
    "nd_summary s' = add_all test_env [(''a:1'', ''a:1'')] (nd_summary ?s)"
    "nd_phases s' = tests_phases [(''32'', 32, ?b, new NoError)] (nd_phases ?s)"
    using session_completes [of "new NoError" test_env 0 ?s "[]" "''0''" "''v''" "''v''" "''32''" "''32''"
        "[(''32'', 32, ?b, new NoError)]" ?t "[(''a:1'', ''a:1'')]" "[]" "[]" ?ds "[]"] tests q
    by (auto simp: ws queue_frames_def tests_bytes_def test_session_def)
  have "split_char (char_of (10 :: nat)) ''a:1'' = [''a:1'']" "split_char (CHR '':'') ''a:1'' = [''a'', ''1'']"
    by (simp_all add: split_char_def char_of_def bit_iff_odd)
  moreover have "lexical_cast_long_noexcept ''1'' = no_err 1"
    by (simp add: lexical_cast_long_noexcept_def c_str_def is_space_def is_digit_def dec_value_def)
  ultimately have "nd_summary s' = [''a'' \<mapsto> SvLong 1]"
    using s'(3) by (simp add: add_all_def add_results_def add_to_report_def test_session_def no_err_def)
  moreover have "nd_phases s' = [''meta'' \<mapsto> []]"
    using s'(4) by (simp add: tests_phases_def test_session_def NoError_def id_to_name_def TEST_META_def TEST_C2S_def TEST_S2C_def TEST_STATUS_def TEST_MID_def TEST_SFW_def new_def mk_error_def)
  ultimately show ?thesis
    using s'(1,2) by (intro exI [of _ s']) simp
qed

end
