(* ===== verification/Json.thy ===== *)
theory Json
  imports Settings
begin

text \<open>
  The values of the JSON library (\<open>mk::Json\<close>, \<open>common/json.hpp\<close>) as far as the program looks into them:
  their kinds, the members of objects and the setting of members that \<open>report::Entry\<close> does
  (\<open>report/entry.hpp\<close>).  Parsing and dumping are arguments of the definitions that use them.
\<close>

section \<open>Values\<close>

text \<open>The values of the JSON library.  A floating-point number is its bit pattern, an object the list of
  its members in the order of their keys.\<close>

type_synonym double = "64 word"

datatype json =
  JNull | JBool bool | JInt int | JFloat double | JString string
| JArray "json list" | JObject "(string \<times> json) list"

datatype json_kind = KString | KInteger | KFloat | KBoolean | KObject | KArray

fun has_kind :: "json_kind \<Rightarrow> json \<Rightarrow> bool" where
  "has_kind KString (JString _) = True"
| "has_kind KInteger (JInt _) = True"
| "has_kind KFloat (JFloat _) = True"
| "has_kind KBoolean (JBool _) = True"
| "has_kind KObject (JObject _) = True"
| "has_kind KArray (JArray _) = True"
| "has_kind _ _ = False"

fun json_count :: "string \<Rightarrow> json \<Rightarrow> nat" where
  "json_count k (JObject ms) = (if map_of ms k = None then 0 else 1)"
| "json_count k _ = 0"

fun json_at :: "string \<Rightarrow> json \<Rightarrow> json option" where
  "json_at k (JObject ms) = map_of ms k"
| "json_at k _ = None"

section \<open>Entries\<close>

text \<open>\<open>entry[key] = value\<close>: null becomes an object, other values throw.  The key order of the library is
  not kept; only \<open>dump\<close> shows it.\<close>

fun members_put :: "string \<Rightarrow> json \<Rightarrow> (string \<times> json) list \<Rightarrow> (string \<times> json) list" where
  "members_put k v [] = [(k, v)]"
| "members_put k v ((k', v') # ms) = (if k = k' then (k, v) # ms else (k', v') # members_put k v ms)"

definition entry_members :: "json \<Rightarrow> (string \<times> json) list res" where
  "entry_members j =
    (case j of JNull \<Rightarrow> Inr [] | JObject ms \<Rightarrow> Inr ms | _ \<Rightarrow> Inl (ErrorExn (new JsonDomainError)))"

definition entry_set :: "string \<Rightarrow> json \<Rightarrow> json \<Rightarrow> json res" where
  "entry_set k v j = map_sum id (\<lambda>ms. JObject (members_put k v ms)) (entry_members j)"

text \<open>\<open>entry[key]\<close> of an absent key is null.\<close>

definition entry_get :: "string \<Rightarrow> json \<Rightarrow> json res" where
  "entry_get k j = map_sum id (\<lambda>ms. case map_of ms k of None \<Rightarrow> JNull | Some v \<Rightarrow> v) (entry_members j)"

definition entry_set2 :: "string \<Rightarrow> string \<Rightarrow> json \<Rightarrow> json \<Rightarrow> json res" where
  "entry_set2 k k2 v j =
    (case entry_get k j of
       Inl e \<Rightarrow> Inl e
     | Inr sub \<Rightarrow> (case entry_set k2 v sub of Inl e \<Rightarrow> Inl e | Inr sub \<Rightarrow> entry_set k sub j))"

lemma map_of_members_put [simp]: "map_of (members_put k v ms) k' = (if k = k' then Some v else map_of ms k')"
  by (induction ms) auto

lemma entry_set_object [simp]: "entry_set k v (JObject ms) = Inr (JObject (members_put k v ms))"
  by (simp add: entry_set_def entry_members_def)

lemma entry_set2_object:
  assumes "map_of ms k = Some (JObject ms2)"
  shows "entry_set2 k k2 v (JObject ms) = Inr (JObject (members_put k (JObject (members_put k2 v ms2)) ms))"
  using assms by (simp add: entry_set2_def entry_get_def entry_members_def)

end
