(* ===== verification/Engine.thy ===== *)
theory Engine
  imports Json
begin

text \<open>
  The task engine (\<open>engine.cpp\<close>): the events a task emits and their validation, the queue through
  which a thread reads them, the checks on the settings of a task, what they configure, and the
  outcome of a run.  The nettests themselves are arguments.
\<close>

section \<open>Events\<close>

definition event_keys :: "string list" where
  "event_keys =
    [''failure.asn_lookup'', ''failure.cc_lookup'', ''failure.ip_lookup'', ''failure.measurement'',
     ''failure.measurement_submission'', ''failure.report_create'', ''failure.report_close'',
     ''failure.resolver_lookup'', ''failure.startup'', ''log'', ''measurement'', ''status.end'',
     ''status.geoip_lookup'', ''status.progress'', ''status.queued'', ''status.measurement_start'',
     ''status.measurement_submission'', ''status.measurement_done'', ''status.report_close'',
     ''status.report_create'', ''status.resolver_lookup'', ''status.started'',
     ''status.update.performance'', ''status.update.websites'', ''task_terminated'']"

definition is_event_key_valid :: "string \<Rightarrow> bool" where
  "is_event_key_valid s \<longleftrightarrow> s \<in> set event_keys"

text \<open>The fields \<open>possibly_validate_event\<close> asserts for every key that has some.\<close>

definition event_fields :: "(string \<times> (string \<times> json_kind) list) list" where
  "event_fields =
    [(''failure.asn_lookup'', [(''failure'', KString)]),
     (''failure.cc_lookup'', [(''failure'', KString)]),
     (''failure.ip_lookup'', [(''failure'', KString)]),
     (''failure.measurement'', [(''failure'', KString)]),
     (''failure.measurement_submission'',
       [(''failure'', KString), (''idx'', KInteger), (''json_str'', KString)]),
     (''failure.report_create'', [(''failure'', KString)]),
     (''failure.report_close'', [(''failure'', KString)]),
     (''failure.resolver_lookup'', [(''failure'', KString)]),
     (''failure.startup'', [(''failure'', KString)]),
     (''log'', [(''log_level'', KString), (''message'', KString)]),
     (''measurement'', [(''idx'', KInteger), (''json_str'', KString)]),
     (''status.end'', [(''downloaded_kb'', KFloat), (''uploaded_kb'', KFloat), (''failure'', KString)]),
     (''status.geoip_lookup'',
       [(''probe_ip'', KString), (''probe_asn'', KString), (''probe_cc'', KString),
        (''probe_network_name'', KString)]),
     (''status.progress'', [(''percentage'', KFloat), (''message'', KString)]),
     (''status.measurement_start'', [(''idx'', KInteger), (''input'', KString)]),
     (''status.measurement_submission'', [(''idx'', KInteger)]),
     (''status.measurement_done'', [(''idx'', KInteger)]),
     (''status.report_close'', [(''report_id'', KString)]),
     (''status.report_create'', [(''report_id'', KString)]),
     (''status.resolver_lookup'', [(''ip_address'', KString)]),
     (''status.update.performance'',
       [(''direction'', KString), (''elapsed'', KFloat), (''num_streams'', KInteger),
        (''speed_kbps'', KFloat)]),
     (''status.update.websites'', [(''url'', KString), (''status'', KString)])]"

definition field_ok :: "json \<Rightarrow> string \<times> json_kind \<Rightarrow> bool" where
  "field_ok value f \<longleftrightarrow>
    json_count (fst f) value = 1 \<and> (\<exists>v \<in> set_option (json_at (fst f) value). has_kind (snd f) v)"

text \<open>\<open>possibly_validate_event\<close>: the event comes back unless an assertion fails.\<close>

definition possibly_validate_event :: "json \<Rightarrow> json option" where
  "possibly_validate_event event =
    (case (json_at ''key'' event, json_at ''value'' event) of
       (Some (JString key), Some value) \<Rightarrow>
         if is_event_key_valid key \<and> has_kind KObject value
           \<and> list_all (field_ok value) (case map_of event_fields key of None \<Rightarrow> [] | Some fs \<Rightarrow> fs)
         then Some event else None
     | _ \<Rightarrow> None)"

definition known_events :: "string list" where
  "known_events =
    [''failure.asn_lookup'', ''failure.cc_lookup'', ''failure.ip_lookup'', ''failure.measurement'',
     ''failure.measurement_submission'', ''failure.report_create'', ''failure.report_close'',
     ''failure.resolver_lookup'', ''failure.startup'', ''log'', ''measurement'', ''status.end'',
     ''status.geoip_lookup'', ''status.progress'', ''status.queued'', ''status.measurement_start'',
     ''status.measurement_submission'', ''status.measurement_done'', ''status.report_close'',
     ''status.report_create'', ''status.resolver_lookup'', ''status.started'',
     ''status.update.performance'', ''status.update.websites'', ''task_terminated'']"

definition mk_event :: "string \<Rightarrow> (string \<times> json) list \<Rightarrow> json" where
  "mk_event key fields = JObject [(''key'', JString key), (''value'', JObject fields)]"

definition MK_LOG_ERR :: nat where "MK_LOG_ERR = 1"
definition MK_LOG_WARNING :: nat where "MK_LOG_WARNING = 2"
definition MK_LOG_INFO :: nat where "MK_LOG_INFO = 3"
definition MK_LOG_DEBUG :: nat where "MK_LOG_DEBUG = 4"
definition MK_LOG_DEBUG2 :: nat where "MK_LOG_DEBUG2 = 5"

definition log_level_atoi :: "string \<Rightarrow> nat option" where
  "log_level_atoi str =
    (if str = ''ERR'' then Some MK_LOG_ERR
     else if str = ''WARNING'' then Some MK_LOG_WARNING
     else if str = ''INFO'' then Some MK_LOG_INFO
     else if str = ''DEBUG'' then Some MK_LOG_DEBUG
     else if str = ''DEBUG2'' then Some MK_LOG_DEBUG2
     else None)"

definition log_level_itoa :: "nat \<Rightarrow> string option" where
  "log_level_itoa n =
    (if n = MK_LOG_ERR then Some ''ERR''
     else if n = MK_LOG_WARNING then Some ''WARNING''
     else if n = MK_LOG_INFO then Some ''INFO''
     else if n = MK_LOG_DEBUG then Some ''DEBUG''
     else if n = MK_LOG_DEBUG2 then Some ''DEBUG2''
     else None)"

text \<open>The level is asserted to be known.\<close>

definition make_log_event :: "nat \<Rightarrow> string \<Rightarrow> json" where
  "make_log_event log_level message =
    mk_event ''log'' [(''log_level'', JString (the (log_level_itoa log_level))), (''message'', JString message)]"

definition make_failure_event :: "error \<Rightarrow> json" where
  "make_failure_event e = mk_event ''failure.startup'' [(''failure'', JString (reason e))]"

section \<open>Events with an early return\<close>

text \<open>The events emitted so far, and the value computed unless the code returned early.\<close>

type_synonym 'a out = "json list \<times> 'a option"

definition give :: "'a \<Rightarrow> 'a out" where
  "give x = ([], Some x)"

definition andthen :: "'a out \<Rightarrow> ('a \<Rightarrow> 'b out) \<Rightarrow> 'b out" where
  "andthen m f =
    (case snd m of None \<Rightarrow> (fst m, None) | Some x \<Rightarrow> (fst m @ fst (f x), snd (f x)))"

definition emit_settings_failure :: "string \<Rightarrow> 'a out" where
  "emit_settings_failure why =
    ([make_log_event MK_LOG_ERR why, make_failure_event (new ValueError)], None)"

definition emit_settings_warning :: "string \<Rightarrow> 'a \<Rightarrow> 'a out" where
  "emit_settings_warning why x = ([make_log_event MK_LOG_WARNING why], Some x)"

section \<open>The checks on the settings\<close>

definition squote :: "string \<Rightarrow> string" where
  "squote s = CHR 0x27 # s @ [CHR 0x27]"

definition setting_types :: "(string \<times> json_kind \<times> string) list" where
  "setting_types =
    [(''annotations'', KObject, ''object''), (''disabled_events'', KArray, ''array''),
     (''inputs'', KArray, ''array''), (''input_filepaths'', KArray, ''array''),
     (''log_filepath'', KString, ''string''), (''log_level'', KString, ''string''),
     (''name'', KString, ''string''), (''options'', KObject, ''object''),
     (''output_filepath'', KString, ''string'')]"

definition check_setting :: "json \<Rightarrow> string \<times> json_kind \<times> string \<Rightarrow> bool \<Rightarrow> bool out" where
  "check_setting settings st rv =
    (case st of (key, kind, name) \<Rightarrow>
       case json_at key settings of
         None \<Rightarrow> give rv
       | Some v \<Rightarrow>
           if has_kind kind v then give rv
           else emit_settings_warning
             (''found setting '' @ squote key @ '' with invalid type (fyi: '' @ key @ '' should be a '' @ name @ '')'')
             False)"

fun check_settings :: "json \<Rightarrow> (string \<times> json_kind \<times> string) list \<Rightarrow> bool \<Rightarrow> bool out" where
  "check_settings settings [] rv = give rv"
| "check_settings settings (st # sts) rv =
    andthen (check_setting settings st rv) (check_settings settings sts)"

definition validate_known_settings_shallow :: "json \<Rightarrow> bool out" where
  "validate_known_settings_shallow settings =
    andthen
      (if json_count ''name'' settings = 0
       then emit_settings_warning
         ''missing required setting 'name' (fyi: name should be a string)'' False
       else give True)
      (check_settings settings setting_types)"

definition unknown_warnings :: "string list \<Rightarrow> json list" where
  "unknown_warnings keys =
    map (\<lambda>key. make_log_event MK_LOG_WARNING
      (''found unknown setting key '' @ key @ '' which will be removed from the settings JSON.'')) keys"

definition remove_unknown_settings_and_warn :: "(string \<times> json) list \<Rightarrow> (string \<times> json) list out" where
  "remove_unknown_settings_and_warn ms =
    (let expected = set (map fst setting_types);
         unexpected = [k \<leftarrow> map fst ms. k \<notin> expected]
     in (unknown_warnings unexpected, Some [m \<leftarrow> ms. fst m \<in> expected]))"

section \<open>Tasks\<close>

definition known_tasks :: "string list" where
  "known_tasks =
    [''CaptivePortal'', ''Dash'', ''DnsInjection'', ''FacebookMessenger'',
     ''HttpHeaderFieldManipulation'', ''HttpInvalidRequestLine'', ''MeekFrontedRequests'',
     ''MultiNdt'', ''Ndt'', ''TcpConnect'', ''Telegram'', ''WebConnectivity'', ''Whatsapp'']"

record runnable =
  rn_task :: string
  rn_options :: settings
  rn_annotations :: "string \<rightharpoonup> string"
  rn_inputs :: "string list"
  rn_input_filepaths :: "string list"
  rn_logfile :: "string option"
  rn_output_filepath :: string
  rn_verbosity :: nat
  rn_events :: "string list"

definition make_runnable :: "string \<Rightarrow> runnable option" where
  "make_runnable s =
    (if s \<in> set known_tasks then
       Some \<lparr>rn_task = s,
         rn_options = (if s = ''MultiNdt'' then [''save_real_probe_ip'' \<mapsto> scalar_of_int 1, ''dns/engine'' \<mapsto> ''system'']
                       else Map.empty),
         rn_annotations = Map.empty, rn_inputs = [], rn_input_filepaths = [], rn_logfile = None,
         rn_output_filepath = [], rn_verbosity = MK_LOG_WARNING, rn_events = []\<rparr>
     else None)"

text \<open>What the program uses of the JSON library and of the formatting of numbers: \<open>dump\<close>, a \<open>double\<close>
  written to a stream and by \<open>to_string\<close>, and bytes as kilobytes.\<close>

record json_env =
  je_dump :: "json \<Rightarrow> string"
  je_stream_double :: "double \<Rightarrow> string"
  je_double_to_string :: "double \<Rightarrow> string"
  je_kb :: "nat \<Rightarrow> double"

definition option_types :: "(string \<times> json_kind \<times> string) list" where
  "option_types =
    [(''bouncer_base_url'', KString, ''string''), (''collector_base_url'', KString, ''string''),
     (''dns/nameserver'', KString, ''string''), (''dns/engine'', KString, ''string''),
     (''geoip_asn_path'', KString, ''string''), (''geoip_country_path'', KString, ''string''),
     (''ignore_bouncer_error'', KBoolean, ''boolean''), (''ignore_open_report_error'', KBoolean, ''boolean''),
     (''max_runtime'', KFloat, ''number_float''), (''net/ca_bundle_path'', KString, ''string''),
     (''net/timeout'', KFloat, ''number_float''), (''no_bouncer'', KBoolean, ''boolean''),
     (''no_collector'', KBoolean, ''boolean''), (''no_asn_lookup'', KBoolean, ''boolean''),
     (''no_cc_lookup'', KBoolean, ''boolean''), (''no_ip_lookup'', KBoolean, ''boolean''),
     (''no_file_report'', KBoolean, ''boolean''), (''no_resolver_lookup'', KBoolean, ''boolean''),
     (''probe_asn'', KString, ''string''), (''probe_cc'', KString, ''string''),
     (''probe_ip'', KString, ''string''), (''randomize_input'', KBoolean, ''boolean''),
     (''save_real_probe_asn'', KBoolean, ''boolean''), (''save_real_probe_cc'', KBoolean, ''boolean''),
     (''save_real_probe_ip'', KBoolean, ''boolean''), (''save_real_resolver_ip'', KBoolean, ''boolean''),
     (''software_name'', KString, ''string''), (''software_version'', KString, ''string'')]"

definition check_option :: "string \<Rightarrow> json \<Rightarrow> unit out" where
  "check_option key value =
    (case map_of option_types key of
       None \<Rightarrow> emit_settings_warning
         (''Found '' @ key @ '' option which is not mapped as a valid option. We will continue processing'') ()
     | Some (kind, name) \<Rightarrow>
         if has_kind kind value then give ()
         else emit_settings_warning
           (''Found '' @ key @ '' option which has the wrong type (fyi: it should be a '' @ name @ '')'') ())"

text \<open>A string is added only when the option is not there yet (\<open>emplace\<close>) and an empty string is skipped.\<close>

definition store_option :: "json_env \<Rightarrow> string \<Rightarrow> json \<Rightarrow> settings \<Rightarrow> settings out" where
  "store_option env key value opts =
    (case value of
       JString v \<Rightarrow> give (if v = [] then opts else if opts key = None then opts(key \<mapsto> v) else opts)
     | JInt v \<Rightarrow> give (opts(key \<mapsto> scalar_of_int v))
     | JFloat v \<Rightarrow> give (opts(key \<mapsto> je_stream_double env v))
     | JBool v \<Rightarrow> give (opts(key \<mapsto> scalar_of_int (if v then 1 else 0)))
     | _ \<Rightarrow> emit_settings_failure
         (''Found option '' @ squote key @ '' to have an invalid type (fyi: valid types are: int, double, string)''))"

fun process_options :: "json_env \<Rightarrow> (string \<times> json) list \<Rightarrow> settings \<Rightarrow> settings out" where
  "process_options env [] opts = give opts"
| "process_options env ((key, value) # ms) opts =
    andthen (check_option key value) (\<lambda>_. andthen (store_option env key value opts) (process_options env ms))"

fun process_annotations ::
  "json_env \<Rightarrow> (string \<times> json) list \<Rightarrow> (string \<rightharpoonup> string) \<Rightarrow> (string \<rightharpoonup> string) out" where
  "process_annotations env [] ann = give ann"
| "process_annotations env ((key, value) # ms) ann =
    (case value of
       JString v \<Rightarrow> process_annotations env ms (ann(key \<mapsto> v))
     | JInt v \<Rightarrow> process_annotations env ms (ann(key \<mapsto> int_dec v))
     | JFloat v \<Rightarrow> process_annotations env ms (ann(key \<mapsto> je_double_to_string env v))
     | _ \<Rightarrow> emit_settings_failure
         (''Found annotation '' @ squote key @ '' to have an invalid type (fyi: valid types are: int, double, string)''))"

text \<open>\<open>inputs\<close> and \<open>input_filepaths\<close>, with the text that differs.\<close>

fun process_strings :: "(json \<Rightarrow> string) \<Rightarrow> json list \<Rightarrow> string list \<Rightarrow> string list out" where
  "process_strings why [] acc = give acc"
| "process_strings why (v # vs) acc =
    (case v of JString s \<Rightarrow> process_strings why vs (acc @ [s]) | _ \<Rightarrow> emit_settings_failure (why v))"

fun mask_events :: "json_env \<Rightarrow> json list \<Rightarrow> string list \<Rightarrow> string list out" where
  "mask_events env [] enabled = give enabled"
| "mask_events env (entry # es) enabled =
    (case entry of
       JString s \<Rightarrow>
         if \<not> is_event_key_valid s
         then andthen (emit_settings_warning
           (''Found unknown event inside of disabled_events with name '' @ squote s @ '' (fyi: all valid events are: ''
             @ je_dump env (JArray (map JString known_events))
             @ ''). Measurement Kit is going to ignore this invalid event and continue'') ())
           (\<lambda>_. mask_events env es enabled)
         else mask_events env es (removeAll s enabled)
     | _ \<Rightarrow> emit_settings_failure
         (''Found invalid entry inside of disabled_events that has value equal to <'' @ je_dump env entry
           @ ''> (fyi: all the entries in disabled_events must be strings)''))"

definition members :: "json \<Rightarrow> (string \<times> json) list" where
  "members j = (case j of JObject ms \<Rightarrow> ms | _ \<Rightarrow> [])"

definition elements :: "json \<Rightarrow> json list" where
  "elements j = (case j of JArray vs \<Rightarrow> vs | _ \<Rightarrow> [])"

definition text_of :: "json \<Rightarrow> string" where
  "text_of j = (case j of JString s \<Rightarrow> s | _ \<Rightarrow> [])"

text \<open>A setting that is there goes through \<open>f\<close>.\<close>

definition with_setting :: "(string \<times> json) list \<Rightarrow> string \<Rightarrow> (json \<Rightarrow> 'a \<Rightarrow> 'a out) \<Rightarrow> 'a \<Rightarrow> 'a out" where
  "with_setting ms key f x = (case map_of ms key of None \<Rightarrow> give x | Some v \<Rightarrow> f v x)"

definition set_log_level :: "json_env \<Rightarrow> json \<Rightarrow> runnable \<Rightarrow> runnable out" where
  "set_log_level env v rn =
    (case log_level_atoi (text_of v) of
       None \<Rightarrow> emit_settings_failure
         (''Unknown log_level level '' @ squote (text_of v) @ '' (fyi: known log_level levels are: ''
           @ je_dump env (JArray [JString ''err'', JString ''warning'', JString ''info'', JString ''debug'', JString ''debug2''])
           @ '')'')
     | Some l \<Rightarrow> give (rn\<lparr>rn_verbosity := l\<rparr>))"

text \<open>\<open>task_run\<close> up to the start of the task.\<close>

definition configure :: "json_env \<Rightarrow> (string \<times> json) list \<Rightarrow> runnable \<Rightarrow> runnable out" where
  "configure env ms rn =
    andthen (with_setting ms ''options'' (\<lambda>v rn. andthen (process_options env (members v) (rn_options rn))
      (\<lambda>o'. give (rn\<lparr>rn_options := o'\<rparr>))) rn) (\<lambda>rn.
    andthen (with_setting ms ''annotations'' (\<lambda>v rn. andthen (process_annotations env (members v) (rn_annotations rn))
      (\<lambda>a. give (rn\<lparr>rn_annotations := a\<rparr>))) rn) (\<lambda>rn.
    andthen (with_setting ms ''inputs'' (\<lambda>v rn. andthen (process_strings (\<lambda>x. ''Found input '' @ squote (je_dump env x)
        @ '' to have an invalid type (fyi: values inside 'inputs' must be strings)'') (elements v) (rn_inputs rn))
      (\<lambda>xs. give (rn\<lparr>rn_inputs := xs\<rparr>))) rn) (\<lambda>rn.
    andthen (with_setting ms ''input_filepaths'' (\<lambda>v rn. andthen (process_strings (\<lambda>x. ''Found input_filepath '' @ squote (je_dump env x)
        @ '' to have an invalid type (fyi: values inside 'input_filepaths' must be strings)'') (elements v)
        (rn_input_filepaths rn))
      (\<lambda>xs. give (rn\<lparr>rn_input_filepaths := xs\<rparr>))) rn) (\<lambda>rn.
    andthen (with_setting ms ''log_filepath'' (\<lambda>v rn. give (rn\<lparr>rn_logfile := Some (text_of v)\<rparr>)) rn) (\<lambda>rn.
    andthen (with_setting ms ''output_filepath'' (\<lambda>v rn. give (rn\<lparr>rn_output_filepath := text_of v\<rparr>)) rn) (\<lambda>rn.
    andthen (with_setting ms ''log_level'' (set_log_level env) (rn\<lparr>rn_verbosity := MK_LOG_WARNING\<rparr>)) (\<lambda>rn.
    andthen (with_setting ms ''disabled_events'' (\<lambda>v rn. andthen (mask_events env (elements v) (rn_events rn))
      (\<lambda>es. give (rn\<lparr>rn_events := es\<rparr>))) (rn\<lparr>rn_events := known_events\<rparr>)) give)))))))"

definition task_setup :: "json_env \<Rightarrow> json \<Rightarrow> runnable out" where
  "task_setup env settings =
    (if \<not> has_kind KObject settings then
       emit_settings_failure
         (''invalid `settings` type: the `settings` JSON that you pass me should be a JSON object (i.e. '{\"type\": \"Ndt\"}') but instead you passed me this: ''
           @ squote (je_dump env settings))
     else andthen (validate_known_settings_shallow settings) (\<lambda>ok.
       if \<not> ok then emit_settings_failure ''failed to validate settings''
       else andthen (remove_unknown_settings_and_warn (members settings)) (\<lambda>ms.
         case make_runnable (text_of (the (map_of ms ''name''))) of
           None \<Rightarrow> emit_settings_failure
             (''unknown task name '' @ squote (text_of (the (map_of ms ''name''))) @ '' (fyi: known tasks are: ''
               @ je_dump env (JArray (map JString known_tasks)) @ '')'')
         | Some rn \<Rightarrow> configure env ms rn)))"

section \<open>The run of a task\<close>

text \<open>What a nettest does while it runs: the calls to its logger, the errors \<open>begin\<close> and \<open>end\<close> call back
  with, if they do, and the bytes it used.\<close>

datatype logger_call = LogLine nat string | LogEvent string "(string \<times> json) list"

record nettest_run =
  nr_calls :: "logger_call list"
  nr_begin :: "error option"
  nr_end :: "error option"
  nr_down :: nat
  nr_up :: nat

definition MK_LOG_VERBOSITY_MASK :: nat where "MK_LOG_VERBOSITY_MASK = 31"

text \<open>\<open>emit_event_ex\<close> with the handlers the engine registers: a key that is not enabled goes to the handler
  that only validates.\<close>

definition emit_event_ex :: "string list \<Rightarrow> string \<Rightarrow> (string \<times> json) list \<Rightarrow> json list" where
  "emit_event_ex enabled key value =
    (if key \<in> set (removeAll ''log'' enabled) then [mk_event key value] else [])"

definition log_line :: "nat \<Rightarrow> string list \<Rightarrow> nat \<Rightarrow> string \<Rightarrow> json list" where
  "log_line verbosity enabled level line =
    (let real_level = level mod (MK_LOG_VERBOSITY_MASK + 1) in
     if real_level > verbosity then []
     else if ''log'' \<notin> set enabled then []
     else if level > MK_LOG_VERBOSITY_MASK then []
     else [make_log_event level line])"

fun logger_events :: "nat \<Rightarrow> string list \<Rightarrow> logger_call \<Rightarrow> json list" where
  "logger_events verbosity enabled (LogLine level line) = log_line verbosity enabled level line"
| "logger_events verbosity enabled (LogEvent key value) = emit_event_ex enabled key value"

text \<open>The error of the task: \<open>GenericError\<close> until \<open>begin\<close> calls back.\<close>

definition task_error :: "error option \<Rightarrow> error option \<Rightarrow> error" where
  "task_error begin_err end_err =
    (case begin_err of
       None \<Rightarrow> new GenericError
     | Some e \<Rightarrow>
         (case end_err of None \<Rightarrow> e
          | Some e' \<Rightarrow> if \<not> err_eq e (new NoError) then e' else e))"

definition task_end :: "json_env \<Rightarrow> string list \<Rightarrow> nettest_run \<Rightarrow> json list" where
  "task_end env enabled run =
    emit_event_ex enabled ''status.end''
      [(''downloaded_kb'', JFloat (je_kb env (nr_down run))),
       (''failure'', JString (reason (task_error (nr_begin run) (nr_end run)))),
       (''uploaded_kb'', JFloat (je_kb env (nr_up run)))]"

definition idle_run :: nettest_run where
  "idle_run = \<lparr>nr_calls = [], nr_begin = None, nr_end = None, nr_down = 0, nr_up = 0\<rparr>"

definition run_events :: "json_env \<Rightarrow> bool \<Rightarrow> (runnable \<Rightarrow> nettest_run) \<Rightarrow> runnable \<Rightarrow> json list" where
  "run_events env interrupted nettest rn =
    (let run = (if interrupted then idle_run else nettest rn); enabled = rn_events rn
     in emit_event_ex enabled ''status.started'' []
       @ concat (map (logger_events (rn_verbosity rn) enabled) (nr_calls run))
       @ task_end env enabled run)"

definition task_run :: "json_env \<Rightarrow> bool \<Rightarrow> (runnable \<Rightarrow> nettest_run) \<Rightarrow> json \<Rightarrow> json list" where
  "task_run env interrupted nettest settings =
    (case task_setup env settings of
       (evs, None) \<Rightarrow> evs
     | (evs, Some rn) \<Rightarrow> evs @ run_events env interrupted nettest rn)"

text \<open>What the thread of a task emits.\<close>

definition task_events :: "json_env \<Rightarrow> bool \<Rightarrow> (runnable \<Rightarrow> nettest_run) \<Rightarrow> json \<Rightarrow> json list" where
  "task_events env interrupted nettest settings =
    mk_event ''status.queued'' [] # task_run env interrupted nettest settings"

section \<open>Lemmas on the settings\<close>

lemma give_simps [simp]: "fst (give x) = []" "snd (give x) = Some x"
  by (simp_all add: give_def)

lemma andthen_Some:
  "andthen m f = (evs, Some y) \<longleftrightarrow>
    (\<exists>x. snd m = Some x \<and> snd (f x) = Some y \<and> evs = fst m @ fst (f x))"
  by (auto simp: andthen_def split: option.splits)

lemma snd_andthen: "snd (andthen m f) = Option.bind (snd m) (\<lambda>x. snd (f x))"
  by (cases "snd m") (simp_all add: andthen_def)

text \<open>The events of a computation all satisfy \<open>P\<close>.\<close>

definition emits :: "(json \<Rightarrow> bool) \<Rightarrow> 'a out \<Rightarrow> bool" where
  "emits P m \<longleftrightarrow> list_all P (fst m)"

lemma emits_give [simp, intro]: "emits P (give x)"
  by (simp add: emits_def)

lemma emits_andthen [intro]: "emits P m \<Longrightarrow> (\<And>x. emits P (f x)) \<Longrightarrow> emits P (andthen m f)"
  by (auto simp: emits_def andthen_def split: option.splits)

definition valid :: "json \<Rightarrow> bool" where
  "valid ev \<longleftrightarrow> possibly_validate_event ev = Some ev"

lemma valid_mk_event:
  "valid (mk_event key fs) \<longleftrightarrow> is_event_key_valid key
    \<and> list_all (field_ok (JObject fs)) (case map_of event_fields key of None \<Rightarrow> [] | Some l \<Rightarrow> l)"
  by (simp add: valid_def possibly_validate_event_def mk_event_def)

lemma valid_log: "log_level_itoa l \<noteq> None \<Longrightarrow> valid (make_log_event l m)"
  by (simp add: make_log_event_def valid_mk_event is_event_key_valid_def event_keys_def event_fields_def field_ok_def)

lemma valid_failure: "valid (make_failure_event e)"
  by (simp add: make_failure_event_def valid_mk_event is_event_key_valid_def event_keys_def event_fields_def field_ok_def)

lemma valid_warning_level [simp]: "valid (make_log_event MK_LOG_WARNING m)" "valid (make_log_event MK_LOG_ERR m)"
  by (simp_all add: valid_log log_level_itoa_def)

lemma emits_warning [simp, intro]: "emits valid (emit_settings_warning m x)"
  by (simp add: emits_def emit_settings_warning_def)

lemma emits_failure [simp, intro]: "emits valid (emit_settings_failure m)"
  by (simp add: emits_def emit_settings_failure_def valid_failure)

lemma emits_check_settings: "emits valid (check_settings settings sts rv)"
  by (induction settings sts rv rule: check_settings.induct)
    (auto simp: check_setting_def split: prod.splits option.splits)

lemma emits_process_options: "emits valid (process_options env ms opts)"
  by (induction env ms opts rule: process_options.induct)
    (auto simp: check_option_def store_option_def split: option.splits json.splits)

lemma emits_process_annotations: "emits valid (process_annotations env ms ann)"
  by (induction env ms ann rule: process_annotations.induct) (simp_all del: fun_upd_apply split: json.split)

lemma emits_process_strings: "emits valid (process_strings m vs acc)"
  by (induction m vs acc rule: process_strings.induct) (auto split: json.splits)

lemma emits_mask_events: "emits valid (mask_events env es enabled)"
  by (induction env es enabled rule: mask_events.induct) (auto split: json.splits)

lemma emits_with_setting: "(\<And>v x. emits P (f v x)) \<Longrightarrow> emits P (with_setting ms key f x)"
  by (simp add: with_setting_def split: option.split)

lemma emits_configure: "emits valid (configure env ms rn)"
  unfolding configure_def
  by (intro emits_andthen emits_with_setting emits_process_options emits_process_annotations
      emits_process_strings emits_mask_events emits_give)
    (auto simp: set_log_level_def split: option.splits)

lemma emits_task_setup: "emits valid (task_setup env settings)"
proof -
  have "emits valid (remove_unknown_settings_and_warn ms)" for ms
    by (simp add: emits_def remove_unknown_settings_and_warn_def unknown_warnings_def list_all_iff Let_def)
  then show ?thesis
    unfolding task_setup_def validate_known_settings_shallow_def
    by (auto intro!: emits_andthen emits_check_settings emits_configure split: option.splits)
qed

text \<open>What an option is stored as.\<close>

definition stored :: "json_env \<Rightarrow> json \<Rightarrow> scalar option \<Rightarrow> scalar option" where
  "stored env value old =
    (case value of
       JString v \<Rightarrow> if v = [] \<or> old \<noteq> None then old else Some v
     | JInt v \<Rightarrow> Some (scalar_of_int v)
     | JFloat v \<Rightarrow> Some (je_stream_double env v)
     | JBool v \<Rightarrow> Some (scalar_of_int (if v then 1 else 0))
     | _ \<Rightarrow> old)"

lemma store_option_stored:
  "snd (store_option env key value opts) = Some o' \<Longrightarrow> o' k = (if k = key then stored env value (opts key) else opts k)"
  by (auto simp: store_option_def stored_def emit_settings_failure_def split: json.splits if_splits)

lemma process_options_stored:
  assumes "snd (process_options env ms opts) = Some o'" "distinct (map fst ms)"
  shows "o' k = (case map_of ms k of None \<Rightarrow> opts k | Some v \<Rightarrow> stored env v (opts k))"
  using assms
proof (induction env ms opts rule: process_options.induct)
  case (2 env key v ms opts)
  obtain o1 where o1: "snd (store_option env key v opts) = Some o1" "snd (process_options env ms o1) = Some o'"
    using 2(2) by (auto simp: snd_andthen bind_eq_Some_conv)
  have "o' k = (case map_of ms k of None \<Rightarrow> o1 k | Some v \<Rightarrow> stored env v (o1 k))"
    using 2(1) [OF o1(2)] 2(3) by simp
  moreover have "map_of ms key = None"
    using 2(3) by (simp add: map_of_eq_None_iff)
  ultimately show ?case
    using store_option_stored [OF o1(1), of k] by (auto split: option.split)
qed simp

lemma with_setting_Some:
  "snd (with_setting ms key f x) = Some y \<longleftrightarrow>
    (map_of ms key = None \<and> y = x) \<or> (\<exists>v. map_of ms key = Some v \<and> snd (f v x) = Some y)"
  by (auto simp: with_setting_def split: option.splits)

lemma with_setting_keeps:
  assumes "snd (with_setting ms key f x) = Some y" "\<And>v y. snd (f v x) = Some y \<Longrightarrow> P y = P x"
  shows "P y = P x"
  using assms by (auto simp: with_setting_Some)

lemma configure_steps:
  assumes "snd (configure env ms rn) = Some rn'"
  obtains rn1 rn7 where
    "snd (with_setting ms ''options'' (\<lambda>v rn. andthen (process_options env (members v) (rn_options rn))
      (\<lambda>o'. give (rn\<lparr>rn_options := o'\<rparr>))) rn) = Some rn1"
    "rn_options rn7 = rn_options rn1"
    "snd (with_setting ms ''disabled_events'' (\<lambda>v rn. andthen (mask_events env (elements v) (rn_events rn))
      (\<lambda>es. give (rn\<lparr>rn_events := es\<rparr>))) (rn7\<lparr>rn_events := known_events\<rparr>)) = Some rn'"
proof -
  have step: "snd (andthen m f) = Some y \<longleftrightarrow> (\<exists>x. snd m = Some x \<and> snd (f x) = Some y)" for m :: "runnable out" and f y
    by (simp add: snd_andthen bind_eq_Some_conv)
  obtain rn1 rn2 rn3 rn4 rn5 rn6 rn7 where r:
    "snd (with_setting ms ''options'' (\<lambda>v rn. andthen (process_options env (members v) (rn_options rn))
      (\<lambda>o'. give (rn\<lparr>rn_options := o'\<rparr>))) rn) = Some rn1"
    "snd (with_setting ms ''annotations'' (\<lambda>v rn. andthen (process_annotations env (members v) (rn_annotations rn))
      (\<lambda>a. give (rn\<lparr>rn_annotations := a\<rparr>))) rn1) = Some rn2"
    "snd (with_setting ms ''inputs'' (\<lambda>v rn. andthen (process_strings (\<lambda>x. ''Found input '' @ squote (je_dump env x)
        @ '' to have an invalid type (fyi: values inside 'inputs' must be strings)'') (elements v) (rn_inputs rn))
      (\<lambda>xs. give (rn\<lparr>rn_inputs := xs\<rparr>))) rn2) = Some rn3"
    "snd (with_setting ms ''input_filepaths'' (\<lambda>v rn. andthen (process_strings (\<lambda>x. ''Found input_filepath '' @ squote (je_dump env x)
        @ '' to have an invalid type (fyi: values inside 'input_filepaths' must be strings)'') (elements v)
        (rn_input_filepaths rn))
      (\<lambda>xs. give (rn\<lparr>rn_input_filepaths := xs\<rparr>))) rn3) = Some rn4"
    "snd (with_setting ms ''log_filepath'' (\<lambda>v rn. give (rn\<lparr>rn_logfile := Some (text_of v)\<rparr>)) rn4) = Some rn5"
    "snd (with_setting ms ''output_filepath'' (\<lambda>v rn. give (rn\<lparr>rn_output_filepath := text_of v\<rparr>)) rn5) = Some rn6"
    "snd (with_setting ms ''log_level'' (set_log_level env) (rn6\<lparr>rn_verbosity := MK_LOG_WARNING\<rparr>)) = Some rn7"
    "snd (with_setting ms ''disabled_events'' (\<lambda>v rn. andthen (mask_events env (elements v) (rn_events rn))
      (\<lambda>es. give (rn\<lparr>rn_events := es\<rparr>))) (rn7\<lparr>rn_events := known_events\<rparr>)) = Some rn'"
    using assms unfolding configure_def step by (auto simp only: give_simps option.inject)
  have "rn_options rn2 = rn_options rn1" "rn_options rn3 = rn_options rn2" "rn_options rn4 = rn_options rn3"
    "rn_options rn5 = rn_options rn4" "rn_options rn6 = rn_options rn5"
    using r(2-6) by (auto elim!: with_setting_keeps simp: snd_andthen bind_eq_Some_conv)
  moreover have "rn_options rn7 = rn_options (rn6\<lparr>rn_verbosity := MK_LOG_WARNING\<rparr>)"
    using r(7) by (rule with_setting_keeps) (auto simp: set_log_level_def emit_settings_failure_def split: option.splits)
  ultimately have "rn_options rn7 = rn_options rn1"
    by simp
  from that [OF r(1) this r(8)] show ?thesis .
qed

lemma configure_options:
  assumes "snd (configure env ms rn) = Some rn'"
  shows "case map_of ms ''options'' of
      None \<Rightarrow> rn_options rn' = rn_options rn
    | Some v \<Rightarrow> snd (process_options env (members v) (rn_options rn)) = Some (rn_options rn')"
proof -
  obtain rn1 rn7 where r:
    "snd (with_setting ms ''options'' (\<lambda>v rn. andthen (process_options env (members v) (rn_options rn))
      (\<lambda>o'. give (rn\<lparr>rn_options := o'\<rparr>))) rn) = Some rn1"
    "rn_options rn7 = rn_options rn1"
    "snd (with_setting ms ''disabled_events'' (\<lambda>v rn. andthen (mask_events env (elements v) (rn_events rn))
      (\<lambda>es. give (rn\<lparr>rn_events := es\<rparr>))) (rn7\<lparr>rn_events := known_events\<rparr>)) = Some rn'"
    using assms by (rule configure_steps)
  have "rn_options rn' = rn_options (rn7\<lparr>rn_events := known_events\<rparr>)"
    using r(3) by (rule with_setting_keeps) (auto simp: snd_andthen bind_eq_Some_conv)
  then show ?thesis
    using r(1,2) by (auto simp: with_setting_Some snd_andthen bind_eq_Some_conv)
qed

lemma mask_events_Some:
  "snd (mask_events env es enabled) = Some r \<Longrightarrow>
    set r = set enabled - {s. JString s \<in> set es \<and> is_event_key_valid s}"
  by (induction env es enabled rule: mask_events.induct)
    (auto simp: snd_andthen bind_eq_Some_conv emit_settings_warning_def emit_settings_failure_def
      split: json.splits if_splits)

lemma configure_events:
  assumes "snd (configure env ms rn) = Some rn'"
  shows "set (rn_events rn') = set known_events
    - (case map_of ms ''disabled_events'' of None \<Rightarrow> {} | Some v \<Rightarrow> {s. JString s \<in> set (elements v) \<and> is_event_key_valid s})"
proof -
  obtain rn1 rn7 where
    "snd (with_setting ms ''disabled_events'' (\<lambda>v rn. andthen (mask_events env (elements v) (rn_events rn))
      (\<lambda>es. give (rn\<lparr>rn_events := es\<rparr>))) (rn7\<lparr>rn_events := known_events\<rparr>)) = Some rn'"
    using assms by (rule configure_steps)
  then show ?thesis
    using mask_events_Some by (fastforce simp: with_setting_Some snd_andthen bind_eq_Some_conv)
qed

lemma task_setup_Some:
  assumes "snd (task_setup env settings) = Some rn"
  shows "\<exists>ms ms' rn0. settings = JObject ms \<and> ms' = [m \<leftarrow> ms. fst m \<in> set (map fst setting_types)]
    \<and> make_runnable (text_of (the (map_of ms' ''name''))) = Some rn0 \<and> snd (configure env ms' rn0) = Some rn"
proof -
  obtain ms where s: "settings = JObject ms"
    using assms by (cases settings) (auto simp: task_setup_def emit_settings_failure_def)
  show ?thesis
    using assms unfolding s
    by (auto simp: task_setup_def snd_andthen bind_eq_Some_conv remove_unknown_settings_and_warn_def
        emit_settings_failure_def members_def Let_def split: if_splits option.splits)
qed

lemma map_of_filter_keys: "k \<in> A \<Longrightarrow> map_of [m \<leftarrow> ms. fst m \<in> A] k = map_of ms k"
  by (induction ms) auto

section \<open>The queue of a task\<close>

text \<open>The thread of a task, which pushes its events, clears \<open>running\<close> and wakes up the reader, and a thread
  that calls \<open>wait_for_next_event\<close> again and again, with the mutex, and the condition variable on which
  the reader may be blocked.  \<open>tk_got\<close> is what the reader was given, without the dummy events
  of termination, which \<open>tk_ended\<close> remembers.\<close>

datatype worker_state = Emitting "json list" | Pushing "json list" | Notifying "json list" | Stopping | Done

datatype reader_state = Idle | Checking | Unready | Blocked | Awake

record task =
  tk_deque :: "json list"
  tk_running :: bool
  tk_worker :: worker_state
  tk_reader :: reader_state
  tk_got :: "json list"
  tk_ended :: bool

definition task_start :: "json list \<Rightarrow> task" where
  "task_start evs = \<lparr>tk_deque = [], tk_running = True, tk_worker = Emitting evs, tk_reader = Idle,
    tk_got = [], tk_ended = False\<rparr>"

text \<open>Who holds the mutex.\<close>

definition reader_locked :: "task \<Rightarrow> bool" where
  "reader_locked t \<longleftrightarrow> tk_reader t = Checking \<or> tk_reader t = Unready"

fun worker_locked :: "worker_state \<Rightarrow> bool" where
  "worker_locked (Pushing _) = True"
| "worker_locked _ = False"

definition notify_all :: "task \<Rightarrow> task" where
  "notify_all t = (if tk_reader t = Blocked then t\<lparr>tk_reader := Awake\<rparr> else t)"

definition predicate :: "task \<Rightarrow> bool" where
  "predicate t \<longleftrightarrow> \<not> tk_running t \<or> tk_deque t \<noteq> []"

definition is_done :: "task \<Rightarrow> bool" where
  "is_done t \<longleftrightarrow> \<not> tk_running t \<and> tk_deque t = []"

text \<open>\<open>emit\<close> locks, pushes, unlocks and notifies; at its end the thread clears \<open>running\<close> without the mutex and
  notifies.\<close>

inductive task_step :: "task \<Rightarrow> task \<Rightarrow> bool" where
  lock: "tk_worker t = Emitting (ev # evs) \<Longrightarrow> \<not> reader_locked t \<Longrightarrow>
    task_step t (t\<lparr>tk_worker := Pushing (ev # evs)\<rparr>)"
| push: "tk_worker t = Pushing (ev # evs) \<Longrightarrow>
    task_step t (t\<lparr>tk_deque := tk_deque t @ [ev], tk_worker := Notifying evs\<rparr>)"
| notify: "tk_worker t = Notifying evs \<Longrightarrow> task_step t ((notify_all t)\<lparr>tk_worker := Emitting evs\<rparr>)"
| stop: "tk_worker t = Emitting [] \<Longrightarrow> task_step t (t\<lparr>tk_running := False, tk_worker := Stopping\<rparr>)"
| finish: "tk_worker t = Stopping \<Longrightarrow> task_step t ((notify_all t)\<lparr>tk_worker := Done\<rparr>)"
| wait: "tk_reader t = Idle \<or> tk_reader t = Awake \<Longrightarrow> \<not> worker_locked (tk_worker t) \<Longrightarrow>
    task_step t (t\<lparr>tk_reader := Checking\<rparr>)"
| pop: "tk_reader t = Checking \<Longrightarrow> predicate t \<Longrightarrow> tk_deque t = ev # evs \<Longrightarrow>
    task_step t (t\<lparr>tk_deque := evs, tk_got := tk_got t @ [ev], tk_reader := Idle\<rparr>)"
| terminated: "tk_reader t = Checking \<Longrightarrow> predicate t \<Longrightarrow> tk_deque t = [] \<Longrightarrow>
    task_step t (t\<lparr>tk_ended := True, tk_reader := Idle\<rparr>)"
| unready: "tk_reader t = Checking \<Longrightarrow> \<not> predicate t \<Longrightarrow> task_step t (t\<lparr>tk_reader := Unready\<rparr>)"
| block: "tk_reader t = Unready \<Longrightarrow> task_step t (t\<lparr>tk_reader := Blocked\<rparr>)"
| spurious: "tk_reader t = Blocked \<Longrightarrow> task_step t (t\<lparr>tk_reader := Awake\<rparr>)"

inductive_cases task_stepE: "task_step t t'"

definition reachable :: "json list \<Rightarrow> task \<Rightarrow> bool" where
  "reachable evs t \<longleftrightarrow> task_step\<^sup>*\<^sup>* (task_start evs) t"

fun remaining :: "worker_state \<Rightarrow> json list" where
  "remaining (Emitting evs) = evs"
| "remaining (Pushing evs) = evs"
| "remaining (Notifying evs) = evs"
| "remaining _ = []"

text \<open>The invariant: no event is lost, doubled or reordered, the queue is complete when \<open>running\<close> is
  cleared, and the end is announced only when everything was read.\<close>

definition task_inv :: "json list \<Rightarrow> task \<Rightarrow> bool" where
  "task_inv evs t \<longleftrightarrow>
    tk_got t @ tk_deque t @ remaining (tk_worker t) = evs
    \<and> (tk_running t \<longleftrightarrow> tk_worker t \<noteq> Stopping \<and> tk_worker t \<noteq> Done)
    \<and> (tk_worker t = Pushing [] \<longrightarrow> False)
    \<and> (tk_ended t \<longrightarrow> \<not> tk_running t \<and> tk_deque t = [])
    \<and> (tk_reader t = Unready \<longrightarrow> tk_deque t = [])
    \<and> \<not> (worker_locked (tk_worker t) \<and> reader_locked t)
    \<and> (tk_reader t = Blocked \<and> tk_deque t \<noteq> [] \<longrightarrow> (\<exists>es. tk_worker t = Notifying es))"

lemma notify_all_fields [simp]:
  "tk_deque (notify_all t) = tk_deque t" "tk_running (notify_all t) = tk_running t"
  "tk_got (notify_all t) = tk_got t" "tk_ended (notify_all t) = tk_ended t"
  "tk_reader (notify_all t) = Unready \<longleftrightarrow> tk_reader t = Unready"
  "reader_locked (notify_all t) \<longleftrightarrow> reader_locked t" "tk_reader (notify_all t) \<noteq> Blocked"
  by (simp_all add: notify_all_def reader_locked_def)

lemma task_inv_step: "task_step t t' \<Longrightarrow> task_inv evs t \<Longrightarrow> task_inv evs t'"
  by (induction rule: task_step.induct)
    (auto simp: task_inv_def predicate_def reader_locked_def)

lemma task_inv_reachable: "reachable evs t \<Longrightarrow> task_inv evs t"
  unfolding reachable_def
  by (induction rule: rtranclp_induct) (auto simp: task_inv_step, simp add: task_inv_def task_start_def)

text \<open>Every event is read as soon as it is there; then the reader finds the queue empty and the task over
  between its look at \<open>running\<close> and its blocking.\<close>

lemma drain:
  assumes "tk_worker t = Emitting evs" "tk_reader t = Idle" "tk_deque t = []" "tk_running t"
  shows "task_step\<^sup>*\<^sup>* t (t\<lparr>tk_got := tk_got t @ evs, tk_worker := Emitting []\<rparr>)"
  using assms
proof (induction evs arbitrary: t)
  case (Cons ev evs)
  let ?t1 = "t\<lparr>tk_worker := Pushing (ev # evs)\<rparr>"
  let ?t2 = "?t1\<lparr>tk_deque := [ev], tk_worker := Notifying evs\<rparr>"
  let ?t3 = "?t2\<lparr>tk_worker := Emitting evs\<rparr>"
  let ?t4 = "?t3\<lparr>tk_reader := Checking\<rparr>"
  let ?t5 = "?t4\<lparr>tk_deque := [], tk_got := tk_got t @ [ev], tk_reader := Idle\<rparr>"
  have "task_step t ?t1"
    using Cons.prems by (intro task_step.lock) (simp_all add: reader_locked_def)
  moreover have "task_step ?t1 ?t2"
    using task_step.push [of ?t1 ev evs] Cons.prems by simp
  moreover have "task_step ?t2 ?t3"
    using task_step.notify [of ?t2 evs] Cons.prems by (simp add: notify_all_def)
  moreover have "task_step ?t3 ?t4"
    using task_step.wait [of ?t3] Cons.prems by simp
  moreover have "task_step ?t4 ?t5"
    using task_step.pop [of ?t4 ev "[]"] Cons.prems by (simp add: predicate_def)
  moreover have "task_step\<^sup>*\<^sup>* ?t5 (?t5\<lparr>tk_got := tk_got ?t5 @ evs, tk_worker := Emitting []\<rparr>)"
    using Cons.prems by (intro Cons.IH) simp_all
  moreover have "?t5\<lparr>tk_got := tk_got ?t5 @ evs, tk_worker := Emitting []\<rparr>
      = t\<lparr>tk_got := tk_got t @ ev # evs, tk_worker := Emitting []\<rparr>"
    using Cons.prems by simp
  ultimately show ?case
    by (metis (no_types, lifting) converse_rtranclp_into_rtranclp)
next
  case (Nil t)
  then have "t\<lparr>tk_got := tk_got t @ [], tk_worker := Emitting []\<rparr> = t"
    by (cases t) simp
  then show ?case
    by simp
qed

lemma drained: "reachable evs ((task_start evs)\<lparr>tk_got := evs, tk_worker := Emitting []\<rparr>)"
  using drain [of "task_start evs" evs] by (simp add: reachable_def task_start_def)

lemma reachable_step: "reachable evs t \<Longrightarrow> task_step t t' \<Longrightarrow> reachable evs t'"
  by (simp add: reachable_def)

section \<open>Properties\<close>

text \<open>C18: A reader is given the events of a task in the order in which they were emitted, none lost and none
  twice; the end is announced only when all of them were read and the task is over, and a blocked reader with an event in the queue is
  about to be woken up.\<close>

theorem task_queue_is_fifo:
  assumes "reachable evs t"
  shows "\<exists>rest. evs = tk_got t @ tk_deque t @ rest \<and> (is_done t \<longrightarrow> tk_got t = evs)
    \<and> (tk_ended t \<longrightarrow> is_done t)
    \<and> (tk_reader t = Blocked \<and> tk_deque t \<noteq> [] \<longrightarrow> (\<exists>es. tk_worker t = Notifying es))"
proof -
  have inv: "task_inv evs t"
    using assms by (rule task_inv_reachable)
  then have "remaining (tk_worker t) = []" if "\<not> tk_running t"
    using that by (auto simp: task_inv_def)
  with inv show ?thesis
    by (auto simp: task_inv_def is_done_def)
qed

theorem task_queue_is_fifo_witness:
  "\<exists>t. reachable [JNull, JBool True] t \<and> tk_got t = [JNull, JBool True] \<and> tk_running t
    \<and> (\<exists>rest. [JNull, JBool True] = tk_got t @ tk_deque t @ rest)"
proof -
  let ?t = "(task_start [JNull, JBool True])\<lparr>tk_got := [JNull, JBool True], tk_worker := Emitting []\<rparr>"
  have r: "reachable [JNull, JBool True] ?t"
    by (rule drained)
  then have "\<exists>rest. [JNull, JBool True] = tk_got ?t @ tk_deque ?t @ rest"
    using task_queue_is_fifo [OF r] by auto
  with r show ?thesis
    by (intro exI [of _ ?t]) (simp add: task_start_def)
qed

text \<open>C19: The end of a task can be missed: \<open>running\<close> is cleared without the mutex, so the notification can fall
  between the look of the reader at \<open>running\<close> and its blocking.  Then every event was read,
  the task is over, and nothing wakes up the reader again but a spurious wake-up.\<close>

theorem end_of_task_can_be_missed:
  "\<exists>t. reachable evs t \<and> is_done t \<and> tk_got t = evs \<and> tk_worker t = Done \<and> tk_reader t = Blocked \<and> \<not> tk_ended t
    \<and> Collect (task_step t) = {t\<lparr>tk_reader := Awake\<rparr>}"
proof -
  let ?t0 = "(task_start evs)\<lparr>tk_got := evs, tk_worker := Emitting []\<rparr>"
  let ?t1 = "?t0\<lparr>tk_reader := Checking\<rparr>"
  let ?t2 = "?t1\<lparr>tk_reader := Unready\<rparr>"
  let ?t3 = "?t2\<lparr>tk_running := False, tk_worker := Stopping\<rparr>"
  let ?t4 = "?t3\<lparr>tk_worker := Done\<rparr>"
  let ?t5 = "?t4\<lparr>tk_reader := Blocked\<rparr>"
  have s1: "task_step ?t0 ?t1"
    by (rule task_step.wait) (simp_all add: task_start_def)
  have s2: "task_step ?t1 ?t2"
    by (rule task_step.unready) (simp_all add: task_start_def predicate_def)
  have s3: "task_step ?t2 ?t3"
    by (rule task_step.stop) (simp add: task_start_def)
  have s4: "task_step ?t3 ?t4"
    using task_step.finish [of ?t3] by (simp add: notify_all_def)
  have s5: "task_step ?t4 ?t5"
    by (rule task_step.block) simp
  have "reachable evs ?t5"
    by (rule reachable_step [OF reachable_step [OF reachable_step [OF reachable_step [OF reachable_step [OF drained s1] s2] s3] s4] s5])
  moreover have "t' = ?t5\<lparr>tk_reader := Awake\<rparr>" if "task_step ?t5 t'" for t'
    using that by (rule task_stepE) (simp_all add: task_start_def)
  moreover have "task_step ?t5 (?t5\<lparr>tk_reader := Awake\<rparr>)"
    by (rule task_step.spurious) simp
  ultimately have "Collect (task_step ?t5) = {?t5\<lparr>tk_reader := Awake\<rparr>}" and "reachable evs ?t5"
    by blast+
  then show ?thesis
    by (intro exI [of _ ?t5]) (simp add: is_done_def task_start_def)
qed

text \<open>The calls of a nettest that the assertions let pass.\<close>

fun call_ok :: "logger_call \<Rightarrow> bool" where
  "call_ok (LogLine level _) \<longleftrightarrow> level > MK_LOG_VERBOSITY_MASK \<or> log_level_itoa level \<noteq> None"
| "call_ok (LogEvent key fs) \<longleftrightarrow> valid (mk_event key fs)"

lemma logger_events_valid: "call_ok call \<Longrightarrow> list_all valid (logger_events v enabled call)"
  by (cases call) (auto simp: emit_event_ex_def log_line_def Let_def valid_log)

lemma status_events_valid:
  "valid (mk_event ''status.queued'' [])" "valid (mk_event ''status.started'' [])"
  "valid (mk_event ''status.end'' [(''downloaded_kb'', JFloat d), (''failure'', JString f), (''uploaded_kb'', JFloat u)])"
  by (simp_all add: valid_mk_event is_event_key_valid_def event_keys_def event_fields_def field_ok_def)

lemma run_events_valid:
  assumes "list_all call_ok (nr_calls (nettest rn))"
  shows "list_all valid (run_events env interrupted nettest rn)"
proof -
  have "list_all valid (concat (map (logger_events v enabled) calls))" if "list_all call_ok calls" for v enabled calls
    using that by (induction calls) (simp_all add: logger_events_valid)
  then show ?thesis
    using assms status_events_valid
    by (simp add: run_events_def Let_def task_end_def emit_event_ex_def idle_run_def)
qed

text \<open>C23: No assertion on an event fails: whatever JSON a task is given as its settings, every event of the task is valid,
  provided the nettest reports valid events and known log levels.\<close>

theorem task_events_valid:
  assumes "\<forall>rn. list_all call_ok (nr_calls (nettest rn))" "ev \<in> set (task_events env interrupted nettest settings)"
  shows "possibly_validate_event ev = Some ev"
proof -
  have "list_all valid (task_events env interrupted nettest settings)"
    using emits_task_setup [of env settings] run_events_valid assms(1) status_events_valid(1)
    by (auto simp: task_events_def task_run_def emits_def split: prod.split option.split)
  with assms(2) show ?thesis
    by (auto simp: list_all_iff valid_def)
qed

definition test_json_env :: json_env where
  "test_json_env = \<lparr>je_dump = \<lambda>_. [], je_stream_double = \<lambda>_. [], je_double_to_string = \<lambda>_. [], je_kb = \<lambda>_. 0\<rparr>"

theorem task_events_valid_witness:
  "(let evs = task_events test_json_env False (\<lambda>rn. idle_run\<lparr>nr_calls := [LogLine 1 ''x'',
      LogEvent ''status.measurement_done'' [(''idx'', JInt 0)]]\<rparr>) (JObject [(''name'', JString ''Ndt'')])
    in filter (\<lambda>ev. possibly_validate_event ev = Some ev) evs = evs)"
proof -
  let ?r = "idle_run\<lparr>nr_calls := [LogLine 1 ''x'', LogEvent ''status.measurement_done'' [(''idx'', JInt 0)]]\<rparr>"
  have ok: "\<forall>rn :: runnable. list_all call_ok (nr_calls ((\<lambda>rn. ?r) rn))"
    by (simp add: log_level_itoa_def MK_LOG_ERR_def valid_mk_event is_event_key_valid_def event_keys_def
      event_fields_def field_ok_def)
  show ?thesis
    unfolding Let_def filter_id_conv using task_events_valid [OF ok] by blast
qed

text \<open>C26: The options of a task arrive: an integer in range is read back as that integer, a boolean as that
  boolean, and a string that is not empty as that string, up to its first null byte, unless the task has a default for
  it; a default is not overridden by a string.\<close>

theorem options_reach_task:
  assumes "snd (task_setup env (JObject ms)) = Some rn" "map_of ms ''name'' = Some (JString task)"
    and "map_of ms ''options'' = Some (JObject opts)" "distinct (map fst opts)" "map_of opts k = Some v"
    and "make_runnable task = Some def_rn"
  shows "case v of
      JInt i \<Rightarrow> int_range i \<longrightarrow> settings_get_int (rn_options rn) k d = Inr i
    | JBool b \<Rightarrow> settings_get_bool (rn_options rn) k e = Inr b
    | JString s \<Rightarrow> s \<noteq> [] \<longrightarrow>
        settings_get_str (rn_options rn) k f = c_str (case rn_options def_rn k of None \<Rightarrow> s | Some t \<Rightarrow> t)
    | _ \<Rightarrow> True"
proof -
  obtain ms' rn0 where ms': "ms' = [m \<leftarrow> ms. fst m \<in> set (map fst setting_types)]"
    "make_runnable (text_of (the (map_of ms' ''name''))) = Some rn0" "snd (configure env ms' rn0) = Some rn"
    using task_setup_Some [OF assms(1)] by auto
  have at: "map_of ms' ''name'' = map_of ms ''name''" "map_of ms' ''options'' = map_of ms ''options''"
    unfolding ms'(1) by (rule map_of_filter_keys, simp add: setting_types_def)+
  have "rn0 = def_rn"
    using ms'(2) assms(2,6) by (simp add: at text_of_def)
  moreover have "snd (process_options env opts (rn_options rn0)) = Some (rn_options rn)"
    using configure_options [OF ms'(3)] assms(3) by (simp add: at members_def)
  ultimately have o': "rn_options rn k = stored env v (rn_options def_rn k)"
    using process_options_stored [of env opts "rn_options rn0" "rn_options rn" k] assms(4,5) by simp
  have "int_range 0" "int_range 1"
    by (simp_all add: int_range_def INT_MIN_def INT_MAX_def)
  then show ?thesis
    using o' as_int_of_int [unfolded scalar_of_int_def]
    by (auto simp: stored_def settings_get_int_def settings_get_str_def settings_get_bool_def as_string_def
      scalar_of_int_def c_str_int_dec stream_int_dec split: json.split option.split)
qed

lemmas setup_defs =
  task_setup_def validate_known_settings_shallow_def setting_types_def check_setting_def
  remove_unknown_settings_and_warn_def members_def elements_def text_of_def known_tasks_def make_runnable_def
  configure_def with_setting_def set_log_level_def check_option_def option_types_def store_option_def
  unknown_warnings_def andthen_def give_def

theorem options_reach_task_witness:
  "\<exists>rn. snd (task_setup test_json_env (JObject [(''name'', JString ''Ndt''),
      (''options'', JObject [(''no_bouncer'', JBool True)])])) = Some rn
    \<and> settings_get_bool (rn_options rn) ''no_bouncer'' False = Inr True"
proof -
  let ?ms = "[(''name'', JString ''Ndt''), (''options'', JObject [(''no_bouncer'', JBool True)])]"
  obtain rn where rn: "snd (task_setup test_json_env (JObject ?ms)) = Some rn"
    by (simp add: setup_defs)
  obtain rn0 where rn0: "make_runnable ''Ndt'' = Some rn0"
    by (simp add: make_runnable_def known_tasks_def)
  have "settings_get_bool (rn_options rn) ''no_bouncer'' False = Inr True"
    using options_reach_task [OF rn, of "''Ndt''" "[(''no_bouncer'', JBool True)]" "''no_bouncer''" "JBool True" rn0] rn0
    by simp
  with rn show ?thesis
    by blast
qed

text \<open>An event the settings disable is never given to the reader once the task has started; this holds of the log, too.\<close>

theorem disabled_events_silent:
  assumes "snd (task_setup env (JObject ms)) = Some rn" "map_of ms ''disabled_events'' = Some (JArray es)"
    and "JString key \<in> set es" "is_event_key_valid key" "ev \<in> set (run_events env interrupted nettest rn)"
  shows "json_at ''key'' ev \<noteq> Some (JString key)"
proof -
  obtain ms' rn0 where ms': "ms' = [m \<leftarrow> ms. fst m \<in> set (map fst setting_types)]" "snd (configure env ms' rn0) = Some rn"
    using task_setup_Some [OF assms(1)] by auto
  have "map_of ms' ''disabled_events'' = map_of ms ''disabled_events''"
    unfolding ms'(1) by (rule map_of_filter_keys) (simp add: setting_types_def)
  then have off: "key \<notin> set (rn_events rn)"
    using configure_events [OF ms'(2)] assms(2-4) by (simp add: elements_def)
  have call: "json_at ''key'' ev \<noteq> Some (JString key)"
    if "ev \<in> set (logger_events v (rn_events rn) c)" for v c
    using that off
    by (cases c) (auto simp: emit_event_ex_def log_line_def Let_def make_log_event_def mk_event_def split: if_splits)
  then show ?thesis
    using assms(5) off
    by (auto simp: run_events_def Let_def task_end_def emit_event_ex_def mk_event_def split: if_splits)
qed

theorem disabled_events_silent_witness:
  "\<exists>rn. snd (task_setup test_json_env (JObject [(''disabled_events'', JArray [JString ''status.started'']),
      (''name'', JString ''Ndt'')])) = Some rn
    \<and> (\<forall>ev \<in> set (run_events test_json_env False (\<lambda>_. idle_run) rn). json_at ''key'' ev \<noteq> Some (JString ''status.started''))"
proof -
  let ?ms = "[(''disabled_events'', JArray [JString ''status.started'']), (''name'', JString ''Ndt'')]"
  have v: "is_event_key_valid ''status.started''"
    by (simp add: is_event_key_valid_def event_keys_def)
  obtain rn where rn: "snd (task_setup test_json_env (JObject ?ms)) = Some rn"
    by (simp add: setup_defs v)
  have "json_at ''key'' ev \<noteq> Some (JString ''status.started'')"
    if "ev \<in> set (run_events test_json_env False (\<lambda>_. idle_run) rn)" for ev
    by (rule disabled_events_silent [OF rn _ _ v that]) auto
  with rn show ?thesis
    by blast
qed

text \<open>C35: What \<open>status.end\<close> says of the failure of a task that ran to its end: when it began without error there is none,
  whatever its end reported, and when it did not begin the error of the end takes the place of the error.\<close>

theorem task_failure_reported:
  assumes "nr_begin (nettest rn) = Some e" "nr_end (nettest rn) = Some e'" "''status.end'' \<in> set (rn_events rn)"
  shows "\<exists>d u. last (run_events env False nettest rn) = mk_event ''status.end''
    [(''downloaded_kb'', d), (''failure'', JString (if is_err e then reason e' else reason e)), (''uploaded_kb'', u)]"
proof -
  have "err_eq e (new NoError) \<longleftrightarrow> \<not> is_err e"
    by (simp add: err_eq_def is_err_def NoError_def new_def mk_error_def)
  then show ?thesis
    using assms by (auto simp: run_events_def Let_def task_end_def emit_event_ex_def task_error_def)
qed

theorem task_failure_reported_witness:
  "\<exists>d u. last (run_events test_json_env False (\<lambda>rn. idle_run\<lparr>nr_begin := Some (new GenericError), nr_end := Some (new NoError)\<rparr>)
      ((the (make_runnable ''Ndt''))\<lparr>rn_events := known_events\<rparr>)) = mk_event ''status.end''
    [(''downloaded_kb'', d), (''failure'', JString []), (''uploaded_kb'', u)]"
proof -
  define r where "r = (\<lambda>rn :: runnable. idle_run\<lparr>nr_begin := Some (new GenericError), nr_end := Some (new NoError)\<rparr>)"
  define rn where "rn = (the (make_runnable ''Ndt''))\<lparr>rn_events := known_events\<rparr>"
  have run: "nr_begin (r rn) = Some (new GenericError)" "nr_end (r rn) = Some (new NoError)"
    "''status.end'' \<in> set (rn_events rn)"
    by (simp_all add: r_def rn_def known_events_def)
  have "is_err (new GenericError)" "reason (new NoError) = []"
    by (simp_all add: GenericError_def NoError_def new_def mk_error_def is_err_def)
  then show ?thesis
    using task_failure_reported [where nettest = r and rn = rn and env = test_json_env, OF run] unfolding r_def rn_def by (simp only: if_True)
qed

end
