(* ===== verification/Report.thy ===== *)
theory Report
  imports Json
begin

text \<open>
  Reports and reporters (\<open>report/\<close>): the idempotent opening, writing and closing that every reporter
  inherits (\<open>base_reporter.cpp\<close>), the reporter that writes a file and the one that submits to a
  collector, as providers of one interface, the filling of an entry and the operations of a
  report on all its reporters.
\<close>

section \<open>Errors\<close>

definition ReportAlreadyOpenError :: error_class where
  "ReportAlreadyOpenError = (MK_ERR_REPORT 0, ''report_already_open'')"
definition ReportNotOpenError :: error_class where
  "ReportNotOpenError = (MK_ERR_REPORT 1, ''report_not_open'')"
definition ReportAlreadyClosedError :: error_class where
  "ReportAlreadyClosedError = (MK_ERR_REPORT 2, ''report_already_closed'')"
definition ReportEofError :: error_class where
  "ReportEofError = (MK_ERR_REPORT 3, ''report_eof_error'')"
definition ReportIoError :: error_class where
  "ReportIoError = (MK_ERR_REPORT 4, ''report_io_error'')"
definition ReportLogicalError :: error_class where
  "ReportLogicalError = (MK_ERR_REPORT 5, ''report_formatting_error'')"
definition DuplicateEntrySubmitError :: error_class where
  "DuplicateEntrySubmitError = (MK_ERR_REPORT 6, ''duplicate_entry_submitted'')"
definition MissingReportIdError :: error_class where
  "MissingReportIdError = (MK_ERR_REPORT 7, ''missing_report_id'')"
definition MultipleReportIdsError :: error_class where
  "MultipleReportIdsError = (MK_ERR_REPORT 8, ''multiple_inconsistent_report_ids'')"

lemmas report_error_defs [err_simps] =
  ReportAlreadyOpenError_def ReportNotOpenError_def ReportAlreadyClosedError_def ReportEofError_def
  ReportIoError_def ReportLogicalError_def DuplicateEntrySubmitError_def MissingReportIdError_def
  MultipleReportIdsError_def

section \<open>The base of every reporter\<close>

record base =
  bs_openned :: bool
  bs_closed :: bool
  bs_prev_entry :: string

definition base_init :: base where
  "base_init = \<lparr>bs_openned = False, bs_closed = False, bs_prev_entry = []\<rparr>"

text \<open>Each operation in two halves: what is answered at once, if anything, and what the callback of
  the continuation does.\<close>

definition open_now :: "base \<Rightarrow> error option" where
  "open_now b = (if bs_openned b then Some (new_e NoError (new ReportAlreadyOpenError)) else None)"

definition open_done :: "error \<Rightarrow> base \<Rightarrow> error \<times> base" where
  "open_done err b = (if is_err err then (err, b) else (new NoError, b\<lparr>bs_openned := True\<rparr>))"

definition write_now :: "string \<Rightarrow> base \<Rightarrow> error option" where
  "write_now serio b =
    (if \<not> bs_openned b then Some (new ReportNotOpenError)
     else if bs_closed b then Some (new ReportAlreadyClosedError)
     else if serio = bs_prev_entry b then Some (new_e NoError (new DuplicateEntrySubmitError))
     else None)"

definition write_done :: "string \<Rightarrow> error \<Rightarrow> base \<Rightarrow> error \<times> base" where
  "write_done serio err b = (if is_err err then (err, b) else (new NoError, b\<lparr>bs_prev_entry := serio\<rparr>))"

definition close_now :: "base \<Rightarrow> error option" where
  "close_now b = (if bs_closed b then Some (new_e NoError (new ReportAlreadyClosedError)) else None)"

definition close_done :: "error \<Rightarrow> base \<Rightarrow> error \<times> base" where
  "close_done err b = (if is_err err then (err, b) else (new NoError, b\<lparr>bs_closed := True\<rparr>))"

text \<open>The operation around its continuation \<open>cc\<close>.\<close>

definition guarded ::
  "(base \<Rightarrow> error option) \<Rightarrow> (error \<Rightarrow> base \<Rightarrow> error \<times> base) \<Rightarrow> ('s \<Rightarrow> error \<times> 's) \<Rightarrow> base \<times> 's \<Rightarrow>
    error \<times> (base \<times> 's)" where
  "guarded now fin cc r =
    (case now (fst r) of
       Some e \<Rightarrow> (e, r)
     | None \<Rightarrow> let (err, s) = cc (snd r); (err, b) = fin err (fst r) in (err, (b, s)))"

definition do_open :: "('s \<Rightarrow> error \<times> 's) \<Rightarrow> base \<times> 's \<Rightarrow> error \<times> (base \<times> 's)" where
  "do_open = guarded open_now open_done"

definition do_write_entry :: "string \<Rightarrow> ('s \<Rightarrow> error \<times> 's) \<Rightarrow> base \<times> 's \<Rightarrow> error \<times> (base \<times> 's)" where
  "do_write_entry serio = guarded (write_now serio) (write_done serio)"

definition do_close :: "('s \<Rightarrow> error \<times> 's) \<Rightarrow> base \<times> 's \<Rightarrow> error \<times> (base \<times> 's)" where
  "do_close = guarded close_now close_done"

text \<open>The operations of a reporter, an entry being its text, and a run of them with the errors they call
  back with.\<close>

datatype reporter_op = Open | Write string | Close

record 's backend =
  bk_open :: "'s \<Rightarrow> error \<times> 's"
  bk_write :: "string \<Rightarrow> 's \<Rightarrow> error \<times> 's"
  bk_close :: "'s \<Rightarrow> error \<times> 's"

fun reporter_step :: "'s backend \<Rightarrow> reporter_op \<Rightarrow> base \<times> 's \<Rightarrow> error \<times> (base \<times> 's)" where
  "reporter_step bk Open r = do_open (bk_open bk) r"
| "reporter_step bk (Write serio) r = do_write_entry serio (bk_write bk serio) r"
| "reporter_step bk Close r = do_close (bk_close bk) r"

fun reporter_run :: "'s backend \<Rightarrow> reporter_op list \<Rightarrow> base \<times> 's \<Rightarrow> error list \<times> (base \<times> 's)" where
  "reporter_run bk [] r = ([], r)"
| "reporter_run bk (o' # os) r =
    (let (e, r) = reporter_step bk o' r; (es, r) = reporter_run bk os r in (e # es, r))"

section \<open>The file reporter\<close>

text \<open>An output stream with its flags and the lines it took; the operating system decides whether the
  file opens, whether the write with a given number works and whether the file closes.\<close>

record os_api =
  os_open :: "string \<Rightarrow> bool"
  os_write :: "nat \<Rightarrow> bool"
  os_close :: bool

record fstream =
  fs_open :: bool
  fs_eof :: bool
  fs_bad :: bool
  fs_fail :: bool
  fs_writes :: nat
  fs_lines :: "string list"

definition fstream_init :: fstream where
  "fstream_init = \<lparr>fs_open = False, fs_eof = False, fs_bad = False, fs_fail = False, fs_writes = 0, fs_lines = []\<rparr>"

definition fs_good :: "fstream \<Rightarrow> bool" where
  "fs_good f \<longleftrightarrow> \<not> fs_eof f \<and> \<not> fs_bad f \<and> \<not> fs_fail f"

definition stream_open :: "os_api \<Rightarrow> string \<Rightarrow> fstream \<Rightarrow> fstream" where
  "stream_open os path f =
    (if fs_open f \<or> \<not> os_open os path then f\<lparr>fs_fail := True\<rparr>
     else f\<lparr>fs_open := True, fs_eof := False, fs_bad := False, fs_fail := False, fs_lines := []\<rparr>)"

definition stream_line :: "os_api \<Rightarrow> string \<Rightarrow> fstream \<Rightarrow> fstream" where
  "stream_line os line f =
    (let n = fs_writes f; f = f\<lparr>fs_writes := n + 1\<rparr> in
     if \<not> fs_good f then f\<lparr>fs_fail := True\<rparr>
     else if fs_open f \<and> os_write os n then f\<lparr>fs_lines := fs_lines f @ [line]\<rparr>
     else f\<lparr>fs_bad := True\<rparr>)"

definition stream_close :: "os_api \<Rightarrow> fstream \<Rightarrow> fstream" where
  "stream_close os f =
    (if fs_open f \<and> os_close os then f\<lparr>fs_open := False\<rparr> else f\<lparr>fs_open := False, fs_fail := True\<rparr>)"

definition map_error :: "fstream \<Rightarrow> error" where
  "map_error f =
    (if fs_eof f then new ReportEofError
     else if fs_bad f then new ReportIoError
     else if fs_fail f then new ReportLogicalError
     else new GenericError)"

text \<open>With the file name \<open>-\<close> the entries go to the standard output, which is open.\<close>

definition file_open :: "os_api \<Rightarrow> string \<Rightarrow> fstream \<Rightarrow> error \<times> fstream" where
  "file_open os filename f =
    (if filename = ''-'' then (new NoError, f)
     else let f = stream_open os filename f in
       if \<not> fs_good f then (map_error f, f) else (new NoError, f))"

definition file_write_entry :: "os_api \<Rightarrow> string \<Rightarrow> string \<Rightarrow> fstream \<Rightarrow> error \<times> fstream" where
  "file_write_entry os filename serio f =
    (let f = stream_line os serio f in if \<not> fs_good f then (map_error f, f) else (new NoError, f))"

definition file_close :: "os_api \<Rightarrow> string \<Rightarrow> fstream \<Rightarrow> error \<times> fstream" where
  "file_close os filename f =
    (if filename = ''-'' then (new NoError, f)
     else let f = stream_close os f in
       if \<not> fs_good f then (map_error f, f) else (new NoError, f))"

definition file_backend :: "os_api \<Rightarrow> string \<Rightarrow> fstream backend" where
  "file_backend os filename =
    \<lparr>bk_open = file_open os filename, bk_write = file_write_entry os filename, bk_close = file_close os filename\<rparr>"

definition file_stream :: "string \<Rightarrow> fstream" where
  "file_stream filename = (if filename = ''-'' then fstream_init\<lparr>fs_open := True\<rparr> else fstream_init)"

section \<open>The collector reporter\<close>

text \<open>The answers of the collector to its calls, by number: the creation of a report, the update of a
  report and its closing.\<close>

record collector_api =
  col_create :: "nat \<Rightarrow> error \<times> string"
  col_update :: "nat \<Rightarrow> error"
  col_close :: "nat \<Rightarrow> error"

record ooni =
  oo_report_id :: string
  oo_calls :: nat
  oo_submitted :: "(string \<times> string) list"
  oo_closed :: "string list"

definition ooni_init :: ooni where
  "ooni_init = \<lparr>oo_report_id = [], oo_calls = 0, oo_submitted = [], oo_closed = []\<rparr>"

definition ooni_open :: "collector_api \<Rightarrow> ooni \<Rightarrow> error \<times> ooni" where
  "ooni_open api s =
    (let (err, rid) = col_create api (oo_calls s); s = s\<lparr>oo_calls := oo_calls s + 1\<rparr> in
     (err, if \<not> is_err err then s\<lparr>oo_report_id := rid\<rparr> else s))"

definition ooni_write_entry :: "collector_api \<Rightarrow> string \<Rightarrow> ooni \<Rightarrow> error \<times> ooni" where
  "ooni_write_entry api serio s =
    (if oo_report_id s = [] then (new MissingReportIdError, s)
     else let err = col_update api (oo_calls s); s = s\<lparr>oo_calls := oo_calls s + 1\<rparr> in
       (err, if \<not> is_err err then s\<lparr>oo_submitted := oo_submitted s @ [(oo_report_id s, serio)]\<rparr> else s))"

definition ooni_close :: "collector_api \<Rightarrow> ooni \<Rightarrow> error \<times> ooni" where
  "ooni_close api s =
    (if oo_report_id s = [] then (new MissingReportIdError, s)
     else let err = col_close api (oo_calls s); s = s\<lparr>oo_calls := oo_calls s + 1\<rparr> in
       (err, if \<not> is_err err then s\<lparr>oo_closed := oo_closed s @ [oo_report_id s]\<rparr> else s))"

definition ooni_backend :: "collector_api \<Rightarrow> ooni backend" where
  "ooni_backend api = \<lparr>bk_open = ooni_open api, bk_write = ooni_write_entry api, bk_close = ooni_close api\<rparr>"

section \<open>The interface of a reporter\<close>

text \<open>What the base of the reporters relies on: a write that succeeds adds its entry at the end and one that
  fails adds nothing, opening starts with an empty log and closing leaves it alone.\<close>

locale reporter_backend =
  fixes bk :: "'s backend" and entries :: "'s \<Rightarrow> string list"
  assumes open_empty: "entries s = [] \<Longrightarrow> entries (snd (bk_open bk s)) = []"
    and write_appends: "entries (snd (bk_write bk d s)) = (if is_err (fst (bk_write bk d s)) then entries s else entries s @ [d])"
    and close_keeps: "entries (snd (bk_close bk s)) = entries s"
begin

definition log_inv :: "base \<times> 's \<Rightarrow> bool" where
  "log_inv r \<longleftrightarrow> (\<not> bs_openned (fst r) \<longrightarrow> entries (snd r) = [])
    \<and> bs_prev_entry (fst r) = (if entries (snd r) = [] then [] else last (entries (snd r)))
    \<and> successively (\<noteq>) (entries (snd r))"

text \<open>What one operation adds to the log.\<close>

definition logged :: "reporter_op \<Rightarrow> error \<Rightarrow> string list" where
  "logged o' e = (case o' of Write d \<Rightarrow> if e = new NoError then [d] else [] | _ \<Rightarrow> [])"

lemma step_logged:
  assumes "log_inv r"
  shows "entries (snd (snd (reporter_step bk o' r))) = entries (snd r) @ logged o' (fst (reporter_step bk o' r))
    \<and> log_inv (snd (reporter_step bk o' r))"
proof -
  obtain b st where r: "r = (b, st)"
    by force
  have err: "is_err e \<Longrightarrow> e \<noteq> new NoError" for e
    by auto
  have now: "write_now d b = Some e \<Longrightarrow> e \<noteq> new NoError" for d e
    by (auto simp: write_now_def new_e_def new_def mk_error_child_def mk_error_def add_child_error_def
      err_simps split: if_splits)
  show ?thesis
  proof (cases o')
    case Open
    then show ?thesis
      using assms open_empty [of st] unfolding r
      by (cases "bk_open bk st")
        (auto simp: do_open_def guarded_def open_now_def open_done_def log_inv_def logged_def)
  next
    case (Write d)
    obtain e st' where w: "bk_write bk d st = (e, st')"
      by force
    have st': "entries st' = (if is_err e then entries st else entries st @ [d])"
      using write_appends [of d st] w by simp
    show ?thesis
    proof (cases "write_now d b")
      case None
      then have "bs_openned b" "d \<noteq> bs_prev_entry b"
        by (auto simp: write_now_def split: if_splits)
      then show ?thesis
        using assms w st' None err [of e] unfolding r Write
        by (cases "is_err e")
          (auto simp: do_write_entry_def guarded_def write_done_def log_inv_def logged_def successively_append_iff)
    next
      case (Some x)
      then show ?thesis
        using assms now unfolding r Write by (simp add: do_write_entry_def guarded_def logged_def)
    qed
  next
    case Close
    then show ?thesis
      using assms close_keeps [of st] unfolding r
      by (cases "bk_close bk st")
        (auto simp: do_close_def guarded_def close_now_def close_done_def log_inv_def logged_def)
  qed
qed

lemma run_logged:
  assumes "log_inv r"
  shows "entries (snd (snd (reporter_run bk os r)))
      = entries (snd r) @ concat (map2 logged os (fst (reporter_run bk os r)))
    \<and> log_inv (snd (reporter_run bk os r))"
  using assms
proof (induction os arbitrary: r)
  case (Cons o' os)
  obtain e r1 where r1: "reporter_step bk o' r = (e, r1)"
    by (rule prod.exhaust)
  have "entries (snd r1) = entries (snd r) @ logged o' e" "log_inv r1"
    using step_logged [OF Cons.prems, of o'] r1 by simp_all
  then show ?case
    using Cons.IH [of r1] r1 by (simp add: case_prod_beta)
qed simp

end

lemma is_err_map_error [simp]: "is_err (map_error f)"
  by (simp add: map_error_def err_simps is_err_def new_def mk_error_def GenericError_def)

interpretation frep: reporter_backend "file_backend os filename" fs_lines
proof
  show "fs_lines s = [] \<Longrightarrow> fs_lines (snd (bk_open (file_backend os filename) s)) = []" for s
    by (simp add: file_backend_def file_open_def stream_open_def Let_def)
  show "fs_lines (snd (bk_write (file_backend os filename) d s)) =
      (if is_err (fst (bk_write (file_backend os filename) d s)) then fs_lines s else fs_lines s @ [d])" for d s
    by (simp add: file_backend_def file_write_entry_def stream_line_def fs_good_def Let_def)
  show "fs_lines (snd (bk_close (file_backend os filename) s)) = fs_lines s" for s
    by (simp add: file_backend_def file_close_def stream_close_def Let_def)
qed

interpretation orep: reporter_backend "ooni_backend api" "\<lambda>s. map snd (oo_submitted s)"
proof
  show "map snd (oo_submitted s) = [] \<Longrightarrow> map snd (oo_submitted (snd (bk_open (ooni_backend api) s))) = []" for s
    by (simp add: ooni_backend_def ooni_open_def Let_def case_prod_beta)
  show "map snd (oo_submitted (snd (bk_write (ooni_backend api) d s))) =
      (if is_err (fst (bk_write (ooni_backend api) d s)) then map snd (oo_submitted s)
       else map snd (oo_submitted s) @ [d])" for d s
    by (simp add: ooni_backend_def ooni_write_entry_def Let_def err_simps is_err_def new_def mk_error_def)
  show "map snd (oo_submitted (snd (bk_close (ooni_backend api) s))) = map snd (oo_submitted s)" for s
    by (simp add: ooni_backend_def ooni_close_def Let_def)
qed

text \<open>The entries whose write was answered with no error and no child error.\<close>

definition accepted :: "reporter_op list \<Rightarrow> error list \<Rightarrow> string list" where
  "accepted os es = concat (map2 (\<lambda>o' e. case o' of Write d \<Rightarrow> if e = new NoError then [d] else [] | _ \<Rightarrow> []) os es)"

lemma frep_logged: "concat (map2 frep.logged os es) = accepted os es"
  by (simp add: accepted_def frep.logged_def [abs_def])

lemma orep_logged: "concat (map2 orep.logged os es) = accepted os es"
  by (simp add: accepted_def orep.logged_def [abs_def])

section \<open>The file of a report\<close>

text \<open>What happens to the stream when nothing fails.\<close>

definition os_fine :: "os_api \<Rightarrow> bool" where
  "os_fine os \<longleftrightarrow> (\<forall>path. os_open os path) \<and> (\<forall>n. os_write os n) \<and> os_close os"

definition fs_fine :: "fstream \<Rightarrow> bool" where
  "fs_fine f \<longleftrightarrow> fs_open f \<and> fs_good f"

lemma file_write_fine:
  assumes "os_fine os" "fs_fine f"
  shows "\<exists>f'. file_write_entry os filename d f = (new NoError, f') \<and> fs_fine f' \<and> fs_lines f' = fs_lines f @ [d]"
  using assms by (auto simp: os_fine_def fs_fine_def file_write_entry_def stream_line_def fs_good_def Let_def)

lemma reporter_run_append:
  "reporter_run bk (os @ os') r =
    (let (es, r) = reporter_run bk os r; (es', r) = reporter_run bk os' r in (es @ es', r))"
  by (induction os arbitrary: r) (simp_all add: case_prod_beta)

fun no_repeats :: "string \<Rightarrow> string list \<Rightarrow> string list" where
  "no_repeats p [] = []"
| "no_repeats p (d # ds) = (if d = p then no_repeats p ds else d # no_repeats d ds)"

lemma writes_fine:
  assumes "os_fine os" "fs_fine f" "bs_openned b" "\<not> bs_closed b"
  shows "\<exists>es b' f'. reporter_run (file_backend os filename) (map Write ds) (b, f) = (es, (b', f'))
    \<and> Ball (set es) (\<lambda>e. \<not> is_err e) \<and> length es = length ds \<and> fs_fine f' \<and> bs_openned b' \<and> \<not> bs_closed b'
    \<and> fs_lines f' = fs_lines f @ no_repeats (bs_prev_entry b) ds"
  using assms(2-4)
proof (induction ds arbitrary: b f)
  case (Cons d ds)
  let ?bk = "file_backend os filename"
  have "\<exists>e b1 f1. reporter_step ?bk (Write d) (b, f) = (e, (b1, f1)) \<and> \<not> is_err e \<and> fs_fine f1 \<and> bs_openned b1
      \<and> \<not> bs_closed b1 \<and> fs_lines f1 @ no_repeats (bs_prev_entry b1) ds = fs_lines f @ no_repeats (bs_prev_entry b) (d # ds)"
  proof (cases "d = bs_prev_entry b")
    case True
    then show ?thesis
      using Cons.prems by (auto simp: do_write_entry_def guarded_def write_now_def new_e_def mk_error_child_def
          NoError_def add_child_error_def mk_error_def is_err_def)
  next
    case False
    obtain f1 where f1: "file_write_entry os filename d f = (new NoError, f1)" "fs_fine f1" "fs_lines f1 = fs_lines f @ [d]"
      using file_write_fine [OF assms(1) Cons.prems(1)] by blast
    then show ?thesis
      using False Cons.prems by (auto simp: do_write_entry_def guarded_def write_now_def write_done_def file_backend_def)
  qed
  then obtain e b1 f1 where s1: "reporter_step ?bk (Write d) (b, f) = (e, (b1, f1))" "\<not> is_err e" "fs_fine f1"
    "bs_openned b1" "\<not> bs_closed b1"
    "fs_lines f1 @ no_repeats (bs_prev_entry b1) ds = fs_lines f @ no_repeats (bs_prev_entry b) (d # ds)"
    by blast
  obtain es b' f' where "reporter_run ?bk (map Write ds) (b1, f1) = (es, (b', f'))"
    "Ball (set es) (\<lambda>e. \<not> is_err e)" "length es = length ds" "fs_fine f'" "bs_openned b'" "\<not> bs_closed b'"
    "fs_lines f' = fs_lines f1 @ no_repeats (bs_prev_entry b1) ds"
    using Cons.IH [OF s1(3-5)] by blast
  then show ?case
    using s1 by (intro exI [of _ "e # es"] exI [of _ b'] exI [of _ f']) simp
qed simp

lemma no_repeats_remdups: "p \<noteq> d \<Longrightarrow> no_repeats p (d # ds) = remdups_adj (d # ds)"
proof (induction ds arbitrary: p d)
  case (Cons d' ds)
  then show ?case
    using Cons.IH [of p d] Cons.IH [of d d'] by (cases "d' = d") auto
qed simp

lemma no_repeats_init: "[] \<notin> set ds \<Longrightarrow> no_repeats [] ds = remdups_adj ds"
  by (cases ds) (simp_all add: no_repeats_remdups del: no_repeats.simps(2))

text \<open>Everything submitted goes to the report that was created.\<close>

definition ooni_ids :: "base \<times> ooni \<Rightarrow> bool" where
  "ooni_ids r \<longleftrightarrow> (\<not> bs_openned (fst r) \<longrightarrow> oo_submitted (snd r) = [] \<and> oo_closed (snd r) = [])
    \<and> fst ` set (oo_submitted (snd r)) \<union> set (oo_closed (snd r)) \<subseteq> {oo_report_id (snd r)} - {[]}"

lemma ooni_ids_step:
  assumes "ooni_ids r" "bs_openned (fst r) \<longleftrightarrow> oo_report_id (snd r) \<noteq> []" "\<forall>n. \<not> is_err (fst (col_create api n)) \<longrightarrow> snd (col_create api n) \<noteq> []"
  shows "ooni_ids (snd (reporter_step (ooni_backend api) o' r))
    \<and> (bs_openned (fst (snd (reporter_step (ooni_backend api) o' r)))
        \<longleftrightarrow> oo_report_id (snd (snd (reporter_step (ooni_backend api) o' r))) \<noteq> [])"
proof -
  obtain b st where r: "r = (b, st)"
    by force
  show ?thesis
  proof (cases o')
    case Open
    obtain e rid where c: "col_create api (oo_calls st) = (e, rid)"
      by force
    then have "\<not> is_err e \<longrightarrow> rid \<noteq> []"
      using assms(3) by (metis fst_conv snd_conv)
    then show ?thesis
      using assms(1,2) c unfolding r Open
      by (auto simp: do_open_def guarded_def open_now_def open_done_def ooni_backend_def ooni_open_def ooni_ids_def Let_def)
  next
    case (Write d)
    then show ?thesis
      using assms(1,2) unfolding r
      by (auto simp: do_write_entry_def guarded_def write_now_def write_done_def ooni_backend_def ooni_write_entry_def
          ooni_ids_def Let_def)
  next
    case Close
    then show ?thesis
      using assms(1,2) unfolding r
      by (auto simp: do_close_def guarded_def close_now_def close_done_def ooni_backend_def ooni_close_def
          ooni_ids_def Let_def)
  qed
qed

lemma ooni_ids_run:
  assumes "ooni_ids r" "bs_openned (fst r) \<longleftrightarrow> oo_report_id (snd r) \<noteq> []"
    "\<forall>n. \<not> is_err (fst (col_create api n)) \<longrightarrow> snd (col_create api n) \<noteq> []"
  shows "ooni_ids (snd (reporter_run (ooni_backend api) os r))"
  using assms
proof (induction os arbitrary: r)
  case (Cons o' os)
  then show ?case
    using ooni_ids_step [OF Cons.prems] by (simp add: case_prod_beta)
qed simp

section \<open>The report\<close>

record report =
  rp_test_name :: string
  rp_test_version :: string
  rp_probe_ip :: string
  rp_probe_asn :: string
  rp_probe_cc :: string
  rp_test_start_time :: string
  rp_options :: settings
  rp_report_id :: string

text \<open>The constants of a build: the version, the full version and the platform.\<close>

record build =
  bd_version :: string
  bd_version_full :: string
  bd_platform :: string

fun entry_sets :: "(string list \<times> json) list \<Rightarrow> json \<Rightarrow> json res" where
  "entry_sets [] entry = Inr entry"
| "entry_sets (([k], v) # kvs) entry =
    (case entry_set k v entry of Inl e \<Rightarrow> Inl e | Inr entry \<Rightarrow> entry_sets kvs entry)"
| "entry_sets (([k, k2], v) # kvs) entry =
    (case entry_set2 k k2 v entry of Inl e \<Rightarrow> Inl e | Inr entry \<Rightarrow> entry_sets kvs entry)"
| "entry_sets (_ # kvs) entry = entry_sets kvs entry"

definition fill_sets :: "build \<Rightarrow> report \<Rightarrow> (string list \<times> json) list" where
  "fill_sets bd rp =
      [([''test_name''], JString (rp_test_name rp)),
       ([''test_version''], JString (rp_test_version rp)),
       ([''test_start_time''], JString (rp_test_start_time rp)),
       ([''probe_ip''], JString (rp_probe_ip rp)),
       ([''probe_asn''], JString (rp_probe_asn rp)),
       ([''probe_cc''], JString (rp_probe_cc rp)),
       ([''software_name''], JString (settings_get_str (rp_options rp) ''software_name'' ''measurement_kit'')),
       ([''software_version''], JString (settings_get_str (rp_options rp) ''software_version'' (bd_version bd))),
       ([''data_format_version''], JString ''0.2.0''),
       ([''annotations'', ''platform''], JString (settings_get_str (rp_options rp) ''platform'' (bd_platform bd))),
       ([''annotations'', ''engine_name''], JString ''libmeasurement_kit''),
       ([''annotations'', ''engine_version''], JString (bd_version bd)),
       ([''annotations'', ''engine_version_full''], JString (bd_version_full bd)),
       ([''report_id''], JString (rp_report_id rp))]"

definition fill_entry :: "build \<Rightarrow> report \<Rightarrow> json \<Rightarrow> json res" where
  "fill_entry bd rp entry = entry_sets (fill_sets bd rp) entry"

text \<open>The reporters of a report and its operations on all of them, in their order; the error is the one of
  \<open>parallel\<close>.\<close>

datatype reporter = FileReporter os_api string "base \<times> fstream" | OoniReporter collector_api "base \<times> ooni"

fun reporter_do :: "reporter_op \<Rightarrow> reporter \<Rightarrow> error \<times> reporter" where
  "reporter_do o' (FileReporter os filename r) =
    (let (e, r) = reporter_step (file_backend os filename) o' r in (e, FileReporter os filename r))"
| "reporter_do o' (OoniReporter api r) =
    (let (e, r) = reporter_step (ooni_backend api) o' r in (e, OoniReporter api r))"

definition parallel_error :: "error list \<Rightarrow> error" where
  "parallel_error es =
    (if \<exists>e \<in> set es. is_err e
     then Error es (code (new ParallelOperationError)) (reason (new ParallelOperationError))
     else Error es (code (new NoError)) (reason (new NoError)))"

definition report_all :: "reporter_op \<Rightarrow> reporter list \<Rightarrow> error \<times> reporter list" where
  "report_all o' rs = (parallel_error (map (fst \<circ> reporter_do o') rs), map (snd \<circ> reporter_do o') rs)"

definition reporter_id :: "reporter \<Rightarrow> string" where
  "reporter_id r = (case r of FileReporter _ _ _ \<Rightarrow> [] | OoniReporter _ (_, s) \<Rightarrow> oo_report_id s)"

text \<open>\<open>open\<close> leaves the identifier the collector gave in the report.\<close>

definition report_open :: "report \<Rightarrow> reporter list \<Rightarrow> error \<times> report \<times> reporter list" where
  "report_open rp rs =
    (let (e, rs) = report_all Open rs in
     (e, foldl (\<lambda>rp r. if reporter_id r \<noteq> [] then rp\<lparr>rp_report_id := reporter_id r\<rparr> else rp) rp rs, rs))"

definition report_write_entry :: "string \<Rightarrow> reporter list \<Rightarrow> error \<times> reporter list" where
  "report_write_entry serio rs = report_all (Write serio) rs"

definition report_close :: "reporter list \<Rightarrow> error \<times> reporter list" where
  "report_close rs = report_all Close rs"

section \<open>Properties\<close>

text \<open>C13: The file of a report is a log: whatever fails in the operating system, it holds the entries whose writes
  were answered with no error and no child error, in order, and never the same entry twice
  in a row.\<close>

theorem file_is_log_of_accepted:
  "let (es, b, f) = reporter_run (file_backend os filename) ops (base_init, file_stream filename)
   in fs_lines f = accepted ops es \<and> successively (\<noteq>) (fs_lines f)"
proof -
  have "frep.log_inv (base_init, file_stream filename)"
    by (simp add: frep.log_inv_def base_init_def file_stream_def fstream_init_def)
  note run = frep.run_logged [OF this, of os filename ops]
  have "fs_lines (file_stream filename) = []"
    by (simp add: file_stream_def fstream_init_def)
  then have "fs_lines (snd (snd (reporter_run (file_backend os filename) ops (base_init, file_stream filename))))
      = accepted ops (fst (reporter_run (file_backend os filename) ops (base_init, file_stream filename)))"
    using run by (simp add: frep_logged)
  moreover have "successively (\<noteq>)
      (fs_lines (snd (snd (reporter_run (file_backend os filename) ops (base_init, file_stream filename)))))"
    using run unfolding frep.log_inv_def by blast
  ultimately show ?thesis
    by (simp add: case_prod_beta)
qed

text \<open>A report to the collector is a log, too: what was submitted is what the writes accepted, never the
  same entry twice in a row, and all of it, and its closing, went to the one report that was created.\<close>

theorem collector_is_log_of_accepted:
  assumes "\<forall>n. \<not> is_err (fst (col_create api n)) \<longrightarrow> snd (col_create api n) \<noteq> []"
    and "reporter_run (ooni_backend api) ops (base_init, ooni_init) = (es, (b, s))"
  shows "map snd (oo_submitted s) = accepted ops es \<and> successively (\<noteq>) (map snd (oo_submitted s))
    \<and> fst ` set (oo_submitted s) \<union> set (oo_closed s) \<subseteq> {oo_report_id s} - {[]}"
proof -
  have "orep.log_inv (base_init, ooni_init)"
    by (simp add: orep.log_inv_def base_init_def ooni_init_def)
  note run = orep.run_logged [OF this, of api ops, unfolded assms(2) fst_conv snd_conv]
  have "map snd (oo_submitted s) = accepted ops es"
    using run by (simp add: orep_logged ooni_init_def)
  moreover have "successively (\<noteq>) (map snd (oo_submitted s))"
    using run unfolding orep.log_inv_def snd_conv by blast
  moreover have "ooni_ids (base_init, ooni_init)" "bs_openned base_init \<longleftrightarrow> oo_report_id ooni_init \<noteq> []"
    by (simp_all add: ooni_ids_def base_init_def ooni_init_def)
  then have "ooni_ids (b, s)"
    using ooni_ids_run [of "(base_init, ooni_init)" api ops] assms by simp
  ultimately show ?thesis
    by (simp add: ooni_ids_def)
qed

theorem collector_is_log_of_accepted_witness:
  "\<exists>es b s. reporter_run (ooni_backend \<lparr>col_create = \<lambda>_. (new NoError, ''id''), col_update = \<lambda>_. new NoError,
      col_close = \<lambda>_. new NoError\<rparr>) [Open, Write ''a'', Write ''a'', Close] (base_init, ooni_init) = (es, (b, s))
    \<and> fst ` set (oo_submitted s) \<union> set (oo_closed s) \<subseteq> {oo_report_id s} - {[]}"
proof -
  let ?api = "\<lparr>col_create = \<lambda>_. (new NoError, ''id''), col_update = \<lambda>_. new NoError, col_close = \<lambda>_. new NoError\<rparr>"
  obtain es b s where r: "reporter_run (ooni_backend ?api) [Open, Write ''a'', Write ''a'', Close] (base_init, ooni_init)
      = (es, (b, s))"
    by (metis prod.exhaust)
  have "\<forall>n. \<not> is_err (fst (col_create ?api n)) \<longrightarrow> snd (col_create ?api n) \<noteq> []"
    by simp
  from collector_is_log_of_accepted [OF this r] r show ?thesis
    by blast
qed

text \<open>When nothing fails in the operating system, opening a report, writing entries and closing it reports no error and
  leaves a file with all the entries, an entry repeated in a row being written once.\<close>

theorem file_report_complete:
  assumes "os_fine os" "[] \<notin> set ds"
  shows "\<exists>es b f. reporter_run (file_backend os filename) (Open # map Write ds @ [Close]) (base_init, file_stream filename)
      = (es, (b, f)) \<and> Ball (set es) (\<lambda>e. \<not> is_err e) \<and> bs_closed b \<and> fs_lines f = remdups_adj ds"
proof -
  let ?bk = "file_backend os filename"
  obtain b0 f0 where o0: "reporter_step ?bk Open (base_init, file_stream filename) = (new NoError, (b0, f0))"
    "fs_fine f0" "bs_openned b0" "\<not> bs_closed b0" "bs_prev_entry b0 = []" "fs_lines f0 = []"
    using assms(1)
    by (auto simp: do_open_def guarded_def open_now_def open_done_def base_init_def file_stream_def fstream_init_def
        file_backend_def file_open_def stream_open_def os_fine_def fs_fine_def fs_good_def)
  obtain es b f where w: "reporter_run ?bk (map Write ds) (b0, f0) = (es, (b, f))" "Ball (set es) (\<lambda>e. \<not> is_err e)"
    "fs_fine f" "bs_openned b" "\<not> bs_closed b" "fs_lines f = no_repeats [] ds"
    using writes_fine [OF assms(1) o0(2-4)] o0(5,6) by fastforce
  obtain b1 f1 where c: "reporter_step ?bk Close (b, f) = (new NoError, (b1, f1))" "bs_closed b1" "fs_lines f1 = fs_lines f"
    using assms(1) w(3,5)
    by (cases "filename = ''-''")
      (auto simp: do_close_def guarded_def close_now_def close_done_def file_backend_def file_close_def
        stream_close_def os_fine_def fs_fine_def fs_good_def Let_def)
  have "reporter_run ?bk (Open # map Write ds @ [Close]) (base_init, file_stream filename)
      = (new NoError # es @ [new NoError], (b1, f1))"
    using o0(1) w(1) c(1) by (simp add: reporter_run_append)
  moreover have "fs_lines f1 = remdups_adj ds"
    using c(3) w(6) no_repeats_init [OF assms(2)] by simp
  ultimately show ?thesis
    using w(2) c(2) by auto
qed

theorem file_report_complete_witness:
  "\<exists>es b f. reporter_run (file_backend \<lparr>os_open = \<lambda>_. True, os_write = \<lambda>_. True, os_close = True\<rparr> ''r.njson'')
      (Open # map Write [''a'', ''a'', ''b''] @ [Close]) (base_init, file_stream ''r.njson'') = (es, (b, f))
    \<and> fs_lines f = [''a'', ''b'']"
  using file_report_complete [of "\<lparr>os_open = \<lambda>_. True, os_write = \<lambda>_. True, os_close = True\<rparr>" "[''a'', ''a'', ''b'']"
      "''r.njson''"] by (auto simp: os_fine_def)

end
