(* ===== verification/OoniUtils.thy ===== *)
theory OoniUtils
  imports Dns Http Json Utf8 Base64 "HOL-Library.List_Lexorder" "HOL-Library.Char_ord"
begin

text \<open>
  \<open>ooni/utils.cpp\<close>, \<open>ooni/utils\_impl.hpp\<close> and \<open>ooni/error.hpp\<close>: what the tests share.  The replacement of
  the user's address in what is reported, the cache of location databases, the lookups of the
  address of the user and of its resolver, and the small text searches.  The regular
  expressions are written as the searches they describe.  The location library (\<open>GeoIP.h\<close>) and \<open>inet_pton\<close>
  are parameters.
\<close>

section \<open>Errors\<close>

definition CannotReadAnyInputFileError :: error_class where
  "CannotReadAnyInputFileError = (MK_ERR_OONI 0, ''cannot_read_any_input_file'')"
definition MissingRequiredInputFileError :: error_class where
  "MissingRequiredInputFileError = (MK_ERR_OONI 1, ''missing_required_input_file'')"
definition MissingCollectorBaseUrlError :: error_class where
  "MissingCollectorBaseUrlError = (MK_ERR_OONI 2, ''missing_collector_base_url'')"
definition CannotOpenReportError :: error_class where
  "CannotOpenReportError = (MK_ERR_OONI 3, ''cannot_open_report'')"
definition MissingMandatoryKeyError :: error_class where
  "MissingMandatoryKeyError = (MK_ERR_OONI 4, ''missing_mandatory_key'')"
definition InvalidMandatoryValueError :: error_class where
  "InvalidMandatoryValueError = (MK_ERR_OONI 5, ''invalid_mandatory_value'')"
definition MissingRequiredHostError :: error_class where
  "MissingRequiredHostError = (MK_ERR_OONI 6, ''missing_required_host'')"
definition MissingRequiredUrlError :: error_class where
  "MissingRequiredUrlError = (MK_ERR_OONI 7, ''missing_required_url'')"
definition GeoipDatabaseOpenError :: error_class where
  "GeoipDatabaseOpenError = (MK_ERR_OONI 8, ''cannot_open_geoip_database'')"
definition GeoipCountryCodeLookupError :: error_class where
  "GeoipCountryCodeLookupError = (MK_ERR_OONI 9, ''cannot_find_country_code'')"
definition GeoipCountryNameLookupError :: error_class where
  "GeoipCountryNameLookupError = (MK_ERR_OONI 10, ''cannot_find_country_name'')"
definition GeoipCityLookupError :: error_class where
  "GeoipCityLookupError = (MK_ERR_OONI 11, ''cannot_find_city'')"
definition GeoipAsnLookupError :: error_class where
  "GeoipAsnLookupError = (MK_ERR_OONI 12, ''cannot_find_asn'')"
definition BouncerCollectorNotFoundError :: error_class where
  "BouncerCollectorNotFoundError = (MK_ERR_OONI 17, ''bouncer_missing_collector'')"
definition BouncerTestHelperNotFoundError :: error_class where
  "BouncerTestHelperNotFoundError = (MK_ERR_OONI 18, ''bouncer_missing_test_helper'')"
definition BouncerInvalidRequestError :: error_class where
  "BouncerInvalidRequestError = (MK_ERR_OONI 19, ''bouncer_invalid_request'')"
definition BouncerGenericError :: error_class where
  "BouncerGenericError = (MK_ERR_OONI 20, ''bouncer_generic_error'')"
definition BouncerValueNotFoundError :: error_class where
  "BouncerValueNotFoundError = (MK_ERR_OONI 21, ''bouncer_value_not_found'')"
definition HttpRequestError :: error_class where
  "HttpRequestError = (MK_ERR_OONI 22, ''http_request_error'')"
definition RegexSearchError :: error_class where
  "RegexSearchError = (MK_ERR_OONI 23, ''regex_search_error'')"
definition RegistryWrongUsernamePasswordError :: error_class where
  "RegistryWrongUsernamePasswordError = (MK_ERR_OONI 24, ''registry_wrong_username_password'')"
definition RegistryMissingUsernamePasswordError :: error_class where
  "RegistryMissingUsernamePasswordError = (MK_ERR_OONI 25, ''registry_missing_username_password'')"
definition MissingAuthenticationTokenError :: error_class where
  "MissingAuthenticationTokenError = (MK_ERR_OONI 26, ''missing_authentication_token'')"
definition MissingRequiredValueError :: error_class where
  "MissingRequiredValueError = (MK_ERR_OONI 27, ''missing_required_value'')"
definition RegistryInvalidRequestError :: error_class where
  "RegistryInvalidRequestError = (MK_ERR_OONI 28, ''registry_invalid_request'')"
definition RegistryEmptyClientIdError :: error_class where
  "RegistryEmptyClientIdError = (MK_ERR_OONI 29, ''registry_empty_client_id'')"

lemmas ooni_error_defs [err_simps] =
  CannotReadAnyInputFileError_def MissingRequiredInputFileError_def MissingCollectorBaseUrlError_def
  CannotOpenReportError_def MissingMandatoryKeyError_def InvalidMandatoryValueError_def
  MissingRequiredHostError_def MissingRequiredUrlError_def GeoipDatabaseOpenError_def
  GeoipCountryCodeLookupError_def GeoipCountryNameLookupError_def GeoipCityLookupError_def
  GeoipAsnLookupError_def BouncerCollectorNotFoundError_def BouncerTestHelperNotFoundError_def
  BouncerInvalidRequestError_def BouncerGenericError_def BouncerValueNotFoundError_def
  HttpRequestError_def RegexSearchError_def RegistryWrongUsernamePasswordError_def
  RegistryMissingUsernamePasswordError_def MissingAuthenticationTokenError_def
  MissingRequiredValueError_def RegistryInvalidRequestError_def RegistryEmptyClientIdError_def

section \<open>Hiding the address of the user\<close>

text \<open>\<open>s.find(pat, p)\<close>: the first position from \<open>p\<close> on, where the empty text is found at the end too.\<close>

definition find_from :: "string \<Rightarrow> nat \<Rightarrow> string \<Rightarrow> nat option" where
  "find_from pat p s = find (\<lambda>i. startswith (drop i s) pat) [p..<Suc (length s)]"

definition REDACTED :: string where
  "REDACTED = ''[REDACTED]''"

text \<open>The loop searches again from where it replaced, not from behind the replacement.\<close>

partial_function (option) scrub_loop :: "string \<Rightarrow> nat \<Rightarrow> string \<Rightarrow> string option" where
  "scrub_loop s p ip =
    (case find_from ip p s of
       None \<Rightarrow> Some s
     | Some q \<Rightarrow> scrub_loop (take q s @ REDACTED @ drop (q + length ip) s) q ip)"

definition scrub :: "string \<Rightarrow> string \<Rightarrow> string option" where
  "scrub s real_probe_ip = scrub_loop s 0 real_probe_ip"

definition occurs :: "string \<Rightarrow> string \<Rightarrow> bool" where
  "occurs pat s \<longleftrightarrow> (\<exists>i \<le> length s. startswith (drop i s) pat)"

section \<open>Searching texts\<close>

text \<open>The first position from which \<open>f\<close> has a result: \<open>regex_search\<close> over a text.\<close>

fun search :: "(string \<Rightarrow> 'a option) \<Rightarrow> string \<Rightarrow> 'a option" where
  "search f [] = f []"
| "search f (c # cs) = (case f (c # cs) of Some r \<Rightarrow> Some r | None \<Rightarrow> search f cs)"

text \<open>A prefix up to case; \<open>icase\<close>.\<close>

definition istartswith :: "string \<Rightarrow> string \<Rightarrow> bool" where
  "istartswith s p \<longleftrightarrow> map tolower (take (length p) s) = map tolower p"

text \<open>\<open>([\s\S]*?)</title>\<close>: the shortest text before the closing tag.\<close>

fun until_close :: "string \<Rightarrow> string option" where
  "until_close s =
    (if istartswith s ''</title>'' then Some []
     else case s of [] \<Rightarrow> None | c # cs \<Rightarrow> map_option ((#) c) (until_close cs))"

definition title_at :: "string \<Rightarrow> string option" where
  "title_at s = (if istartswith s ''<title>'' then until_close (drop (length ''<title>'') s) else None)"

definition extract_html_title :: "string \<Rightarrow> string" where
  "extract_html_title body = (case search title_at body of Some t \<Rightarrow> t | None \<Rightarrow> [])"

text \<open>The longest text of a line before a closing tag: \<open>(.*)</Ip>\<close>.\<close>

fun before_last :: "string \<Rightarrow> string \<Rightarrow> string option" where
  "before_last pat [] = (if pat = [] then Some [] else None)"
| "before_last pat (c # cs) =
    (case before_last pat cs of
       Some t \<Rightarrow> Some (c # t)
     | None \<Rightarrow> if startswith (c # cs) pat then Some [] else None)"

definition ip_at :: "string \<Rightarrow> string option" where
  "ip_at s =
    (if startswith s ''<Ip>''
     then before_last ''</Ip>'' (takeWhile (\<lambda>c. (of_char c :: nat) \<notin> {10, 13}) (drop (length ''<Ip>'') s))
     else None)"

text \<open>The alternatives of \<open>IPV4_PRIV_ADDR\<close>: characters of a range, or one to three digits.\<close>

datatype regex_item = Range char char | Digits13

abbreviation Lit :: "char \<Rightarrow> regex_item" where
  "Lit c \<equiv> Range c c"

fun regex_match :: "regex_item list \<Rightarrow> string \<Rightarrow> bool" where
  "regex_match [] s = True"
| "regex_match (Range a b # r) [] = False"
| "regex_match (Range a b # r) (c # s) =
    ((of_char a :: nat) \<le> of_char c \<and> (of_char c :: nat) \<le> of_char b \<and> regex_match r s)"
| "regex_match (Digits13 # r) [] = False"
| "regex_match (Digits13 # r) (c # s) =
    (is_digit c \<and> (regex_match r s
     \<or> (case s of [] \<Rightarrow> False | c2 # s2 \<Rightarrow> is_digit c2 \<and> (regex_match r s2
        \<or> (case s2 of [] \<Rightarrow> False | c3 # s3 \<Rightarrow> is_digit c3 \<and> regex_match r s3)))))"

definition dot_digits :: "regex_item list" where
  "dot_digits = [Lit CHR ''.'', Digits13]"

definition private_patterns :: "regex_item list list" where
  "private_patterns =
    [map Lit ''127'' @ dot_digits @ dot_digits @ dot_digits,
     map Lit ''192.168'' @ dot_digits @ dot_digits,
     map Lit ''10'' @ dot_digits @ dot_digits @ dot_digits,
     map Lit ''172.1'' @ [Range CHR ''6'' CHR ''9''] @ dot_digits @ dot_digits,
     map Lit ''172.2'' @ [Range CHR ''0'' CHR ''9''] @ dot_digits @ dot_digits,
     map Lit ''172.3'' @ [Range CHR ''0'' CHR ''1''] @ dot_digits @ dot_digits]"

definition is_private_ipv4_addr :: "string \<Rightarrow> bool" where
  "is_private_ipv4_addr ipv4_addr \<longleftrightarrow>
    list_ex (\<lambda>r. regex_match r ipv4_addr) private_patterns \<or> occurs ''localhost'' ipv4_addr"

text \<open>A text that is not UTF-8 is reported in base64.  \<open>uninit\<close> is the window of the
  encoder before its first use.\<close>

definition represent_string :: "bytes \<Rightarrow> string \<Rightarrow> json option" where
  "represent_string uninit s =
    (case utf8_parse s of
       None \<Rightarrow> None
     | Some e \<Rightarrow>
        if \<not> err_eq e (new NoError)
        then Some (JObject [(''data'', JString (base64_encode uninit s)), (''format'', JString ''base64'')])
        else Some (JString s))"

section \<open>Location databases\<close>

text \<open>The location library: whether a database opens, and what an open one answers for an address.\<close>

record geoip_lib =
  gl_opens :: "string \<Rightarrow> bool"
  gl_country_code :: "string \<Rightarrow> string \<Rightarrow> string option"
  gl_country_name :: "string \<Rightarrow> string \<Rightarrow> string option"
  gl_city :: "string \<Rightarrow> string \<Rightarrow> string option option"
  gl_name :: "string \<Rightarrow> string \<Rightarrow> string option"

record geoip_database =
  gd_path :: string
  gd_open :: bool

definition with_open_database_do ::
    "geoip_lib \<Rightarrow> string error_or \<Rightarrow> geoip_database \<Rightarrow> string error_or \<times> geoip_database" where
  "with_open_database_do lib act db =
    (if gd_open db then (act, db)
     else if gl_opens lib (gd_path db) then (act, db\<lparr>gd_open := True\<rparr>)
     else ((new GeoipDatabaseOpenError, []), db))"

definition or_error :: "error_class \<Rightarrow> string option \<Rightarrow> string error_or" where
  "or_error k r = (case r of None \<Rightarrow> (new k, []) | Some v \<Rightarrow> no_err v)"

definition resolve_country_code :: "geoip_lib \<Rightarrow> string \<Rightarrow> geoip_database \<Rightarrow> string error_or \<times> geoip_database" where
  "resolve_country_code lib ip db =
    with_open_database_do lib (or_error GeoipCountryCodeLookupError (gl_country_code lib (gd_path db) ip)) db"

definition resolve_country_name :: "geoip_lib \<Rightarrow> string \<Rightarrow> geoip_database \<Rightarrow> string error_or \<times> geoip_database" where
  "resolve_country_name lib ip db =
    with_open_database_do lib (or_error GeoipCountryNameLookupError (gl_country_name lib (gd_path db) ip)) db"

text \<open>A record may have no city.\<close>

definition resolve_city_name :: "geoip_lib \<Rightarrow> string \<Rightarrow> geoip_database \<Rightarrow> string error_or \<times> geoip_database" where
  "resolve_city_name lib ip db =
    with_open_database_do lib
      (or_error GeoipCityLookupError
        (map_option (\<lambda>city. case city of None \<Rightarrow> [] | Some c \<Rightarrow> c) (gl_city lib (gd_path db) ip))) db"

definition resolve_asn_full :: "geoip_lib \<Rightarrow> string \<Rightarrow> geoip_database \<Rightarrow> string error_or \<times> geoip_database" where
  "resolve_asn_full lib ip db =
    with_open_database_do lib (or_error GeoipAsnLookupError (gl_name lib (gd_path db) ip)) db"

text \<open>\<open>mk::split\<close> at runs of white space: the empty token before a leading run is kept, the one behind a
  trailing run is not.\<close>

function split_space :: "string \<Rightarrow> string list" where
  "split_space s =
    (let token = takeWhile (\<lambda>c. \<not> is_space c) s;
         rest = dropWhile is_space (dropWhile (\<lambda>c. \<not> is_space c) s)
     in if rest = [] then [token] else token # split_space rest)"
  by pat_completeness auto

lemma split_space_rest:
  assumes "dropWhile is_space (dropWhile (\<lambda>c. \<not> is_space c) s) \<noteq> []"
  shows "length (dropWhile is_space (dropWhile (\<lambda>c. \<not> is_space c) s)) < length s"
proof -
  obtain c r where r: "dropWhile (\<lambda>c. \<not> is_space c) s = c # r"
    using assms by (cases "dropWhile (\<lambda>c. \<not> is_space c) s") auto
  then have "is_space c"
    using hd_dropWhile [of "\<lambda>c. \<not> is_space c" s] by simp
  moreover have "length (dropWhile is_space r) \<le> length r" "length (c # r) \<le> length s"
    using length_dropWhile_le [of is_space r] length_dropWhile_le [of "\<lambda>c. \<not> is_space c" s] by (simp_all add: r)
  ultimately show ?thesis
    by (simp add: r)
qed

termination split_space
  by (relation "measure length") (use split_space_rest in auto)

definition resolve_asn :: "geoip_lib \<Rightarrow> string \<Rightarrow> geoip_database \<Rightarrow> string error_or \<times> geoip_database" where
  "resolve_asn lib ip db =
    (let (asn, db) = resolve_asn_full lib ip db in
     if \<not> has_value asn then (asn, db)
     else case split_space (snd asn) of
            [] \<Rightarrow> ((new ValueError, []), db)
          | v # _ \<Rightarrow> (no_err v, db))"

text \<open>The cache: a map from paths to databases in the order of the paths.\<close>

type_synonym geoip_cache = "(string \<times> geoip_database) list"

definition max_size :: nat where
  "max_size = 3"

definition geoip_get :: "string \<Rightarrow> geoip_cache \<Rightarrow> geoip_database \<times> bool \<times> geoip_cache" where
  "geoip_get key instances =
    (case map_of instances key of
       Some db \<Rightarrow> (db, False, instances)
     | None \<Rightarrow>
        (let instances = (if length instances > max_size then butlast instances else instances);
             db = \<lparr>gd_path = key, gd_open = False\<rparr>
         in (db, True, insort_key fst (key, db) instances)))"

definition invalidate :: "geoip_cache \<Rightarrow> geoip_cache" where
  "invalidate instances = []"

text \<open>A lookup through the cache; the database it opened stays open in the cache.\<close>

definition cache_lookup ::
    "(geoip_database \<Rightarrow> string error_or \<times> geoip_database) \<Rightarrow> string \<Rightarrow> geoip_cache \<Rightarrow> string error_or \<times> geoip_cache" where
  "cache_lookup f key instances =
    (let (db, _, instances) = geoip_get key instances;
         (r, db') = f db
     in (r, map (\<lambda>(p, d). if p = key then (p, db') else (p, d)) instances))"

section \<open>Lookups\<close>

text \<open>What \<open>ip_lookup\<close> gives its callback for what the web service answered.\<close>

definition ip_lookup :: "pton_api \<Rightarrow> error \<Rightarrow> response \<Rightarrow> string error_or" where
  "ip_lookup api err response =
    (if is_err err then (err, [])
     else if rs_status response \<noteq> 200 then (new HttpRequestError, [])
     else case search ip_at (rs_body response) of
            None \<Rightarrow> (new RegexSearchError, [])
          | Some m \<Rightarrow> if \<not> is_ip_addr api m then (new ValueError, []) else no_err m)"

text \<open>\<open>resolver_lookup\<close> does not call back when there is no error and no address.\<close>

definition resolver_lookup :: "error \<Rightarrow> message \<Rightarrow> string error_or option" where
  "resolver_lookup err message =
    (if \<not> is_err err
     then (case find (\<lambda>a. an_ipv4 a \<noteq> []) (answers message) of
             Some a \<Rightarrow> Some (no_err (an_ipv4 a)) | None \<Rightarrow> None)
     else Some (err, []))"

section \<open>The loop of scrub\<close>

definition hideable :: "string \<Rightarrow> bool" where
  "hideable ip \<longleftrightarrow> CHR ''['' \<notin> set ip \<and> CHR '']'' \<notin> set ip \<and> (\<exists>c \<in> set ip. c \<notin> set REDACTED)"

text \<open>The replacement in one pass: every occurrence, from the left.\<close>

function replace_all :: "string \<Rightarrow> string \<Rightarrow> string" where
  "replace_all ip s =
    (case s of [] \<Rightarrow> []
     | c # cs \<Rightarrow> if ip \<noteq> [] \<and> startswith s ip then REDACTED @ replace_all ip (drop (length ip) s)
                else c # replace_all ip cs)"
  by pat_completeness auto
termination
  by (relation "measure (length \<circ> snd)") (auto simp: length_greater_0_conv)

declare replace_all.simps [simp del]

lemma replace_all_Nil [simp]: "replace_all ip [] = []"
  by (simp add: replace_all.simps)

lemma find_from_SomeD:
  assumes "find_from pat p s = Some q"
  shows "p \<le> q" "q \<le> length s" "startswith (drop q s) pat" "\<And>i. p \<le> i \<Longrightarrow> i < q \<Longrightarrow> \<not> startswith (drop i s) pat"
proof -
  obtain k where k: "k < length [p..<Suc (length s)]" "startswith (drop ([p..<Suc (length s)] ! k) s) pat"
    "q = [p..<Suc (length s)] ! k" "\<forall>j<k. \<not> startswith (drop ([p..<Suc (length s)] ! j) s) pat"
    using assms unfolding find_from_def find_Some_iff by blast
  have q: "q = p + k"
    using k(1,3) by (simp del: upt_Suc)
  show "p \<le> q" "q \<le> length s" "startswith (drop q s) pat"
    using k q by (simp_all del: upt_Suc)
  show "\<not> startswith (drop i s) pat" if "p \<le> i" "i < q" for i
  proof -
    have "i - p < k" "[p..<Suc (length s)] ! (i - p) = i"
      using that q k(1) by (simp_all del: upt_Suc)
    with k(4) show ?thesis
      by fastforce
  qed
qed

lemma find_from_NoneD:
  assumes "find_from pat p s = None" "p \<le> i" "i \<le> length s"
  shows "\<not> startswith (drop i s) pat"
  using assms by (auto simp: find_from_def find_None_iff)

lemma startswith_length: "startswith s pat \<Longrightarrow> length pat \<le> length s"
  by (auto simp: startswith_def dest: arg_cong [of _ _ length])

lemma startswith_nth: "startswith s pat \<Longrightarrow> k < length pat \<Longrightarrow> s ! k = pat ! k"
  unfolding startswith_def by (metis nth_take)

lemma startswith_in_prefix:
  assumes "startswith (drop i (take q s @ w)) pat" "i + length pat \<le> q" "q \<le> length s"
  shows "startswith (drop i s) pat"
proof -
  have "take (length pat) (drop i (take q s @ w)) = drop i (take (i + length pat) (take q s @ w))"
    by (simp add: take_drop add.commute del: take_append drop_append)
  also have "take (i + length pat) (take q s @ w) = take (i + length pat) s"
    using assms(2,3) by (simp add: min_absorb1)
  finally show ?thesis
    using assms(1) by (simp add: startswith_def take_drop add.commute)
qed

lemma length_REDACTED [simp]: "length REDACTED = 10"
  by (simp add: REDACTED_def)

lemma REDACTED_ends: "REDACTED ! 0 = CHR ''[''" "REDACTED ! 9 = CHR '']''"
  by (simp_all add: REDACTED_def)

lemma no_occurrence_over_replacement:
  assumes "hideable ip" "startswith (drop i (x @ REDACTED @ v)) ip" "i \<le> length (x @ REDACTED @ v)"
  shows "i + length ip \<le> length x \<or> length x + 10 \<le> i"
proof (rule ccontr)
  assume "\<not> ?thesis"
  then have i: "length x < i + length ip" "i < length x + 10"
    by auto
  let ?s = "x @ REDACTED @ v"
  have eq: "ip ! k = ?s ! (i + k)" if "k < length ip" for k
    using startswith_nth [OF assms(2) that] assms(3) by (simp add: nth_drop del: drop_append)
  consider "i \<le> length x" | "length x < i" "length x + 10 \<le> i + length ip" | "length x < i" "i + length ip < length x + 10"
    by linarith
  then show False
  proof cases
    case 1
    then have "ip ! (length x - i) = REDACTED ! 0"
      using eq [of "length x - i"] i by (simp add: nth_append)
    moreover have "length x - i < length ip"
      using 1 i by simp
    ultimately show False
      using assms(1) nth_mem [of "length x - i" ip] by (simp add: hideable_def REDACTED_ends)
  next
    case 2
    have "ip ! (length x + 9 - i) = REDACTED ! 9"
      using eq [of "length x + 9 - i"] i 2 by (simp add: nth_append)
    moreover have "length x + 9 - i < length ip"
      using 2 i by simp
    ultimately show False
      using assms(1) nth_mem [of "length x + 9 - i" ip] by (simp add: hideable_def REDACTED_ends)
  next
    case 3
    have "ip ! k \<in> set REDACTED" if "k < length ip" for k
    proof -
      have "ip ! k = REDACTED ! (i + k - length x)"
        using eq [OF that] 3 that by (simp add: nth_append less_diff_conv2)
      moreover have "i + k - length x < length REDACTED"
        using 3 that by simp
      ultimately show ?thesis
        by simp
    qed
    then have "set ip \<subseteq> set REDACTED"
      by (auto simp: in_set_conv_nth)
    with assms(1) show False
      by (auto simp: hideable_def)
  qed
qed

lemma replace_all_first:
  assumes "ip \<noteq> []" "\<And>i. i < j \<Longrightarrow> \<not> startswith (drop i y) ip" "j \<le> length y" "startswith (drop j y) ip"
  shows "replace_all ip y = take j y @ REDACTED @ replace_all ip (drop (j + length ip) y)"
  using assms(2-4)
proof (induction j arbitrary: y)
  case 0
  then show ?case
    using assms(1) startswith_length [of y ip] by (cases y) (simp_all add: replace_all.simps [of ip "_ # _"])
next
  case (Suc j)
  obtain c cs where y: "y = c # cs"
    using Suc.prems(2) by (cases y) auto
  have "\<not> startswith y ip"
    using Suc.prems(1) [of 0] by simp
  moreover have "replace_all ip cs = take j cs @ REDACTED @ replace_all ip (drop (j + length ip) cs)"
    using Suc.IH [of cs] Suc.prems(1) [of "Suc _"] Suc.prems(2,3) by (simp add: y)
  ultimately show ?case
    by (simp add: y replace_all.simps [of ip "c # cs"])
qed

lemma replace_all_none:
  assumes "ip \<noteq> []" "\<And>i. i \<le> length y \<Longrightarrow> \<not> startswith (drop i y) ip"
  shows "replace_all ip y = y"
  using assms(2)
proof (induction y)
  case (Cons c cs)
  have "\<not> startswith (c # cs) ip"
    using Cons.prems [of 0] by simp
  moreover have "replace_all ip cs = cs"
    using Cons.IH Cons.prems [of "Suc _"] by simp
  ultimately show ?case
    by (simp add: replace_all.simps [of ip "c # cs"])
qed simp

lemma scrub_loop_correct:
  assumes "hideable ip" "p \<le> length x" "\<And>i. i < length x \<Longrightarrow> \<not> startswith (drop i (x @ y)) ip"
  shows "scrub_loop (x @ y) p ip = Some (x @ replace_all ip y) \<and> \<not> occurs ip (x @ replace_all ip y)"
  using assms(2,3)
proof (induction "length y" arbitrary: x y p rule: less_induct)
  case less
  let ?s = "x @ y"
  have ip: "ip \<noteq> []"
    using assms(1) by (auto simp: hideable_def)
  show ?case
  proof (cases "find_from ip p ?s")
    case None
    have none: "\<not> startswith (drop i ?s) ip" if "i \<le> length ?s" for i
      using find_from_NoneD [OF None _ that] less.prems(2) [of i] less.prems(1) by linarith
    have "replace_all ip y = y"
    proof (rule replace_all_none [OF ip])
      fix i assume "i \<le> length y"
      then show "\<not> startswith (drop i y) ip"
        using none [of "length x + i"] by simp
    qed
    with None none show ?thesis
      by (subst scrub_loop.simps) (auto simp: occurs_def)
  next
    case (Some q)
    note q = find_from_SomeD [OF Some]
    have qx: "length x \<le> q"
      using less.prems(2) [of q] q(3) by linarith
    have len: "q + length ip \<le> length ?s"
      using startswith_length [OF q(3)] q(2) by simp
    let ?x = "take q ?s @ REDACTED" and ?y = "drop (q + length ip) ?s"
    have y: "?y = drop (q - length x + length ip) y" "take q ?s = x @ take (q - length x) y"
      using qx by simp_all
    have shorter: "length ?y < length y"
      using ip qx len by (simp add: length_greater_0_conv [symmetric] del: length_greater_0_conv)
    have inv: "\<not> startswith (drop i (?x @ ?y)) ip" if "i < length ?x" for i
    proof
      assume st: "startswith (drop i (?x @ ?y)) ip"
      have "i + length ip \<le> q"
        using no_occurrence_over_replacement [OF assms(1), of i "take q ?s" ?y] st that q(2) by auto
      moreover have "startswith (drop i ?s) ip"
        using st \<open>i + length ip \<le> q\<close> q(2) by (intro startswith_in_prefix [of i q ?s "REDACTED @ ?y"]) simp_all
      moreover have "i < q"
        using \<open>i + length ip \<le> q\<close> ip by (cases ip) simp_all
      ultimately show False
        using less.prems(2) [of i] q(4) [of i] less.prems(1) by linarith
    qed
    have "scrub_loop (?x @ ?y) q ip = Some (?x @ replace_all ip ?y) \<and> \<not> occurs ip (?x @ replace_all ip ?y)"
      using shorter inv q(2) by (intro less.hyps) auto
    moreover have "x @ replace_all ip y = ?x @ replace_all ip ?y"
    proof -
      have "replace_all ip y = take (q - length x) y @ REDACTED @ replace_all ip (drop (q - length x + length ip) y)"
      proof (rule replace_all_first [OF ip])
        show "\<not> startswith (drop i y) ip" if "i < q - length x" for i
          using q(4) [of "length x + i"] that less.prems(1) by simp
      qed (use q(2,3) qx in simp_all)
      then show ?thesis
        unfolding y by simp
    qed
    ultimately show ?thesis
      using Some by (subst scrub_loop.simps) simp
  qed
qed

text \<open>An empty address is found at every position, so the loop inserts forever.\<close>

lemma scrub_loop_empty:
  assumes "scrub_loop s p ip = Some r"
  shows "ip = [] \<longrightarrow> length s < p"
proof (rule scrub_loop.raw_induct [of "\<lambda>s p ip r. ip = [] \<longrightarrow> length s < p", OF _ assms])
  fix f s p ip r
  assume IH: "\<And>s p ip r. f s p ip = Some r \<Longrightarrow> ip = [] \<longrightarrow> length s < p"
    and st: "(case find_from ip p s of None \<Rightarrow> Some s
      | Some q \<Rightarrow> f (take q s @ REDACTED @ drop (q + length ip) s) q ip) = Some r"
  show "ip = [] \<longrightarrow> length s < p"
  proof (intro impI, rule ccontr)
    assume ip: "ip = []" and "\<not> length s < p"
    then have "find_from ip p s = Some p"
      by (simp add: find_from_def startswith_def upt_conv_Cons del: upt_Suc)
    then have "f (take p s @ REDACTED @ drop p s) p [] = Some r"
      using st ip by simp
    from IH [OF this] show False
      using \<open>\<not> length s < p\<close> by simp
  qed
qed

section \<open>Private addresses\<close>

definition dotted :: "nat \<Rightarrow> nat \<Rightarrow> nat \<Rightarrow> nat \<Rightarrow> string" where
  "dotted a b c d = nat_dec a @ CHR ''.'' # nat_dec b @ CHR ''.'' # nat_dec c @ CHR ''.'' # nat_dec d"

lemma nat_dec_shape:
  assumes "n < 1000"
  obtains (one) "n < 10" "nat_dec n = [char_of (48 + n)]"
  | (two) "10 \<le> n" "n < 100" "nat_dec n = [char_of (48 + n div 10), char_of (48 + n mod 10)]"
  | (three) "100 \<le> n" "nat_dec n = [char_of (48 + n div 100), char_of (48 + n div 10 mod 10), char_of (48 + n mod 10)]"
proof -
  consider "n < 10" | "10 \<le> n" "n < 100" | "100 \<le> n"
    by linarith
  then show thesis
  proof cases
    case 1
    then show thesis
      by (intro one) (simp_all add: nat_dec.simps [of n])
  next
    case 2
    then have "n div 10 < 10"
      by simp
    with 2 show thesis
      by (intro two) (simp_all add: nat_dec.simps [of n] nat_dec.simps [of "n div 10"])
  next
    case 3
    then have "\<not> n div 10 < 10" "n div 100 < 10" "n div 10 div 10 = n div 100"
      using assms by (simp_all add: div_mult2_eq [symmetric])
    with 3 show thesis
      by (intro three) (simp_all add: nat_dec.simps [of n] nat_dec.simps [of "n div 10"] nat_dec.simps [of "n div 100"])
  qed
qed

lemma not_digit_dot [simp]: "\<not> is_digit CHR ''.''"
  by (simp add: is_digit_def)

lemma regex_match_lit [simp]: "regex_match (Lit a # r) (c # s) \<longleftrightarrow> c = a \<and> regex_match r s"
  by (auto dest: le_antisym)

lemma digits_match:
  assumes "n < 1000"
  shows "regex_match (Digits13 # Lit CHR ''.'' # r) (nat_dec n @ CHR ''.'' # s) = regex_match r s"
    "regex_match [Digits13] (nat_dec n @ s)"
proof -
  have "is_digit c" "c \<noteq> CHR ''.''" if "c \<in> set (nat_dec n)" for c
    using nat_dec_digits [OF that] by auto
  then show "regex_match (Digits13 # Lit CHR ''.'' # r) (nat_dec n @ CHR ''.'' # s) = regex_match r s"
    "regex_match [Digits13] (nat_dec n @ s)"
    by (rule_tac [!] nat_dec_shape [OF assms]) (simp_all del: regex_match.simps(3))
qed

lemma literal_match:
  "regex_match (map Lit ds @ Lit CHR ''.'' # r) (es @ CHR ''.'' # s) \<longleftrightarrow> ds = es \<and> regex_match r s"
  if "list_all is_digit ds" "list_all is_digit es"
  using that
proof (induction ds arbitrary: es)
  case Nil
  then show ?case
    by (cases es) (auto simp del: regex_match.simps(3))
next
  case (Cons d ds)
  then show ?case
    by (cases es) (auto simp del: regex_match.simps(3))
qed

lemma list_all_nat_dec: "list_all is_digit (nat_dec n)"
  using nat_dec_digits by (auto simp: list_all_iff)

lemma number_match:
  "regex_match (map Lit (nat_dec m) @ Lit CHR ''.'' # r) (nat_dec n @ CHR ''.'' # s) \<longleftrightarrow> n = m \<and> regex_match r s"
  by (auto simp: literal_match list_all_nat_dec simp del: regex_match.simps(3))

lemma of_char_digit_value: "d < 10 \<Longrightarrow> (of_char (char_of (48 + d) :: char) :: nat) = 48 + d"
  by simp

lemma range_match:
  assumes "n < 256" "x < 10" "lo \<le> hi" "hi < 10" "0 < x"
  shows "regex_match (Lit (char_of (48 + x)) # Range (char_of (48 + lo)) (char_of (48 + hi)) # Lit CHR ''.'' # r)
      (nat_dec n @ CHR ''.'' # s) \<longleftrightarrow> (\<exists>y. lo \<le> y \<and> y \<le> hi \<and> n = 10 * x + y) \<and> regex_match r s"
proof -
  have "n < 1000"
    using assms(1) by simp
  have inj: "char_of (48 + a) = (char_of (48 + b) :: char) \<longleftrightarrow> a = b" if "a < 10" "b < 10" for a b :: nat
    using of_char_digit_value [OF that(1)] of_char_digit_value [OF that(2)] by (metis add_left_cancel)
  have dot: "\<not> 48 + lo \<le> 46"
    by simp
  have not_dot: "char_of (48 + a) \<noteq> CHR ''.''" if "a < 10" for a :: nat
    using of_char_digit_value [OF that] by fastforce
  from \<open>n < 1000\<close> show ?thesis
  proof (cases rule: nat_dec_shape)
    case one
    then show ?thesis
      using assms by (auto simp del: of_char_of)
  next
    case two
    have "n div 10 < 10"
      using two by simp
    then have "n = 10 * x + y \<longleftrightarrow> n div 10 = x \<and> y = n mod 10" if "y < 10" for y
      using that by auto
    moreover have "lo \<le> y \<and> y \<le> hi \<Longrightarrow> y < 10" for y
      using assms by simp
    ultimately have "(\<exists>y. lo \<le> y \<and> y \<le> hi \<and> n = 10 * x + y) \<longleftrightarrow> n div 10 = x \<and> lo \<le> n mod 10 \<and> n mod 10 \<le> hi"
      by metis
    then show ?thesis
      using two assms inj [of "n div 10" x] \<open>n div 10 < 10\<close> of_char_digit_value [of "n mod 10"]
        of_char_digit_value [of lo] of_char_digit_value [of hi]
      by (auto simp del: of_char_of)
  next
    case three
    have "\<not> 10 * x + y = n" if "y \<le> hi" for y
      using three(1) assms that by linarith
    then show ?thesis
      using three assms not_dot [of "n mod 10"] by (auto simp del: of_char_of)
  qed
qed

lemma dots_match:
  assumes "b < 1000" "c < 1000" "d < 1000"
  shows "regex_match (dot_digits @ dot_digits) (CHR ''.'' # nat_dec c @ CHR ''.'' # nat_dec d)"
    "regex_match (dot_digits @ dot_digits @ dot_digits)
      (CHR ''.'' # nat_dec b @ CHR ''.'' # nat_dec c @ CHR ''.'' # nat_dec d)"
  using digits_match(2) [OF assms(3), of "[]"] assms
  by (simp_all add: dot_digits_def digits_match(1) del: regex_match.simps(3,5))

lemma not_localhost: "\<not> occurs ''localhost'' (dotted a b c d)"
proof
  assume "occurs ''localhost'' (dotted a b c d)"
  then obtain i where i: "startswith (drop i (dotted a b c d)) ''localhost''"
    by (auto simp: occurs_def)
  have "CHR ''l'' \<in> set (take (length ''localhost'') (drop i (dotted a b c d)))"
    using i unfolding startswith_def by (simp only:) simp
  then have "CHR ''l'' \<in> set (dotted a b c d)"
    by (meson in_set_dropD in_set_takeD)
  then have "is_digit CHR ''l''"
    using nat_dec_digits by (auto simp: dotted_def)
  then show False
    by (simp add: is_digit_def)
qed

lemma decimals: "nat_dec 127 = ''127''" "nat_dec 10 = ''10''" "nat_dec 192 = ''192''" "nat_dec 168 = ''168''"
    "nat_dec 172 = ''172''"
    "char_of (48 + 0 :: nat) = CHR ''0''" "char_of (48 + 1 :: nat) = CHR ''1''" "char_of (48 + 2 :: nat) = CHR ''2''"
    "char_of (48 + 3 :: nat) = CHR ''3''" "char_of (48 + 6 :: nat) = CHR ''6''" "char_of (48 + 9 :: nat) = CHR ''9''"
  by (simp_all add: nat_dec.simps char_of_def bit_iff_odd)

text \<open>Dots before the following number, so that the lemmas on numbers apply.\<close>

lemma dots_lit: "dot_digits @ r = Lit CHR ''.'' # Digits13 # r"
  by (simp add: dot_digits_def)

lemma private_match:
  assumes "a < 256" "b < 256" "c < 256" "d < 256"
  shows "regex_match (map Lit ''127'' @ dot_digits @ dot_digits @ dot_digits) (dotted a b c d) \<longleftrightarrow> a = 127" (is ?m127)
    "regex_match (map Lit ''10'' @ dot_digits @ dot_digits @ dot_digits) (dotted a b c d) \<longleftrightarrow> a = 10" (is ?m10)
    "regex_match (map Lit ''192.168'' @ dot_digits @ dot_digits) (dotted a b c d) \<longleftrightarrow> a = 192 \<and> b = 168" (is ?m192)
    "regex_match (map Lit ''172.1'' @ [Range CHR ''6'' CHR ''9''] @ dot_digits @ dot_digits) (dotted a b c d)
      \<longleftrightarrow> a = 172 \<and> 16 \<le> b \<and> b \<le> 19" (is ?m1)
    "regex_match (map Lit ''172.2'' @ [Range CHR ''0'' CHR ''9''] @ dot_digits @ dot_digits) (dotted a b c d)
      \<longleftrightarrow> a = 172 \<and> 20 \<le> b \<and> b \<le> 29" (is ?m2)
    "regex_match (map Lit ''172.3'' @ [Range CHR ''0'' CHR ''1''] @ dot_digits @ dot_digits) (dotted a b c d)
      \<longleftrightarrow> a = 172 \<and> 30 \<le> b \<and> b \<le> 31" (is ?m3)
proof -
  have lt: "b < 1000" "c < 1000" "d < 1000"
    using assms by simp_all
  note dots = dots_match [OF lt, unfolded dots_lit]
  have rest: "regex_match (Digits13 # dot_digits @ dot_digits) (nat_dec b @ CHR ''.'' # nat_dec c @ CHR ''.'' # nat_dec d)"
    "regex_match (Digits13 # dot_digits) (nat_dec c @ CHR ''.'' # nat_dec d)"
    using dots unfolding dots_lit by (simp_all del: regex_match.simps(3,5))
  have one: "regex_match (map Lit (nat_dec m) @ dot_digits @ dot_digits @ dot_digits) (dotted a b c d) \<longleftrightarrow> a = m" for m
    unfolding dotted_def dots_lit number_match using rest(1) by (simp add: dots_lit)
  show ?m127 ?m10
    using one [of 127] one [of 10] unfolding decimals by blast+
  have "regex_match (map Lit (nat_dec 192) @ Lit CHR ''.'' # map Lit (nat_dec 168) @ dot_digits @ dot_digits) (dotted a b c d)
      \<longleftrightarrow> a = 192 \<and> b = 168"
    unfolding dotted_def dots_lit number_match using rest(2) by (simp add: dots_lit)
  then show ?m192
    unfolding decimals by simp
  have two: "regex_match (map Lit (nat_dec 172) @ Lit CHR ''.'' # Lit (char_of (48 + x)) # Range (char_of (48 + lo)) (char_of (48 + hi))
      # dot_digits @ dot_digits) (dotted a b c d) \<longleftrightarrow> a = 172 \<and> (\<exists>y. lo \<le> y \<and> y \<le> hi \<and> b = 10 * x + y)"
    if "x < 10" "lo \<le> hi" "hi < 10" "0 < x" for x lo hi
    unfolding dotted_def dots_lit number_match range_match [OF assms(2) that] using rest(2) by (simp add: dots_lit)
  show ?m1
    using two [of 1 6 9] unfolding decimals by (simp add: nat_le_iff_add) presburger
  show ?m2
    using two [of 2 0 9] unfolding decimals by (simp add: nat_le_iff_add) presburger
  show ?m3
    using two [of 3 0 1] unfolding decimals by (simp add: nat_le_iff_add) presburger
qed

section \<open>The cache of databases\<close>

definition geoip_gets :: "string list \<Rightarrow> geoip_cache \<Rightarrow> geoip_cache" where
  "geoip_gets keys c = foldl (\<lambda>c key. snd (snd (geoip_get key c))) c keys"






section \<open>What is represented\<close>

lemma represent_string_cases:
  obtains "represent_string uninit s = Some (JString s)" "utf8_parse s = Some (new NoError)"
  | "represent_string uninit s = Some (JObject [(''data'', JString (base64_encode uninit s)), (''format'', JString ''base64'')])"
    "utf8_parse s \<noteq> Some (new NoError)"
proof -
  have "utf8_parse s \<in> Some ` {new NoError, new IllegalSequenceError, new UnexpectedNullByteError,
    new IncompleteUtf8SequenceError}"
    unfolding utf8_parse_def by (rule utf8_parse_loop_total) (simp_all add: utf8_init_def)
  then obtain e where e: "utf8_parse s = Some e" "e \<in> {new NoError, new IllegalSequenceError,
    new UnexpectedNullByteError, new IncompleteUtf8SequenceError}"
    by blast
  show thesis
  proof (cases "e = new NoError")
    case True
    then show thesis
      using e(1) that(1) by (simp add: represent_string_def err_eq_def)
  next
    case False
    then have "\<not> err_eq e (new NoError)"
      using e(2) by (auto simp: err_eq_def err_simps)
    then show thesis
      using False e(1) that(2) by (simp add: represent_string_def)
  qed
qed

section \<open>Properties\<close>

text \<open>C15: Scrubbing returns, replaces every occurrence of the address from the left, and leaves no
  occurrence behind, not even one made of the replacements, for every address that has a character which the
  replacement has not and no bracket.  Addresses with a dot or a colon are such.\<close>

theorem scrub_hides:
  assumes "CHR ''['' \<notin> set ip" "CHR '']'' \<notin> set ip" "c \<in> set ip" "c \<notin> set ''[REDACTED]''"
  shows "scrub s ip = Some (replace_all ip s) \<and> \<not> occurs ip (replace_all ip s)"
proof -
  have "hideable ip"
    using assms by (auto simp: hideable_def REDACTED_def)
  from scrub_loop_correct [OF this, of 0 "[]" s] show ?thesis
    by (simp add: scrub_def)
qed

theorem scrub_hides_witness:
  "scrub ''a1.2.3b1.2.3'' ''1.2.3'' = Some (replace_all ''1.2.3'' ''a1.2.3b1.2.3'')
    \<and> replace_all ''1.2.3'' ''a1.2.3b1.2.3'' = ''a[REDACTED]b[REDACTED]''"
proof -
  have "replace_all ''1.2.3'' ''a1.2.3b1.2.3'' = ''a[REDACTED]b[REDACTED]''"
    by (simp add: replace_all.simps startswith_def REDACTED_def)
  moreover have "scrub ''a1.2.3b1.2.3'' ''1.2.3'' = Some (replace_all ''1.2.3'' ''a1.2.3b1.2.3'')"
    using scrub_hides [of "''1.2.3''" "CHR ''.''" "''a1.2.3b1.2.3''"] by simp
  ultimately show ?thesis
    by blast
qed

text \<open>For the empty address the search never gets past the replacements; the caller does not scrub then.\<close>

theorem scrub_empty_hangs: "scrub s [] = None"
  using scrub_loop_empty [of s 0 "[]"] by (cases "scrub s []") (auto simp: scrub_def)

text \<open>The regular expression of private addresses holds of an address in dotted notation exactly when it
  is in 127/8, 10/8, 192.168/16 or 172.16/12.\<close>

theorem private_addresses:
  assumes "a < 256" "b < 256" "c < 256" "d < 256"
  shows "is_private_ipv4_addr (dotted a b c d) \<longleftrightarrow>
    a = 127 \<or> a = 10 \<or> a = 192 \<and> b = 168 \<or> a = 172 \<and> 16 \<le> b \<and> b \<le> 31"
proof -
  have "is_private_ipv4_addr (dotted a b c d) \<longleftrightarrow> a = 127 \<or> a = 192 \<and> b = 168 \<or> a = 10
    \<or> a = 172 \<and> 16 \<le> b \<and> b \<le> 19 \<or> a = 172 \<and> 20 \<le> b \<and> b \<le> 29 \<or> a = 172 \<and> 30 \<le> b \<and> b \<le> 31"
    unfolding is_private_ipv4_addr_def private_patterns_def list_ex_Nil_iff list_ex_Cons_iff private_match [OF assms]
    using not_localhost by blast
  then show ?thesis
    by auto
qed

theorem private_addresses_witness:
  "is_private_ipv4_addr ''172.31.0.1'' \<and> \<not> is_private_ipv4_addr ''172.32.0.1''"
proof -
  have "dotted 172 31 0 1 = ''172.31.0.1''" "dotted 172 32 0 1 = ''172.32.0.1''"
    by (simp_all add: dotted_def nat_dec.simps char_of_def bit_iff_odd)
  then show ?thesis
    using private_addresses [of 172 31 0 1] private_addresses [of 172 32 0 1] by simp
qed


text \<open>The database that leaves is the last in the order of the paths: the one added last here, and not the
  first one, and four are kept.\<close>

theorem geoip_cache_evicts_newest:
  "map fst (geoip_gets [''a'', ''b'', ''c'', ''d'', ''e''] []) = [''a'', ''b'', ''c'', ''e'']"
  by (simp add: geoip_gets_def geoip_get_def max_size_def Let_def less_list_code less_char_def)

text \<open>A lookup of the resolver is answered only if there was an error or an answer with an IPv4
  address.  Otherwise the callback is never called.\<close>

theorem resolver_lookup_silent:
  "resolver_lookup err msg = None \<longleftrightarrow> \<not> is_err err \<and> an_ipv4 ` set (answers msg) \<subseteq> {[]}"
proof -
  have "an_ipv4 ` set (answers msg) \<subseteq> {[]} \<longleftrightarrow> find (\<lambda>a. an_ipv4 a \<noteq> []) (answers msg) = None"
    by (auto simp: find_None_iff)
  then show ?thesis
    by (simp add: resolver_lookup_def split: option.split)
qed

end
