(* ===== verification/Bouncer.thy ===== *)
theory Bouncer
  imports OoniUtils
begin

text \<open>
  \<open>ooni/bouncer.cpp\<close> and \<open>ooni/bouncer\_impl.hpp\<close>: the service that tells a test which collector and which
  helpers to use.  The parser and the printer of JSON are arguments; a parser that throws
  is \<open>None\<close>.
\<close>

section \<open>Reading values\<close>

abbreviation domain_error :: exn where
  "domain_error \<equiv> ErrorExn (new JsonDomainError)"

text \<open>\<open>j[0]\<close>: null becomes an array, and an array gets a null if it is empty.\<close>

definition json_first :: "json \<Rightarrow> json res" where
  "json_first j =
    (case j of JNull \<Rightarrow> Inr JNull
     | JArray [] \<Rightarrow> Inr JNull
     | JArray (x # _) \<Rightarrow> Inr x
     | _ \<Rightarrow> Inl domain_error)"

text \<open>\<open>get<std::string>()\<close>.\<close>

definition get_string :: "json \<Rightarrow> string res" where
  "get_string j = (case j of JString s \<Rightarrow> Inr s | _ \<Rightarrow> Inl domain_error)"

text \<open>What a \<open>for\<close> over a value visits: the value itself if it is a scalar.\<close>

definition json_items :: "json \<Rightarrow> json list" where
  "json_items j =
    (case j of JNull \<Rightarrow> [] | JArray xs \<Rightarrow> xs | JObject ms \<Rightarrow> map snd ms | _ \<Rightarrow> [j])"

text \<open>\<open>empty()\<close>.\<close>

definition json_empty :: "json \<Rightarrow> bool" where
  "json_empty j = (case j of JNull \<Rightarrow> True | JArray xs \<Rightarrow> xs = [] | JObject ms \<Rightarrow> ms = [] | _ \<Rightarrow> False)"

definition bind_res :: "'a res \<Rightarrow> ('a \<Rightarrow> 'b res) \<Rightarrow> 'b res" where
  "bind_res r f = (case r of Inl e \<Rightarrow> Inl e | Inr x \<Rightarrow> f x)"

section \<open>BouncerReply\<close>

text \<open>\<open>json_process\<close> on what the parser and the function threw.\<close>

definition json_error :: "exn \<Rightarrow> error" where
  "json_error e =
    (case e of
       OutOfRange \<Rightarrow> new JsonKeyError
     | DomainError \<Rightarrow> new JsonDomainError
     | ErrorExn e \<Rightarrow> e
     | _ \<Rightarrow> new JsonProcessingError)"

definition json_process :: "(string \<Rightarrow> json option) \<Rightarrow> string \<Rightarrow> (json \<Rightarrow> unit res) \<Rightarrow> error" where
  "json_process parse data f =
    (case parse data of
       None \<Rightarrow> new JsonParseError
     | Some j \<Rightarrow>
        (case f j of Inr () \<Rightarrow> new NoError | Inl e \<Rightarrow> json_error e))"

definition check_reply :: "json \<Rightarrow> unit res" where
  "check_reply j =
    (if json_count ''error'' j > 0
     then bind_res (entry_get ''error'' j) (\<lambda>e.
       if e = JString ''collector-not-found'' then Inl (ErrorExn (new BouncerCollectorNotFoundError))
       else if e = JString ''invalid-request'' then Inl (ErrorExn (new BouncerInvalidRequestError))
       else Inl (ErrorExn (new BouncerGenericError)))
     else bind_res (entry_get ''net-tests'' j) (\<lambda>tests.
       if json_empty tests then Inl (ErrorExn (new BouncerTestHelperNotFoundError)) else Inr ()))"

definition create_reply :: "(string \<Rightarrow> json option) \<Rightarrow> string \<Rightarrow> json error_or" where
  "create_reply parse data =
    (let err = json_process parse data check_reply in
     if is_err err then (err, JNull)
     else no_err (case parse data of Some j \<Rightarrow> j | None \<Rightarrow> JNull))"

definition get_base :: "json \<Rightarrow> json res" where
  "get_base response = bind_res (entry_get ''net-tests'' response) json_first"

text \<open>Every getter answers an exception with the same error.\<close>

definition not_found :: "string res \<Rightarrow> string error_or" where
  "not_found r = (case r of Inr s \<Rightarrow> no_err s | Inl _ \<Rightarrow> (new BouncerValueNotFoundError, []))"

definition get_member :: "string \<Rightarrow> json \<Rightarrow> string error_or" where
  "get_member key response =
    not_found (bind_res (get_base response) (\<lambda>b. bind_res (entry_get key b) get_string))"

definition get_collector :: "json \<Rightarrow> string error_or" where
  "get_collector = get_member ''collector''"

definition get_name :: "json \<Rightarrow> string error_or" where
  "get_name = get_member ''name''"

definition get_version :: "json \<Rightarrow> string error_or" where
  "get_version = get_member ''version''"

text \<open>The address of the first alternative of the wanted type; an alternative that is no object before
  it makes the search throw.\<close>

fun alternate :: "string \<Rightarrow> json list \<Rightarrow> string res" where
  "alternate type [] = Inl (ErrorExn (new BouncerValueNotFoundError))"
| "alternate type (c # cs) =
    bind_res (entry_get ''type'' c) (\<lambda>t.
      if t = JString type then bind_res (entry_get ''address'' c) get_string else alternate type cs)"

definition get_collector_alternate :: "string \<Rightarrow> json \<Rightarrow> string error_or" where
  "get_collector_alternate type response =
    not_found (bind_res (get_base response) (\<lambda>b.
      bind_res (entry_get ''collector-alternate'' b) (\<lambda>cs. alternate type (json_items cs))))"

definition get_test_helper :: "string \<Rightarrow> json \<Rightarrow> string error_or" where
  "get_test_helper name response =
    not_found (bind_res (get_base response) (\<lambda>b.
      bind_res (entry_get ''test-helpers'' b) (\<lambda>hs. bind_res (entry_get name hs) get_string)))"

definition get_test_helper_alternate :: "string \<Rightarrow> string \<Rightarrow> json \<Rightarrow> string error_or" where
  "get_test_helper_alternate name type response =
    not_found (bind_res (get_base response) (\<lambda>b.
      bind_res (entry_get ''test-helpers-alternate'' b) (\<lambda>hs.
        bind_res (entry_get name hs) (\<lambda>cs. alternate type (json_items cs)))))"

section \<open>The request\<close>

definition production_bouncer_url :: string where
  "production_bouncer_url = ''https://bouncer.ooni.io''"

definition testing_bouncer_url :: string where
  "testing_bouncer_url = ''https://bouncer.test.ooni.io''"

text \<open>The settings, the headers and the value of the body of the request.  \<open>{}\<close> is null.\<close>

definition post_net_tests_request ::
    "string \<Rightarrow> string \<Rightarrow> string \<Rightarrow> string list \<Rightarrow> settings \<Rightarrow> settings \<times> (string \<times> string) list \<times> json" where
  "post_net_tests_request base test_name test_version helpers settings =
    (settings(''http/url'' \<mapsto> base @ ''/bouncer/net-tests'', ''http/method'' \<mapsto> ''POST''),
     [(''Content-Type'', ''application/json'')],
     JObject [(''net-tests'', JArray [JObject
       [(''input-hashes'', JNull), (''name'', JString test_name),
        (''test-helpers'', JArray (map JString helpers)), (''version'', JString test_version)]])])"

definition post_net_tests_reply :: "(string \<Rightarrow> json option) \<Rightarrow> error \<Rightarrow> string \<Rightarrow> error \<times> json option" where
  "post_net_tests_reply parse err body =
    (if is_err err then (err, None)
     else let reply = create_reply parse body in
       if \<not> has_value reply then (as_error reply, None) else (new NoError, Some (snd reply)))"

section \<open>Lemmas\<close>

lemma bind_res_simps [simp]: "bind_res (Inl e) f = Inl e" "bind_res (Inr x) f = f x"
  by (simp_all add: bind_res_def)

lemma bind_res_Inr_iff: "bind_res r f = Inr y \<longleftrightarrow> (\<exists>x. r = Inr x \<and> f x = Inr y)"
  by (cases r) simp_all

lemma entry_get_object [simp]: "map_of ms k = Some v \<Longrightarrow> entry_get k (JObject ms) = Inr v"
  by (simp add: entry_get_def entry_members_def)

lemma entry_get_absent: "map_of ms k = None \<Longrightarrow> entry_get k (JObject ms) = Inr JNull"
  by (simp add: entry_get_def entry_members_def)

text \<open>An alternative is an object of a type with an address.\<close>

fun is_alternative :: "string \<times> string \<Rightarrow> json \<Rightarrow> bool" where
  "is_alternative (t, a) (JObject ms) \<longleftrightarrow> map_of ms ''type'' = Some (JString t) \<and> map_of ms ''address'' = Some (JString a)"
| "is_alternative _ _ \<longleftrightarrow> False"

lemma alternate_finds:
  assumes "list_all2 is_alternative alts cs"
  shows "alternate type cs =
    (case find (\<lambda>(t, _). t = type) alts of
       Some (_, a) \<Rightarrow> Inr a | None \<Rightarrow> Inl (ErrorExn (new BouncerValueNotFoundError)))"
  using assms
proof (induction rule: list_all2_induct)
  case (Cons alt alts c cs)
  obtain t a where alt: "alt = (t, a)"
    by (cases alt)
  obtain ms where ms: "c = JObject ms" "map_of ms ''type'' = Some (JString t)" "map_of ms ''address'' = Some (JString a)"
    using Cons.hyps(1) alt by (cases c) auto
  show ?case
    using Cons.IH by (simp add: alt ms get_string_def)
qed simp

section \<open>Properties\<close>

text \<open>From a reply whose first test lists alternatives for its collector, each an object with a type and
  an address, the getter takes the address of the first one of the wanted type, and answers
  that there is none otherwise.\<close>

theorem collector_alternate_first:
  assumes "map_of ms ''net-tests'' = Some (JArray (JObject test # tests))"
    and "map_of test ''collector-alternate'' = Some (JArray cs)" "list_all2 is_alternative alts cs"
  shows "get_collector_alternate type (JObject ms) =
    (case find (\<lambda>(t, _). t = type) alts of
       Some (_, a) \<Rightarrow> no_err a | None \<Rightarrow> (new BouncerValueNotFoundError, []))"
  using assms(1,2) alternate_finds [OF assms(3)]
  by (simp add: get_collector_alternate_def get_base_def json_first_def json_items_def not_found_def
    split: option.split prod.split)

theorem collector_alternate_first_witness:
  "get_collector_alternate ''https'' (JObject [(''net-tests'', JArray [JObject [(''collector-alternate'', JArray
      [JObject [(''address'', JString ''x.onion''), (''type'', JString ''onion'')],
       JObject [(''address'', JString ''https://a''), (''type'', JString ''https'')]])]])])
    = no_err ''https://a''"
  by (subst collector_alternate_first [where cs = "[JObject [(''address'', JString ''x.onion''), (''type'', JString ''onion'')],
       JObject [(''address'', JString ''https://a''), (''type'', JString ''https'')]]" and tests = "[]"
      and test = "[(''collector-alternate'', JArray [JObject [(''address'', JString ''x.onion''), (''type'', JString ''onion'')],
       JObject [(''address'', JString ''https://a''), (''type'', JString ''https'')]])]" and alts = "[(''onion'', ''x.onion''), (''https'', ''https://a'')]"]) simp_all

text \<open>A reply that reports an error gives an error, and one without gives one unless it has tests.\<close>

lemma check_reply_object:
  "map_of ms ''error'' = Some e \<Longrightarrow> \<exists>k. check_reply (JObject ms) = Inl (ErrorExn (new k)) \<and> fst k \<noteq> 0"
  "map_of ms ''error'' = None \<Longrightarrow> check_reply (JObject ms) =
    (case map_of ms ''net-tests'' of
       None \<Rightarrow> Inl (ErrorExn (new BouncerTestHelperNotFoundError))
     | Some tests \<Rightarrow> if json_empty tests then Inl (ErrorExn (new BouncerTestHelperNotFoundError)) else Inr ())"
proof -
  have k: "fst BouncerCollectorNotFoundError \<noteq> 0" "fst BouncerInvalidRequestError \<noteq> 0" "fst BouncerGenericError \<noteq> 0"
    by (simp_all add: err_simps)
  show "\<exists>k. check_reply (JObject ms) = Inl (ErrorExn (new k)) \<and> fst k \<noteq> 0" if "map_of ms ''error'' = Some e"
  proof -
    have "check_reply (JObject ms) =
      (if e = JString ''collector-not-found'' then Inl (ErrorExn (new BouncerCollectorNotFoundError))
       else if e = JString ''invalid-request'' then Inl (ErrorExn (new BouncerInvalidRequestError))
       else Inl (ErrorExn (new BouncerGenericError)))"
      by (simp add: check_reply_def that)
    with k show ?thesis
      by metis
  qed
  show "check_reply (JObject ms) =
      (case map_of ms ''net-tests'' of
         None \<Rightarrow> Inl (ErrorExn (new BouncerTestHelperNotFoundError))
       | Some tests \<Rightarrow> if json_empty tests then Inl (ErrorExn (new BouncerTestHelperNotFoundError)) else Inr ())"
    if "map_of ms ''error'' = None"
    by (cases "map_of ms ''net-tests''") (simp_all add: check_reply_def that entry_get_absent json_empty_def)
qed

lemma check_reply_other:
  assumes "\<nexists>ms. j = JObject ms"
  shows "\<exists>k. check_reply j = Inl (ErrorExn (new k)) \<and> fst k \<noteq> 0"
proof (cases "j = JNull")
  case True
  then show ?thesis
    by (auto simp: check_reply_def entry_get_def entry_members_def json_empty_def err_simps)
next
  case False
  then have "check_reply j = Inl domain_error"
    using assms by (cases j) (simp_all add: check_reply_def entry_get_def entry_members_def)
  then show ?thesis
    by (auto simp: err_simps)
qed

text \<open>C38: A reply is accepted exactly when it parses to an object that reports no error and has tests.\<close>

theorem create_reply_accepts:
  "has_value (create_reply parse data) \<longleftrightarrow>
    (\<exists>ms tests. parse data = Some (JObject ms) \<and> map_of ms ''error'' = None
      \<and> map_of ms ''net-tests'' = Some tests \<and> \<not> json_empty tests)"
proof -
  have err: "has_value (create_reply parse data) \<longleftrightarrow> \<not> is_err (json_process parse data check_reply)"
    by (simp add: create_reply_def Let_def is_err_def)
  have bad: "\<not> has_value (create_reply parse data)" if "parse data = Some j" "\<exists>k. check_reply j = Inl (ErrorExn (new k)) \<and> fst k \<noteq> 0" for j
    unfolding err using that by (auto simp: json_process_def json_error_def)
  show ?thesis
  proof (cases "parse data")
    case None
    then show ?thesis
      unfolding err by (simp add: json_process_def json_error_def err_simps)
  next
    case (Some j)
    show ?thesis
    proof (cases "\<exists>ms. j = JObject ms")
      case False
      then show ?thesis
        using bad [OF Some check_reply_other [OF False]] Some by auto
    next
      case True
      then obtain ms where j: "j = JObject ms"
        by blast
      show ?thesis
      proof (cases "map_of ms ''error''")
        case (Some e)
        then show ?thesis
          using bad [OF \<open>parse data = Some j\<close>] check_reply_object(1) [OF Some] \<open>parse data = Some j\<close> j by auto
      next
        case None
        let ?tests = "map_of ms ''net-tests''"
        have k: "fst BouncerTestHelperNotFoundError \<noteq> 0"
          by (simp add: err_simps)
        show ?thesis
        proof (cases "\<exists>tests. ?tests = Some tests \<and> \<not> json_empty tests")
          case True
          then have "check_reply j = Inr ()"
            using check_reply_object(2) [OF None] j by auto
          then have "\<not> is_err (json_process parse data check_reply)"
            using \<open>parse data = Some j\<close> by (simp add: json_process_def json_error_def split: unit.split)
          with True None \<open>parse data = Some j\<close> j show ?thesis
            unfolding err by blast
        next
          case False
          then have "check_reply j = Inl (ErrorExn (new BouncerTestHelperNotFoundError))"
            using check_reply_object(2) [OF None] j by (cases ?tests) auto
          then have "\<not> has_value (create_reply parse data)"
            using bad [OF \<open>parse data = Some j\<close>] k by blast
          with False \<open>parse data = Some j\<close> j show ?thesis
            by auto
        qed
      qed
    qed
  qed
qed

end
