(* ===== verification/Templates.thy ===== *)
theory Templates
  imports OoniUtils
begin

text \<open>
  \<open>ooni/templates.cpp\<close> and \<open>ooni/templates\_impl.hpp\<close>: the DNS query and the HTTP request of a test, which record in
  the entry what was asked and what came back.  The query and the request themselves are
  the models of \<open>Dns\<close> and \<open>Http\<close>; here their results are arguments.
\<close>

section \<open>Building entries\<close>

text \<open>A value that is computed: \<open>None\<close> when the computation does not return.\<close>

type_synonym 'a run = "'a res option"

definition ok :: "'a \<Rightarrow> 'a run" where
  "ok x = Some (Inr x)"

definition bind_run :: "'a run \<Rightarrow> ('a \<Rightarrow> 'b run) \<Rightarrow> 'b run" where
  "bind_run r f = (case r of None \<Rightarrow> None | Some (Inl e) \<Rightarrow> Some (Inl e) | Some (Inr x) \<Rightarrow> f x)"

text \<open>\<open>entry[k1][k2]... = v\<close>.\<close>

fun entry_put :: "string list \<Rightarrow> json \<Rightarrow> json \<Rightarrow> json res" where
  "entry_put [] v j = Inr v"
| "entry_put (k # ks) v j =
    (case entry_get k j of
       Inl e \<Rightarrow> Inl e
     | Inr sub \<Rightarrow> (case entry_put ks v sub of Inl e \<Rightarrow> Inl e | Inr sub \<Rightarrow> entry_set k sub j))"

fun put_all :: "(string list \<times> json run) list \<Rightarrow> json \<Rightarrow> json run" where
  "put_all [] j = ok j"
| "put_all ((ks, v) # kvs) j =
    bind_run v (\<lambda>v. case entry_put ks v j of Inl e \<Rightarrow> Some (Inl e) | Inr j \<Rightarrow> put_all kvs j)"

text \<open>\<open>entry[key].push_back(v)\<close>.\<close>

definition json_push :: "json \<Rightarrow> json \<Rightarrow> json res" where
  "json_push v j =
    (case j of JNull \<Rightarrow> Inr (JArray [v]) | JArray xs \<Rightarrow> Inr (JArray (xs @ [v]))
     | _ \<Rightarrow> Inl (ErrorExn (new JsonDomainError)))"

definition entry_push :: "string \<Rightarrow> json \<Rightarrow> json \<Rightarrow> json res" where
  "entry_push k v j =
    (case entry_get k j of
       Inl e \<Rightarrow> Inl e
     | Inr sub \<Rightarrow> (case json_push v sub of Inl e \<Rightarrow> Inl e | Inr sub \<Rightarrow> entry_set k sub j))"

section \<open>HTTP requests\<close>

definition probe_ip_of :: "settings \<Rightarrow> string" where
  "probe_ip_of settings = settings_get_str settings ''real_probe_ip_'' []"

definition redact :: "settings \<Rightarrow> string \<Rightarrow> string run" where
  "redact settings s =
    (if probe_ip_of settings = [] then ok s
     else case settings_get_bool settings ''save_real_probe_ip'' False of
            Inl e \<Rightarrow> Some (Inl e)
          | Inr save \<Rightarrow> if \<not> save then map_option Inr (scrub s (probe_ip_of settings)) else ok s)"

definition represent_redacted :: "bytes \<Rightarrow> settings \<Rightarrow> string \<Rightarrow> json run" where
  "represent_redacted uninit settings s =
    bind_run (redact settings s) (\<lambda>r. map_option Inr (represent_string uninit r))"

text \<open>The members of an entry for one response, in the order the code sets them.\<close>

definition dump_response ::
    "pton_api \<Rightarrow> bytes \<Rightarrow> settings \<Rightarrow> error \<Rightarrow> response \<Rightarrow> (string list \<times> json run) list" where
  "dump_response api uninit settings err response =
    (if rs_line response \<noteq> []
     then map (\<lambda>(k, v). ([''response'', ''headers'', k], represent_redacted uninit settings v)) (rs_headers response)
       @ [([''response'', ''body''], represent_redacted uninit settings (rs_body response)),
          ([''response'', ''response_line''], represent_redacted uninit settings (rs_line response)),
          ([''response'', ''code''], ok (JInt (uint (rs_status response))))]
     else [([''response'', ''body''], ok JNull), ([''response'', ''headers''], ok (JObject []))])"

definition dump_request :: "pton_api \<Rightarrow> bytes \<Rightarrow> settings \<Rightarrow> request \<Rightarrow> (string list \<times> json run) list" where
  "dump_request api uninit settings request =
    map (\<lambda>(k, v). ([''request'', ''headers'', k], represent_redacted uninit settings v)) (rq_headers request)
    @ [([''request'', ''body''], represent_redacted uninit settings (rq_body request)),
       ([''request'', ''url''], ok (JString (url_str api (rq_url request)))),
       ([''request'', ''method''], ok (JString (rq_method request))),
       ([''request'', ''tor''],
         ok (JObject [(''exit_ip'', JNull), (''exit_name'', JNull), (''is_tor'', JBool False)]))]"

definition dump :: "pton_api \<Rightarrow> bytes \<Rightarrow> settings \<Rightarrow> error \<Rightarrow> response option \<Rightarrow> json run" where
  "dump api uninit settings err response =
    put_all
      (([''failure''], ok (if is_err err then JString (reason err) else JNull))
       # (case response of
            None \<Rightarrow> []
          | Some rs \<Rightarrow>
             (case rs_request rs of
                None \<Rightarrow> []
              | Some rq \<Rightarrow> dump_response api uninit settings err rs @ dump_request api uninit settings rq)))
      JNull"

text \<open>What is known before the request is made.\<close>

definition http_request_setup :: "settings \<Rightarrow> json \<Rightarrow> settings \<times> json res" where
  "http_request_setup settings entry =
    (let max_redirects = settings_get_int_noexcept settings ''http/max_redirects'' 0;
         agent = (if has_value max_redirects \<and> snd max_redirects > 0 then ''redirect'' else ''agent'')
     in (if settings ''http/method'' = None then settings(''http/method'' \<mapsto> ''GET'') else settings,
         case entry_set ''agent'' (JString agent) entry of
           Inl e \<Rightarrow> Inl e | Inr entry \<Rightarrow> entry_set ''socksproxy'' JNull entry))"

text \<open>The responses are the last one and the ones of the redirects before it; the list is empty when
  there is no response at all.\<close>

fun push_dumps :: "json run list \<Rightarrow> json \<Rightarrow> json run" where
  "push_dumps [] entry = ok entry"
| "push_dumps (d # ds) entry =
    bind_run d (\<lambda>rr. case entry_push ''requests'' rr entry of
                       Inl e \<Rightarrow> Some (Inl e) | Inr entry \<Rightarrow> push_dumps ds entry)"

definition http_request_done ::
    "pton_api \<Rightarrow> bytes \<Rightarrow> settings \<Rightarrow> error \<Rightarrow> response list \<Rightarrow> json \<Rightarrow> json run" where
  "http_request_done api uninit settings err responses entry =
    push_dumps
      (if responses = [] then [dump api uninit settings err None]
       else map (\<lambda>rs. dump api uninit settings err (Some rs)) responses) entry"

section \<open>DNS queries\<close>

text \<open>The options of the query and the members known before it, or the error that is called back.\<close>

definition dns_query_setup ::
    "pton_api \<Rightarrow> string \<Rightarrow> settings \<Rightarrow> error + (settings \<times> (string \<times> json) list)" where
  "dns_query_setup api nameserver options =
    (if settings_get_str options ''dns/engine'' ''system'' \<noteq> ''system''
     then let maybe_epnt = parse_endpoint api nameserver 53 in
       if \<not> has_value maybe_epnt then Inl (as_error maybe_epnt)
       else let h = hostname (snd maybe_epnt); p = port (snd maybe_epnt) in
         Inr (options(''dns/nameserver'' \<mapsto> h, ''dns/port'' \<mapsto> scalar_of_int (uint p),
                ''dns/attempts'' \<mapsto> scalar_of_int 1),
              [(''resolver_hostname'', JString h), (''resolver_port'', JInt (uint p))])
     else Inr (if options ''dns/resolve_also_cname'' = None
               then options(''dns/resolve_also_cname'' \<mapsto> ''1'') else options,
               [(''resolver_hostname'', JNull), (''resolver_port'', JNull)]))"

definition dns_answers :: "bool \<Rightarrow> answer list \<Rightarrow> json list" where
  "dns_answers not_system as = concat (map (\<lambda>a.
    let ttl = (if not_system then JInt (uint (an_ttl a)) else JNull) in
    if an_type a = MK_DNS_TYPE_A
    then [JObject [(''ttl'', ttl), (''ipv4'', JString (an_ipv4 a)), (''answer_type'', JString ''A'')]]
    else if an_type a = MK_DNS_TYPE_CNAME
    then [JObject [(''ttl'', ttl), (''hostname'', JString (an_hostname a)), (''answer_type'', JString ''CNAME'')]]
    else []) as)"

definition dns_query_entry ::
    "string \<Rightarrow> query_type \<Rightarrow> string \<Rightarrow> error \<Rightarrow> message \<Rightarrow> (string \<times> json) list \<Rightarrow> json run" where
  "dns_query_entry engine query_type query_name err message ms =
    put_all
      ([([''engine''], ok (JString engine)), ([''failure''], ok JNull), ([''answers''], ok (JArray []))]
       @ (if query_type = MK_DNS_TYPE_A
          then [([''query_type''], ok (JString ''A'')), ([''hostname''], ok (JString query_name))] else [])
       @ (if \<not> is_err err then [([''answers''], ok (JArray (dns_answers (engine \<noteq> ''system'') (answers message))))]
          else [([''failure''], ok (JString (reason err)))]))
      (JObject ms)"

section \<open>TCP connections\<close>

text \<open>The error called back before connecting, or the host and the port.\<close>

definition tcp_connect_args :: "settings \<Rightarrow> error + (string \<times> int)" where
  "tcp_connect_args options =
    (let port = as_int_noexcept (settings_at options ''port'') in
     if \<not> has_value port then Inl (as_error port)
     else if settings_at options ''host'' = [] then Inl (new MissingRequiredHostError)
     else Inr (settings_at options ''host'', snd port))"

section \<open>Strings of a value\<close>

text \<open>All texts of a value: its strings and the names of its members.\<close>

fun strings_of :: "json \<Rightarrow> string list" where
  "strings_of (JString s) = [s]"
| "strings_of (JArray xs) = concat (map strings_of xs)"
| "strings_of (JObject ms) = concat (map (\<lambda>m. fst m # strings_of (snd m)) ms)"
| "strings_of _ = []"

lemma set_members_put: "set (members_put k v ms) \<subseteq> insert (k, v) (set ms)"
  by (induction ms) (auto split: if_splits)

lemma strings_of_members_put:
  "set (strings_of (JObject (members_put k v ms))) \<subseteq> insert k (set (strings_of v) \<union> set (strings_of (JObject ms)))"
proof -
  have "(\<Union>m \<in> set (members_put k v ms). insert (fst m) (set (strings_of (snd m)))) \<subseteq>
    (\<Union>m \<in> insert (k, v) (set ms). insert (fst m) (set (strings_of (snd m))))"
    using set_members_put by (rule UN_mono) simp
  then show ?thesis
    by simp
qed

lemma strings_of_map_of:
  assumes "map_of ms k = Some v"
  shows "set (strings_of v) \<subseteq> set (strings_of (JObject ms))"
  using map_of_SomeD [OF assms] by force

lemma strings_of_entry_put:
  "entry_put ks v j = Inr j' \<Longrightarrow> set (strings_of j') \<subseteq> set ks \<union> set (strings_of v) \<union> set (strings_of j)"
proof (induction ks v j arbitrary: j' rule: entry_put.induct)
  case (2 k ks v j)
  obtain sub where sub: "entry_get k j = Inr sub"
    using "2.prems" by (auto split: sum.splits)
  obtain sub' where sub': "entry_put ks v sub = Inr sub'" "entry_set k sub' j = Inr j'"
    using "2.prems" sub by (auto split: sum.splits)
  have j': "j = JNull \<and> j' = JObject [(k, sub')] \<or> (\<exists>ms. j = JObject ms \<and> j' = JObject (members_put k sub' ms))"
    using sub'(2) by (cases j) (simp_all add: entry_set_def entry_members_def)
  have "set (strings_of sub) \<subseteq> set (strings_of j)"
    using sub strings_of_map_of by (cases j) (auto simp: entry_get_def entry_members_def split: option.splits)
  with "2.IH" [OF sub sub'(1)] have new: "set (strings_of sub') \<subseteq> set ks \<union> set (strings_of v) \<union> set (strings_of j)"
    by blast
  from j' show ?case
  proof (elim disjE exE conjE)
    fix ms
    assume "j = JObject ms" "j' = JObject (members_put k sub' ms)"
    with new strings_of_members_put [of k sub' ms] show ?case
      by auto
  qed (use new in auto)
qed simp

section \<open>Members that can be set\<close>

definition is_object :: "json \<Rightarrow> bool" where
  "is_object j \<longleftrightarrow> (\<exists>ms. j = JObject ms)"

text \<open>The parts of an entry that have members are objects once they are there.\<close>

definition part :: "string \<Rightarrow> bool" where
  "part k \<longleftrightarrow> k \<in> {''response'', ''request''}"

definition part_ok :: "json \<Rightarrow> bool" where
  "part_ok r \<longleftrightarrow> (\<exists>rs. r = JObject rs \<and> (\<forall>h. map_of rs ''headers'' = Some h \<longrightarrow> is_object h))"

definition shaped :: "json \<Rightarrow> bool" where
  "shaped j \<longleftrightarrow> j = JNull \<or> (\<exists>ms. j = JObject ms \<and> (\<forall>k r. part k \<longrightarrow> map_of ms k = Some r \<longrightarrow> part_ok r))"

definition settable :: "string list \<times> json \<Rightarrow> bool" where
  "settable kv \<longleftrightarrow>
    (\<exists>k. fst kv = [k] \<and> \<not> part k)
    \<or> (\<exists>k k2. fst kv = [k, k2] \<and> part k \<and> (k2 = ''headers'' \<longrightarrow> is_object (snd kv)))
    \<or> (\<exists>k k3. fst kv = [k, ''headers'', k3] \<and> part k)"

lemma entry_get_cases:
  "entry_get k (JObject ms) = Inr (case map_of ms k of None \<Rightarrow> JNull | Some v \<Rightarrow> v)" "entry_get k JNull = Inr JNull"
  by (simp_all add: entry_get_def entry_members_def)

lemma entry_set_null [simp]: "entry_set k v JNull = Inr (JObject [(k, v)])"
  by (simp add: entry_set_def entry_members_def)

text \<open>Whatever the entry is, setting a member below an object gives an object.\<close>

lemma part_okI: "(\<And>h. map_of rs ''headers'' = Some h \<Longrightarrow> is_object h) \<Longrightarrow> part_ok (JObject rs)"
  by (simp add: part_ok_def)

lemma entry_put_settable:
  assumes "shaped j" "settable (ks, v)"
  shows "\<exists>j'. entry_put ks v j = Inr j' \<and> shaped j'"
proof -
  obtain ms where ms: "j = JNull \<and> ms = [] \<or> j = JObject ms" "\<And>k r. part k \<Longrightarrow> map_of ms k = Some r \<Longrightarrow> part_ok r"
    using assms(1) that [of "[]"] unfolding shaped_def by fastforce
  have put1: "entry_put [k] w j = Inr (JObject (members_put k w ms))" for k w
    using ms(1) by (auto simp: entry_get_cases)
  have down: "entry_put (k # k2 # ks') w j =
      (case entry_put (k2 # ks') w (case map_of ms k of None \<Rightarrow> JNull | Some v \<Rightarrow> v) of
         Inl e \<Rightarrow> Inl e | Inr sub \<Rightarrow> Inr (JObject (members_put k sub ms)))" for k k2 ks' w
    using ms(1) by (auto simp del: entry_put.simps(2) simp: entry_put.simps(2) [of k] entry_get_cases split: sum.split)
  have keep: "shaped (JObject (members_put k w ms))" if "part k \<Longrightarrow> part_ok w" for k w
  proof -
    have "part_ok r" if "part k'" "map_of (members_put k w ms) k' = Some r" for k' r
      using that \<open>part k \<Longrightarrow> part_ok w\<close> ms(2) [of k' r] by (cases "k = k'") simp_all
    then show ?thesis
      by (auto simp: shaped_def)
  qed
  have sub: "\<exists>rs. ((case map_of ms k of None \<Rightarrow> JNull | Some v \<Rightarrow> v) = JNull \<and> rs = []
      \<or> (case map_of ms k of None \<Rightarrow> JNull | Some v \<Rightarrow> v) = JObject rs)
      \<and> (\<forall>h. map_of rs ''headers'' = Some h \<longrightarrow> is_object h)" if "part k" for k
    using ms(2) [OF that] by (cases "map_of ms k") (auto simp: part_ok_def)
  consider (one) k where "ks = [k]" "\<not> part k"
    | (two) k k2 where "ks = [k, k2]" "part k" "k2 = ''headers'' \<longrightarrow> is_object v"
    | (three) k k3 where "ks = [k, ''headers'', k3]" "part k"
    using assms(2) unfolding settable_def by auto
  then show ?thesis
  proof cases
    case one
    then show ?thesis
      using put1 keep [of "hd ks" v] by simp
  next
    case two
    let ?r = "case map_of ms k of None \<Rightarrow> JNull | Some v \<Rightarrow> v"
    obtain rs where rs: "?r = JNull \<and> rs = [] \<or> ?r = JObject rs" "\<forall>h. map_of rs ''headers'' = Some h \<longrightarrow> is_object h"
      using sub [OF two(2)] by blast
    have "entry_put [k2] v ?r = Inr (JObject (members_put k2 v rs))"
      using rs(1) by (auto simp: entry_get_cases)
    then have "entry_put ks v j = Inr (JObject (members_put k (JObject (members_put k2 v rs)) ms))"
      unfolding two(1) down by simp
    moreover have "part_ok (JObject (members_put k2 v rs))"
      using two(3) rs(2) by (intro part_okI) (auto split: if_splits)
    ultimately show ?thesis
      using keep by blast
  next
    case three
    let ?r = "case map_of ms k of None \<Rightarrow> JNull | Some v \<Rightarrow> v"
    obtain rs where rs: "?r = JNull \<and> rs = [] \<or> ?r = JObject rs" "\<forall>h. map_of rs ''headers'' = Some h \<longrightarrow> is_object h"
      using sub [OF three(2)] by blast
    let ?h = "case map_of rs ''headers'' of None \<Rightarrow> JNull | Some v \<Rightarrow> v"
    have "\<exists>hs. entry_put [k3] v ?h = Inr (JObject hs)"
      using rs(2) by (cases "map_of rs ''headers''") (auto simp: entry_get_cases is_object_def)
    then obtain hs where hs: "entry_put [k3] v ?h = Inr (JObject hs)"
      by blast
    have get: "entry_get ''headers'' ?r = Inr ?h" "entry_set ''headers'' (JObject hs) ?r = Inr (JObject (members_put ''headers'' (JObject hs) rs))"
      using rs(1) by (auto simp: entry_get_cases)
    have "entry_put [''headers'', k3] v ?r = Inr (JObject (members_put ''headers'' (JObject hs) rs))"
      unfolding entry_put.simps(2) [of "''headers''"] get(1) sum.case hs get(2) ..
    then have "entry_put ks v j = Inr (JObject (members_put k (JObject (members_put ''headers'' (JObject hs) rs)) ms))"
      unfolding three(1) down by simp
    moreover have "part_ok (JObject (members_put ''headers'' (JObject hs) rs))"
      using rs(2) by (intro part_okI) (auto simp: is_object_def split: if_splits)
    ultimately show ?thesis
      using keep by blast
  qed
qed

text \<open>Steps whose values are known and can be set give an entry with the strings of the values.\<close>

lemma put_all_settable:
  assumes "list_all (\<lambda>(ks, v). \<exists>x. v = ok x \<and> settable (ks, x) \<and> set ks \<union> set (strings_of x) \<subseteq> A) kvs" "shaped j"
    "set (strings_of j) \<subseteq> A"
  shows "\<exists>j'. put_all kvs j = ok j' \<and> set (strings_of j') \<subseteq> A"
  using assms
proof (induction kvs arbitrary: j)
  case (Cons kv kvs)
  obtain ks x where kv: "kv = (ks, ok x)" "settable (ks, x)" "set ks \<union> set (strings_of x) \<subseteq> A"
    using Cons.prems(1) by (cases kv) auto
  obtain j1 where j1: "entry_put ks x j = Inr j1" "shaped j1"
    using entry_put_settable [OF Cons.prems(2) kv(2)] by blast
  have "set (strings_of j1) \<subseteq> A"
    using strings_of_entry_put [OF j1(1)] kv(3) Cons.prems(3) by blast
  then show ?case
    using Cons.IH [OF _ j1(2)] Cons.prems(1) j1(1) kv(1) by (simp add: bind_run_def ok_def)
qed auto

section \<open>What is redacted\<close>

lemma b64_digit_char: "d < 64 \<Longrightarrow> b64_digit d \<in> set b64_table"
  unfolding b64_digit_def by (rule nth_mem) (simp add: b64_table_def)

lemma b64_encode_spec: "length uninit = 3 \<Longrightarrow> base64_encode uninit s = b64_spec (bytes_of s)"
  unfolding base64_encode_def base64_encode_bytes_def using b64_loop [of uninit "[]"] by simp

lemma b64_spec_chars: "set (b64_spec bs) \<subseteq> insert CHR ''='' (set b64_table)"
proof -
  have be24: "be24 a b c < 64 ^ 4" for a b c
  proof -
    have "unat a * 65536 + unat b * 256 + unat c < 16777216"
      using uint8_lt [of a] uint8_lt [of b] uint8_lt [of c] by linarith
    then show ?thesis
      by (simp add: be24_def)
  qed
  have grp: "set (b64_group n) \<subseteq> set b64_table" if "n < 64 ^ 4" for n
    using that by (auto simp: b64_group_def intro!: b64_digit_char)
  have "set (take k (b64_group (be24 a b c))) \<subseteq> set b64_table" for k a b c
    by (rule order_trans [OF set_take_subset grp [OF be24]])
  note taken = subsetD [OF this] and whole = subsetD [OF grp [OF be24]]
  show ?thesis
    by (induction bs rule: b64_spec.induct) (auto dest: taken whole)
qed

lemma occurs_subset: "occurs pat s \<Longrightarrow> set pat \<subseteq> set s"
proof -
  assume "occurs pat s"
  then obtain i where "take (length pat) (drop i s) = pat"
    by (auto simp: occurs_def startswith_def)
  moreover have "set (take (length pat) (drop i s)) \<subseteq> set s"
    by (rule order_trans [OF set_take_subset set_drop_subset])
  ultimately show ?thesis
    by (simp only:)
qed

text \<open>The marks of an address: a dot or a colon, and no brackets.\<close>

definition marked :: "string \<Rightarrow> bool" where
  "marked ip \<longleftrightarrow> CHR ''['' \<notin> set ip \<and> CHR '']'' \<notin> set ip \<and> (CHR ''.'' \<in> set ip \<or> CHR '':'' \<in> set ip)"

lemma marked_hideable: "marked ip \<Longrightarrow> hideable ip"
proof -
  have "CHR ''.'' \<notin> set REDACTED" "CHR '':'' \<notin> set REDACTED"
    by (simp_all add: REDACTED_def)
  moreover assume "marked ip"
  ultimately show ?thesis
    unfolding marked_def hideable_def by blast
qed

lemma marked_not_plain:
  assumes "marked ip" "CHR ''.'' \<notin> set s" "CHR '':'' \<notin> set s"
  shows "\<not> occurs ip s"
  using assms occurs_subset [of ip s] by (auto simp: marked_def)

lemma represent_redacted_hides:
  assumes "marked (probe_ip_of settings)" "settings_get_bool settings ''save_real_probe_ip'' False = Inr False"
    "length uninit = 3"
  shows "\<exists>j. represent_redacted uninit settings s = ok j \<and> set (strings_of j) \<subseteq> {t. \<not> occurs (probe_ip_of settings) t}"
proof -
  let ?ip = "probe_ip_of settings"
  let ?r = "replace_all ?ip s"
  have r: "scrub s ?ip = Some ?r" "\<not> occurs ?ip ?r"
    using scrub_loop_correct [OF marked_hideable [OF assms(1)], of 0 "[]" s] by (simp_all add: scrub_def)
  have ip: "?ip \<noteq> []"
    using assms(1) by (auto simp: marked_def)
  have red: "redact settings s = ok ?r"
    using r(1) ip assms(2) by (simp add: redact_def ok_def)
  have "CHR ''.'' \<notin> set (b64_spec bs)" "CHR '':'' \<notin> set (b64_spec bs)" for bs
    using b64_spec_chars [of bs] by (auto simp: b64_table_def)
  then have b64: "\<not> occurs ?ip (base64_encode uninit t)" for t
    using marked_not_plain [OF assms(1)] b64_encode_spec [OF assms(3)] by metis
  have name: "\<not> occurs ?ip ''base64''" "\<not> occurs ?ip ''data''" "\<not> occurs ?ip ''format''"
    by (rule marked_not_plain [OF assms(1)]; simp)+
  show ?thesis
    by (rule represent_string_cases [of uninit ?r])
      (use r(2) b64 name in \<open>simp_all add: represent_redacted_def red bind_run_def ok_def\<close>)
qed

section \<open>Properties\<close>

text \<open>The texts of an entry that are not redacted.\<close>

definition unredacted :: "pton_api \<Rightarrow> error \<Rightarrow> response \<Rightarrow> string set" where
  "unredacted api err rs =
    insert (reason err) (fst ` set (rs_headers rs)
      \<union> (case rs_request rs of None \<Rightarrow> {}
           | Some rq \<Rightarrow> {rq_method rq, url_str api (rq_url rq)} \<union> fst ` set (rq_headers rq)))"

text \<open>C10: What a test reports of a response and of its request hides the address of the user: if the setting
  \<open>save\_real\_probe\_ip\<close> is off, every text of the value, whether a string or the name of a member, that contains the address
  is the reason of the error, the method or the URL of the request, or the name of a header, which are not redacted.
  Building the value always succeeds.\<close>

theorem report_hides_address:
  assumes "ip = probe_ip_of settings" "CHR ''['' \<notin> set ip" "CHR '']'' \<notin> set ip"
    and "CHR ''.'' \<in> set ip \<or> CHR '':'' \<in> set ip"
    and "settings_get_bool settings ''save_real_probe_ip'' False = Inr False" "length uninit = 3"
  shows "\<exists>rr. dump api uninit settings err (Some rs) = Some (Inr rr)
    \<and> {s \<in> set (strings_of rr). occurs ip s} \<subseteq> unredacted api err rs"
proof -
  define A where "A = {t. \<not> occurs ip t} \<union> unredacted api err rs"
  let ?good = "\<lambda>(ks, v). \<exists>x. v = ok x \<and> settable (ks, x) \<and> set ks \<union> set (strings_of x) \<subseteq> A"
  have marked: "marked ip"
    using assms(2-4) by (simp add: marked_def)
  then have red: "\<exists>x. represent_redacted uninit settings s = ok x \<and> set (strings_of x) \<subseteq> A" for s
    using represent_redacted_hides [OF _ assms(5,6), of s] assms(1) unfolding A_def by blast
  then obtain f where f: "represent_redacted uninit settings s = ok (f s)" "set (strings_of (f s)) \<subseteq> A" for s
    by metis
  have fixed: "s \<in> A" if "CHR ''.'' \<notin> set s" "CHR '':'' \<notin> set s" for s
    using marked_not_plain [OF marked that] by (simp add: A_def)
  have names: "{''failure'', ''response'', ''request'', ''headers'', ''body'', ''response_line'', ''code'', ''url'', ''method'', ''tor'',
      ''exit_ip'', ''exit_name'', ''is_tor''} \<subseteq> A"
    by (simp add: fixed)
  have settable: "settable ([k, ''headers'', h], x)" "k2 \<noteq> ''headers'' \<Longrightarrow> settable ([k, k2], x)" "settable ([k, ''headers''], JObject ms)"
    if "part k" for k k2 h x ms
    using that by (simp_all add: settable_def is_object_def)
  have parts: "part ''response''" "part ''request''"
    by (simp_all add: part_def)
  have kept: "reason err \<in> A" "h \<in> set (rs_headers rs) \<Longrightarrow> fst h \<in> A" for h
    by (simp_all add: A_def unredacted_def)
  have ok_eq: "ok x = ok y \<longleftrightarrow> x = y" for x y :: json
    by (simp add: ok_def)
  note good = f ok_eq settable parts
  have "list_all ?good (dump_response api uninit settings err rs)"
    using names kept(2) by (simp add: dump_response_def list_all_iff good case_prod_beta)
  moreover have "list_all ?good (dump_request api uninit settings rq)" if "rs_request rs = Some rq" for rq
  proof -
    have "rq_method rq \<in> A" "url_str api (rq_url rq) \<in> A" "h \<in> set (rq_headers rq) \<Longrightarrow> fst h \<in> A" for h
      by (simp_all add: A_def unredacted_def that)
    then show ?thesis
      using names by (simp add: dump_request_def list_all_iff good case_prod_beta)
  qed
  moreover have "?good ([''failure''], ok (if is_err err then JString (reason err) else JNull))"
    using names kept(1) by (simp add: settable_def part_def ok_eq)
  ultimately have "list_all ?good (([''failure''], ok (if is_err err then JString (reason err) else JNull))
      # (case rs_request rs of None \<Rightarrow> []
         | Some rq \<Rightarrow> dump_response api uninit settings err rs @ dump_request api uninit settings rq))"
    by (cases "rs_request rs") auto
  from put_all_settable [OF this, of JNull] obtain rr where
    "dump api uninit settings err (Some rs) = ok rr" "set (strings_of rr) \<subseteq> A"
    by (auto simp: dump_def shaped_def)
  then show ?thesis
    unfolding A_def by (auto simp: ok_def)
qed

definition test_pton :: pton_api where
  "test_pton = \<lparr>pton4 = \<lambda>_. None, pton6 = \<lambda>_. None\<rparr>"

definition echo_response :: response where
  "echo_response = response_empty
    \<lparr>rs_request := Some \<lparr>rq_method = ''GET'', rq_url = url_none, rq_url_path = ''/'', rq_protocol = ''HTTP/1.1'',
       rq_headers = [], rq_body = []\<rparr>,
     rs_line := ''HTTP/1.1 200 Ok'', rs_headers := [(''X-Client'', ''1.2.3.4'')], rs_body := ''you are 1.2.3.4''\<rparr>"

theorem report_hides_address_witness:
  "\<exists>rr. dump test_pton [0, 0, 0] [''real_probe_ip_'' \<mapsto> ''1.2.3.4''] (new NoError) (Some echo_response) = Some (Inr rr)
    \<and> {s \<in> set (strings_of rr). occurs ''1.2.3.4'' s} \<subseteq> unredacted test_pton (new NoError) echo_response"
proof (rule report_hides_address)
  have nul: "(of_char c :: nat) \<noteq> 0" if "c \<in> {CHR ''1'', CHR ''2'', CHR ''3'', CHR ''4'', CHR ''.''}" for c
    using that by auto
  have "c_str ''1.2.3.4'' = ''1.2.3.4''"
    unfolding c_str_def takeWhile_eq_all_conv using nul by simp
  then show "''1.2.3.4'' = probe_ip_of [''real_probe_ip_'' \<mapsto> ''1.2.3.4'']"
    by (simp add: probe_ip_of_def settings_get_str_def as_string_def)
  show "settings_get_bool [''real_probe_ip_'' \<mapsto> ''1.2.3.4''] ''save_real_probe_ip'' False = Inr False"
    by (simp add: settings_get_bool_def)
qed simp_all

text \<open>The answers of an entry are the A and CNAME answers of the message in their order, with the ttl only if
  the engine is not the one of the system.\<close>

lemma dns_answers_types:
  "length (dns_answers ns as) = length (filter (\<lambda>a. an_type a = MK_DNS_TYPE_A \<or> an_type a = MK_DNS_TYPE_CNAME) as)"
  by (induction as) (auto simp: dns_answers_def Let_def)

end
