(* ===== verification/MeasurementLoop.thy ===== *)
theory MeasurementLoop
  imports Engine Report Templates
begin

text \<open>
  \<open>Runnable::run\_next\_measurement\<close> (\<open>nettests/runnable.cpp\<close>): the loop that measures the inputs of a nettest.
  Several activities share the inputs and a counter; each runs on the one thread of the reactor, from
  one callback to the next.  A step is one such callback: the next input is taken, the test
  answers, the entry was written.  The environment chooses which activity goes on, what the test
  measured, how much time has passed and whether the write failed.
\<close>

section \<open>Entries\<close>

text \<open>What of a nettest the loop reads: the maps of helpers and of annotations, the address of the resolver
  and what the driver does to an entry.\<close>

record nettest =
  nt_name :: string
  nt_version :: string
  nt_needs_input :: bool
  nt_use_bouncer :: bool
  nt_helpers :: "(string \<times> string) list"
  nt_annotations :: "(string \<times> string) list"
  nt_fixup :: "json \<Rightarrow> json"

text \<open>What comes from outside for one measurement: the keys of the test, the times and the identifier.\<close>

record measured =
  me_keys :: json
  me_start :: string
  me_runtime :: double
  me_id :: string

definition test_helpers_option_names :: "nettest \<Rightarrow> string list" where
  "test_helpers_option_names nt = map snd (nt_helpers nt)"

definition test_helpers_bouncer_names :: "nettest \<Rightarrow> string list" where
  "test_helpers_bouncer_names nt = map fst (nt_helpers nt)"

definition null_if_empty :: "string \<Rightarrow> json" where
  "null_if_empty s = (if s = [] then JNull else JString s)"

definition helper_sets :: "nettest \<Rightarrow> settings \<Rightarrow> (string list \<times> json) list" where
  "helper_sets nt options =
    concat (map (\<lambda>name. case options name of None \<Rightarrow> [] | Some v \<Rightarrow> [([''test_helpers'', name], JString v)])
      (test_helpers_option_names nt))"

definition build_entry ::
    "build \<Rightarrow> nettest \<Rightarrow> report \<Rightarrow> string \<Rightarrow> settings \<Rightarrow> string \<Rightarrow> measured \<Rightarrow> json res" where
  "build_entry bd nt rp resolver_ip options next_input me =
    (case entry_sets
       ([([''input''], null_if_empty next_input),
         ([''test_keys''], me_keys me),
         ([''test_keys'', ''client_resolver''], JString resolver_ip),
         ([''measurement_start_time''], JString (me_start me)),
         ([''test_runtime''], JFloat (me_runtime me)),
         ([''id''], JString (me_id me)),
         ([''options''], JArray []),
         ([''probe_city''], JNull),
         ([''test_helpers''], JObject [])]
        @ helper_sets nt options
        @ [([''input_hashes''], JArray []),
           ([''annotations''], JObject (map (\<lambda>(k, v). (k, JString v)) (nt_annotations nt)))]) JNull of
       Inl e \<Rightarrow> Inl e
     | Inr entry \<Rightarrow> (case fill_entry bd rp entry of Inl e \<Rightarrow> Inl e | Inr entry \<Rightarrow> Inr (nt_fixup nt entry)))"

text \<open>Setting members one after the other.\<close>

definition set_ok :: "string set \<Rightarrow> string list \<times> json \<Rightarrow> bool" where
  "set_ok objs kv \<longleftrightarrow>
    (\<exists>k. fst kv = [k] \<and> (k \<in> objs \<longrightarrow> (\<exists>ms. snd kv = JObject ms))) \<or> (\<exists>k k2. fst kv = [k, k2] \<and> k \<in> objs)"

definition objects_at :: "string set \<Rightarrow> (string \<times> json) list \<Rightarrow> bool" where
  "objects_at objs ms \<longleftrightarrow> (\<forall>k \<in> objs. \<forall>r. map_of ms k = Some r \<longrightarrow> (\<exists>ms'. r = JObject ms'))"

lemma objects_at_put:
  "objects_at objs ms \<Longrightarrow> (k \<in> objs \<Longrightarrow> \<exists>ms'. v = JObject ms') \<Longrightarrow> objects_at objs (members_put k v ms)"
  by (auto simp: objects_at_def)

lemma entry_sets_append:
  "entry_sets (xs @ ys) j = (case entry_sets xs j of Inl e \<Rightarrow> Inl e | Inr j \<Rightarrow> entry_sets ys j)"
  by (induction xs j rule: entry_sets.induct) (simp_all split: sum.split)

lemma entry_sets_object:
  assumes "list_all (set_ok objs) kvs" "objects_at objs ms"
  shows "\<exists>ms'. entry_sets kvs (JObject ms) = Inr (JObject ms') \<and> objects_at objs ms'
    \<and> (\<forall>k. k \<notin> (hd \<circ> fst) ` set kvs \<longrightarrow> map_of ms' k = map_of ms k)"
  using assms
proof (induction kvs arbitrary: ms)
  case (Cons kv kvs)
  have tl: "list_all (set_ok objs) kvs"
    using Cons.prems(1) by simp
  consider (one) k v where "kv = ([k], v)" "k \<in> objs \<Longrightarrow> \<exists>ms. v = JObject ms"
    | (two) k k2 v where "kv = ([k, k2], v)" "k \<in> objs"
    using Cons.prems(1) by (cases kv) (auto simp: set_ok_def)
  then show ?case
  proof cases
    case one
    have "objects_at objs (members_put k v ms)"
      using objects_at_put [OF Cons.prems(2) one(2)] .
    from Cons.IH [OF tl this] show ?thesis
      by (auto simp: one(1))
  next
    case two
    obtain sub where sub: "entry_get k (JObject ms) = Inr sub" "sub = JNull \<or> (\<exists>ms3. sub = JObject ms3)"
      using Cons.prems(2) two(2) by (cases "map_of ms k") (auto simp: objects_at_def entry_get_def entry_members_def)
    then obtain ms2 where "entry_set k2 v sub = Inr (JObject ms2)"
      by (auto simp: entry_set_def entry_members_def)
    then have "entry_set2 k k2 v (JObject ms) = Inr (JObject (members_put k (JObject ms2) ms))"
      using sub(1) by (simp add: entry_set2_def)
    moreover have "objects_at objs (members_put k (JObject ms2) ms)"
      by (rule objects_at_put [OF Cons.prems(2)]) blast
    ultimately show ?thesis
      using Cons.IH [OF tl, of "members_put k (JObject ms2) ms"] by (auto simp: two(1))
  qed
qed simp

lemma last_set:
  assumes "entry_sets (pre @ ([k], v) # post) (JObject ms) = Inr (JObject ms')"
    and "list_all (set_ok objs) (pre @ ([k], v) # post)" "objects_at objs ms" "k \<notin> (hd \<circ> fst) ` set post"
  shows "map_of ms' k = Some v"
proof -
  obtain ms1 where ms1: "entry_sets pre (JObject ms) = Inr (JObject ms1)" "objects_at objs ms1"
    using entry_sets_object [of objs pre ms] assms(2,3) by auto
  have "objects_at objs (members_put k v ms1)"
    using assms(2) by (intro objects_at_put [OF ms1(2)]) (auto simp: set_ok_def)
  then show ?thesis
    using entry_sets_object [of objs post "members_put k v ms1"] assms(1,2,4) ms1(1) by (auto simp: entry_sets_append)
qed

lemma fill_entry_sets: "fill_entry bd rp = entry_sets (fill_sets bd rp)"
  by (rule ext) (simp add: fill_entry_def)

abbreviation entry_objects :: "string set" where
  "entry_objects \<equiv> {''test_keys'', ''test_helpers'', ''annotations''}"

lemma helper_sets_ok: "list_all (set_ok entry_objects) (helper_sets nt options)"
  "(hd \<circ> fst) ` set (helper_sets nt options) \<subseteq> {''test_helpers''}"
  by (auto simp: helper_sets_def list_all_iff set_ok_def split: option.splits)

definition entry_list :: "build \<Rightarrow> nettest \<Rightarrow> report \<Rightarrow> string \<Rightarrow> settings \<Rightarrow> string \<Rightarrow> measured \<Rightarrow> (string list \<times> json) list" where
  "entry_list bd nt rp resolver_ip options next_input me =
    [([''input''], null_if_empty next_input),
     ([''test_keys''], me_keys me),
     ([''test_keys'', ''client_resolver''], JString resolver_ip),
     ([''measurement_start_time''], JString (me_start me)),
     ([''test_runtime''], JFloat (me_runtime me)),
     ([''id''], JString (me_id me)),
     ([''options''], JArray []),
     ([''probe_city''], JNull),
     ([''test_helpers''], JObject [])]
    @ helper_sets nt options
    @ [([''input_hashes''], JArray []),
       ([''annotations''], JObject (map (\<lambda>(k, v). (k, JString v)) (nt_annotations nt)))]
    @ fill_sets bd rp"

lemma build_entry_list:
  "build_entry bd nt rp ip options inp me =
    (case entry_sets (entry_list bd nt rp ip options inp me) (JObject []) of
       Inl e \<Rightarrow> Inl e | Inr entry \<Rightarrow> Inr (nt_fixup nt entry))"
proof -
  have "entry_sets (([k], v) # kvs) JNull = entry_sets (([k], v) # kvs) (JObject [])" for k v kvs
    by simp
  then show ?thesis
    unfolding build_entry_def entry_list_def fill_entry_sets append_Cons
    by (simp only: entry_sets_append [symmetric] append_assoc append_Cons append_Nil
      flip: append_Cons) (simp add: entry_sets_append split: sum.split)
qed

lemma entry_list_ok:
  assumes "me_keys me = JObject ks"
  shows "list_all (set_ok entry_objects) (entry_list bd nt rp ip options inp me)"
  using assms helper_sets_ok(1) [of nt options]
  by (simp add: entry_list_def fill_sets_def set_ok_def)

lemma entry_members:
  assumes "me_keys me = JObject ks"
  shows "\<exists>ms. build_entry bd nt rp ip options inp me = Inr (nt_fixup nt (JObject ms))
    \<and> map_of ms ''input'' = Some (if inp = [] then JNull else JString inp)
    \<and> map_of ms ''test_keys'' = Some (JObject (members_put ''client_resolver'' (JString ip) ks))
    \<and> map_of ms ''probe_ip'' = Some (JString (rp_probe_ip rp)) \<and> map_of ms ''probe_asn'' = Some (JString (rp_probe_asn rp))
    \<and> map_of ms ''probe_cc'' = Some (JString (rp_probe_cc rp)) \<and> map_of ms ''report_id'' = Some (JString (rp_report_id rp))"
proof -
  let ?L = "entry_list bd nt rp ip options inp me"
  note okL = entry_list_ok [OF assms, of bd nt rp ip options inp]
  have start: "objects_at entry_objects []"
    by (simp add: objects_at_def)
  obtain ms where ms: "entry_sets ?L (JObject []) = Inr (JObject ms)"
    using entry_sets_object [OF okL start] by blast
  have at: "map_of ms k = Some v" if "?L = pre @ ([k], v) # post" "k \<notin> (hd \<circ> fst) ` set post" for pre k v post
    using last_set [of pre k v post "[]" ms entry_objects] ms okL start that by simp
  have helpers: "k \<notin> (hd \<circ> fst) ` set (helper_sets nt options)" if "k \<noteq> ''test_helpers''" for k
    using helper_sets_ok(2) [of nt options] that by blast
  have "map_of ms ''input'' = Some (null_if_empty inp)"
    by (rule at [where pre = "[]"]) (simp add: entry_list_def, use helpers in \<open>simp add: fill_sets_def\<close>)
  moreover have "map_of ms ''test_keys'' = Some (JObject (members_put ''client_resolver'' (JString ip) ks))"
  proof -
    obtain post where L: "?L = [([''input''], null_if_empty inp), ([''test_keys''], JObject ks),
        ([''test_keys'', ''client_resolver''], JString ip)] @ post" "''test_keys'' \<notin> (hd \<circ> fst) ` set post"
      "list_all (set_ok entry_objects) post"
      using that okL helpers [of "''test_keys''"] assms unfolding entry_list_def fill_sets_def by simp
    let ?ms = "[(''input'', null_if_empty inp), (''test_keys'', JObject (members_put ''client_resolver'' (JString ip) ks))]"
    have "entry_sets post (JObject ?ms) = Inr (JObject ms)"
      using ms unfolding L(1) by (simp add: entry_sets_append entry_set2_object)
    moreover have "objects_at entry_objects ?ms"
      by (simp add: objects_at_def)
    ultimately show ?thesis
      using entry_sets_object [OF L(3), of ?ms] L(2) by auto
  qed
  moreover have "map_of ms ''probe_ip'' = Some (JString (rp_probe_ip rp))" "map_of ms ''probe_asn'' = Some (JString (rp_probe_asn rp))"
    "map_of ms ''probe_cc'' = Some (JString (rp_probe_cc rp))" "map_of ms ''report_id'' = Some (JString (rp_report_id rp))"
  proof -
    obtain L1 where L1: "?L = L1 @ fill_sets bd rp"
      unfolding entry_list_def by (simp only: append_assoc [symmetric] append_Cons [symmetric])
    show "map_of ms ''probe_ip'' = Some (JString (rp_probe_ip rp))"
      by (rule at [of "L1 @ take 3 (fill_sets bd rp)" _ _ "drop 4 (fill_sets bd rp)"]) (simp_all add: L1 fill_sets_def)
    show "map_of ms ''probe_asn'' = Some (JString (rp_probe_asn rp))"
      by (rule at [of "L1 @ take 4 (fill_sets bd rp)" _ _ "drop 5 (fill_sets bd rp)"]) (simp_all add: L1 fill_sets_def)
    show "map_of ms ''probe_cc'' = Some (JString (rp_probe_cc rp))"
      by (rule at [of "L1 @ take 5 (fill_sets bd rp)" _ _ "drop 6 (fill_sets bd rp)"]) (simp_all add: L1 fill_sets_def)
    show "map_of ms ''report_id'' = Some (JString (rp_report_id rp))"
      by (rule at [of "L1 @ take 13 (fill_sets bd rp)" _ _ "[]"]) (simp_all add: L1 fill_sets_def)
  qed
  ultimately show ?thesis
    by (intro exI [of _ ms] conjI) (simp_all add: build_entry_list ms null_if_empty_def)
qed

section \<open>The loop\<close>

text \<open>What the loop lets others see: progress, the calls of the driver and of the entry callback, and the events.\<close>

datatype loop_output =
  Progress rat string | Setup string | Teardown string | EntryCallback string
| Started nat string | Measurement nat string
| Submitted nat | NotSubmitted nat string string | MeasurementDone nat

text \<open>Where an activity is: about to take the next input, in the test, writing the entry, back in its caller, or
  stopped by an exception that left its callback.\<close>

datatype activity = Ready | Measuring nat string | Writing nat string | Returned error | Threw exn

record loop =
  lo_inputs :: "string list"
  lo_entry :: nat
  lo_outputs :: "loop_output list"
  lo_activities :: "activity list"

text \<open>The constants of a run.  \<open>double\<close> values of times are read as rational numbers.\<close>

record run_env =
  re_build :: build
  re_nettest :: nettest
  re_report :: report
  re_resolver_ip :: string
  re_options :: settings
  re_max_runtime :: "rat res"
  re_num_entries :: nat
  re_dump :: "json \<Rightarrow> string"

definition set_activity :: "nat \<Rightarrow> activity \<Rightarrow> loop \<Rightarrow> loop" where
  "set_activity t a l = l\<lparr>lo_activities := (lo_activities l)[t := a]\<rparr>"

definition emit :: "loop_output list \<Rightarrow> loop \<Rightarrow> loop" where
  "emit os l = l\<lparr>lo_outputs := lo_outputs l @ os\<rparr>"

definition exceeded :: "rat \<Rightarrow> rat \<Rightarrow> bool" where
  "exceeded max_rt delta \<longleftrightarrow> max_rt \<ge> 0 \<and> delta > max_rt - max_rt / 10"

definition progress_of :: "rat \<Rightarrow> rat \<Rightarrow> nat \<Rightarrow> nat \<Rightarrow> rat" where
  "progress_of max_rt delta num_entries current_entry =
    (if max_rt > 0 then delta / max_rt
     else if num_entries > 0 then of_nat current_entry / of_nat num_entries else 0)"

definition run_next_measurement :: "run_env \<Rightarrow> rat \<Rightarrow> nat \<Rightarrow> loop \<Rightarrow> loop" where
  "run_next_measurement env delta t l =
    (case re_max_runtime env of
       Inl e \<Rightarrow> set_activity t (Threw e) l
     | Inr max_rt \<Rightarrow>
        if exceeded max_rt delta then set_activity t (Returned (new NoError)) l
        else (case lo_inputs l of
           [] \<Rightarrow> set_activity t (Returned (new NoError)) l
         | next_input # inputs \<Rightarrow>
            let idx = lo_entry l; prog = progress_of max_rt delta (re_num_entries env) idx in
            set_activity t (Measuring idx next_input)
              (emit ((if next_input \<noteq> [] then [Progress prog (''Processing input: '' @ next_input)] else [])
                  @ [Setup next_input, Started idx next_input])
                (l\<lparr>lo_inputs := inputs, lo_entry := idx + 1\<rparr>))))"

text \<open>The callback of \<open>main\<close>.\<close>

definition measured_callback :: "run_env \<Rightarrow> measured \<Rightarrow> nat \<Rightarrow> nat \<Rightarrow> string \<Rightarrow> loop \<Rightarrow> loop" where
  "measured_callback env me t idx next_input l =
    (case build_entry (re_build env) (re_nettest env) (re_report env) (re_resolver_ip env) (re_options env) next_input me of
       Inl e \<Rightarrow> set_activity t (Threw e) l
     | Inr entry \<Rightarrow>
        set_activity t (Writing idx (re_dump env entry))
          (emit [Teardown next_input, EntryCallback (re_dump env entry), Measurement idx (re_dump env entry)] l))"

text \<open>The callback of \<open>write_entry\<close>.\<close>

definition written_callback :: "run_env \<Rightarrow> error \<Rightarrow> nat \<Rightarrow> nat \<Rightarrow> string \<Rightarrow> loop \<Rightarrow> loop" where
  "written_callback env err t idx json_str l =
    (if is_err err
     then let l = emit [NotSubmitted idx json_str (reason err)] l in
       (case settings_get_bool (re_options env) ''ignore_write_entry_error'' True of
          Inl e \<Rightarrow> set_activity t (Threw e) l
        | Inr ignore \<Rightarrow>
           if \<not> ignore then set_activity t (Returned err) l
           else set_activity t Ready (emit [MeasurementDone idx] l))
     else set_activity t Ready (emit [Submitted idx, MeasurementDone idx] l))"

inductive loop_step :: "run_env \<Rightarrow> loop \<Rightarrow> loop \<Rightarrow> bool" for env where
  take_input: "t < length (lo_activities l) \<Longrightarrow> lo_activities l ! t = Ready \<Longrightarrow>
    loop_step env l (run_next_measurement env delta t l)"
| main_done: "t < length (lo_activities l) \<Longrightarrow> lo_activities l ! t = Measuring idx next_input \<Longrightarrow>
    loop_step env l (measured_callback env me t idx next_input l)"
| write_done: "t < length (lo_activities l) \<Longrightarrow> lo_activities l ! t = Writing idx json_str \<Longrightarrow>
    loop_step env l (written_callback env err t idx json_str l)"

inductive_cases loop_stepE: "loop_step env l l'"

text \<open>The start: \<open>parallelism\<close> activities share the inputs.\<close>

definition loop_start :: "nat \<Rightarrow> string list \<Rightarrow> loop" where
  "loop_start n inputs = \<lparr>lo_inputs = inputs, lo_entry = 0, lo_outputs = [], lo_activities = replicate n Ready\<rparr>"

definition loop_reachable :: "run_env \<Rightarrow> nat \<Rightarrow> string list \<Rightarrow> loop \<Rightarrow> bool" where
  "loop_reachable env n inputs = (loop_step env)\<^sup>*\<^sup>* (loop_start n inputs)"

section \<open>The events of an output\<close>

fun output_event :: "loop_output \<Rightarrow> logger_call option" where
  "output_event (Started idx inp) =
    Some (LogEvent ''status.measurement_start'' [(''idx'', JInt (int idx)), (''input'', JString inp)])"
| "output_event (Measurement idx s) =
    Some (LogEvent ''measurement'' [(''idx'', JInt (int idx)), (''json_str'', JString s)])"
| "output_event (Submitted idx) = Some (LogEvent ''status.measurement_submission'' [(''idx'', JInt (int idx))])"
| "output_event (NotSubmitted idx s f) =
    Some (LogEvent ''failure.measurement_submission''
      [(''idx'', JInt (int idx)), (''json_str'', JString s), (''failure'', JString f)])"
| "output_event (MeasurementDone idx) = Some (LogEvent ''status.measurement_done'' [(''idx'', JInt (int idx))])"
| "output_event _ = None"

section \<open>Termination\<close>

fun weight :: "activity \<Rightarrow> nat" where
  "weight Ready = 1"
| "weight (Measuring _ _) = 3"
| "weight (Writing _ _) = 2"
| "weight (Returned _) = 0"
| "weight (Threw _) = 0"

definition work_left :: "loop \<Rightarrow> nat" where
  "work_left l = 3 * length (lo_inputs l) + sum_list (map weight (lo_activities l))"

lemma set_activity_simps [simp]:
  "lo_inputs (set_activity t a l) = lo_inputs l" "lo_entry (set_activity t a l) = lo_entry l"
  "lo_outputs (set_activity t a l) = lo_outputs l"
  "lo_activities (set_activity t a l) = (lo_activities l)[t := a]"
  by (simp_all add: set_activity_def)

lemma emit_simps [simp]:
  "lo_inputs (emit os l) = lo_inputs l" "lo_entry (emit os l) = lo_entry l"
  "lo_outputs (emit os l) = lo_outputs l @ os" "lo_activities (emit os l) = lo_activities l"
  by (simp_all add: emit_def)

lemma sum_list_weight_update:
  "t < length as \<Longrightarrow> sum_list (map weight (as[t := a])) + weight (as ! t) = sum_list (map weight as) + weight a"
  by (induction as arbitrary: t) (auto split: nat.split)

lemma work_less:
  assumes "t < length (lo_activities l)" "weight a < weight (lo_activities l ! t)"
  shows "work_left (set_activity t a l) < work_left l" "work_left (set_activity t a (emit os l)) < work_left l"
  using sum_list_weight_update [OF assms(1), of a] assms(2) by (simp_all add: work_left_def)

lemma loop_step_work: "loop_step env l l' \<Longrightarrow> work_left l' < work_left l"
proof (induction rule: loop_step.induct)
  case (take_input t l delta)
  have "work_left (run_next_measurement env delta t l) < work_left l"
    if "re_max_runtime env = Inr m" "\<not> exceeded m delta" "lo_inputs l = inp # inputs" for m inp inputs
    using that sum_list_weight_update [OF take_input(1), of "Measuring (lo_entry l) inp"] take_input(2)
    by (simp add: run_next_measurement_def work_left_def Let_def)
  moreover have "work_left (set_activity t (Returned e) l) < work_left l" "work_left (set_activity t (Threw x) l) < work_left l"
    for e x
    using work_less(1) [OF take_input(1)] take_input(2) by simp_all
  ultimately show ?case
    by (cases "re_max_runtime env"; cases "lo_inputs l") (auto simp: run_next_measurement_def)
next
  case (main_done t l idx next_input me)
  then show ?case
    using work_less [OF main_done(1)] by (simp add: measured_callback_def split: sum.split)
next
  case (write_done t l idx json_str err)
  then show ?case
    using work_less(2) [OF write_done(1)] unfolding written_callback_def Let_def
    by (auto simp: emit_def split: sum.split)
qed

section \<open>What is seen of one measurement\<close>

fun concerns :: "nat \<Rightarrow> loop_output \<Rightarrow> bool" where
  "concerns i (Started j _) = (i = j)"
| "concerns i (Measurement j _) = (i = j)"
| "concerns i (Submitted j) = (i = j)"
| "concerns i (NotSubmitted j _ _) = (i = j)"
| "concerns i (MeasurementDone j) = (i = j)"
| "concerns i _ = False"

definition trace :: "nat \<Rightarrow> loop \<Rightarrow> loop_output list" where
  "trace i l = filter (concerns i) (lo_outputs l)"

text \<open>A whole measurement, and one whose error ended its activity: the write failed and this is not ignored, or
  a callback threw.\<close>

definition complete :: "nat \<Rightarrow> string \<Rightarrow> loop_output list \<Rightarrow> bool" where
  "complete i inp tr \<longleftrightarrow>
    (\<exists>s. tr = [Started i inp, Measurement i s, Submitted i, MeasurementDone i]
       \<or> (\<exists>f. tr = [Started i inp, Measurement i s, NotSubmitted i s f, MeasurementDone i]))"

definition aborted :: "nat \<Rightarrow> string \<Rightarrow> loop_output list \<Rightarrow> bool" where
  "aborted i inp tr \<longleftrightarrow> tr = [Started i inp] \<or> (\<exists>s f. tr = [Started i inp, Measurement i s, NotSubmitted i s f])"

fun in_flight :: "activity \<Rightarrow> nat option" where
  "in_flight (Measuring i _) = Some i"
| "in_flight (Writing i _) = Some i"
| "in_flight _ = None"

fun failed :: "activity \<Rightarrow> bool" where
  "failed (Returned e) = is_err e"
| "failed (Threw _) = True"
| "failed _ = False"

fun activity_trace :: "string list \<Rightarrow> (nat \<Rightarrow> loop_output list) \<Rightarrow> activity \<Rightarrow> bool" where
  "activity_trace inputs tr (Measuring i inp) \<longleftrightarrow> inp = inputs ! i \<and> tr i = [Started i inp]"
| "activity_trace inputs tr (Writing i s) \<longleftrightarrow> tr i = [Started i (inputs ! i), Measurement i s]"
| "activity_trace inputs tr _ \<longleftrightarrow> True"

definition accounted :: "string list \<Rightarrow> loop \<Rightarrow> nat \<Rightarrow> bool" where
  "accounted inputs l i \<longleftrightarrow>
    Some i \<in> in_flight ` set (lo_activities l) \<or> complete i (inputs ! i) (trace i l)
    \<or> aborted i (inputs ! i) (trace i l) \<and> (\<exists>a \<in> set (lo_activities l). failed a)"

definition loop_inv :: "string list \<Rightarrow> loop \<Rightarrow> bool" where
  "loop_inv inputs l \<longleftrightarrow>
    lo_entry l \<le> length inputs \<and> lo_inputs l = drop (lo_entry l) inputs
    \<and> (\<forall>i \<ge> lo_entry l. trace i l = [])
    \<and> (\<forall>t < length (lo_activities l). activity_trace inputs (\<lambda>i. trace i l) (lo_activities l ! t))
    \<and> (\<forall>t t' i. t < length (lo_activities l) \<longrightarrow> t' < length (lo_activities l) \<longrightarrow>
         in_flight (lo_activities l ! t) = Some i \<longrightarrow> in_flight (lo_activities l ! t') = Some i \<longrightarrow> t = t')
    \<and> (\<forall>t i. t < length (lo_activities l) \<longrightarrow> in_flight (lo_activities l ! t) = Some i \<longrightarrow> i < lo_entry l)
    \<and> (\<forall>i < lo_entry l. accounted inputs l i)"

lemma loop_inv_start: "loop_inv inputs (loop_start n inputs)"
  by (auto simp: loop_inv_def loop_start_def trace_def)

lemma loop_invD:
  assumes "loop_inv inputs l"
  shows "lo_entry l \<le> length inputs" "lo_inputs l = drop (lo_entry l) inputs"
    "\<And>i. lo_entry l \<le> i \<Longrightarrow> trace i l = []"
    "\<And>t. t < length (lo_activities l) \<Longrightarrow> activity_trace inputs (\<lambda>i. trace i l) (lo_activities l ! t)"
    "\<And>t t' i. t < length (lo_activities l) \<Longrightarrow> t' < length (lo_activities l) \<Longrightarrow>
      in_flight (lo_activities l ! t) = Some i \<Longrightarrow> in_flight (lo_activities l ! t') = Some i \<Longrightarrow> t = t'"
    "\<And>t i. t < length (lo_activities l) \<Longrightarrow> in_flight (lo_activities l ! t) = Some i \<Longrightarrow> i < lo_entry l"
    "\<And>i. i < lo_entry l \<Longrightarrow> accounted inputs l i"
  using assms unfolding loop_inv_def by blast+

lemma loop_invI:
  assumes "lo_entry l \<le> length inputs" "lo_inputs l = drop (lo_entry l) inputs"
    "\<And>i. lo_entry l \<le> i \<Longrightarrow> trace i l = []"
    "\<And>t. t < length (lo_activities l) \<Longrightarrow> activity_trace inputs (\<lambda>i. trace i l) (lo_activities l ! t)"
    "\<And>t t' i. t < length (lo_activities l) \<Longrightarrow> t' < length (lo_activities l) \<Longrightarrow>
      in_flight (lo_activities l ! t) = Some i \<Longrightarrow> in_flight (lo_activities l ! t') = Some i \<Longrightarrow> t = t'"
    "\<And>t i. t < length (lo_activities l) \<Longrightarrow> in_flight (lo_activities l ! t) = Some i \<Longrightarrow> i < lo_entry l"
    "\<And>i. i < lo_entry l \<Longrightarrow> accounted inputs l i"
  shows "loop_inv inputs l"
  unfolding loop_inv_def using assms by (intro conjI allI impI)

text \<open>An activity is kept by the update of another one.\<close>

lemma set_update_other: "t' < length as \<Longrightarrow> t' \<noteq> t \<Longrightarrow> as ! t' \<in> set (as[t := a])"
  by (metis length_list_update nth_list_update_neq nth_mem)

lemma in_flight_update:
  assumes "Some j \<in> in_flight ` set as" "in_flight (as ! t) \<noteq> Some j"
  shows "Some j \<in> in_flight ` set (as[t := a])"
proof -
  obtain t' where t': "t' < length as" "in_flight (as ! t') = Some j"
    using assms(1) by (auto simp: in_set_conv_nth)
  then have "as ! t' \<in> set (as[t := a])"
    using assms(2) by (intro set_update_other) auto
  with t'(2) show ?thesis
    by (metis image_eqI)
qed

lemma failed_update:
  assumes "\<exists>b \<in> set as. failed b" "\<not> failed (as ! t)"
  shows "\<exists>b \<in> set (as[t := a]). failed b"
proof -
  obtain t' where t': "t' < length as" "failed (as ! t')"
    using assms(1) by (auto simp: in_set_conv_nth)
  then have "as ! t' \<in> set (as[t := a])"
    using assms(2) by (intro set_update_other) auto
  with t'(2) show ?thesis
    by blast
qed

text \<open>An activity that goes on with the same input changes the trace of this input only.\<close>

lemma loop_inv_same:
  assumes inv: "loop_inv inputs l" and t: "t < length (lo_activities l)"
    and l': "lo_inputs l' = lo_inputs l" "lo_entry l' = lo_entry l" "lo_activities l' = (lo_activities l)[t := a]"
    and tr: "\<And>j. j \<noteq> i \<Longrightarrow> trace j l' = trace j l"
    and i: "in_flight (lo_activities l ! t) = Some i"
    and a: "in_flight a = Some i \<or> in_flight a = None" "activity_trace inputs (\<lambda>i. trace i l') a"
    and acc: "in_flight a = Some i \<or> complete i (inputs ! i) (trace i l')
      \<or> aborted i (inputs ! i) (trace i l') \<and> failed a"
  shows "loop_inv inputs l'"
proof -
  note I = loop_invD [OF inv]
  have lt: "i < lo_entry l"
    by (rule I(6) [OF t i])
  have other: "in_flight (lo_activities l ! t') \<noteq> Some i" if "t' < length (lo_activities l)" "t' \<noteq> t" for t'
    using I(5) [OF that(1) t _ i] that(2) by blast
  have nf: "\<not> failed (lo_activities l ! t)"
    using i by (cases "lo_activities l ! t") auto
  show ?thesis
  proof (rule loop_invI)
    show "lo_entry l' \<le> length inputs" "lo_inputs l' = drop (lo_entry l') inputs"
      using I(1,2) by (simp_all add: l')
    show "trace j l' = []" if "lo_entry l' \<le> j" for j
      using I(3) [of j] tr [of j] lt that by (simp add: l')
    show "activity_trace inputs (\<lambda>i. trace i l') (lo_activities l' ! t')" if "t' < length (lo_activities l')" for t'
    proof (cases "t' = t")
      case True
      then show ?thesis
        using a(2) t by (simp add: l')
    next
      case False
      have t': "t' < length (lo_activities l)"
        using that by (simp add: l')
      have "activity_trace inputs (\<lambda>i. trace i l') (lo_activities l ! t')"
        using I(4) [OF t'] other [OF t' False] tr by (cases "lo_activities l ! t'") auto
      then show ?thesis
        using False by (simp add: l')
    qed
    have old: "s < length (lo_activities l)" "in_flight (lo_activities l ! s) = Some j"
      if "s < length (lo_activities l')" "in_flight (lo_activities l' ! s) = Some j" for s j
      using that a(1) i by (cases "s = t"; auto simp: l')+
    show "t1 = t2" if "t1 < length (lo_activities l')" "t2 < length (lo_activities l')"
        "in_flight (lo_activities l' ! t1) = Some j" "in_flight (lo_activities l' ! t2) = Some j" for t1 t2 j
      using I(5) old [OF that(1,3)] old [OF that(2,4)] by blast
    show "j < lo_entry l'" if "s < length (lo_activities l')" "in_flight (lo_activities l' ! s) = Some j" for s j
      using I(6) old [OF that] by (simp add: l')
    show "accounted inputs l' j" if "j < lo_entry l'" for j
    proof (cases "j = i")
      case True
      have "a \<in> set (lo_activities l')"
        using t unfolding l'(3) by (rule set_update_memI)
      then show ?thesis
        using acc True unfolding accounted_def by (metis image_eqI)
    next
      case False
      have j: "accounted inputs l j"
        using I(7) [of j] that by (simp add: l')
      have "in_flight (lo_activities l ! t) \<noteq> Some j"
        using i False by simp
      then show ?thesis
        using j in_flight_update [of j "lo_activities l" t a] failed_update [OF _ nf, of a] tr [OF False]
        unfolding accounted_def l'(3) by auto
    qed
  qed
qed

text \<open>An activity that takes no input leaves everything else as it is.\<close>

lemma loop_inv_idle:
  assumes inv: "loop_inv inputs l" and t: "t < length (lo_activities l)" "lo_activities l ! t = Ready"
    and a: "in_flight a = None"
  shows "loop_inv inputs (set_activity t a l)"
proof -
  note I = loop_invD [OF inv]
  have old: "s < length (lo_activities l)" "in_flight (lo_activities l ! s) = Some j"
    if "s < length (lo_activities l)" "in_flight ((lo_activities l)[t := a] ! s) = Some j" for s j
    using that a by (cases "s = t"; auto)+
  have tr: "trace j (set_activity t a l) = trace j l" for j
    by (simp add: trace_def)
  then have trf: "(\<lambda>i. trace i (set_activity t a l)) = (\<lambda>i. trace i l)"
    by blast
  show ?thesis
  proof (rule loop_invI)
    show "activity_trace inputs (\<lambda>i. trace i (set_activity t a l)) (lo_activities (set_activity t a l) ! s)"
      if "s < length (lo_activities (set_activity t a l))" for s
      using I(4) [of s] that a t(1) unfolding trf by (cases "s = t"; cases a) simp_all
    show "accounted inputs (set_activity t a l) j" if "j < lo_entry (set_activity t a l)" for j
      using I(7) [of j] that in_flight_update [of j "lo_activities l" t a] failed_update [of "lo_activities l" t a] t(2)
      unfolding accounted_def tr by auto
  qed (use I(1,2,3) in \<open>simp_all add: tr\<close>, use I(5,6) old in \<open>force+\<close>)
qed

lemma loop_inv_take:
  assumes inv: "loop_inv inputs l" and t: "t < length (lo_activities l)" "lo_activities l ! t = Ready"
    and inp: "lo_inputs l = inp # rest" and os: "\<And>i. filter (concerns i) os = (if i = lo_entry l then [Started i inp] else [])"
  shows "loop_inv inputs (set_activity t (Measuring (lo_entry l) inp) (emit os (l\<lparr>lo_inputs := rest, lo_entry := lo_entry l + 1\<rparr>)))"
    (is "loop_inv inputs ?l")
proof -
  note I = loop_invD [OF inv]
  let ?a = "Measuring (lo_entry l) inp"
  have acts: "lo_activities ?l = (lo_activities l)[t := ?a]" "lo_entry ?l = lo_entry l + 1" "lo_inputs ?l = rest"
    by simp_all
  have lt: "lo_entry l < length inputs"
    using I(2) inp by (metis drop_eq_Nil leI list.distinct(1))
  have inp_at: "inp = inputs ! lo_entry l" "rest = drop (lo_entry l + 1) inputs"
    using I(2) inp Cons_nth_drop_Suc [OF lt] by (metis list.inject Suc_eq_plus1)+
  have tr: "trace j ?l = (if j = lo_entry l then [Started j inp] else trace j l)" for j
    using os [of j] I(3) [of j] by (cases "j = lo_entry l") (simp_all add: trace_def)
  have old: "in_flight (lo_activities l ! s) = Some j"
    if "s < length (lo_activities l)" "in_flight (lo_activities ?l ! s) = Some j" "s \<noteq> t" for s j
    using that by simp
  show ?thesis
  proof (rule loop_invI)
    show "lo_entry ?l \<le> length inputs" "lo_inputs ?l = drop (lo_entry ?l) inputs"
      using lt inp_at(2) unfolding acts by simp_all
    show "trace j ?l = []" if "lo_entry ?l \<le> j" for j
      using I(3) [of j] that tr [of j] unfolding acts by simp
    show "activity_trace inputs (\<lambda>i. trace i ?l) (lo_activities ?l ! s)" if "s < length (lo_activities ?l)" for s
    proof (cases "s = t")
      case True
      then show ?thesis
        using t(1) inp_at(1) tr unfolding acts by simp
    next
      case False
      have s: "s < length (lo_activities l)"
        using that by simp
      have "in_flight (lo_activities l ! s) \<noteq> Some (lo_entry l)"
        using I(6) [OF s] by blast
      then have "activity_trace inputs (\<lambda>i. trace i ?l) (lo_activities l ! s)"
        using I(4) [OF s] tr by (cases "lo_activities l ! s") auto
      then show ?thesis
        using False unfolding acts by simp
    qed
    show "t1 = t2" if "t1 < length (lo_activities ?l)" "t2 < length (lo_activities ?l)"
        "in_flight (lo_activities ?l ! t1) = Some j" "in_flight (lo_activities ?l ! t2) = Some j" for t1 t2 j
      using that I(5) [of t1 t2 j] I(6) [of t1 j] I(6) [of t2 j]
      by (cases "t1 = t"; cases "t2 = t") auto
    show "j < lo_entry ?l" if "s < length (lo_activities ?l)" "in_flight (lo_activities ?l ! s) = Some j" for s j
      using that I(6) [of s j] by (cases "s = t") auto
    show "accounted inputs ?l j" if "j < lo_entry ?l" for j
    proof (cases "j = lo_entry l")
      case True
      have "?a \<in> set (lo_activities ?l)"
        using t(1) unfolding acts by (rule set_update_memI)
      then have "Some j \<in> in_flight ` set (lo_activities ?l)"
        using imageI [of ?a "set (lo_activities ?l)" in_flight] True by simp
      then show ?thesis
        by (simp add: accounted_def)
    next
      case False
      then have "accounted inputs l j"
        using I(7) that by simp
      then show ?thesis
        using in_flight_update [of j "lo_activities l" t ?a] failed_update [of "lo_activities l" t ?a] t(2) False tr [of j]
        unfolding accounted_def acts by auto
    qed
  qed
qed

lemma loop_inv_step: "loop_step env l l' \<Longrightarrow> loop_inv inputs l \<Longrightarrow> loop_inv inputs l'"
proof (induction rule: loop_step.induct)
  case (take_input t l delta)
  note idle = loop_inv_idle [OF take_input(3,1,2)]
  show ?case
  proof (cases "re_max_runtime env")
    case (Inr m)
    show ?thesis
    proof (cases "exceeded m delta \<or> lo_inputs l = []")
      case True
      then show ?thesis
        using Inr idle by (auto simp: run_next_measurement_def)
    next
      case False
      then obtain inp rest where inp: "lo_inputs l = inp # rest"
        by (cases "lo_inputs l") auto
      show ?thesis
        using loop_inv_take [OF take_input(3,1,2) inp] False Inr inp by (simp add: run_next_measurement_def Let_def)
    qed
  qed (use idle in \<open>simp add: run_next_measurement_def\<close>)
next
  case (main_done t l idx next_input me)
  have at: "next_input = inputs ! idx" "trace idx l = [Started idx next_input]"
    using loop_invD(4) [OF main_done(3,1)] main_done(2) by simp_all
  have i: "in_flight (lo_activities l ! t) = Some idx"
    using main_done(2) by simp
  show ?case
    unfolding measured_callback_def
  proof (split sum.split, intro conjI allI impI)
    fix e
    show "loop_inv inputs (set_activity t (Threw e) l)"
      by (rule loop_inv_same [where a = "Threw e", OF main_done(3,1) _ _ _ _ i]) (use at in \<open>simp_all add: trace_def aborted_def\<close>)
  next
    fix entry
    show "loop_inv inputs (set_activity t (Writing idx (re_dump env entry))
        (emit [Teardown next_input, EntryCallback (re_dump env entry), Measurement idx (re_dump env entry)] l))"
      by (rule loop_inv_same [where a = "Writing idx (re_dump env entry)", OF main_done(3,1) _ _ _ _ i])
        (use at in \<open>simp_all add: trace_def\<close>)
  qed
next
  case (write_done t l idx json_str err)
  have at: "trace idx l = [Started idx (inputs ! idx), Measurement idx json_str]"
    using loop_invD(4) [OF write_done(3,1)] write_done(2) by simp
  have i: "in_flight (lo_activities l ! t) = Some idx"
    using write_done(2) by simp
  have step: "loop_inv inputs (set_activity t a (emit os l))"
    if "in_flight a = None" "\<And>j. j \<noteq> idx \<Longrightarrow> filter (concerns j) os = []"
      "complete idx (inputs ! idx) (trace idx l @ filter (concerns idx) os)
       \<or> aborted idx (inputs ! idx) (trace idx l @ filter (concerns idx) os) \<and> failed a" for a os
    by (rule loop_inv_same [where a = a, OF write_done(3,1) _ _ _ _ i]) (use that in \<open>cases a; simp add: trace_def\<close>)+
  have steps: "loop_inv inputs (set_activity t Ready (emit [Submitted idx, MeasurementDone idx] l))"
    "loop_inv inputs (set_activity t Ready (emit [NotSubmitted idx json_str f, MeasurementDone idx] l))"
    "failed a \<Longrightarrow> in_flight a = None \<Longrightarrow> loop_inv inputs (set_activity t a (emit [NotSubmitted idx json_str f] l))" for f a
    by (rule step; simp add: at complete_def aborted_def)+
  have emit2: "emit os2 (emit os1 l) = emit (os1 @ os2) l" for os1 os2
    by (simp add: emit_def)
  show ?case
    unfolding written_callback_def Let_def emit2 using steps by (auto split: sum.split)
qed

lemma loop_inv_reachable: "loop_reachable env n inputs l \<Longrightarrow> loop_inv inputs l"
  unfolding loop_reachable_def by (induction rule: rtranclp_induct) (auto intro: loop_inv_start loop_inv_step)

text \<open>Without a limit on the time an activity returns without an error only when no input is left.\<close>

definition drained :: "loop \<Rightarrow> bool" where
  "drained l \<longleftrightarrow> (\<forall>e. Returned e \<in> set (lo_activities l) \<longrightarrow> \<not> is_err e \<longrightarrow> lo_inputs l = [])"

lemma drained_step:
  assumes "loop_step env l l'" "re_max_runtime env = Inr m" "m < 0" "drained l"
  shows "drained l'"
proof -
  have upd: "drained (set_activity t a l')"
    if "lo_inputs l' = lo_inputs l" "lo_activities l' = lo_activities l" "\<And>e. a = Returned e \<Longrightarrow> is_err e \<or> lo_inputs l = []" for t a l'
    using assms(4) that unfolding drained_def by (fastforce dest: set_update_subset_insert [THEN subsetD])
  from assms(1) show ?thesis
  proof (cases rule: loop_step.cases)
    case (take_input t delta)
    have "drained (set_activity t (Measuring i inp) (emit os (l\<lparr>lo_inputs := rest, lo_entry := k\<rparr>)))"
      if "lo_inputs l = inp # rest" for i inp os rest k
      using assms(4) that unfolding drained_def
      by (fastforce dest: set_update_subset_insert [THEN subsetD])
    then show ?thesis
      using take_input upd [of l "Returned (new NoError)" t] assms(2,3)
      by (cases "lo_inputs l") (auto simp: run_next_measurement_def exceeded_def Let_def)
  next
    case (main_done t idx next_input me)
    then show ?thesis
      by (auto simp: measured_callback_def intro!: upd split: sum.split)
  next
    case (write_done t idx json_str err)
    then show ?thesis
      unfolding written_callback_def Let_def by (auto intro!: upd split: sum.split)
  qed
qed

lemma drained_start: "drained (loop_start n inputs)"
  by (auto simp: drained_def loop_start_def)

lemma drained_reachable:
  assumes "loop_reachable env n inputs l" "re_max_runtime env = Inr m" "m < 0"
  shows "drained l"
  using assms(1) unfolding loop_reachable_def
  by (induction rule: rtranclp_induct) (use assms(2,3) in \<open>auto intro: drained_start drained_step\<close>)

lemma loop_step_length: "loop_step env l l' \<Longrightarrow> length (lo_activities l') = length (lo_activities l)"
  by (induction rule: loop_step.induct)
    (auto simp: run_next_measurement_def measured_callback_def written_callback_def Let_def split: sum.split list.split)

lemma activities_reachable: "loop_reachable env n inputs l \<Longrightarrow> length (lo_activities l) = n"
  unfolding loop_reachable_def by (induction rule: rtranclp_induct) (simp_all add: loop_start_def loop_step_length)

fun over :: "activity \<Rightarrow> bool" where
  "over (Returned _) = True"
| "over (Threw _) = True"
| "over _ = False"

lemma not_over_steps: "a \<in> set (lo_activities l) \<Longrightarrow> \<not> over a \<Longrightarrow> \<exists>l'. loop_step env l l'"
  by (cases a) (auto simp: in_set_conv_nth intro: loop_step.intros)

lemma steps_work: "(loop_step env ^^ k) l l' \<Longrightarrow> work_left l' + k \<le> work_left l"
proof (induction k arbitrary: l')
  case (Suc k)
  then obtain l1 where "(loop_step env ^^ k) l l1" "loop_step env l1 l'"
    by auto
  then show ?case
    using Suc.IH loop_step_work by fastforce
qed simp

lemma partial_traces:
  "\<exists>tr k. complete i inp tr \<and> [Started i inp] = take k tr"
  "\<exists>tr k. complete i inp tr \<and> [Started i inp, Measurement i s] = take k tr"
  "\<exists>tr k. complete i inp tr \<and> [Started i inp, Measurement i s, NotSubmitted i s f] = take k tr"
proof -
  let ?tr = "[Started i inp, Measurement i s, NotSubmitted i s f, MeasurementDone i]"
  have "complete i inp ?tr"
    by (simp add: complete_def)
  moreover have "[Started i inp] = take 1 ?tr" "[Started i inp, Measurement i s] = take 2 ?tr"
    "[Started i inp, Measurement i s, NotSubmitted i s f] = take 3 ?tr"
    by (simp_all add: numeral_eq_Suc)
  ultimately show "\<exists>tr k. complete i inp tr \<and> [Started i inp] = take k tr"
    "\<exists>tr k. complete i inp tr \<and> [Started i inp, Measurement i s] = take k tr"
    "\<exists>tr k. complete i inp tr \<and> [Started i inp, Measurement i s, NotSubmitted i s f] = take k tr"
    by blast+
qed

section \<open>Properties\<close>

text \<open>C8: However the activities interleave and whatever fails, what is seen of the measurement of one input is
  a part of start, measurement, submission or its failure, and end, in this order, each once; nothing is
  seen of an input that was not taken yet.\<close>

theorem measurement_events_in_order:
  assumes "loop_reachable env n inputs l"
  shows "(lo_entry l \<le> i \<and> trace i l = [])
    \<or> (i < lo_entry l \<and> (\<exists>tr k. complete i (inputs ! i) tr \<and> trace i l = take k tr))"
proof (cases "i < lo_entry l")
  case True
  note I = loop_invD [OF loop_inv_reachable [OF assms]]
  have fl: "\<exists>tr k. complete i (inputs ! i) tr \<and> trace i l = take k tr"
    if t: "t < length (lo_activities l)" "in_flight (lo_activities l ! t) = Some i" for t
    using I(4) [OF t(1)] t(2) partial_traces by (cases "lo_activities l ! t") auto
  have ab: "\<exists>tr k. complete i (inputs ! i) tr \<and> trace i l = take k tr" if "aborted i (inputs ! i) (trace i l)"
    using that partial_traces unfolding aborted_def by (elim disjE exE) simp_all
  have co: "\<exists>tr k. complete i (inputs ! i) tr \<and> trace i l = take k tr" if "complete i (inputs ! i) (trace i l)"
    using that by (intro exI [of _ "trace i l"] exI [of _ "length (trace i l)"]) simp
  have "\<exists>tr k. complete i (inputs ! i) tr \<and> trace i l = take k tr"
    using I(7) [OF True] fl ab co unfolding accounted_def by (auto simp: in_set_conv_nth)
  with True show ?thesis
    by blast
next
  case False
  then show ?thesis
    using loop_invD(3) [OF loop_inv_reachable [OF assms]] by simp
qed

text \<open>When all activities are back without an error and no limit was set on the time, every input was measured
  and its measurement is complete.\<close>

theorem all_inputs_measured:
  assumes "loop_reachable env n inputs l" "0 < n" "re_max_runtime env = Inr m" "m < 0"
    and "\<And>a. a \<in> set (lo_activities l) \<Longrightarrow> \<exists>e. a = Returned e \<and> \<not> is_err e" "i < length inputs"
  shows "complete i (inputs ! i) (trace i l)"
proof -
  note I = loop_invD [OF loop_inv_reachable [OF assms(1)]]
  have "lo_activities l ! 0 \<in> set (lo_activities l)"
    using activities_reachable [OF assms(1)] assms(2) by simp
  then have "lo_inputs l = []"
    using assms(5) drained_reachable [OF assms(1,3,4)] unfolding drained_def by metis
  then have "i < lo_entry l"
    using I(2) assms(6) by simp
  moreover have "in_flight a \<noteq> Some i" "\<not> failed a" if "a \<in> set (lo_activities l)" for a
    using assms(5) [OF that] by auto
  ultimately show ?thesis
    using I(7) unfolding accounted_def by fastforce
qed

text \<open>C24: A run of the loop has at most three steps for each input and one for each activity, and it can go on
  until every activity is back in its caller or was ended by an exception.\<close>

theorem loop_terminates:
  assumes "(loop_step env ^^ k) (loop_start n inputs) l"
  shows "k \<le> 3 * length inputs + n \<and> ((\<exists>l'. loop_step env l l') \<or> list_all over (lo_activities l))"
proof -
  have "sum_list (map weight (replicate n Ready)) = n"
    by (induction n) simp_all
  then have "work_left (loop_start n inputs) = 3 * length inputs + n"
    by (simp add: work_left_def loop_start_def)
  with steps_work [OF assms] show ?thesis
    using not_over_steps [of _ l env] by (auto simp: list_all_iff)
qed

text \<open>The events are such that the engine accepts them.\<close>

lemma loop_events_valid: "output_event out = Some call \<Longrightarrow> call_ok call"
  by (cases out) (auto simp: valid_mk_event is_event_key_valid_def event_keys_def event_fields_def field_ok_def)

text \<open>An entry of a test whose keys are an object is always built; it holds the input, or null for no input, the
  keys of the test with the address of the resolver, the location of the user and the
  identifier of the report.\<close>

theorem entry_is_complete:
  assumes "me_keys me = JObject ks"
  shows "\<exists>ms. build_entry bd nt rp ip options inp me = Inr (nt_fixup nt (JObject ms))
    \<and> map_of ms ''input'' = Some (if inp = [] then JNull else JString inp)
    \<and> map_of ms ''test_keys'' = Some (JObject (members_put ''client_resolver'' (JString ip) ks))
    \<and> map_of ms ''probe_ip'' = Some (JString (rp_probe_ip rp)) \<and> map_of ms ''probe_asn'' = Some (JString (rp_probe_asn rp))
    \<and> map_of ms ''probe_cc'' = Some (JString (rp_probe_cc rp)) \<and> map_of ms ''report_id'' = Some (JString (rp_report_id rp))"
  using entry_members [OF assms] .

section \<open>Witnesses\<close>

definition quiet_nettest :: nettest where
  "quiet_nettest = \<lparr>nt_name = ''test'', nt_version = ''0.0.1'', nt_needs_input = True, nt_use_bouncer = False, nt_helpers = [],
    nt_annotations = [], nt_fixup = id\<rparr>"

definition quiet_report :: report where
  "quiet_report = \<lparr>rp_test_name = ''test'', rp_test_version = ''0.0.1'', rp_probe_ip = ''127.0.0.1'', rp_probe_asn = ''AS0'',
    rp_probe_cc = ''ZZ'', rp_test_start_time = ''now'', rp_options = Map.empty, rp_report_id = []\<rparr>"

definition quiet_env :: run_env where
  "quiet_env = \<lparr>re_build = \<lparr>bd_version = ''0.9'', bd_version_full = ''0.9'', bd_platform = ''linux''\<rparr>, re_nettest = quiet_nettest,
    re_report = quiet_report, re_resolver_ip = ''8.8.8.8'', re_options = Map.empty, re_max_runtime = Inr (- 1), re_num_entries = 1,
    re_dump = \<lambda>_. ''entry''\<rparr>"

definition no_keys :: measured where
  "no_keys = \<lparr>me_keys = JObject [], me_start = ''now'', me_runtime = 0, me_id = ''id''\<rparr>"

theorem entry_is_complete_witness:
  "\<exists>ms. build_entry (re_build quiet_env) quiet_nettest quiet_report ''8.8.8.8'' Map.empty ''a'' no_keys = Inr (JObject ms)
    \<and> map_of ms ''input'' = Some (JString ''a'') \<and> map_of ms ''probe_ip'' = Some (JString ''127.0.0.1'')"
  using entry_is_complete [of no_keys "[]" "re_build quiet_env" quiet_nettest quiet_report "''8.8.8.8''" Map.empty "''a''"]
  by (auto simp: no_keys_def quiet_nettest_def quiet_report_def)

definition quiet1 :: loop where
  "quiet1 = run_next_measurement quiet_env 0 0 (loop_start 1 [''a''])"

definition quiet2 :: loop where
  "quiet2 = measured_callback quiet_env no_keys 0 0 ''a'' quiet1"

definition quiet3 :: loop where
  "quiet3 = written_callback quiet_env (new NoError) 0 0 ''entry'' quiet2"

definition quiet4 :: loop where
  "quiet4 = run_next_measurement quiet_env 0 0 quiet3"

lemma quiet_states:
  "lo_activities quiet1 = [Measuring 0 ''a'']" "lo_inputs quiet1 = []" "lo_entry quiet1 = 1"
  "lo_activities quiet2 = [Writing 0 ''entry'']" "lo_inputs quiet2 = []"
  "lo_activities quiet3 = [Ready]" "lo_inputs quiet3 = []"
  "lo_activities quiet4 = [Returned (new NoError)]"
proof -
  obtain entry where entry: "build_entry (re_build quiet_env) (re_nettest quiet_env) (re_report quiet_env) (re_resolver_ip quiet_env)
      (re_options quiet_env) ''a'' no_keys = Inr entry"
    using entry_members [of no_keys "[]" "re_build quiet_env" "re_nettest quiet_env"] by (fastforce simp: no_keys_def)
  have env: "re_max_runtime quiet_env = Inr (- 1)" "re_dump quiet_env entry = ''entry''"
    by (simp_all add: quiet_env_def)
  show l1: "lo_activities quiet1 = [Measuring 0 ''a'']" "lo_inputs quiet1 = []" "lo_entry quiet1 = 1"
    by (simp_all add: quiet1_def loop_start_def run_next_measurement_def env exceeded_def Let_def)
  show l2: "lo_activities quiet2 = [Writing 0 ''entry'']" "lo_inputs quiet2 = []"
    using l1 by (simp_all add: quiet2_def measured_callback_def entry env)
  show l3: "lo_activities quiet3 = [Ready]" "lo_inputs quiet3 = []"
    using l2 by (simp_all add: quiet3_def written_callback_def)
  show "lo_activities quiet4 = [Returned (new NoError)]"
    using l3 by (simp add: quiet4_def run_next_measurement_def env exceeded_def)
qed

lemma quiet_steps:
  "loop_step quiet_env (loop_start 1 [''a'']) quiet1" "loop_step quiet_env quiet1 quiet2"
  "loop_step quiet_env quiet2 quiet3" "loop_step quiet_env quiet3 quiet4"
proof -
  show "loop_step quiet_env (loop_start 1 [''a'']) quiet1"
    unfolding quiet1_def by (rule loop_step.take_input) (simp_all add: loop_start_def)
  show "loop_step quiet_env quiet1 quiet2"
    unfolding quiet2_def by (rule loop_step.main_done) (simp_all add: quiet_states)
  show "loop_step quiet_env quiet2 quiet3"
    unfolding quiet3_def by (rule loop_step.write_done) (simp_all add: quiet_states)
  show "loop_step quiet_env quiet3 quiet4"
    unfolding quiet4_def by (rule loop_step.take_input) (simp_all add: quiet_states)
qed

lemma loop_reachable_step: "loop_reachable env n inputs l \<Longrightarrow> loop_step env l l' \<Longrightarrow> loop_reachable env n inputs l'"
  unfolding loop_reachable_def by (rule rtranclp.rtrancl_into_rtrancl)

lemma loop_reachable_start: "loop_reachable env n inputs (loop_start n inputs)"
  by (simp add: loop_reachable_def)

lemma quiet_reachable: "loop_reachable quiet_env 1 [''a''] quiet1" "loop_reachable quiet_env 1 [''a''] quiet4"
proof -
  show one: "loop_reachable quiet_env 1 [''a''] quiet1"
    by (rule loop_reachable_step [OF loop_reachable_start quiet_steps(1)])
  show "loop_reachable quiet_env 1 [''a''] quiet4"
    by (rule loop_reachable_step [OF loop_reachable_step [OF loop_reachable_step [OF one quiet_steps(2)] quiet_steps(3)] quiet_steps(4)])
qed

theorem measurement_events_in_order_witness:
  "\<exists>tr k. complete 0 ''a'' tr \<and> trace 0 quiet1 = take k tr"
  using measurement_events_in_order [OF quiet_reachable(1), of 0] by (simp add: quiet_states)

theorem all_inputs_measured_witness: "complete 0 ''a'' (trace 0 quiet4)"
proof -
  have "complete 0 ([''a''] ! 0) (trace 0 quiet4)"
    by (rule all_inputs_measured [OF quiet_reachable(2), where m = "- 1"])
      (simp_all add: quiet_states, simp_all add: quiet_env_def)
  then show ?thesis
    by simp
qed

theorem loop_terminates_witness: "(\<exists>l'. loop_step quiet_env quiet4 l') \<or> list_all over (lo_activities quiet4)"
proof -
  have "(loop_step quiet_env ^^ Suc (Suc (Suc (Suc 0)))) (loop_start 1 [''a'']) quiet4"
    using quiet_steps by (intro relpowp_Suc_I [where y = quiet3] relpowp_Suc_I [where y = quiet2]
      relpowp_Suc_I [where y = quiet1] relpowp_Suc_I [where y = "loop_start 1 [''a'']"]) simp_all
  from loop_terminates [OF this] show ?thesis
    by blast
qed

end
