(* ===== verification/Runnable.thy ===== *)
theory Runnable
  imports Bouncer MeasurementLoop "HOL-Library.Multiset"
begin

text \<open>
  \<open>nettests/runnable.cpp\<close> and \<open>nettests/utils\_impl.hpp\<close>: the life of a nettest around the measurement loop.  It asks the
  bouncer, finds out where the user is, opens the report, reads the inputs, runs the loop of
  \<open>MeasurementLoop\<close> and closes the report.  What services, files and the clock answer is an
  argument; the lines printed to the log are left out.
\<close>

section \<open>Where the user is\<close>

record probe =
  pr_ip :: string
  pr_asn :: string
  pr_cc :: string
  pr_network_name :: string
  pr_options :: settings
  pr_cache :: geoip_cache

text \<open>The value an option gives, and whether it still has to be looked up.\<close>

definition override_with :: "bool \<Rightarrow> string \<Rightarrow> settings \<Rightarrow> string \<Rightarrow> string \<times> bool" where
  "override_with save key options v =
    (if save then (case options key of Some w \<Rightarrow> (w, False) | None \<Rightarrow> (v, True)) else (v, False))"

definition lookup_cc :: "geoip_lib \<Rightarrow> bool \<Rightarrow> string \<Rightarrow> probe \<Rightarrow> probe" where
  "lookup_cc lib save_cc ip p =
    (let country_path = settings_get_str (pr_options p) ''geoip_country_path'' [] in
     if save_cc \<and> country_path \<noteq> []
     then let (rv, cache) = cache_lookup (resolve_country_code lib ip) country_path (pr_cache p);
              p = p\<lparr>pr_cache := cache\<rparr>
          in if has_value rv then p\<lparr>pr_cc := snd rv\<rparr> else p
     else p)"

text \<open>The text of the database is the number, and the name after the first space if there is one.\<close>

definition set_asn :: "string \<Rightarrow> probe \<Rightarrow> probe" where
  "set_asn asninfo p =
    (case find_from '' '' 0 asninfo of
       None \<Rightarrow> p\<lparr>pr_asn := asninfo\<rparr>
     | Some i \<Rightarrow>
        (let p = p\<lparr>pr_asn := take i asninfo\<rparr> in
         if length asninfo > i + 1 then p\<lparr>pr_network_name := drop (i + 1) asninfo\<rparr> else p))"

definition lookup_asn :: "geoip_lib \<Rightarrow> bool \<Rightarrow> string \<Rightarrow> probe \<Rightarrow> probe" where
  "lookup_asn lib save_asn ip p =
    (let asn_path = settings_get_str (pr_options p) ''geoip_asn_path'' [] in
     if save_asn \<and> asn_path \<noteq> []
     then let (rv, cache) = cache_lookup (resolve_asn_full lib ip) asn_path (pr_cache p);
              p = p\<lparr>pr_cache := cache\<rparr>
          in if has_value rv then set_asn (snd rv) p else p
     else p)"

definition geoip_event :: "string \<Rightarrow> probe \<Rightarrow> logger_call" where
  "geoip_event ip p =
    LogEvent ''status.geoip_lookup''
      [(''probe_asn'', JString (pr_asn p)), (''probe_cc'', JString (pr_cc p)), (''probe_ip'', JString ip),
       (''probe_network_name'', JString (pr_network_name p))]"

text \<open>The callback of \<open>ip_lookup\<close>.\<close>

definition found_ip :: "geoip_lib \<Rightarrow> bool \<Rightarrow> bool \<Rightarrow> bool \<Rightarrow> string error_or \<Rightarrow> probe \<Rightarrow> logger_call list \<times> probe" where
  "found_ip lib save_ip save_asn save_cc r p =
    (if is_err (fst r) then ([], p)
     else let ip = snd r;
              p = (if save_ip then p\<lparr>pr_ip := ip\<rparr> else p);
              p = p\<lparr>pr_options := (pr_options p)(''real_probe_ip_'' \<mapsto> ip)\<rparr>;
              p = lookup_cc lib save_cc ip p;
              p = lookup_asn lib save_asn ip p
          in ([geoip_event ip p], p))"

definition geoip_lookup ::
    "geoip_lib \<Rightarrow> (settings \<Rightarrow> string error_or) \<Rightarrow> probe \<Rightarrow> (logger_call list \<times> probe) res" where
  "geoip_lookup lib ask_ip p =
    bind_res (settings_get_bool (pr_options p) ''save_real_probe_ip'' False) (\<lambda>save_ip.
    bind_res (settings_get_bool (pr_options p) ''save_real_probe_asn'' True) (\<lambda>save_asn.
    bind_res (settings_get_bool (pr_options p) ''save_real_probe_cc'' True) (\<lambda>save_cc.
      let (ip, save_ip) = override_with save_ip ''probe_ip'' (pr_options p) ''127.0.0.1'';
          (asn, save_asn) = override_with save_asn ''probe_asn'' (pr_options p) ''AS0'';
          (cc, save_cc) = override_with save_cc ''probe_cc'' (pr_options p) ''ZZ'';
          p = p\<lparr>pr_ip := ip, pr_asn := asn, pr_cc := cc\<rparr>
      in if \<not> save_ip \<and> \<not> save_asn \<and> \<not> save_cc
         then Inr ([], p\<lparr>pr_options := (pr_options p)(''real_probe_ip_'' \<mapsto> ip)\<rparr>)
         else Inr (found_ip lib save_ip save_asn save_cc (ask_ip (pr_options p)) p))))"

section \<open>The bouncer\<close>

text \<open>The helpers the reply names, unless the user set them.\<close>

definition use_helper :: "json \<Rightarrow> settings \<Rightarrow> string \<times> string \<Rightarrow> settings" where
  "use_helper reply options th =
    (let maybe_helper = get_test_helper_alternate (fst th) ''https'' reply;
         maybe_helper = (if has_value maybe_helper then maybe_helper else get_test_helper (fst th) reply)
     in if \<not> has_value maybe_helper then options
        else if options (snd th) \<noteq> None then options
        else options(snd th \<mapsto> snd maybe_helper))"

definition bouncer_replied :: "nettest \<Rightarrow> error \<times> json option \<Rightarrow> settings \<Rightarrow> error \<times> settings" where
  "bouncer_replied nt reply options =
    (if is_err (fst reply) then (fst reply, options)
     else let reply = (case snd reply of Some j \<Rightarrow> j | None \<Rightarrow> JNull);
              collector = get_collector_alternate ''https'' reply
          in if options ''collector_base_url'' = None \<and> \<not> has_value collector then (as_error collector, options)
             else let options = (if options ''collector_base_url'' = None
                                 then options(''collector_base_url'' \<mapsto> snd collector) else options)
                  in (new NoError, foldl (use_helper reply) options (nt_helpers nt)))"

definition query_bouncer ::
    "nettest \<Rightarrow> (string \<Rightarrow> string list \<Rightarrow> settings \<Rightarrow> error \<times> json option) \<Rightarrow> settings \<Rightarrow> error \<times> settings" where
  "query_bouncer nt post_net_tests options =
    (let disable_bouncer = settings_get_bool_noexcept options ''no_bouncer'' False in
     if \<not> err_eq (as_error disable_bouncer) (new NoError) then (as_error disable_bouncer, options)
     else if \<not> nt_use_bouncer nt \<or> snd disable_bouncer then (new NoError, options)
     else let bouncer = settings_get_str options ''bouncer_base_url'' production_bouncer_url
          in bouncer_replied nt (post_net_tests bouncer (test_helpers_bouncer_names nt) options) options)"

section \<open>The report\<close>

definition output_filename :: "string \<Rightarrow> string \<Rightarrow> nat \<Rightarrow> string" where
  "output_filename test_name timestamp idx =
    ''report-'' @ test_name @ ''-'' @ timestamp @ ''-'' @ nat_dec idx @ ''.njson''"

text \<open>The first name of a file that cannot be opened for reading.\<close>

partial_function (option) first_free :: "(nat \<Rightarrow> bool) \<Rightarrow> nat \<Rightarrow> nat option" where
  "first_free exists_file idx = (if exists_file idx then first_free exists_file (idx + 1) else Some idx)"

definition generate_output_filepath :: "(string \<Rightarrow> bool) \<Rightarrow> string \<Rightarrow> string \<Rightarrow> string option" where
  "generate_output_filepath file_good test_name timestamp =
    map_option (output_filename test_name timestamp)
      (first_free (\<lambda>idx. file_good (output_filename test_name timestamp idx)) 0)"

text \<open>The report before it is opened, its reporters, and the path of its file.\<close>

definition make_report :: "nettest \<Rightarrow> string \<Rightarrow> probe \<Rightarrow> report" where
  "make_report nt start_time p =
    \<lparr>rp_test_name = nt_name nt, rp_test_version = nt_version nt, rp_probe_ip = pr_ip p, rp_probe_asn = pr_asn p,
     rp_probe_cc = pr_cc p, rp_test_start_time = start_time, rp_options = pr_options p, rp_report_id = []\<rparr>"

definition make_reporters :: "os_api \<Rightarrow> collector_api \<Rightarrow> string \<Rightarrow> settings \<Rightarrow> reporter list res" where
  "make_reporters os api filepath options =
    bind_res (settings_get_bool options ''no_file_report'' False) (\<lambda>no_file.
    bind_res (settings_get_bool options ''no_collector'' False) (\<lambda>no_collector.
      Inr ((if \<not> no_file then [FileReporter os filepath (base_init, file_stream filepath)] else [])
        @ (if \<not> no_collector then [OoniReporter api (base_init, ooni_init)] else []))))"

section \<open>The inputs\<close>

text \<open>A file of inputs: whether it opened, and the lines read from it, which are kept even when reading stopped
  before the end.\<close>

record input_file =
  if_good :: bool
  if_lines :: "string list"

definition lower :: "string \<Rightarrow> string" where
  "lower s = map (\<lambda>c. char_of (tolower c)) s"

text \<open>Every occurrence of a text replaced; the country code has no \<open>$\<close>, which would be special.\<close>

function replace_in :: "string \<Rightarrow> string \<Rightarrow> string \<Rightarrow> string" where
  "replace_in pat rep s =
    (case s of [] \<Rightarrow> []
     | c # cs \<Rightarrow> if pat \<noteq> [] \<and> startswith s pat then rep @ replace_in pat rep (drop (length pat) s)
                else c # replace_in pat rep cs)"
  by pat_completeness auto
termination
  by (relation "measure (length \<circ> snd \<circ> snd)") (auto simp: length_greater_0_conv)

declare replace_in.simps [simp del]

definition input_lines :: "(string \<Rightarrow> input_file) \<Rightarrow> string \<Rightarrow> string \<Rightarrow> string list" where
  "input_lines open_file probe_cc filepath =
    (let f = open_file (replace_in ''${probe_cc}'' (lower probe_cc) filepath) in
     if if_good f then if_lines f else [])"

definition process_input_filepaths ::
    "(string \<Rightarrow> input_file) \<Rightarrow> (string list \<Rightarrow> string list) \<Rightarrow> bool \<Rightarrow> string list \<Rightarrow> string \<Rightarrow> settings
     \<Rightarrow> string list \<Rightarrow> error \<times> string list" where
  "process_input_filepaths open_file randomize_input needs_input input_filepaths probe_cc options inputs =
    (if needs_input
     then if input_filepaths = [] \<and> inputs = [] then (new MissingRequiredInputFileError, inputs)
       else let inputs = inputs @ concat (map (input_lines open_file probe_cc) input_filepaths) in
         if inputs = [] then (new CannotReadAnyInputFileError, inputs)
         else let shuffle = settings_get_bool_noexcept options ''randomize_input'' True in
           if \<not> has_value shuffle then (as_error shuffle, inputs)
           else (new NoError, if snd shuffle then randomize_input inputs else inputs)
     else (new NoError, ['''']))"

section \<open>Beginning and ending\<close>

text \<open>What comes from outside: \<open>post\_net\_tests\<close>, the lookups (the one of the resolver may not call back), the
  location library, files, the clock and the service of the collector.\<close>

record outside =
  os_bouncer :: "string \<Rightarrow> string list \<Rightarrow> settings \<Rightarrow> error \<times> json option"
  os_ask_ip :: "settings \<Rightarrow> string error_or"
  os_resolver :: "settings \<Rightarrow> string error_or option"
  os_geoip :: geoip_lib
  os_file_good :: "string \<Rightarrow> bool"
  os_open_file :: "string \<Rightarrow> input_file"
  os_randomize :: "string list \<Rightarrow> string list"
  os_start_time :: string
  os_file_time :: string
  os_files :: os_api
  os_collector :: collector_api

record runner =
  ru_probe :: probe
  ru_resolver_ip :: string
  ru_inputs :: "string list"
  ru_input_filepaths :: "string list"
  ru_output_filepath :: string
  ru_report :: report
  ru_reporters :: "reporter list"
  ru_events :: "logger_call list"

text \<open>How \<open>begin\<close> goes on: it calls back, the measurement loop runs with a number of activities, an exception
  leaves it, or it waits forever.\<close>

datatype begun = CalledBack error | Loop nat | Raised exn | Stuck

definition open_report :: "nettest \<Rightarrow> outside \<Rightarrow> runner \<Rightarrow> (error \<times> runner) res option" where
  "open_report nt os r =
    (case (if ru_output_filepath r = []
           then generate_output_filepath (os_file_good os) (nt_name nt) (os_file_time os)
           else Some (ru_output_filepath r)) of
       None \<Rightarrow> None
     | Some filepath \<Rightarrow>
        Some (bind_res (make_reporters (os_files os) (os_collector os) filepath (pr_options (ru_probe r))) (\<lambda>reporters.
          let (e, rp, reporters) = report_open (make_report nt (os_start_time os) (ru_probe r)) reporters
          in Inr (e, r\<lparr>ru_output_filepath := filepath, ru_report := rp, ru_reporters := reporters\<rparr>))))"

text \<open>The callback of \<open>open\_report\<close>.\<close>

definition report_opened :: "nettest \<Rightarrow> outside \<Rightarrow> error \<Rightarrow> runner \<Rightarrow> begun \<times> runner" where
  "report_opened nt os err r =
    (let options = pr_options (ru_probe r) in
     case (if is_err err then map_sum id Not (settings_get_bool options ''ignore_open_report_error'' True) else Inr False) of
       Inl x \<Rightarrow> (Raised x, r)
     | Inr stop \<Rightarrow>
        if stop then (CalledBack err, r)
        else let (err, inputs) = process_input_filepaths (os_open_file os) (os_randomize os) (nt_needs_input nt)
                   (ru_input_filepaths r) (pr_cc (ru_probe r)) options (ru_inputs r);
                 r = r\<lparr>ru_inputs := inputs\<rparr>
             in if is_err err then (CalledBack err, r)
                else case settings_get_int options ''parallelism'' 3 of
                       Inl x \<Rightarrow> (Raised x, r)
                     | Inr parallelism \<Rightarrow>
                        if parallelism < 0 then (Raised BadAlloc, r) else (Loop (nat parallelism), r))"

definition resolver_found :: "nettest \<Rightarrow> outside \<Rightarrow> string error_or \<Rightarrow> runner \<Rightarrow> begun \<times> runner" where
  "resolver_found nt os resolver r =
    (let r = (if \<not> is_err (fst resolver) then r\<lparr>ru_resolver_ip := snd resolver\<rparr> else r) in
     case open_report nt os r of
       None \<Rightarrow> (Stuck, r)
     | Some (Inl x) \<Rightarrow> (Raised x, r)
     | Some (Inr (err, r)) \<Rightarrow> report_opened nt os err r)"

definition runnable_begin :: "nettest \<Rightarrow> outside \<Rightarrow> runner \<Rightarrow> begun \<times> runner" where
  "runnable_begin nt os r =
    (let (err, options) = query_bouncer nt (os_bouncer os) (pr_options (ru_probe r));
         r = r\<lparr>ru_probe := (ru_probe r)\<lparr>pr_options := options\<rparr>\<rparr>
     in if is_err err then (CalledBack err, r)
        else case geoip_lookup (os_geoip os) (os_ask_ip os) (ru_probe r) of
               Inl x \<Rightarrow> (Raised x, r)
             | Inr (evs, p) \<Rightarrow>
                (let r = r\<lparr>ru_probe := p, ru_events := ru_events r @ evs\<rparr> in
                 case os_resolver os (pr_options p) of
                   None \<Rightarrow> (Stuck, r)
                 | Some resolver \<Rightarrow> resolver_found nt os resolver r))"

text \<open>The constants of the loop that \<open>begin\<close> starts.\<close>

definition loop_env :: "build \<Rightarrow> nettest \<Rightarrow> rat res \<Rightarrow> (json \<Rightarrow> string) \<Rightarrow> runner \<Rightarrow> run_env" where
  "loop_env bd nt max_runtime dumped r =
    \<lparr>re_build = bd, re_nettest = nt, re_report = ru_report r, re_resolver_ip = ru_resolver_ip r,
     re_options = pr_options (ru_probe r), re_max_runtime = max_runtime, re_num_entries = length (ru_inputs r),
     re_dump = dumped\<rparr>"

definition runnable_end :: "runner \<Rightarrow> error \<times> runner" where
  "runnable_end r = (let (e, reporters) = report_close (ru_reporters r) in (e, r\<lparr>ru_reporters := reporters\<rparr>))"

section \<open>Lemmas\<close>

lemma first_free_Least:
  assumes "\<not> f n" "m \<le> n" "\<And>i. i < m \<Longrightarrow> f i"
  shows "first_free f m = Some (LEAST i. \<not> f i)"
  using assms
proof (induction "n - m" arbitrary: m)
  case 0
  then have "(LEAST i. \<not> f i) = m"
    by (intro Least_equality) (auto simp: not_less [symmetric])
  with 0 show ?case
    by (subst first_free.simps) simp
next
  case (Suc k)
  show ?case
  proof (cases "f m")
    case True
    then have "first_free f (m + 1) = Some (LEAST i. \<not> f i)"
      using Suc.hyps(2) Suc.prems by (intro Suc.hyps(1)) (auto simp: less_Suc_eq)
    with True show ?thesis
      by (subst first_free.simps) simp
  next
    case False
    then have "(LEAST i. \<not> f i) = m"
      using Suc.prems(3) by (intro Least_equality) (auto simp: not_less [symmetric])
    with False show ?thesis
      by (subst first_free.simps) simp
  qed
qed

lemma probe_lookups [simp]:
  "pr_ip (lookup_cc lib s ip p) = pr_ip p" "pr_asn (lookup_cc lib s ip p) = pr_asn p"
  "pr_options (lookup_cc lib s ip p) = pr_options p" "pr_network_name (lookup_cc lib s ip p) = pr_network_name p"
  "pr_ip (lookup_asn lib s ip p) = pr_ip p" "pr_cc (lookup_asn lib s ip p) = pr_cc p"
  "pr_options (lookup_asn lib s ip p) = pr_options p"
  by (simp_all add: lookup_cc_def lookup_asn_def set_asn_def Let_def split: prod.split option.split)

lemma probe_not_looked_up [simp]:
  "lookup_cc lib False ip p = p" "lookup_asn lib False ip p = p"
  by (simp_all add: lookup_cc_def lookup_asn_def)

lemma override_cases: "override_with save key options v = (w, b) \<Longrightarrow> (b \<longrightarrow> save) \<and> (\<not> save \<longrightarrow> w = v)"
  by (auto simp: override_with_def split: if_splits option.splits)

lemma geoip_private:
  assumes "geoip_lookup lib ask p = Inr (evs, p')"
  shows "settings_get_bool (pr_options p) ''save_real_probe_ip'' False = Inr False \<Longrightarrow> pr_ip p' = ''127.0.0.1''"
    "settings_get_bool (pr_options p) ''save_real_probe_asn'' True = Inr False \<Longrightarrow> pr_asn p' = ''AS0'' \<and> pr_network_name p' = pr_network_name p"
    "settings_get_bool (pr_options p) ''save_real_probe_cc'' True = Inr False \<Longrightarrow> pr_cc p' = ''ZZ''"
    "\<forall>k. k \<noteq> ''real_probe_ip_'' \<longrightarrow> pr_options p' k = pr_options p k"
proof -
  obtain sip sasn scc where s: "settings_get_bool (pr_options p) ''save_real_probe_ip'' False = Inr sip"
      "settings_get_bool (pr_options p) ''save_real_probe_asn'' True = Inr sasn"
      "settings_get_bool (pr_options p) ''save_real_probe_cc'' True = Inr scc"
    using assms unfolding geoip_lookup_def bind_res_def by (auto split: sum.splits)
  obtain ip bip where ip: "override_with sip ''probe_ip'' (pr_options p) ''127.0.0.1'' = (ip, bip)"
    by (rule prod.exhaust)
  obtain asn basn where asn: "override_with sasn ''probe_asn'' (pr_options p) ''AS0'' = (asn, basn)"
    by (rule prod.exhaust)
  obtain cc bcc where cc: "override_with scc ''probe_cc'' (pr_options p) ''ZZ'' = (cc, bcc)"
    by (rule prod.exhaust)
  let ?p = "p\<lparr>pr_ip := ip, pr_asn := asn, pr_cc := cc\<rparr>"
  have p': "p' = ?p\<lparr>pr_options := (pr_options p)(''real_probe_ip_'' \<mapsto> ip)\<rparr>
      \<or> (evs, p') = found_ip lib bip basn bcc (ask (pr_options p)) ?p"
    using assms by (auto simp: geoip_lookup_def s ip asn cc Let_def split: if_splits)
  have found: "pr_ip (snd (found_ip lib bip basn bcc r ?p)) = (if bip \<and> \<not> is_err (fst r) then snd r else ip)"
    "\<not> basn \<Longrightarrow> pr_asn (snd (found_ip lib bip basn bcc r ?p)) = asn"
    "\<not> basn \<Longrightarrow> pr_network_name (snd (found_ip lib bip basn bcc r ?p)) = pr_network_name p"
    "\<not> bcc \<Longrightarrow> pr_cc (snd (found_ip lib bip basn bcc r ?p)) = cc"
    "k \<noteq> ''real_probe_ip_'' \<Longrightarrow> pr_options (snd (found_ip lib bip basn bcc r ?p)) k = pr_options p k" for r k
    by (simp_all add: found_ip_def Let_def)
  obtain e v where ask: "ask (pr_options p) = (e, v)"
    by (rule prod.exhaust)
  note o = override_cases [OF ip] override_cases [OF asn] override_cases [OF cc]
  have cases: "p' = ?p\<lparr>pr_options := (pr_options p)(''real_probe_ip_'' \<mapsto> ip)\<rparr>
      \<or> p' = snd (found_ip lib bip basn bcc (ask (pr_options p)) ?p)"
    using p' by (metis snd_conv)
  show "pr_ip p' = ''127.0.0.1''" if "settings_get_bool (pr_options p) ''save_real_probe_ip'' False = Inr False"
    using cases o(1) s(1) that found(1) [of "(e, v)"] unfolding ask by auto
  show "pr_asn p' = ''AS0'' \<and> pr_network_name p' = pr_network_name p"
    if "settings_get_bool (pr_options p) ''save_real_probe_asn'' True = Inr False"
    using cases o(2) s(2) that found(2,3) [of "(e, v)"] unfolding ask by auto
  show "pr_cc p' = ''ZZ''" if "settings_get_bool (pr_options p) ''save_real_probe_cc'' True = Inr False"
    using cases o(3) s(3) that found(4) [of "(e, v)"] unfolding ask by auto
  show "\<forall>k. k \<noteq> ''real_probe_ip_'' \<longrightarrow> pr_options p' k = pr_options p k"
    using cases found(5) [of _ "(e, v)"] unfolding ask by auto
qed

text \<open>The bouncer changes the options of the helpers and the collector only.\<close>

lemma use_helper_other: "k \<noteq> snd th \<Longrightarrow> use_helper reply options th k = options k"
  by (simp add: use_helper_def Let_def)

lemma query_bouncer_other:
  assumes "k \<notin> set (test_helpers_option_names nt)" "k \<noteq> ''collector_base_url''"
  shows "snd (query_bouncer nt post options) k = options k"
proof -
  have "foldl (use_helper reply) options' ths k = options' k" if "k \<notin> snd ` set ths" for reply options' ths
    using that by (induction ths arbitrary: options') (simp_all add: use_helper_other)
  then show ?thesis
    using assms by (simp add: query_bouncer_def bouncer_replied_def test_helpers_option_names_def Let_def)
qed

lemma settings_get_bool_cong: "options k = options' k \<Longrightarrow> settings_get_bool options k d = settings_get_bool options' k d"
  by (simp add: settings_get_bool_def)

lemma report_id_probe [simp]:
  "rp_probe_ip (foldl (\<lambda>rp r. if reporter_id r \<noteq> [] then rp\<lparr>rp_report_id := reporter_id r\<rparr> else rp) rp rs) = rp_probe_ip rp"
  by (induction rs arbitrary: rp) simp_all

lemma report_open_probe: "rp_probe_ip (fst (snd (report_open rp rs))) = rp_probe_ip rp"
  by (cases "report_all Open rs") (simp add: report_open_def del: foldl_Cons)

lemma open_report_probe:
  assumes "open_report nt os r = Some (Inr (e, r'))"
  shows "rp_probe_ip (ru_report r') = pr_ip (ru_probe r)" "ru_probe r' = ru_probe r"
proof -
  obtain filepath reporters where
    o: "(let (e, rp, reporters) = report_open (make_report nt (os_start_time os) (ru_probe r)) reporters
          in Inr (e, r\<lparr>ru_output_filepath := filepath, ru_report := rp, ru_reporters := reporters\<rparr>)) = (Inr (e, r') :: (error \<times> runner) res)"
    using assms unfolding open_report_def by (auto simp: bind_res_Inr_iff split: option.splits)
  obtain e1 rp rs where ro: "report_open (make_report nt (os_start_time os) (ru_probe r)) reporters = (e1, rp, rs)"
    by (rule prod_cases3)
  have "r' = r\<lparr>ru_output_filepath := filepath, ru_report := rp, ru_reporters := rs\<rparr>"
    using o unfolding ro by simp
  then show "rp_probe_ip (ru_report r') = pr_ip (ru_probe r)" "ru_probe r' = ru_probe r"
    using report_open_probe [of "make_report nt (os_start_time os) (ru_probe r)" reporters] ro by (simp_all add: make_report_def)
qed

lemma report_opened_same:
  "ru_report (snd (report_opened nt os e r)) = ru_report r" "ru_probe (snd (report_opened nt os e r)) = ru_probe r"
  by (simp_all add: report_opened_def Let_def split: sum.split prod.split)

lemma begin_report_ip:
  assumes "runnable_begin nt os r = (Loop n, r')"
  shows "\<exists>evs p p'. geoip_lookup (os_geoip os) (os_ask_ip os) p = Inr (evs, p')
    \<and> pr_options p = snd (query_bouncer nt (os_bouncer os) (pr_options (ru_probe r)))
    \<and> rp_probe_ip (ru_report r') = pr_ip p'"
proof -
  obtain err options where q: "query_bouncer nt (os_bouncer os) (pr_options (ru_probe r)) = (err, options)"
    by (rule prod.exhaust)
  let ?r = "r\<lparr>ru_probe := (ru_probe r)\<lparr>pr_options := options\<rparr>\<rparr>"
  obtain evs p where g: "geoip_lookup (os_geoip os) (os_ask_ip os) (ru_probe ?r) = Inr (evs, p)"
    using assms by (auto simp: runnable_begin_def q Let_def split: if_splits sum.splits)
  let ?r2 = "?r\<lparr>ru_probe := p, ru_events := ru_events ?r @ evs\<rparr>"
  obtain resolver where res: "resolver_found nt os resolver ?r2 = (Loop n, r')"
    using assms g by (auto simp: runnable_begin_def q Let_def split: if_splits option.splits)
  let ?r3 = "if \<not> is_err (fst resolver) then ?r2\<lparr>ru_resolver_ip := snd resolver\<rparr> else ?r2"
  obtain e r4 where o: "open_report nt os ?r3 = Some (Inr (e, r4))" "report_opened nt os e r4 = (Loop n, r')"
    using res unfolding resolver_found_def Let_def by (auto split: option.splits sum.splits)
  have "rp_probe_ip (ru_report r') = pr_ip (ru_probe ?r3)"
    using open_report_probe(1) [OF o(1)] report_opened_same(1) [of nt os e r4] o(2) by simp
  then have "rp_probe_ip (ru_report r') = pr_ip p"
    by (simp split: if_splits)
  with g show ?thesis
    by (intro exI [of _ evs] exI [of _ "ru_probe ?r"] exI [of _ p]) (simp add: q)
qed

section \<open>Properties\<close>

text \<open>C5: Unless the user asked to save it, the address of the user is not in the entries: every entry of the
  loop that \<open>begin\<close> starts says \<open>127.0.0.1\<close>, whatever the lookups and the bouncer answer.\<close>

theorem location_is_private:
  assumes "runnable_begin nt os r = (Loop n, r')" "''save_real_probe_ip'' \<notin> set (test_helpers_option_names nt)"
    and "settings_get_bool (pr_options (ru_probe r)) ''save_real_probe_ip'' False = Inr False"
    and "env = loop_env bd nt max_runtime dumped r'" "me_keys me = JObject ks"
  shows "\<exists>ms. build_entry bd nt (re_report env) (re_resolver_ip env) (re_options env) inp me = Inr (nt_fixup nt (JObject ms))
    \<and> map_of ms ''probe_ip'' = Some (JString ''127.0.0.1'')"
proof -
  obtain evs p p' where p: "geoip_lookup (os_geoip os) (os_ask_ip os) p = Inr (evs, p')"
    "pr_options p = snd (query_bouncer nt (os_bouncer os) (pr_options (ru_probe r)))"
    "rp_probe_ip (ru_report r') = pr_ip p'"
    using begin_report_ip [OF assms(1)] by blast
  have "pr_options p ''save_real_probe_ip'' = pr_options (ru_probe r) ''save_real_probe_ip''"
    unfolding p(2) by (rule query_bouncer_other [OF assms(2)]) simp
  then have "settings_get_bool (pr_options p) ''save_real_probe_ip'' False = Inr False"
    using assms(3) settings_get_bool_cong [of "pr_options p" "''save_real_probe_ip''" "pr_options (ru_probe r)" False] by simp
  then have "rp_probe_ip (re_report env) = ''127.0.0.1''"
    using geoip_private(1) [OF p(1)] p(3) by (simp add: assms(4) loop_env_def)
  moreover obtain ms where "build_entry bd nt (re_report env) (re_resolver_ip env) (re_options env) inp me = Inr (nt_fixup nt (JObject ms))"
    "map_of ms ''probe_ip'' = Some (JString (rp_probe_ip (re_report env)))"
    using entry_members [OF assms(5), of bd nt "re_report env" "re_resolver_ip env" "re_options env" inp]
    by (elim exE conjE) (rule that)
  ultimately show ?thesis
    by (intro exI [of _ ms] conjI) simp_all
qed

text \<open>The default path of the report is the first of the numbered names that no readable file has; one such
  name is enough for the search to end.\<close>

theorem output_path_is_new:
  assumes "\<not> file_good (output_filename test_name timestamp n)"
  shows "\<exists>idx \<le> n. generate_output_filepath file_good test_name timestamp = Some (output_filename test_name timestamp idx)
    \<and> \<not> file_good (output_filename test_name timestamp idx)
    \<and> (\<forall>i < idx. file_good (output_filename test_name timestamp i))"
proof -
  let ?f = "\<lambda>i. file_good (output_filename test_name timestamp i)"
  let ?idx = "LEAST i. \<not> ?f i"
  have "first_free ?f 0 = Some ?idx"
    using assms by (intro first_free_Least [of ?f n]) simp_all
  moreover have "\<not> ?f ?idx" "?idx \<le> n"
    by (rule LeastI [of "\<lambda>i. \<not> ?f i", OF assms], rule Least_le [of "\<lambda>i. \<not> ?f i", OF assms])
  moreover have "\<forall>i < ?idx. ?f i"
    using not_less_Least [of _ "\<lambda>i. \<not> ?f i"] by blast
  moreover have "generate_output_filepath file_good test_name timestamp = Some (output_filename test_name timestamp ?idx)"
    unfolding generate_output_filepath_def \<open>first_free ?f 0 = Some ?idx\<close> by (rule option.map(2))
  ultimately show ?thesis
    by blast
qed

text \<open>An error of the bouncer ends the nettest with this error, whatever the option that is
  documented to ignore it says.\<close>

theorem bouncer_error_ends:
  assumes "nt_use_bouncer nt" "pr_options (ru_probe r) ''no_bouncer'' = None"
    and "\<And>url names options. is_err (fst (os_bouncer os url names options))"
  shows "\<exists>e r'. runnable_begin nt os r = (CalledBack e, r') \<and> is_err e"
proof -
  let ?options = "pr_options (ru_probe r)"
  have "settings_get_bool_noexcept ?options ''no_bouncer'' False = no_err False"
    using assms(2) by (simp add: settings_get_bool_noexcept_def settings_get_bool_def)
  then have err: "is_err (fst (query_bouncer nt (os_bouncer os) ?options))"
    using assms(1,3) by (simp add: query_bouncer_def bouncer_replied_def as_error_def no_err_def err_eq_def Let_def)
  obtain e options where "query_bouncer nt (os_bouncer os) ?options = (e, options)"
    by (rule prod.exhaust)
  with err show ?thesis
    by (simp add: runnable_begin_def)
qed

text \<open>The inputs of a test that needs some are the given ones and the lines of the files that open, in an
  order that the shuffling may change; it is an error if there are none.  A test that needs
  none runs once.\<close>

theorem inputs_are_read:
  assumes "\<And>xs. mset (randomize xs) = mset xs"
  shows "let (err, inputs') = process_input_filepaths open_file randomize needs paths cc options inputs;
             lines = inputs @ concat (map (input_lines open_file cc) paths)
    in (\<not> needs \<longrightarrow> \<not> is_err err \<and> inputs' = [[]])
     \<and> (needs \<and> \<not> is_err err \<longrightarrow> mset inputs' = mset lines \<and> lines \<noteq> [])
     \<and> (needs \<and> lines = [] \<longrightarrow> is_err err)
     \<and> (needs \<and> settings_get_bool options ''randomize_input'' True = Inr False \<and> lines \<noteq> [] \<longrightarrow> \<not> is_err err \<and> inputs' = lines)"
proof -
  have k: "fst MissingRequiredInputFileError \<noteq> 0" "fst CannotReadAnyInputFileError \<noteq> 0"
    by (simp_all add: err_simps)
  have b: "settings_get_bool_noexcept options ''randomize_input'' True = no_err False"
    if "settings_get_bool options ''randomize_input'' True = Inr False"
    using that by (simp add: settings_get_bool_noexcept_def)
  show ?thesis
    using assms k b by (auto simp: process_input_filepaths_def Let_def no_err_def has_value_def as_error_def err_eq_def is_err_def)
qed

section \<open>Witnesses\<close>

definition quiet_options :: settings where
  "quiet_options = [''no_file_report'' \<mapsto> ''1'', ''no_collector'' \<mapsto> ''1'']"

definition quiet_runner :: runner where
  "quiet_runner = \<lparr>ru_probe = \<lparr>pr_ip = [], pr_asn = [], pr_cc = [], pr_network_name = [], pr_options = quiet_options, pr_cache = []\<rparr>,
    ru_resolver_ip = [], ru_inputs = [''a''], ru_input_filepaths = [], ru_output_filepath = ''report'', ru_report = quiet_report,
    ru_reporters = [], ru_events = []\<rparr>"

definition quiet_outside :: outside where
  "quiet_outside = \<lparr>os_bouncer = \<lambda>_ _ _. (new GenericError, None), os_ask_ip = \<lambda>_. no_err ''1.2.3.4'',
    os_resolver = \<lambda>_. Some (no_err ''8.8.8.8''),
    os_geoip = \<lparr>gl_opens = \<lambda>_. False, gl_country_code = \<lambda>_ _. None, gl_country_name = \<lambda>_ _. None, gl_city = \<lambda>_ _. None,
      gl_name = \<lambda>_ _. None\<rparr>,
    os_file_good = \<lambda>_. False, os_open_file = \<lambda>_. \<lparr>if_good = False, if_lines = []\<rparr>, os_randomize = rev,
    os_start_time = ''now'', os_file_time = ''now'',
    os_files = \<lparr>os_open = \<lambda>_. True, os_write = \<lambda>_. True, os_close = True\<rparr>,
    os_collector = \<lparr>col_create = \<lambda>_. (new GenericError, []), col_update = \<lambda>_. new GenericError, col_close = \<lambda>_. new GenericError\<rparr>\<rparr>"

lemma option_true: "options key = Some ''1'' \<Longrightarrow> settings_get_bool options key d = Inr True"
  by (simp add: settings_get_bool_def c_str_def stream_int_def is_space_def is_digit_def dec_value_def int_range_def
    INT_MIN_def INT_MAX_def Let_def)

lemma option_default: "options key = None \<Longrightarrow> settings_get_bool options key d = Inr d"
  by (simp add: settings_get_bool_def)

lemma quiet_geoip:
  "\<exists>evs p. geoip_lookup (os_geoip quiet_outside) (os_ask_ip quiet_outside) (ru_probe quiet_runner) = Inr (evs, p)
    \<and> pr_options p = quiet_options(''real_probe_ip_'' \<mapsto> ''1.2.3.4'')"
proof -
  have "settings_get_str (quiet_options(''real_probe_ip_'' \<mapsto> ''1.2.3.4'')) ''geoip_country_path'' [] = []"
    "settings_get_str (quiet_options(''real_probe_ip_'' \<mapsto> ''1.2.3.4'')) ''geoip_asn_path'' [] = []"
    by (simp_all add: settings_get_str_def quiet_options_def)
  moreover have "settings_get_bool quiet_options k d = Inr d" if "k \<in> {''save_real_probe_ip'', ''save_real_probe_asn'', ''save_real_probe_cc''}" for k d
    using that by (auto simp: quiet_options_def option_default)
  moreover have "quiet_options ''probe_asn'' = None" "quiet_options ''probe_cc'' = None"
    by (simp_all add: quiet_options_def)
  ultimately show ?thesis
    by (simp add: geoip_lookup_def quiet_runner_def quiet_outside_def override_with_def found_ip_def no_err_def
      lookup_cc_def lookup_asn_def Let_def)
qed

lemma quiet_begin: "\<exists>r'. runnable_begin quiet_nettest quiet_outside quiet_runner = (Loop 3, r')"
proof -
  obtain evs p where g: "geoip_lookup (os_geoip quiet_outside) (os_ask_ip quiet_outside) (ru_probe quiet_runner) = Inr (evs, p)"
    "pr_options p = quiet_options(''real_probe_ip_'' \<mapsto> ''1.2.3.4'')"
    using quiet_geoip by blast
  have opts: "settings_get_bool (pr_options p) ''no_file_report'' False = Inr True"
    "settings_get_bool (pr_options p) ''no_collector'' False = Inr True"
    "settings_get_bool (pr_options p) ''randomize_input'' True = Inr True"
    "settings_get_int (pr_options p) ''parallelism'' 3 = Inr 3"
    by (simp_all add: g(2) option_true option_default quiet_options_def settings_get_int_def)
  have q: "query_bouncer quiet_nettest (os_bouncer quiet_outside) (pr_options (ru_probe quiet_runner)) = (new NoError, quiet_options)"
    by (simp add: query_bouncer_def quiet_nettest_def quiet_runner_def settings_get_bool_noexcept_def option_default
      quiet_options_def no_err_def as_error_def err_eq_def)
  let ?r = "quiet_runner\<lparr>ru_probe := p, ru_events := evs, ru_resolver_ip := ''8.8.8.8''\<rparr>"
  have o: "open_report quiet_nettest quiet_outside ?r = Some (Inr (parallel_error [],
      ?r\<lparr>ru_output_filepath := ''report'', ru_report := make_report quiet_nettest ''now'' p, ru_reporters := []\<rparr>))"
    by (simp add: open_report_def quiet_runner_def make_reporters_def opts report_open_def report_all_def quiet_outside_def)
  have no: "\<not> is_err (parallel_error [])"
    by (simp add: parallel_error_def is_err_def)
  have i: "process_input_filepaths (os_open_file quiet_outside) (os_randomize quiet_outside) True [] cc (pr_options p) [''a'']
      = (new NoError, [''a''])" for cc
    by (simp add: process_input_filepaths_def settings_get_bool_noexcept_def opts(3) quiet_outside_def no_err_def)
  have r: "ru_probe (quiet_runner\<lparr>ru_probe := (ru_probe quiet_runner)\<lparr>pr_options := quiet_options\<rparr>\<rparr>) = ru_probe quiet_runner"
    by (simp add: quiet_runner_def)
  have "runnable_begin quiet_nettest quiet_outside quiet_runner = resolver_found quiet_nettest quiet_outside (no_err ''8.8.8.8'')
      (quiet_runner\<lparr>ru_probe := p, ru_events := evs\<rparr>)"
    unfolding runnable_begin_def q by (simp only: Let_def prod.case r g(1)) (simp add: quiet_outside_def quiet_runner_def)
  moreover have "fst (report_opened quiet_nettest quiet_outside (parallel_error [])
      (?r\<lparr>ru_output_filepath := ''report'', ru_report := make_report quiet_nettest ''now'' p, ru_reporters := []\<rparr>)) = Loop 3"
    by (simp add: report_opened_def no opts(4) quiet_runner_def quiet_nettest_def i)
  ultimately have "fst (runnable_begin quiet_nettest quiet_outside quiet_runner) = Loop 3"
    using o by (simp add: resolver_found_def no_err_def)
  then show ?thesis
    by (metis prod.collapse)
qed

theorem location_is_private_witness:
  "\<exists>r' ms. runnable_begin quiet_nettest quiet_outside quiet_runner = (Loop 3, r')
    \<and> build_entry (re_build quiet_env) quiet_nettest (ru_report r') (ru_resolver_ip r') (pr_options (ru_probe r')) ''a'' no_keys
        = Inr (JObject ms)
    \<and> map_of ms ''probe_ip'' = Some (JString ''127.0.0.1'')"
proof -
  obtain r' where r': "runnable_begin quiet_nettest quiet_outside quiet_runner = (Loop 3, r')"
    using quiet_begin by blast
  have "settings_get_bool (pr_options (ru_probe quiet_runner)) ''save_real_probe_ip'' False = Inr False"
    by (simp add: quiet_runner_def quiet_options_def option_default)
  from location_is_private [OF r' _ this refl, of no_keys "[]" "re_build quiet_env" _ _ "''a''"] r' show ?thesis
    by (auto simp: test_helpers_option_names_def quiet_nettest_def no_keys_def loop_env_def)
qed

theorem output_path_is_new_witness:
  "\<exists>idx \<le> 1. generate_output_filepath (\<lambda>f. f = output_filename ''t'' ''now'' 0) ''t'' ''now'' = Some (output_filename ''t'' ''now'' idx)"
  using output_path_is_new [of "\<lambda>f. f = output_filename ''t'' ''now'' 0" "''t''" "''now''" 1]
  by (auto simp: output_filename_def)

theorem bouncer_error_ends_witness:
  "\<exists>e r'. runnable_begin (quiet_nettest\<lparr>nt_use_bouncer := True\<rparr>) quiet_outside quiet_runner = (CalledBack e, r') \<and> is_err e"
  by (rule bouncer_error_ends) (simp_all add: quiet_runner_def quiet_options_def quiet_outside_def err_simps)

theorem inputs_are_read_witness:
  "mset (snd (process_input_filepaths (\<lambda>_. \<lparr>if_good = True, if_lines = [''b'', ''c'']\<rparr>) rev True [''f''] ''IT'' Map.empty [''a'']))
    = mset [''a'', ''b'', ''c'']"
  using inputs_are_read [where randomize = rev and open_file = "\<lambda>_. \<lparr>if_good = True, if_lines = [''b'', ''c'']\<rparr>" and needs = True
    and paths = "[''f'']" and cc = "''IT''" and options = Map.empty and inputs = "[''a'']"]
  by (simp add: process_input_filepaths_def input_lines_def Let_def settings_get_bool_noexcept_def option_default no_err_def)

end
