(* ===== verification/TlsVerify.thy ===== *)
theory TlsVerify
  imports Connect Http
begin

text \<open>
  \<open>ext/tls\_verify.c\<close>: whether a certificate is for the name a connection was made to.  A C string is its
  characters before the terminator; the bytes of a name in the certificate may hold one.  The
  names of the certificate and \<open>inet_pton\<close> are arguments.
\<close>

section \<open>Matching one name\<close>

definition strcasecmp_eq :: "string \<Rightarrow> string \<Rightarrow> bool" where
  "strcasecmp_eq a b \<longleftrightarrow> ci_key a = ci_key b"

text \<open>\<open>strchr(s, '.')\<close>: the rest of the text from the first dot on.\<close>

definition strchr_dot :: "string \<Rightarrow> string option" where
  "strchr_dot s = (case dropWhile (\<lambda>c. c \<noteq> CHR ''.'') s of [] \<Rightarrow> None | r \<Rightarrow> Some r)"

definition first_is :: "char \<Rightarrow> string \<Rightarrow> bool" where
  "first_is c s \<longleftrightarrow> (case s of [] \<Rightarrow> False | x # _ \<Rightarrow> x = c)"

definition wildcard_ok :: "string \<Rightarrow> bool" where
  "wildcard_ok cert_domain \<longleftrightarrow>
    first_is CHR ''.'' cert_domain
    \<and> \<not> first_is CHR ''.'' (tl cert_domain)
    \<and> (case strchr_dot (tl cert_domain) of None \<Rightarrow> False | Some next_dot \<Rightarrow> \<not> first_is CHR ''.'' (tl next_dot))"

definition tls_match_name :: "string \<Rightarrow> string \<Rightarrow> bool" where
  "tls_match_name cert_name name \<longleftrightarrow>
    (if strcasecmp_eq cert_name name then True
     else if first_is CHR ''*'' cert_name then
       let cert_domain = tl cert_name in
       if \<not> wildcard_ok cert_domain then False
       else if first_is CHR ''.'' name then False
       else (case strchr_dot name of
               None \<Rightarrow> False
             | Some domain \<Rightarrow> if length domain = 1 then False else strcasecmp_eq cert_domain domain)
     else False)"

section \<open>The names of a certificate\<close>

text \<open>A DNS name, with whether it is encoded as IA5, an address, or a name of another kind.\<close>

datatype general_name = GenDns bool string | GenIpAdd bytes | GenOther

text \<open>The kind of the name that is looked for.\<close>

datatype name_type = DnsType | IpType bytes

definition name_type_of :: "pton_api \<Rightarrow> string \<Rightarrow> name_type" where
  "name_type_of api name =
    (case pton4 api name of Some a \<Rightarrow> IpType a
     | None \<Rightarrow> (case pton6 api name of Some a \<Rightarrow> IpType a | None \<Rightarrow> DnsType))"

definition known_name :: "general_name \<Rightarrow> bool" where
  "known_name g \<longleftrightarrow> (case g of GenOther \<Rightarrow> False | _ \<Rightarrow> True)"

text \<open>The result is the return value, \<open>alt_match\<close> and \<open>alt_exists\<close>.\<close>

fun altname_loop :: "name_type \<Rightarrow> string \<Rightarrow> bool \<Rightarrow> general_name list \<Rightarrow> int \<times> bool \<times> bool" where
  "altname_loop type name alt_exists [] = (0, False, alt_exists)"
| "altname_loop type name alt_exists (altname # names) =
    (let alt_exists = (if known_name altname then True else alt_exists) in
     case (altname, type) of
       (GenDns ia5 data, DnsType) \<Rightarrow>
         if ia5 then
           if length data \<noteq> length (c_str data) then (- 1, False, alt_exists)
           else if c_str data = '' '' then (- 1, False, alt_exists)
           else if tls_match_name (c_str data) name then (0, True, alt_exists)
           else altname_loop type name alt_exists names
         else altname_loop type name alt_exists names
     | (GenIpAdd data, IpType addr) \<Rightarrow>
         if data = addr then (0, True, alt_exists) else altname_loop type name alt_exists names
     | _ \<Rightarrow> altname_loop type name alt_exists names)"

definition tls_check_subject_altname ::
    "pton_api \<Rightarrow> general_name list option \<Rightarrow> string \<Rightarrow> int \<times> bool \<times> bool" where
  "tls_check_subject_altname api altname_stack name =
    (case altname_stack of
       None \<Rightarrow> (0, False, False)
     | Some names \<Rightarrow> altname_loop (name_type_of api name) name False names)"

text \<open>The common name is \<open>None\<close> when there is none or it cannot be copied.\<close>

definition tls_check_common_name :: "pton_api \<Rightarrow> string option \<Rightarrow> string \<Rightarrow> int \<times> bool" where
  "tls_check_common_name api common_name name =
    (case common_name of
       None \<Rightarrow> (0, False)
     | Some cn \<Rightarrow>
        if length cn \<noteq> length (c_str cn) then (- 1, False)
        else if pton4 api name \<noteq> None \<or> pton6 api name \<noteq> None then (0, c_str cn = name)
        else (0, tls_match_name (c_str cn) name))"

record certificate =
  ce_altnames :: "general_name list option"
  ce_common_name :: "string option"

definition tls_check_name :: "pton_api \<Rightarrow> certificate \<Rightarrow> string \<Rightarrow> int \<times> bool" where
  "tls_check_name api cert name =
    (let (rv, matches, alt_exists) = tls_check_subject_altname api (ce_altnames cert) name in
     if rv = - 1 then (- 1, matches)
     else if matches \<or> alt_exists then (0, matches)
     else tls_check_common_name api (ce_common_name cert) name)"

text \<open>\<open>verify_peer\<close> calls it with the name of the host as a C string.\<close>

definition verify_peer_name :: "pton_api \<Rightarrow> certificate option \<Rightarrow> string \<Rightarrow> ssl_env \<Rightarrow> error" where
  "verify_peer_name api cert host env =
    verify_peer
      (case cert of
         None \<Rightarrow> env\<lparr>ssl_cert := False\<rparr>
       | Some cert \<Rightarrow> env\<lparr>ssl_cert := True, ssl_check_name := tls_check_name api cert (c_str host)\<rparr>)"

section \<open>What a wildcard matches\<close>

text \<open>A domain of a wildcard: a label, a dot, and something that does not start with a dot.\<close>

definition wildcard_domain :: "string \<Rightarrow> bool" where
  "wildcard_domain d \<longleftrightarrow>
    (\<exists>a b. d = a @ CHR ''.'' # b \<and> a \<noteq> [] \<and> CHR ''.'' \<notin> set a \<and> \<not> first_is CHR ''.'' b)"

lemma first_is_iff: "first_is c s \<longleftrightarrow> (\<exists>r. s = c # r)"
  by (cases s) (auto simp: first_is_def)

lemma strchr_dot_Some: "strchr_dot s = Some r \<longleftrightarrow> (\<exists>a b. s = a @ CHR ''.'' # b \<and> CHR ''.'' \<notin> set a \<and> r = CHR ''.'' # b)"
proof
  assume "strchr_dot s = Some r"
  then have r: "dropWhile (\<lambda>c. c \<noteq> CHR ''.'') s = r" "r \<noteq> []"
    by (auto simp: strchr_dot_def split: list.splits)
  then obtain b where b: "r = CHR ''.'' # b"
    using hd_dropWhile [of "\<lambda>c. c \<noteq> CHR ''.''" s] by (cases r) auto
  have "s = takeWhile (\<lambda>c. c \<noteq> CHR ''.'') s @ CHR ''.'' # b"
    using takeWhile_dropWhile_id [of "\<lambda>c. c \<noteq> CHR ''.''" s] r b by simp
  moreover have "CHR ''.'' \<notin> set (takeWhile (\<lambda>c. c \<noteq> CHR ''.'') s)"
    by (auto dest: set_takeWhileD)
  ultimately show "\<exists>a b. s = a @ CHR ''.'' # b \<and> CHR ''.'' \<notin> set a \<and> r = CHR ''.'' # b"
    using b by blast
next
  assume "\<exists>a b. s = a @ CHR ''.'' # b \<and> CHR ''.'' \<notin> set a \<and> r = CHR ''.'' # b"
  then obtain a b where ab: "s = a @ CHR ''.'' # b" "CHR ''.'' \<notin> set a" "r = CHR ''.'' # b"
    by blast
  have "dropWhile (\<lambda>c. c \<noteq> CHR ''.'') s = CHR ''.'' # b"
    unfolding ab(1) using ab(2) by (subst dropWhile_append2) auto
  then show "strchr_dot s = Some r"
    by (simp add: strchr_dot_def ab(3))
qed

lemma label_before_dot: "CHR ''.'' \<notin> set label \<Longrightarrow> takeWhile (\<lambda>c. c \<noteq> CHR ''.'') (label @ CHR ''.'' # rest) = label"
  by (subst takeWhile_append2) auto

lemma wildcard_ok_iff: "wildcard_ok cd \<longleftrightarrow> (\<exists>d. cd = CHR ''.'' # d \<and> wildcard_domain d)"
proof
  assume ok: "wildcard_ok cd"
  then obtain d where d: "cd = CHR ''.'' # d"
    by (auto simp: wildcard_ok_def first_is_iff)
  obtain nd where "strchr_dot d = Some nd" "\<not> first_is CHR ''.'' (tl nd)"
    using ok by (auto simp: wildcard_ok_def d split: option.splits)
  then obtain a b where ab: "d = a @ CHR ''.'' # b" "CHR ''.'' \<notin> set a" "\<not> first_is CHR ''.'' b"
    by (auto simp: strchr_dot_Some)
  moreover have "a \<noteq> []"
    using ok by (auto simp: wildcard_ok_def d ab(1) first_is_iff)
  ultimately show "\<exists>d. cd = CHR ''.'' # d \<and> wildcard_domain d"
    using d by (auto simp: wildcard_domain_def)
next
  assume "\<exists>d. cd = CHR ''.'' # d \<and> wildcard_domain d"
  then obtain a b where ab: "cd = CHR ''.'' # a @ CHR ''.'' # b" "a \<noteq> []" "CHR ''.'' \<notin> set a" "\<not> first_is CHR ''.'' b"
    by (auto simp: wildcard_domain_def)
  moreover have "strchr_dot (a @ CHR ''.'' # b) = Some (CHR ''.'' # b)"
    using ab(3) by (auto simp: strchr_dot_Some)
  moreover have "\<not> first_is CHR ''.'' (a @ CHR ''.'' # b)"
    using ab(2,3) by (cases a) (auto simp: first_is_iff)
  ultimately show "wildcard_ok cd"
    by (simp add: wildcard_ok_def first_is_iff)
qed

lemma ci_key_Cons: "(of_char c :: nat) \<noteq> 0 \<Longrightarrow> ci_key (c # s) = tolower c # ci_key s"
  by (simp add: ci_key_def c_str_def)

lemma match_name_iff:
  "tls_match_name cert_name name \<longleftrightarrow> ci_key cert_name = ci_key name
    \<or> (\<exists>d label rest. cert_name = CHR ''*'' # CHR ''.'' # d \<and> wildcard_domain d
        \<and> name = label @ CHR ''.'' # rest \<and> label \<noteq> [] \<and> CHR ''.'' \<notin> set label \<and> rest \<noteq> [] \<and> ci_key d = ci_key rest)"
  (is "?l \<longleftrightarrow> ?e \<or> ?w")
proof (cases ?e)
  case False
  have dom: "(case strchr_dot name of None \<Rightarrow> False | Some domain \<Rightarrow> if length domain = 1 then False else strcasecmp_eq (CHR ''.'' # d) domain)
      \<longleftrightarrow> (\<exists>label rest. name = label @ CHR ''.'' # rest \<and> CHR ''.'' \<notin> set label \<and> rest \<noteq> [] \<and> ci_key d = ci_key rest)" for d
  proof (cases "strchr_dot name")
    case None
    have "\<nexists>label rest. name = label @ CHR ''.'' # rest \<and> CHR ''.'' \<notin> set label"
    proof (intro notI, elim exE conjE)
      fix label rest
      assume "name = label @ CHR ''.'' # rest" "CHR ''.'' \<notin> set label"
      then have "strchr_dot name = Some (CHR ''.'' # rest)"
        unfolding strchr_dot_Some by blast
      with None show False
        by simp
    qed
    then show ?thesis
      unfolding None option.case by blast
  next
    case (Some r)
    then obtain a b where ab: "name = a @ CHR ''.'' # b" "CHR ''.'' \<notin> set a" "r = CHR ''.'' # b"
      by (auto simp: strchr_dot_Some)
    have uniq: "label = a \<and> rest = b" if "name = label @ CHR ''.'' # rest" "CHR ''.'' \<notin> set label" for label rest
    proof -
      have "label = takeWhile (\<lambda>c. c \<noteq> CHR ''.'') name"
        unfolding that(1) using label_before_dot [OF that(2)] by (rule sym)
      moreover have "a = takeWhile (\<lambda>c. c \<noteq> CHR ''.'') name"
        unfolding ab(1) using label_before_dot [OF ab(2)] by (rule sym)
      ultimately have "label = a"
        by simp
      then show ?thesis
        using that(1) ab(1) by simp
    qed
    have "(\<exists>label rest. name = label @ CHR ''.'' # rest \<and> CHR ''.'' \<notin> set label \<and> rest \<noteq> [] \<and> ci_key d = ci_key rest)
        \<longleftrightarrow> b \<noteq> [] \<and> ci_key d = ci_key b"
      using ab(1,2) uniq by blast
    moreover have "(if length r = 1 then False else strcasecmp_eq (CHR ''.'' # d) r) \<longleftrightarrow> b \<noteq> [] \<and> ci_key d = ci_key b"
      by (simp add: ab(3) strcasecmp_eq_def ci_key_Cons)
    ultimately show ?thesis
      unfolding Some option.case by blast
  qed
  have lab: "\<not> first_is CHR ''.'' (label @ CHR ''.'' # rest) \<longleftrightarrow> label \<noteq> []" if "CHR ''.'' \<notin> set label" for label rest
    using that by (cases label) (auto simp: first_is_iff)
  have "?l \<longleftrightarrow> (\<exists>d. cert_name = CHR ''*'' # CHR ''.'' # d \<and> wildcard_domain d \<and> \<not> first_is CHR ''.'' name
      \<and> (\<exists>label rest. name = label @ CHR ''.'' # rest \<and> CHR ''.'' \<notin> set label \<and> rest \<noteq> [] \<and> ci_key d = ci_key rest))"
  proof (cases "\<exists>d. cert_name = CHR ''*'' # CHR ''.'' # d \<and> wildcard_domain d")
    case True
    then obtain d where d: "cert_name = CHR ''*'' # CHR ''.'' # d" "wildcard_domain d"
      by blast
    have "wildcard_ok (CHR ''.'' # d)"
      using d(2) by (simp add: wildcard_ok_iff)
    then have "?l \<longleftrightarrow> \<not> first_is CHR ''.'' name
        \<and> (case strchr_dot name of None \<Rightarrow> False | Some domain \<Rightarrow> if length domain = 1 then False else strcasecmp_eq (CHR ''.'' # d) domain)"
      using False by (simp add: tls_match_name_def d(1) strcasecmp_eq_def first_is_def Let_def)
    then show ?thesis
      unfolding dom using d by auto
  next
    case none: False
    have "\<not> ?l"
    proof
      assume ?l
      then have "first_is CHR ''*'' cert_name" "wildcard_ok (tl cert_name)"
        using False by (auto simp: tls_match_name_def strcasecmp_eq_def Let_def split: if_splits)
      then show False
        using none by (auto simp: first_is_iff wildcard_ok_iff)
    qed
    then show ?thesis
      using none by blast
  qed
  also have "\<dots> \<longleftrightarrow> ?w"
    using lab by blast
  finally show ?thesis
    using False by simp
qed (simp add: tls_match_name_def strcasecmp_eq_def)

section \<open>What a certificate names\<close>

text \<open>A name of the certificate that matches: one of the alternative names, or the common name when there is no alternative name
  of a known kind.\<close>

definition named :: "pton_api \<Rightarrow> certificate \<Rightarrow> string \<Rightarrow> bool" where
  "named api cert name \<longleftrightarrow>
    (case name_type_of api name of
       DnsType \<Rightarrow> (\<exists>s. GenDns True s \<in> (case ce_altnames cert of None \<Rightarrow> {} | Some gs \<Rightarrow> set gs) \<and> c_str s = s \<and> tls_match_name s name)
     | IpType a \<Rightarrow> GenIpAdd a \<in> (case ce_altnames cert of None \<Rightarrow> {} | Some gs \<Rightarrow> set gs))
    \<or> (\<exists>cn. ce_common_name cert = Some cn \<and> c_str cn = cn
        \<and> (case ce_altnames cert of None \<Rightarrow> True | Some gs \<Rightarrow> filter known_name gs = [])
        \<and> (if name_type_of api name = DnsType then tls_match_name cn name else cn = name))"

lemma length_c_str: "length s = length (c_str s) \<longleftrightarrow> c_str s = s"
proof
  assume "length s = length (c_str s)"
  moreover have "s = c_str s @ dropWhile (\<lambda>c. (of_char c :: nat) \<noteq> 0) s"
    by (simp add: c_str_def)
  ultimately show "c_str s = s"
    by (metis append_eq_conv_conj take_all_iff order_refl)
qed simp

lemma altname_loop_match:
  "altname_loop type name ex gs = (rv, True, ex') \<Longrightarrow> rv = 0 \<and>
    (case type of
       DnsType \<Rightarrow> \<exists>s. GenDns True s \<in> set gs \<and> c_str s = s \<and> tls_match_name s name
     | IpType a \<Rightarrow> GenIpAdd a \<in> set gs)"
proof (induction gs arbitrary: ex)
  case (Cons g gs)
  show ?case
  proof (cases g)
    case (GenDns ia5 data)
    show ?thesis
      using Cons GenDns length_c_str [of data] by (cases type) (auto simp: Let_def split: if_splits)
  next
    case (GenIpAdd data)
    then show ?thesis
      using Cons by (cases type) (auto simp: Let_def split: if_splits)
  next
    case GenOther
    then show ?thesis
      using Cons by (cases type) (auto simp: Let_def split: if_splits)
  qed
qed simp

lemma altname_loop_exists: "altname_loop type name ex gs = (0, False, ex') \<Longrightarrow> ex' \<longleftrightarrow> ex \<or> filter known_name gs \<noteq> []"
proof (induction gs arbitrary: ex)
  case (Cons g gs)
  show ?case
    using Cons by (cases g; cases type) (auto simp: Let_def known_name_def split: if_splits)
qed simp

lemma altname_loop_return: "fst (altname_loop type name ex gs) \<in> {0, - 1}"
proof (induction gs arbitrary: ex)
  case (Cons g gs)
  then show ?case
    by (cases g; cases type) (auto simp: Let_def)
qed simp

lemma check_name_named:
  assumes "tls_check_name api cert name = (0, True)"
  shows "named api cert name"
proof -
  obtain rv m ex where alt: "tls_check_subject_altname api (ce_altnames cert) name = (rv, m, ex)"
    by (rule prod_cases3)
  have rv: "rv \<noteq> - 1"
    using assms alt by (auto simp: tls_check_name_def)
  show ?thesis
  proof (cases m)
    case True
    then show ?thesis
      using alt altname_loop_match [of "name_type_of api name" name False _ rv ex]
      by (auto simp: tls_check_subject_altname_def named_def split: option.splits name_type.splits)
  next
    case False
    then have ex: "\<not> ex" "tls_check_common_name api (ce_common_name cert) name = (0, True)"
      using assms alt rv by (auto simp: tls_check_name_def split: if_splits)
    have known: "case ce_altnames cert of None \<Rightarrow> True | Some gs \<Rightarrow> filter known_name gs = []"
    proof (cases "ce_altnames cert")
      case (Some gs)
      have "rv = 0"
        using alt rv altname_loop_return [of "name_type_of api name" name False gs] by (auto simp: tls_check_subject_altname_def Some)
      then show ?thesis
        using altname_loop_exists [of "name_type_of api name" name False gs ex] alt False ex(1)
        by (simp add: tls_check_subject_altname_def Some)
    qed simp
    have ty: "name_type_of api name = DnsType \<longleftrightarrow> pton4 api name = None \<and> pton6 api name = None"
      by (auto simp: name_type_of_def split: option.split)
    show ?thesis
      using ex(2) known ty by (auto simp: tls_check_common_name_def named_def length_c_str split: option.splits if_splits)
  qed
qed

section \<open>Properties\<close>

text \<open>C35: A name of a certificate matches the name of a host if they are equal up to case, or if it is \<open>*.d\<close> where the
  domain \<open>d\<close> has a dot inside and the host is one label, a dot and \<open>d\<close> up to case.  A wildcard stands for one label.\<close>

theorem match_name_one_label:
  "tls_match_name cert_name name \<longleftrightarrow> ci_key cert_name = ci_key name
    \<or> (\<exists>d label rest. cert_name = CHR ''*'' # CHR ''.'' # d \<and> wildcard_domain d
        \<and> name = label @ CHR ''.'' # rest \<and> label \<noteq> [] \<and> CHR ''.'' \<notin> set label \<and> rest \<noteq> [] \<and> ci_key d = ci_key rest)"
  by (rule match_name_iff)

text \<open>C3: When the verification of a peer succeeds, the chain was valid and the certificate names the host: it has an
  alternative name without a null byte that matches, or the address of the host, or, if it has no alternative name of
  these kinds, a common name without a null byte that matches.\<close>

theorem peer_is_named:
  assumes "\<not> is_err (verify_peer_name api cert host env)"
  shows "ssl_verify env = None \<and> (\<exists>c. cert = Some c \<and> named api c (c_str host))"
proof (cases cert)
  case None
  then show ?thesis
    using assms by (simp add: verify_peer_name_def verify_peer_ok)
next
  case (Some c)
  then have "ssl_verify env = None" "tls_check_name api c (c_str host) = (0, True)"
    using assms by (simp_all add: verify_peer_name_def verify_peer_ok)
  then show ?thesis
    using Some check_name_named by blast
qed

definition test_ssl :: ssl_env where
  "test_ssl = \<lparr>ssl_filter = True, ssl_event = BevConnected, ssl_verify = None, ssl_cert = False, ssl_check_name = (0, False)\<rparr>"

definition no_addresses :: pton_api where
  "no_addresses = \<lparr>pton4 = \<lambda>_. None, pton6 = \<lambda>_. None\<rparr>"

theorem peer_is_named_witness:
  "named no_addresses \<lparr>ce_altnames = Some [GenOther, GenDns True ''*.ooni.io''], ce_common_name = None\<rparr> ''a.ooni.io''"
proof -
  let ?c = "\<lparr>ce_altnames = Some [GenOther, GenDns True ''*.ooni.io''], ce_common_name = None\<rparr>"
  have c: "c_str ''a.ooni.io'' = ''a.ooni.io''" "c_str ''*.ooni.io'' = ''*.ooni.io''"
    by (simp_all add: c_str_def)
  have "wildcard_domain ''ooni.io''"
    unfolding wildcard_domain_def by (intro exI [of _ "''ooni''"] exI [of _ "''io''"]) (simp add: first_is_def)
  then have "tls_match_name ''*.ooni.io'' ''a.ooni.io''"
    unfolding match_name_iff by (intro disjI2 exI [of _ "''ooni.io''"] exI [of _ "''a''"]) simp
  then have "tls_check_name no_addresses ?c (c_str ''a.ooni.io'') = (0, True)"
    by (simp add: tls_check_name_def tls_check_subject_altname_def name_type_of_def no_addresses_def c known_name_def)
  then have "\<not> is_err (verify_peer_name no_addresses (Some ?c) ''a.ooni.io'' test_ssl)"
    by (simp add: verify_peer_name_def verify_peer_ok test_ssl_def)
  from peer_is_named [OF this] show ?thesis
    by (simp add: c)
qed

text \<open>The guard against a wildcard below a top-level domain does not see one that is written with a dot at its end.\<close>

theorem wildcard_of_top_level: "tls_match_name ''*.com.'' ''example.com.''"
proof -
  have "wildcard_domain ''com.''"
    unfolding wildcard_domain_def by (intro exI [of _ "''com''"] exI [of _ "[]"]) (simp add: first_is_def)
  then show ?thesis
    unfolding match_name_iff by (intro disjI2 exI [of _ "''com.''"] exI [of _ "''example''"]) simp
qed

end
