(* ===== verification/EntryState.thy ===== *)
theory EntryState
  imports Templates Bouncer
begin

text \<open>
  Computing with an entry (\<open>report/entry.hpp\<close>): the conversions of JSON values to C++ values, which throw
  when the kind is wrong, and operations that read and write the members of one entry.  Reading
  \<open>entry[k]\<close> of an absent key puts null there, as \<open>operator[]\<close> does.
\<close>

section \<open>Conversions\<close>

definition json_string :: "json \<Rightarrow> string res" where
  "json_string j = (case j of JString s \<Rightarrow> Inr s | _ \<Rightarrow> Inl DomainError)"

definition json_bool :: "json \<Rightarrow> bool res" where
  "json_bool j = (case j of JBool b \<Rightarrow> Inr b | _ \<Rightarrow> Inl DomainError)"

text \<open>The integer part of a \<open>double\<close>, from its bits.  A value that the target type does not hold, for which
  the language defines nothing, gives the least value, as the processors do that have an instruction for it.\<close>

definition double_trunc :: "double \<Rightarrow> int" where
  "double_trunc d =
    (let e = uint (take_bit 11 (drop_bit 52 d)); m = 2 ^ 52 + uint (take_bit 52 d);
         v = (if e = 0 then 0 else if e \<ge> 1075 then m * 2 ^ nat (e - 1075) else m div 2 ^ nat (1075 - e))
     in if bit d 63 then - v else v)"

definition json_int :: "json \<Rightarrow> int res" where
  "json_int j =
    (case j of
       JInt i \<Rightarrow> Inr (signed_take_bit 31 i)
     | JFloat d \<Rightarrow> Inr (if int_range (double_trunc d) then double_trunc d else INT_MIN)
     | JBool b \<Rightarrow> Inr (if b then 1 else 0)
     | _ \<Rightarrow> Inl DomainError)"

definition json_unsigned :: "json \<Rightarrow> uint32 res" where
  "json_unsigned j =
    (case j of
       JInt i \<Rightarrow> Inr (word_of_int i)
     | JFloat d \<Rightarrow> Inr (word_of_int (if - (2 ^ 63) \<le> double_trunc d \<and> double_trunc d < 2 ^ 63 then double_trunc d else - (2 ^ 63)))
     | JBool b \<Rightarrow> Inr (if b then 1 else 0)
     | _ \<Rightarrow> Inl DomainError)"

text \<open>Only the members of an object have keys.\<close>

definition json_keys :: "json \<Rightarrow> string list res" where
  "json_keys j =
    (case j of JObject ms \<Rightarrow> Inr (map fst ms)
     | _ \<Rightarrow> if json_items j = [] then Inr [] else Inl DomainError)"

text \<open>\<open>at\<close> and \<open>operator[]\<close> of a value that is not known to be an entry.\<close>

definition json_at_key :: "string \<Rightarrow> json \<Rightarrow> json res" where
  "json_at_key k j =
    (case j of JObject ms \<Rightarrow> (case map_of ms k of None \<Rightarrow> Inl OutOfRange | Some v \<Rightarrow> Inr v)
     | _ \<Rightarrow> Inl DomainError)"

definition json_get :: "string \<Rightarrow> json \<Rightarrow> json res" where
  "json_get k j =
    (case j of JNull \<Rightarrow> Inr JNull
     | JObject ms \<Rightarrow> Inr (case map_of ms k of None \<Rightarrow> JNull | Some v \<Rightarrow> v)
     | _ \<Rightarrow> Inl DomainError)"

section \<open>Sequencing\<close>

fun map_res :: "('a \<Rightarrow> 'b res) \<Rightarrow> 'a list \<Rightarrow> 'b list res" where
  "map_res f [] = Inr []"
| "map_res f (x # xs) = bind_res (f x) (\<lambda>y. bind_res (map_res f xs) (\<lambda>ys. Inr (y # ys)))"

text \<open>An operation on an entry gives a value and the new entry, or throws.\<close>

type_synonym 'a entry_op = "json \<Rightarrow> ('a \<times> json) res"

definition yields :: "'a \<Rightarrow> 'a entry_op" where
  "yields x = (\<lambda>j. Inr (x, j))"

definition bind_entry :: "'a entry_op \<Rightarrow> ('a \<Rightarrow> 'b entry_op) \<Rightarrow> 'b entry_op" where
  "bind_entry m f = (\<lambda>j. bind_res (m j) (\<lambda>(x, j). f x j))"

definition lift_res :: "'a res \<Rightarrow> ('a \<Rightarrow> 'b entry_op) \<Rightarrow> 'b entry_op" where
  "lift_res r f = (\<lambda>j. bind_res r (\<lambda>x. f x j))"

definition put :: "string list \<Rightarrow> json \<Rightarrow> unit entry_op" where
  "put ks v = (\<lambda>j. map_sum id (Pair ()) (entry_put ks v j))"

definition seq :: "unit entry_op \<Rightarrow> 'b entry_op \<Rightarrow> 'b entry_op" where
  "seq m n = bind_entry m (\<lambda>_. n)"

text \<open>\<open>entry[k1][k2]...\<close> as a value, and the entry that the access leaves.\<close>

fun get :: "string list \<Rightarrow> json entry_op" where
  "get [] j = Inr (j, j)"
| "get (k # ks) j =
    bind_res (entry_get k j) (\<lambda>sub. bind_res (get ks sub) (\<lambda>(v, sub).
      bind_res (entry_set k sub j) (\<lambda>j. Inr (v, j))))"

section \<open>Running an operation\<close>

lemma yields_run [simp]: "yields x j = Inr (x, j)"
  by (simp add: yields_def)

lemma lift_res_run [simp]: "lift_res (Inr x) f = f x" "lift_res (Inl e) f = (\<lambda>j. Inl e)"
  by (simp_all add: lift_res_def)

lemma bind_entry_run: "m j = Inr (x, j') \<Longrightarrow> bind_entry m f j = f x j'"
  by (simp add: bind_entry_def)

lemma seq_run: "m j = Inr ((), j') \<Longrightarrow> seq m n j = n j'"
  by (simp add: seq_def bind_entry_def)

lemma bind_entry_Inr: "bind_entry m f j = Inr (y, j2) \<longleftrightarrow> (\<exists>x j1. m j = Inr (x, j1) \<and> f x j1 = Inr (y, j2))"
  by (auto simp: bind_entry_def bind_res_Inr_iff)

lemma lift_res_Inr: "lift_res r f j = Inr (y, j2) \<longleftrightarrow> (\<exists>x. r = Inr x \<and> f x j = Inr (y, j2))"
  by (auto simp: lift_res_def bind_res_Inr_iff)

lemma seq_Inr: "seq m n j = Inr (y, j2) \<longleftrightarrow> (\<exists>j1. m j = Inr ((), j1) \<and> n j1 = Inr (y, j2))"
  by (auto simp: seq_def bind_entry_Inr)

declare get.simps [simp del]

lemma put_one [simp]: "put [k] v (JObject ms) = Inr ((), JObject (members_put k v ms))"
  by (simp add: put_def entry_get_cases)

lemma get_one:
  "get [k] (JObject ms) = Inr (case map_of ms k of None \<Rightarrow> JNull | Some v \<Rightarrow> v,
     JObject (members_put k (case map_of ms k of None \<Rightarrow> JNull | Some v \<Rightarrow> v) ms))"
  by (simp add: get.simps entry_get_cases)

lemma members_put_id: "map_of ms k = Some v \<Longrightarrow> members_put k v ms = ms"
  by (induction ms) (auto split: if_splits)

text \<open>Reading a member that is there changes nothing.\<close>

lemma get_member: "map_of ms k = Some v \<Longrightarrow> get [k] (JObject ms) = Inr (v, JObject ms)"
  using members_put_id [of ms k v] unfolding get_one by simp

section \<open>Members that an operation leaves alone\<close>

text \<open>The operation turns an object into an object in which the member \<open>k\<close> is the same.\<close>

definition keeps :: "string \<Rightarrow> 'a entry_op \<Rightarrow> bool" where
  "keeps k m \<longleftrightarrow>
    (\<forall>ms x j. m (JObject ms) = Inr (x, j) \<longrightarrow> (\<exists>ms'. j = JObject ms' \<and> map_of ms' k = map_of ms k))"

lemma keepsD:
  assumes "keeps k m" "m (JObject ms) = Inr (x, j)"
  obtains ms' where "j = JObject ms'" "map_of ms' k = map_of ms k"
  using assms unfolding keeps_def by blast

lemma keeps_on:
  assumes "\<And>k. k \<in> ks \<Longrightarrow> keeps k m" "ks \<noteq> {}" "m (JObject ms) = Inr (x, j)"
  shows "\<exists>ms'. j = JObject ms' \<and> (\<forall>k \<in> ks. map_of ms' k = map_of ms k)"
proof -
  obtain k0 where "k0 \<in> ks"
    using assms(2) by blast
  then obtain ms' where ms': "j = JObject ms'"
    using keepsD [OF assms(1) assms(3)] by metis
  have "map_of ms' k = map_of ms k" if "k \<in> ks" for k
    using keepsD [OF assms(1) [OF that] assms(3)] ms' by auto
  with ms' show ?thesis
    by blast
qed

named_theorems keeps_intros \<open>operations that leave a member alone\<close>

lemma keeps_yields [keeps_intros]: "keeps k (yields x)"
  by (simp add: keeps_def)

lemma keeps_bind [keeps_intros]: "keeps k m \<Longrightarrow> (\<And>x. keeps k (f x)) \<Longrightarrow> keeps k (bind_entry m f)"
  unfolding keeps_def bind_entry_Inr by metis

lemma keeps_seq [keeps_intros]: "keeps k m \<Longrightarrow> keeps k n \<Longrightarrow> keeps k (seq m n)"
  unfolding seq_def by (rule keeps_bind)

lemma keeps_lift [keeps_intros]: "(\<And>x. keeps k (f x)) \<Longrightarrow> keeps k (lift_res r f)"
  unfolding keeps_def lift_res_Inr by metis

lemma keeps_if [keeps_intros]: "(b \<Longrightarrow> keeps k m) \<Longrightarrow> (\<not> b \<Longrightarrow> keeps k n) \<Longrightarrow> keeps k (if b then m else n)"
  by simp

lemma entry_set_object_Inr: "entry_set k v (JObject ms) = Inr j \<longleftrightarrow> j = JObject (members_put k v ms)"
  by auto

lemma keeps_put [keeps_intros]: "k \<noteq> k' \<Longrightarrow> keeps k (put (k' # ks) v)"
  by (auto simp: keeps_def put_def split: sum.splits)

lemma keeps_get [keeps_intros]: "k \<noteq> k' \<Longrightarrow> keeps k (get (k' # ks))"
  by (auto simp: keeps_def get.simps bind_res_Inr_iff)

lemma keeps_fail [keeps_intros]: "keeps k (\<lambda>j. Inl e)"
  by (simp add: keeps_def)

text \<open>Reading one member.\<close>

lemma get_present:
  assumes "get [k] (JObject ms) = Inr (v, j)" "v \<noteq> JNull"
  shows "map_of ms k = Some v \<and> j = JObject ms"
  using assms by (cases "map_of ms k") (auto simp: get_one members_put_id)

lemma get_null:
  assumes "get [k] (JObject ms) = Inr (JNull, j)"
  shows "\<exists>ms'. j = JObject ms' \<and> (\<forall>k'. k' \<noteq> k \<longrightarrow> map_of ms' k' = map_of ms k')"
  using assms by (auto simp: get_one)

lemma bind_get_member: "map_of ms k = Some v \<Longrightarrow> bind_entry (get [k]) f (JObject ms) = f v (JObject ms)"
  by (rule bind_entry_run) (rule get_member)

end
