(* ===== verification/WebConnectivity.thy ===== *)
theory WebConnectivity
  imports EntryState Engine
begin

text \<open>
  The web connectivity test (\<open>ooni/web\_connectivity.cpp\<close>): it resolves the name of a site, connects to its
  addresses and fetches its page, has a control server do the same, and decides from the
  differences whether and how the site is blocked.  The results of the name resolution, of the connections
  and of the two requests are arguments; \<open>Dns\<close>, \<open>Connect\<close> and \<open>Http\<close> model how they come about.  Parsing and
  dumping of JSON are arguments too.
\<close>

section \<open>Single-precision quotients\<close>

text \<open>The quotient of two positive numbers to the nearest integer, ties to even, and the steps by which a number
  has to be halved to have at most 24 bits.\<close>

definition round_even :: "nat \<Rightarrow> nat \<Rightarrow> nat" where
  "round_even p q =
    (let d = p div q; r = p mod q in if 2 * r < q \<or> 2 * r = q \<and> even d then d else d + 1)"

fun excess_bits :: "nat \<Rightarrow> nat" where
  "excess_bits n = (if n < 2 ^ 24 then 0 else Suc (excess_bits (n div 2)))"

declare excess_bits.simps [simp del]

definition float_of_nat :: "nat \<Rightarrow> nat" where
  "float_of_nat n = round_even n (2 ^ excess_bits n) * 2 ^ excess_bits n"

text \<open>The steps by which \<open>a\<close> has to be doubled for \<open>a / b\<close> to have 24 bits.\<close>

function missing_bits :: "nat \<Rightarrow> nat \<Rightarrow> nat" where
  "missing_bits a b = (if a = 0 \<or> 2 ^ 23 * b \<le> a then 0 else Suc (missing_bits (2 * a) b))"
  by pat_completeness auto

termination missing_bits
  by (relation "measure (\<lambda>(a, b). 2 ^ 23 * b - a)") auto

declare missing_bits.simps [simp del]

text \<open>A \<open>float\<close>: its sign, its mantissa and the exponent of two.\<close>

type_synonym single = "bool \<times> nat \<times> int"

definition float_quotient :: "int \<Rightarrow> int \<Rightarrow> single" where
  "float_quotient x y =
    (let a = float_of_nat (nat \<bar>x\<bar>); b = float_of_nat (nat \<bar>y\<bar>);
         up = missing_bits a b; down = excess_bits (a div b)
     in ((x < 0) \<noteq> (y < 0), round_even (a * 2 ^ up) (b * 2 ^ down), int down - int up))"

text \<open>The bits of the \<open>double\<close> with the same value, for a mantissa of 24 bits or the power of two after them.\<close>

definition single_double :: "single \<Rightarrow> double" where
  "single_double f =
    (case f of (neg, m, x) \<Rightarrow>
       if m = 0 then 0
       else let (m, x) = (if m = 2 ^ 24 then (2 ^ 23, x + 1) else (m, x)) in
         word_of_int ((if neg then 2 ^ 63 else 0) + (x + 23 + 1023) * 2 ^ 52 + (int m - 2 ^ 23) * 2 ^ 29))"

text \<open>The constant is the \<open>double\<close> next to 0.7.\<close>

definition BODY_PROPORTION_FACTOR :: "int \<times> nat" where
  "BODY_PROPORTION_FACTOR = (6305039478318694, 53)"

definition single_greater :: "single \<Rightarrow> int \<times> nat \<Rightarrow> bool" where
  "single_greater f c =
    (case f of (neg, m, x) \<Rightarrow>
       (if neg then - int m else int m) * 2 ^ nat x * 2 ^ snd c > fst c * 2 ^ nat (- x))"

definition body_proportion :: "int \<Rightarrow> int \<Rightarrow> single" where
  "body_proportion ctrl_length exp_length =
    (if ctrl_length = exp_length then (False, 2 ^ 23, - 23)
     else if ctrl_length = 0 \<or> exp_length = 0 then (False, 0, 0)
     else float_quotient (min ctrl_length exp_length) (max ctrl_length exp_length))"

section \<open>Comparing the pages\<close>

definition COMMON_SERVER_HEADERS :: "string list" where
  "COMMON_SERVER_HEADERS =
    [''date'', ''content-type'', ''server'', ''cache-control'', ''vary'', ''set-cookie'', ''location'', ''expires'',
     ''x-powered-by'', ''content-encoding'', ''last-modified'', ''accept-ranges'', ''pragma'', ''x-frame-options'',
     ''etag'', ''x-content-type-options'', ''age'', ''via'', ''p3p'', ''x-xss-protection'', ''content-language'',
     ''cf-ray'', ''strict-transport-security'', ''link'', ''x-varnish'']"

definition COMMON_CLIENT_HEADERS :: headers where
  "COMMON_CLIENT_HEADERS =
    foldl (\<lambda>hs (k, v). headers_put k v hs) []
      [(''User-Agent'', ''Mozilla/5.0 (Windows NT 6.1) AppleWebKit/537.36 (KHTML, like Gecko) Chrome/47.0.2526.106 Safari/537.36''),
       (''Accept-Language'', ''en-US;q=0.8,en;q=0.5''),
       (''Accept'', ''text/html,application/xhtml+xml,application/xml;q=0.9,*/*;q=0.8'')]"

text \<open>\<open>mk::split\<close> at single blanks; nothing is left behind a blank at the end.\<close>

function split_blank :: "string \<Rightarrow> string list" where
  "split_blank s =
    (let token = takeWhile (\<lambda>c. c \<noteq> CHR '' '') s; rest = drop (length token + 1) s
     in if rest = [] then [token] else token # split_blank rest)"
  by pat_completeness auto

termination split_blank
  by (relation "measure length") auto

declare split_blank.simps [simp del]

text \<open>The quotient is 5 for the codes from 500 to 599, whichever way a negative one is rounded.\<close>

definition status_code_match :: "int \<Rightarrow> uint32 \<Rightarrow> uint32 \<Rightarrow> bool" where
  "status_code_match ctrl_int ctrl_unsigned status \<longleftrightarrow> ctrl_int div 100 = 5 \<or> ctrl_unsigned = status"

definition lower_key :: "string \<Rightarrow> string" where
  "lower_key = map (\<lambda>c. char_of (tolower c))"

definition headers_match :: "string list \<Rightarrow> string list \<Rightarrow> bool" where
  "headers_match ctrl_keys exp_keys =
    (let ctrl = map lower_key ctrl_keys; ex = map lower_key exp_keys in
     if set ctrl = set ex then True
     else filter (\<lambda>h. h \<notin> set COMMON_SERVER_HEADERS) (filter (\<lambda>h. h \<in> set ctrl) ex) \<noteq> [])"

text \<open>The loop over the words of the title: the first one of five letters decides.\<close>

fun title_loop :: "string list \<Rightarrow> string list \<Rightarrow> nat \<Rightarrow> bool \<Rightarrow> bool" where
  "title_loop [] ctrl_words idx m = m"
| "title_loop (w # ws) ctrl_words idx m =
    (if length w < 5 then title_loop ws ctrl_words (idx + 1) m
     else if idx \<ge> length ctrl_words then m
     else w = ctrl_words ! idx)"

definition title_match :: "string \<Rightarrow> string \<Rightarrow> bool" where
  "title_match exp_title ctrl_title =
    title_loop (split_blank exp_title) (split_blank ctrl_title) 0 (exp_title = ctrl_title)"

definition compare_http_requests :: "response option \<Rightarrow> json \<Rightarrow> unit entry_op" where
  "compare_http_requests response control =
    (case response of
       None \<Rightarrow> yields ()
     | Some rs \<Rightarrow>
        lift_res (bind_res (entry_get ''body_length'' control) json_int) (\<lambda>ctrl_length.
        let proportion = body_proportion ctrl_length (signed_take_bit 31 (int (length (rs_body rs)))) in
        seq (put [''body_length_match''] (JBool (single_greater proportion BODY_PROPORTION_FACTOR)))
        (seq (put [''body_proportion''] (JFloat (single_double proportion)))
        (lift_res (bind_res (entry_get ''status_code'' control) json_int) (\<lambda>ctrl_int.
        lift_res (bind_res (entry_get ''status_code'' control) json_unsigned) (\<lambda>ctrl_unsigned.
        seq (put [''status_code_match''] (JBool (status_code_match ctrl_int ctrl_unsigned (rs_status rs))))
        (lift_res (bind_res (entry_get ''headers'' control) json_keys) (\<lambda>ctrl_keys.
        seq (put [''headers_match''] (JBool (headers_match ctrl_keys (map fst (rs_headers rs)))))
        (lift_res (bind_res (entry_get ''title'' control) json_string) (\<lambda>ctrl_title.
         put [''title_match''] (JBool (title_match (extract_html_title (rs_body rs)) ctrl_title))))))))))))"

section \<open>Comparing the addresses\<close>

text \<open>The autonomous systems of addresses, except the unknown one; the database stays open from the first lookup on.\<close>

fun known_asns :: "geoip_lib \<Rightarrow> string list \<Rightarrow> geoip_database \<Rightarrow> string list \<times> geoip_database" where
  "known_asns lib [] db = ([], db)"
| "known_asns lib (a # as) db =
    (let (asn, db) = resolve_asn lib a db; (asns, db) = known_asns lib as db
     in (if has_value asn \<and> snd asn \<noteq> ''AS0'' then snd asn # asns else asns, db))"

definition dns_consistency :: "geoip_lib \<Rightarrow> string list \<Rightarrow> string list \<Rightarrow> geoip_database \<Rightarrow> string \<times> geoip_database" where
  "dns_consistency lib ex ctrl db =
    (if set ex = set ctrl then (''consistent'', db)
     else if list_ex is_private_ipv4_addr ex then (''inconsistent'', db)
     else if filter (\<lambda>a. a \<in> set ctrl) ex \<noteq> [] then (''consistent'', db)
     else let (exp_asns, db) = known_asns lib ex db; (ctrl_asns, db) = known_asns lib ctrl db in
       (if filter (\<lambda>a. a \<in> set ctrl_asns) exp_asns \<noteq> [] then ''consistent'' else ''inconsistent'', db))"

definition compare_dns_queries ::
    "geoip_lib \<Rightarrow> string list \<Rightarrow> json \<Rightarrow> geoip_database \<Rightarrow> geoip_database entry_op" where
  "compare_dns_queries lib exp_addrs control db =
    bind_entry (get [''dns_experiment_failure'']) (\<lambda>failure.
    if failure \<noteq> JNull
    then lift_res (json_string failure) (\<lambda>exp_failure.
         lift_res (bind_res (entry_get ''failure'' control) json_string) (\<lambda>ctrl_failure.
         seq (put [''dns_consistency'']
               (JString (if exp_failure = ctrl_failure then ''consistent'' else ''inconsistent'')))
         (yields db)))
    else lift_res (bind_res (entry_get ''addrs'' control) (\<lambda>addrs. map_res json_string (json_items addrs)))
      (\<lambda>ctrl_addresses.
         let (verdict, db) = dns_consistency lib exp_addrs ctrl_addresses db in
         seq (put [''dns_consistency''] (JString verdict)) (yields db)))"

section \<open>Comparing the connections\<close>

text \<open>The result of one connection.\<close>

definition tcp_result :: "string \<Rightarrow> int \<Rightarrow> error \<Rightarrow> json" where
  "tcp_result ip p err =
    JObject [(''ip'', JString ip), (''port'', JInt p),
      (''status'', JObject
        (if is_err err
         then [(''success'', JBool False), (''failure'', JString (reason err)), (''blocked'', JNull)]
         else [(''success'', JBool True), (''failure'', JNull), (''blocked'', JBool False)]))]"

text \<open>\<open>entry["tcp_connect"][idx]["status"]["blocked"] = b\<close>.\<close>

definition set_blocked :: "nat \<Rightarrow> bool \<Rightarrow> unit entry_op" where
  "set_blocked idx b =
    bind_entry (get [''tcp_connect'']) (\<lambda>arr.
      case arr of
        JArray xs \<Rightarrow>
          if idx < length xs
          then lift_res (entry_put [''status'', ''blocked''] (JBool b) (xs ! idx)) (\<lambda>x. put [''tcp_connect''] (JArray (xs[idx := x])))
          else lift_res (entry_put [''status'', ''blocked''] (JBool b) JNull) (\<lambda>x.
            put [''tcp_connect''] (JArray (xs @ replicate (idx - length xs) JNull @ [x])))
      | _ \<Rightarrow> lift_res (Inl (ErrorExn (new JsonDomainError))) yields)"

text \<open>The loop reads a result before it may write to it, and writes only behind where it reads, so that it may
  as well go over the results from before the loop.  A result that the control does not have is passed over.\<close>

fun compare_tcp_loop :: "(json \<Rightarrow> string) \<Rightarrow> json \<Rightarrow> json list \<Rightarrow> nat \<Rightarrow> bool \<Rightarrow> bool entry_op" where
  "compare_tcp_loop js_dump control [] idx success = yields success"
| "compare_tcp_loop js_dump control (r # rs) idx success =
    lift_res (bind_res (bind_res (json_get ''status'' r) (json_get ''success'')) json_bool) (\<lambda>exp_status.
    lift_res (bind_res (json_get ''ip'' r) json_string) (\<lambda>ip.
    lift_res (json_get ''port'' r) (\<lambda>p.
    case json_at_key (ip @ '':'' @ js_dump p) control of
      Inl OutOfRange \<Rightarrow> compare_tcp_loop js_dump control rs idx success
    | Inl e \<Rightarrow> lift_res (Inl e) yields
    | Inr c \<Rightarrow>
       lift_res (bind_res (json_get ''status'' c) json_bool) (\<lambda>ctrl_status.
       if ctrl_status \<and> \<not> exp_status
       then seq (set_blocked idx True) (compare_tcp_loop js_dump control rs (idx + 1) False)
       else seq (set_blocked idx False) (compare_tcp_loop js_dump control rs (idx + 1) success)))))"

definition compare_tcp_connect :: "(json \<Rightarrow> string) \<Rightarrow> json \<Rightarrow> bool entry_op" where
  "compare_tcp_connect js_dump control =
    bind_entry (get [''tcp_connect'']) (\<lambda>results. compare_tcp_loop js_dump control (json_items results) 0 True)"

section \<open>The verdict\<close>

text \<open>The first word of a failure.\<close>

definition first_word :: "json \<Rightarrow> string res" where
  "first_word j = bind_res (json_string j) (\<lambda>s. Inr (hd (split_space s)))"

text \<open>The conditions but the last, which reads the entry again.\<close>

definition blocking_reason :: "string \<Rightarrow> bool \<Rightarrow> string \<Rightarrow> string \<Rightarrow> bool \<Rightarrow> string option" where
  "blocking_reason dns tcp_success exp_failure ctrl_failure expected_page =
    (if dns = ''consistent'' \<and> \<not> tcp_success \<and> exp_failure \<noteq> [] then Some ''tcp_ip''
     else if dns = ''consistent'' \<and> tcp_success \<and> \<not> expected_page \<and> exp_failure = [] \<and> ctrl_failure = []
     then Some ''http-diff''
     else if dns = ''consistent'' \<and> tcp_success \<and> exp_failure \<noteq> [] \<and> ctrl_failure = []
     then if exp_failure = ''dns_lookup_error'' then Some ''dns'' else Some ''http-failure''
     else if dns = ''inconsistent'' \<and> \<not> expected_page then Some ''dns''
     else None)"

definition member_bool :: "string \<Rightarrow> bool entry_op" where
  "member_bool k = bind_entry (get [k]) (\<lambda>j. lift_res (json_bool j) yields)"

text \<open>\<open>(body || headers || title) && status\<close>.\<close>

definition expected_web_page :: "bool entry_op" where
  "expected_web_page =
    bind_entry (bind_entry (member_bool ''body_length_match'') (\<lambda>b.
      if b then yields True
      else bind_entry (member_bool ''headers_match'') (\<lambda>b.
        if b then yields True else member_bool ''title_match''))) (\<lambda>b.
      if b then member_bool ''status_code_match'' else yields False)"

text \<open>The failure of an HTTP request, or nothing.\<close>

definition http_failure :: "string list \<Rightarrow> string entry_op" where
  "http_failure ks =
    bind_entry (get ks) (\<lambda>j. if j = JNull then yields [] else lift_res (first_word j) yields)"

text \<open>The pages are compared when neither side failed to fetch one.\<close>

definition compare_pages :: "response option \<Rightarrow> unit entry_op" where
  "compare_pages response =
    bind_entry (get [''http_experiment_failure'']) (\<lambda>f.
      if f \<noteq> JNull then yields ()
      else bind_entry (get [''control'', ''http_request'', ''failure'']) (\<lambda>cf.
        if cf \<noteq> JNull then yields ()
        else bind_entry (get [''control'', ''http_request'']) (compare_http_requests response)))"

definition set_blocking :: "string \<Rightarrow> bool \<Rightarrow> string \<Rightarrow> string \<Rightarrow> bool \<Rightarrow> unit entry_op" where
  "set_blocking dns tcp_success exp_failure ctrl_failure expected_page =
    (case blocking_reason dns tcp_success exp_failure ctrl_failure expected_page of
       Some b \<Rightarrow> put [''blocking''] (JString b)
     | None \<Rightarrow>
        if dns = ''consistent'' \<and> \<not> expected_page \<and> exp_failure = [] \<and> ctrl_failure = []
        then bind_entry (get [''control'', ''dns'', ''failure'']) (\<lambda>j.
          if j \<noteq> JNull \<or> ctrl_failure \<noteq> exp_failure then put [''blocking''] (JString ''dns'') else yields ())
        else yields ())"

definition set_accessible :: "unit entry_op" where
  "set_accessible =
    bind_entry (get [''blocking'']) (\<lambda>b.
      if b \<noteq> JNull then put [''accessible''] (JBool False)
      else seq (put [''accessible''] (JBool True)) (put [''blocking''] (JBool False)))"

definition member_string :: "string \<Rightarrow> string entry_op" where
  "member_string k = bind_entry (get [k]) (\<lambda>j. lift_res (json_string j) yields)"

definition conclude :: "bool \<Rightarrow> unit entry_op" where
  "conclude tcp_success =
    bind_entry (member_string ''dns_consistency'') (\<lambda>dns.
    bind_entry (http_failure [''http_experiment_failure'']) (\<lambda>exp_failure.
    bind_entry (http_failure [''control'', ''http_request'', ''failure'']) (\<lambda>ctrl_failure.
    bind_entry (if exp_failure = [] \<and> ctrl_failure = [] then expected_web_page else yields False) (\<lambda>expected_page.
    seq (set_blocking dns tcp_success exp_failure ctrl_failure expected_page) set_accessible))))"

definition compare_control_experiment ::
    "(json \<Rightarrow> string) \<Rightarrow> geoip_lib \<Rightarrow> response option \<Rightarrow> string list \<Rightarrow> geoip_database \<Rightarrow> geoip_database entry_op" where
  "compare_control_experiment js_dump lib response exp_addrs db =
    bind_entry (get [''control_failure'']) (\<lambda>control_failure.
    if control_failure \<noteq> JNull then yields db
    else seq (compare_pages response)
      (bind_entry (get [''control'', ''dns'']) (\<lambda>control.
       bind_entry (compare_dns_queries lib exp_addrs control db) (\<lambda>db.
       bind_entry (get [''control'', ''tcp_connect'']) (\<lambda>control.
       bind_entry (compare_tcp_connect js_dump control) (\<lambda>tcp_success.
       seq (conclude tcp_success) (yields db)))))))"

section \<open>The control request\<close>

definition push :: "string \<Rightarrow> json \<Rightarrow> unit entry_op" where
  "push k v = (\<lambda>j. map_sum id (Pair ()) (entry_push k v j))"

text \<open>The sockets whose address is private are left out.\<close>

definition control_body :: "headers \<Rightarrow> (string \<times> int) list \<Rightarrow> string \<Rightarrow> json" where
  "control_body headers_to_pass_along sockets url =
    JObject
      [(''tcp_connect'', JArray (map (\<lambda>(a, p). JString (a @ '':'' @ int_dec p))
          (filter (\<lambda>(a, p). \<not> is_private_ipv4_addr a) sockets))),
       (''http_request'', JString url),
       (''http_request_headers'',
         if headers_to_pass_along = [] then JNull
         else JObject (map (\<lambda>(k, v). (k, JArray [JString v])) headers_to_pass_along))]"

definition control_settings :: "settings \<Rightarrow> settings" where
  "control_settings settings =
    settings(''http/url'' \<mapsto> settings_at settings ''backend'', ''http/method'' \<mapsto> ''POST'')"

definition control_reply :: "(string \<Rightarrow> json option) \<Rightarrow> error \<Rightarrow> string \<Rightarrow> error entry_op" where
  "control_reply parse err reply =
    (if \<not> is_err err
     then (case parse reply of
             Some j \<Rightarrow> seq (put [''control''] j) (yields (new NoError))
           | None \<Rightarrow> seq (put [''control_failure''] (JString ''json_parse_error'')) (yields (new JsonParseError)))
     else seq (put [''control_failure''] (JString (reason err))) (yields err))"

section \<open>The connections\<close>

text \<open>What follows from the end of one connection: the transport is closed, with or without calling back
  afterwards, or there is only the call.\<close>

datatype tcp_action = CloseTxp | CloseTxpThenCall | CallNow

definition handle_connect ::
    "nat \<Rightarrow> string \<times> int \<Rightarrow> error \<Rightarrow> nat \<times> tcp_action list \<Rightarrow> (nat \<times> tcp_action list) entry_op" where
  "handle_connect socket_count socket err st =
    (let tested = fst st + 1; close_txp = \<not> is_err err in
     seq (push ''tcp_connect'' (tcp_result (fst socket) (snd socket) err))
       (yields (tested,
          snd st @ (if socket_count = tested then [if close_txp then CloseTxpThenCall else CallNow]
                    else if close_txp then [CloseTxp] else []))))"

definition connect_options :: "string \<Rightarrow> int \<Rightarrow> settings" where
  "connect_options a p = [''host'' \<mapsto> a, ''port'' \<mapsto> scalar_of_int p, ''net/timeout'' \<mapsto> ''10'']"

text \<open>The connections end in some order, each with its socket and its error.\<close>

fun connections_end ::
    "nat \<Rightarrow> ((string \<times> int) \<times> error) list \<Rightarrow> nat \<times> tcp_action list \<Rightarrow> (nat \<times> tcp_action list) entry_op" where
  "connections_end n [] st = yields st"
| "connections_end n ((socket, err) # ends) st =
    bind_entry (handle_connect n socket err st) (connections_end n ends)"

definition experiment_tcp_connect ::
    "(string \<times> int) list \<Rightarrow> ((string \<times> int) \<times> error) list \<Rightarrow> tcp_action list entry_op" where
  "experiment_tcp_connect sockets ends =
    (if sockets = [] then yields [CallNow]
     else bind_entry (connections_end (length sockets) ends (0, [])) (\<lambda>st. yields (snd st)))"

section \<open>The test\<close>

text \<open>What the network answers: to the query for the name, the connections to the sockets in the order in which
  they end, the request for the page with the responses before its last one, and the request to the control.\<close>

record network =
  nw_dns :: "settings \<Rightarrow> string \<Rightarrow> error \<times> message"
  nw_ends :: "(string \<times> int) list \<Rightarrow> ((string \<times> int) \<times> error) list"
  nw_http :: "settings \<Rightarrow> headers \<Rightarrow> error \<times> response list"
  nw_control :: "settings \<Rightarrow> headers \<Rightarrow> string \<Rightarrow> error \<times> string"

record libs =
  lb_pton :: pton_api
  lb_geoip :: geoip_lib
  lb_parse :: "string \<Rightarrow> json option"
  lb_dump :: "json \<Rightarrow> string"
  lb_uninit :: bytes

text \<open>Operations that may not return.\<close>

type_synonym 'a entry_run = "json \<Rightarrow> ('a \<times> json) run"

definition bind_erun :: "'a entry_run \<Rightarrow> ('a \<Rightarrow> 'b entry_run) \<Rightarrow> 'b entry_run" where
  "bind_erun m f = (\<lambda>j. bind_run (m j) (\<lambda>(x, j). f x j))"

definition op_run :: "'a entry_op \<Rightarrow> 'a entry_run" where
  "op_run m = (\<lambda>j. Some (m j))"

definition experiment_dns_query ::
    "libs \<Rightarrow> network \<Rightarrow> string \<Rightarrow> string \<Rightarrow> settings \<Rightarrow> (error \<times> string list) entry_run" where
  "experiment_dns_query lb nw name nameserver options =
    (if is_ip_addr (lb_pton lb) name then op_run (yields (new NoError, [name]))
     else case dns_query_setup (lb_pton lb) nameserver options of
            Inl e \<Rightarrow> op_run (yields (e, []))
          | Inr (options', ms) \<Rightarrow>
             let (err, msg) = nw_dns nw options' name in
             (\<lambda>j. bind_run
               (dns_query_entry (settings_get_str options ''dns/engine'' ''system'') MK_DNS_TYPE_A name err msg ms)
               (\<lambda>q. op_run (seq (push ''queries'' q)
                 (yields (if is_err err then (err, [])
                        else (new NoError, filter (\<lambda>a. a \<noteq> []) (map an_ipv4 (answers msg)))))) j)))"

definition experiment_http_request ::
    "libs \<Rightarrow> network \<Rightarrow> string \<Rightarrow> settings \<Rightarrow> (error \<times> response option) entry_run" where
  "experiment_http_request lb nw url options =
    (let options = options(''http/url'' \<mapsto> url, ''net/allow_ssl23'' \<mapsto> ''1'', ''net/ssl_allow_dirty_shutdown'' \<mapsto> ''1'') in
     (\<lambda>j. let (settings, r) = http_request_setup options j in
       bind_run (Some r) (\<lambda>j.
       let (err, responses) = nw_http nw settings COMMON_CLIENT_HEADERS in
       bind_run (http_request_done (lb_pton lb) (lb_uninit lb) settings err responses j) (\<lambda>j.
       op_run (seq (if is_err err then put [''http_experiment_failure''] (JString (reason err)) else yields ())
         (yields (err, case responses of [] \<Rightarrow> None | rs # _ \<Rightarrow> Some rs))) j))))"

definition wc_entry :: json where
  "wc_entry = JObject
    [(''retries'', JNull), (''dns_consistency'', JNull), (''body_length_match'', JNull), (''body_proportion'', JFloat 0),
     (''headers_match'', JNull), (''status_code_match'', JNull), (''title_match'', JNull), (''accessible'', JNull),
     (''blocking'', JNull), (''control_failure'', JNull), (''http_experiment_failure'', JNull),
     (''dns_experiment_failure'', JNull), (''tcp_connect'', JArray []), (''control'', JObject [])]"

definition wc_input :: "string \<Rightarrow> string" where
  "wc_input input =
    (if \<not> startswith input ''http://'' \<and> \<not> startswith input ''https://'' then ''http://'' @ input else input)"

text \<open>The test of a valid URL, up to its callback; the callback of the connections is called once
  (\<open>connections\_call\_back\_once\<close> below).\<close>

definition measure_url ::
    "libs \<Rightarrow> network \<Rightarrow> string \<Rightarrow> url \<Rightarrow> settings \<Rightarrow> geoip_database \<Rightarrow> geoip_database entry_run" where
  "measure_url lb nw input url options db =
    bind_erun (experiment_dns_query lb nw (address url) (settings_at options ''nameserver'') options) (\<lambda>(_, addrs).
    let sockets = map (\<lambda>a. (a, url_port url)) addrs in
    bind_erun (op_run (experiment_tcp_connect sockets (nw_ends nw sockets))) (\<lambda>_.
    bind_erun (experiment_http_request lb nw input options) (\<lambda>(_, response).
    let (err, reply) = nw_control nw (control_settings options) (headers_put ''Content-Type'' ''application/json'' [])
          (lb_dump lb (control_body COMMON_CLIENT_HEADERS sockets input)) in
    bind_erun (op_run (control_reply (lb_parse lb) err reply)) (\<lambda>_.
    op_run (compare_control_experiment (lb_dump lb) (lb_geoip lb) response addrs db)))))"

definition web_connectivity ::
    "libs \<Rightarrow> network \<Rightarrow> string \<Rightarrow> settings \<Rightarrow> geoip_database \<Rightarrow> json run" where
  "web_connectivity lb nw input options db =
    (let options = options(''http/max_redirects'' \<mapsto> scalar_of_int 20); input = wc_input input;
         url = parse_url_noexcept input
     in if \<not> has_value url
        then bind_run (op_run (put [''failure''] (JString (reason (as_error url)))) wc_entry) (\<lambda>(_, j). ok j)
        else bind_run (measure_url lb nw input (snd url) options db wc_entry) (\<lambda>(_, j). ok j))"

text \<open>The events: one at the start with the input as it was given, and one with the verdict if there is one.\<close>

definition website_event :: "string \<Rightarrow> string \<Rightarrow> logger_call" where
  "website_event url status = LogEvent ''status.update.websites'' [(''url'', JString url), (''status'', JString status)]"

definition web_events :: "string \<Rightarrow> json run \<Rightarrow> logger_call list" where
  "web_events input r =
    website_event input ''measuring''
    # (case r of
         Some (Inr j) \<Rightarrow>
           (case json_at ''accessible'' j of
              Some (JBool b) \<Rightarrow> [website_event (wc_input input) (if b then ''accessible'' else ''blocking'')]
            | _ \<Rightarrow> [])
       | _ \<Rightarrow> [])"

section \<open>The quotient of the lengths\<close>

lemma excess_bits_small [simp]: "n < 2 ^ 24 \<Longrightarrow> excess_bits n = 0"
  by (simp add: excess_bits.simps)

lemma float_of_nat_small [simp]: "n < 2 ^ 24 \<Longrightarrow> float_of_nat n = n"
  by (simp add: float_of_nat_def round_even_def)

lemma missing_bits_spec:
  assumes "0 < a" "a < 2 ^ 24 * b"
  shows "2 ^ 23 * b \<le> a * 2 ^ missing_bits a b \<and> a * 2 ^ missing_bits a b < 2 ^ 24 * b"
  using assms
proof (induction a b rule: missing_bits.induct)
  case (1 a b)
  show ?case
  proof (cases "2 ^ 23 * b \<le> a")
    case True
    then have "missing_bits a b = 0"
      by (simp add: missing_bits.simps)
    then show ?thesis
      using True 1(2,3) by simp
  next
    case False
    then have "missing_bits a b = Suc (missing_bits (2 * a) b)"
      using 1(2) by (simp add: missing_bits.simps [of a])
    then show ?thesis
      using 1(1) False 1(2) by (simp add: mult.left_commute)
  qed
qed

text \<open>Which quotients round to more than the constant: 11744052 is the least mantissa above it.\<close>

lemma round_even_ge:
  assumes "0 < q" "even m"
  shows "m \<le> round_even p q \<longleftrightarrow> (2 * m) * q \<le> 2 * p + q"
proof -
  have p: "p = p div q * q + p mod q" "p mod q < q"
    using assms(1) by simp_all
  have le: "2 * m * q \<le> 2 * p + q \<longleftrightarrow> 2 * (m * q) \<le> 2 * (p div q * q) + 2 * (p mod q) + q"
  proof -
    have "2 * p = 2 * (p div q * q) + 2 * (p mod q)"
      using p(1) by linarith
    then show ?thesis
      unfolding mult.assoc by simp
  qed
  consider "m \<le> p div q" | "m = p div q + 1" | "p div q + 2 \<le> m"
    by linarith
  then show ?thesis
  proof cases
    case 1
    then have "m * q \<le> p div q * q"
      by simp
    then have "2 * m * q \<le> 2 * p + q"
      unfolding le by linarith
    then show ?thesis
      using 1 by (simp add: round_even_def Let_def)
  next
    case 2
    have "m * q = p div q * q + q" "\<not> even (p div q)"
      using assms(2) by (simp_all add: 2)
    then show ?thesis
      unfolding le using p(2) 2 by (auto simp: round_even_def Let_def)
  next
    case 3
    then have "(p div q + 2) * q \<le> m * q"
      by (intro mult_right_mono) simp_all
    then have "p div q * q + 2 * q \<le> m * q"
      by (simp add: distrib_right)
    then have "\<not> 2 * m * q \<le> 2 * p + q"
      unfolding le using p(2) by linarith
    then show ?thesis
      using 3 by (simp add: round_even_def Let_def)
  qed
qed

lemma mantissa_greater: "int m * 9007199254740992 > 6305039478318694 * 2 ^ 24 \<longleftrightarrow> 11744052 \<le> m"
proof (cases "11744052 \<le> m")
  case True
  then have "11744052 * 9007199254740992 \<le> int m * 9007199254740992"
    by simp
  with True show ?thesis
    by simp
next
  case False
  then have "int m * 9007199254740992 \<le> 11744051 * 9007199254740992"
    by simp
  with False show ?thesis
    by simp
qed

lemma ratio_greater:
  assumes "0 < b" "b \<le> 5592405"
  shows "2 * 11744052 * b \<le> 2 * (a * 2 ^ 24) + b \<longleftrightarrow> 10 * a > (7 * b :: nat)"
proof (cases "10 * a > 7 * b")
  case True
  then have "3355443 * (7 * b + 1) \<le> 3355443 * (10 * a)" "10 * a \<ge> 7 * b + 1"
    by simp_all
  with assms True show ?thesis
    by simp
next
  case False
  with assms show ?thesis
    by simp
qed

lemma quotient_greater:
  assumes "0 < a" "a < b" "b \<le> 5592405"
  shows "single_greater (float_quotient (int a) (int b)) BODY_PROPORTION_FACTOR \<longleftrightarrow> 10 * a > 7 * b"
proof -
  let ?e = "missing_bits a b"
  let ?m = "round_even (a * 2 ^ ?e) b"
  have small: "a < 2 ^ 24" "b < 2 ^ 24"
    using assms by simp_all
  have e: "2 ^ 23 * b \<le> a * 2 ^ ?e" "a * 2 ^ ?e < 2 ^ 24 * b"
    using missing_bits_spec [of a b] assms by auto
  have f: "float_quotient (int a) (int b) = (False, ?m, - int ?e)"
    using small assms by (simp add: float_quotient_def Let_def)
  have gt: "single_greater (float_quotient (int a) (int b)) BODY_PROPORTION_FACTOR
      \<longleftrightarrow> int ?m * 9007199254740992 > 6305039478318694 * 2 ^ ?e"
    by (simp add: f single_greater_def BODY_PROPORTION_FACTOR_def)
  have "23 < ?e"
  proof (rule ccontr)
    assume "\<not> 23 < ?e"
    then have "a * 2 ^ ?e \<le> a * 2 ^ 23"
      by (intro mult_left_mono power_increasing) simp_all
    moreover have "a * 2 ^ 23 < 2 ^ 23 * b"
      using assms(2) by simp
    ultimately show False
      using e(1) by linarith
  qed
  then consider "?e = 24" | "25 \<le> ?e"
    by linarith
  then show ?thesis
  proof cases
    case 1
    have "int ?m * 9007199254740992 > 6305039478318694 * 2 ^ 24 \<longleftrightarrow> 11744052 \<le> ?m"
      by (rule mantissa_greater)
    also have "\<dots> \<longleftrightarrow> 2 * 11744052 * b \<le> 2 * (a * 2 ^ 24) + b"
      using round_even_ge [of b 11744052 "a * 2 ^ 24"] assms 1 by simp
    also have "\<dots> \<longleftrightarrow> 10 * a > 7 * b"
      using assms by (intro ratio_greater) simp_all
    finally show ?thesis
      unfolding gt 1 .
  next
    case 2
    have "\<not> 2 ^ 24 + 2 \<le> ?m"
      using round_even_ge [of b "2 ^ 24 + 2" "a * 2 ^ ?e"] e(2) assms by simp
    then have m: "?m \<le> 2 ^ 24 + 1"
      by simp
    have up: "(2 :: int) ^ 25 \<le> 2 ^ ?e"
      using 2 by (intro power_increasing) simp_all
    have "int ?m * 9007199254740992 \<le> (2 ^ 24 + 1) * 9007199254740992"
      using m by simp
    also have "\<dots> \<le> 6305039478318694 * 2 ^ 25"
      by simp
    also have "\<dots> \<le> 6305039478318694 * 2 ^ ?e"
      using up by simp
    finally have "\<not> int ?m * 9007199254740992 > 6305039478318694 * 2 ^ ?e"
      by simp
    moreover have "a * 2 ^ 25 \<le> a * 2 ^ ?e"
      using 2 by (intro mult_left_mono power_increasing) simp_all
    then have "a * 2 ^ 25 < 2 ^ 24 * b"
      using e(2) by linarith
    ultimately show ?thesis
      unfolding gt using assms by simp
  qed
qed

section \<open>What the comparison leaves alone\<close>

lemma keeps_member_bool [keeps_intros]: "k \<noteq> k' \<Longrightarrow> keeps k (member_bool k')"
  unfolding member_bool_def by (intro keeps_intros)

lemma keeps_member_string [keeps_intros]: "k \<noteq> k' \<Longrightarrow> keeps k (member_string k')"
  unfolding member_string_def by (intro keeps_intros)

lemma keeps_http_failure [keeps_intros]: "k \<noteq> k' \<Longrightarrow> keeps k (http_failure (k' # ks))"
  unfolding http_failure_def by (intro keeps_intros)

lemma keeps_compare_http_requests [keeps_intros]:
  assumes "k \<notin> {''body_length_match'', ''body_proportion'', ''status_code_match'', ''headers_match'', ''title_match''}"
  shows "keeps k (compare_http_requests response control)"
  using assms unfolding compare_http_requests_def Let_def by (cases response) (simp_all add: keeps_intros)

lemma keeps_compare_pages:
  assumes "k \<notin> {''body_length_match'', ''body_proportion'', ''status_code_match'', ''headers_match'', ''title_match'',
    ''http_experiment_failure'', ''control''}"
  shows "keeps k (compare_pages response)"
  using assms unfolding compare_pages_def by (simp add: keeps_intros)

lemma keeps_compare_dns:
  assumes "k \<notin> {''dns_experiment_failure'', ''dns_consistency''}"
  shows "keeps k (compare_dns_queries lib exp_addrs control db)"
  using assms unfolding compare_dns_queries_def by (simp add: keeps_intros Let_def split: prod.split)

lemma keeps_set_blocked [keeps_intros]: "k \<noteq> ''tcp_connect'' \<Longrightarrow> keeps k (set_blocked idx b)"
  unfolding set_blocked_def by (simp add: keeps_intros split: json.split)

lemma keeps_compare_tcp_loop [keeps_intros]:
  "k \<noteq> ''tcp_connect'' \<Longrightarrow> keeps k (compare_tcp_loop js_dump control rs idx success)"
proof (induction rs arbitrary: idx success)
  case (Cons r rs)
  then show ?case
    by (auto intro!: keeps_intros split: sum.split exn.split)
qed (simp add: keeps_intros)

lemma keeps_compare_tcp: "k \<noteq> ''tcp_connect'' \<Longrightarrow> keeps k (compare_tcp_connect js_dump control)"
  unfolding compare_tcp_connect_def by (intro keeps_intros)

lemma keeps_expected_web_page:
  "k \<notin> {''body_length_match'', ''headers_match'', ''title_match'', ''status_code_match''} \<Longrightarrow> keeps k expected_web_page"
  unfolding expected_web_page_def by (simp add: keeps_intros)

lemma keeps_set_blocking: "k \<notin> {''blocking'', ''control''} \<Longrightarrow> keeps k (set_blocking dns s ef cf page)"
  unfolding set_blocking_def by (simp add: keeps_intros split: option.split)

lemma keeps_set_accessible: "k \<notin> {''blocking'', ''accessible''} \<Longrightarrow> keeps k set_accessible"
  unfolding set_accessible_def by (simp add: keeps_intros)

section \<open>The verdict\<close>

definition reasons :: "string set" where
  "reasons = {''tcp_ip'', ''dns'', ''http-diff'', ''http-failure''}"

text \<open>Either accessible and not blocked, or not accessible and blocked for a reason.\<close>

definition decided :: "(string \<times> json) list \<Rightarrow> bool" where
  "decided ms \<longleftrightarrow>
    map_of ms ''accessible'' = Some (JBool True) \<and> map_of ms ''blocking'' = Some (JBool False)
    \<or> map_of ms ''accessible'' = Some (JBool False) \<and> (\<exists>b \<in> reasons. map_of ms ''blocking'' = Some (JString b))"

lemma set_accessible_decides:
  assumes "set_accessible (JObject ms) = Inr (u, j)"
    and "map_of ms ''blocking'' = Some JNull \<or> (\<exists>b \<in> reasons. map_of ms ''blocking'' = Some (JString b))"
  shows "\<exists>ms'. j = JObject ms' \<and> decided ms'
    \<and> (map_of ms' ''blocking'' = Some (JString b) \<longrightarrow> map_of ms ''blocking'' = Some (JString b))"
  using assms by (auto simp: set_accessible_def bind_entry_Inr seq_Inr get_member decided_def)

definition set_for :: "string \<Rightarrow> bool \<Rightarrow> string \<Rightarrow> (string \<times> json) list \<Rightarrow> bool" where
  "set_for dns s ef ms \<longleftrightarrow>
    (map_of ms ''blocking'' = Some JNull \<or> (\<exists>b \<in> reasons. map_of ms ''blocking'' = Some (JString b)))
    \<and> (map_of ms ''blocking'' = Some (JString ''tcp_ip'') \<longrightarrow> dns = ''consistent'' \<and> \<not> s \<and> ef \<noteq> [])"

lemma set_blocking_reason:
  assumes "set_blocking dns s ef cf page (JObject ms) = Inr (u, j)" "map_of ms ''blocking'' = Some JNull"
  shows "\<exists>ms'. j = JObject ms' \<and> set_for dns s ef ms'"
proof (cases "blocking_reason dns s ef cf page")
  case None
  show ?thesis
  proof (cases "dns = ''consistent'' \<and> \<not> page \<and> ef = [] \<and> cf = []")
    case True
    then obtain v j1 where j1: "get [''control'', ''dns'', ''failure''] (JObject ms) = Inr (v, j1)"
      "(if v \<noteq> JNull then put [''blocking''] (JString ''dns'') else yields ()) j1 = Inr (u, j)"
      using assms(1) None by (auto simp: set_blocking_def bind_entry_Inr)
    have "keeps ''blocking'' (get [''control'', ''dns'', ''failure''])"
      by (intro keeps_intros) simp
    from keepsD [OF this j1(1)] obtain ms1 where "j1 = JObject ms1" "map_of ms1 ''blocking'' = map_of ms ''blocking''" .
    then show ?thesis
      using j1(2) assms(2) by (cases "v = JNull") (auto simp: set_for_def reasons_def)
  next
    case False
    then show ?thesis
      using assms None by (auto simp: set_blocking_def set_for_def)
  qed
next
  case (Some b)
  then have "b \<in> reasons" "b = ''tcp_ip'' \<Longrightarrow> dns = ''consistent'' \<and> \<not> s \<and> ef \<noteq> []"
    by (auto simp: blocking_reason_def reasons_def split: if_splits)
  then show ?thesis
    using assms(1) Some by (auto simp: set_blocking_def set_for_def)
qed

text \<open>The socket of a result whose connection failed.\<close>

definition failed_socket :: "(json \<Rightarrow> string) \<Rightarrow> json \<Rightarrow> string option" where
  "failed_socket js_dump r =
    (case (bind_res (bind_res (json_get ''status'' r) (json_get ''success'')) json_bool,
           bind_res (json_get ''ip'' r) json_string, json_get ''port'' r) of
       (Inr False, Inr ip, Inr p) \<Rightarrow> Some (ip @ '':'' @ js_dump p)
     | _ \<Rightarrow> None)"

lemma blocked_put_failed:
  assumes "entry_put [''status'', ''blocked''] v x = Inr x'"
  shows "failed_socket js_dump x' = failed_socket js_dump x"
proof -
  obtain sub sub' where sub: "entry_get ''status'' x = Inr sub" "entry_set ''blocked'' v sub = Inr sub'" "entry_set ''status'' sub' x = Inr x'"
    using assms by (auto split: sum.splits)
  from sub(3) have x: "x = JNull \<or> (\<exists>ms. x = JObject ms)"
    by (cases x) (simp_all add: entry_set_def entry_members_def)
  from sub(2) have "sub = JNull \<or> (\<exists>st. sub = JObject st)"
    by (cases sub) (simp_all add: entry_set_def entry_members_def)
  with x sub have
    "bind_res (bind_res (json_get ''status'' x') (json_get ''success'')) json_bool = bind_res (bind_res (json_get ''status'' x) (json_get ''success'')) json_bool"
    "json_get ''ip'' x' = json_get ''ip'' x" "json_get ''port'' x' = json_get ''port'' x"
    by (auto simp: entry_set_def entry_members_def entry_get_def json_get_def json_bool_def split: option.splits)
  then show ?thesis
    by (simp add: failed_socket_def)
qed

text \<open>The control, as it is in the entry, could make the connection.\<close>

definition control_connections :: "(string \<times> json) list \<Rightarrow> json option" where
  "control_connections ms = (case map_of ms ''control'' of Some (JObject cms) \<Rightarrow> map_of cms ''tcp_connect'' | _ \<Rightarrow> None)"

definition control_reached :: "json \<Rightarrow> string \<Rightarrow> bool" where
  "control_reached control sock \<longleftrightarrow>
    (\<exists>cms c. control = JObject cms \<and> map_of cms sock = Some (JObject c) \<and> map_of c ''status'' = Some (JBool True))"

definition only_test_failed :: "(json \<Rightarrow> string) \<Rightarrow> json \<Rightarrow> json list \<Rightarrow> bool" where
  "only_test_failed js_dump control xs \<longleftrightarrow>
    (\<exists>x \<in> set xs. \<exists>sock. failed_socket js_dump x = Some sock \<and> control_reached control sock)"

lemma only_test_failed_iff:
  "only_test_failed js_dump control xs \<longleftrightarrow>
    (\<exists>sock. Some sock \<in> set (map (failed_socket js_dump) xs) \<and> control_reached control sock)"
  unfolding only_test_failed_def by (simp add: image_iff) metis

lemma set_blocked_keeps_failures:
  assumes "set_blocked idx b (JObject ms) = Inr (u, j)" "map_of ms ''tcp_connect'' = Some (JArray xs)" "idx < length xs"
  shows "\<exists>ms' ys. j = JObject ms' \<and> map_of ms' ''tcp_connect'' = Some (JArray ys)
    \<and> map (failed_socket js_dump) ys = map (failed_socket js_dump) xs"
proof -
  obtain x where x: "entry_put [''status'', ''blocked''] (JBool b) (xs ! idx) = Inr x"
    and j: "j = JObject (members_put ''tcp_connect'' (JArray (xs[idx := x])) ms)"
    using assms unfolding set_blocked_def bind_get_member [OF assms(2)]
    by (auto simp: lift_res_Inr simp del: entry_put.simps)
  have "map (failed_socket js_dump) (xs[idx := x]) = map (failed_socket js_dump) xs"
    by (simp add: map_update blocked_put_failed [OF x] list_update_same_conv assms(3))
  with j show ?thesis
    by simp
qed

lemma json_bool_Inr: "json_bool j = Inr b \<longleftrightarrow> j = JBool b"
  by (cases j) (auto simp: json_bool_def)

lemma status_true:
  assumes "bind_res (json_get ''status'' c) json_bool = Inr True"
  shows "\<exists>ms. c = JObject ms \<and> map_of ms ''status'' = Some (JBool True)"
  using assms by (cases c) (auto simp: json_get_def bind_res_Inr_iff json_bool_Inr split: option.splits)

lemma compare_tcp_loop_evidence:
  assumes "compare_tcp_loop js_dump control rs idx success (JObject ms) = Inr (s, j)"
    and "map_of ms ''tcp_connect'' = Some (JArray xs)" "idx + length rs \<le> length xs"
    and "set (map (failed_socket js_dump) rs) \<subseteq> set (map (failed_socket js_dump) xs)"
    and "success \<or> only_test_failed js_dump control xs"
  shows "\<exists>ms' ys. j = JObject ms' \<and> map_of ms' ''tcp_connect'' = Some (JArray ys) \<and> (s \<or> only_test_failed js_dump control ys)"
  using assms
proof (induction rs arbitrary: idx success ms xs)
  case (Cons r rs)
  obtain exp_status ip p where read: "bind_res (bind_res (json_get ''status'' r) (json_get ''success'')) json_bool = Inr exp_status"
      "bind_res (json_get ''ip'' r) json_string = Inr ip" "json_get ''port'' r = Inr p"
    and *: "(case json_at_key (ip @ '':'' @ js_dump p) control of
      Inl OutOfRange \<Rightarrow> compare_tcp_loop js_dump control rs idx success
    | Inl e \<Rightarrow> lift_res (Inl e) yields
    | Inr c \<Rightarrow>
       lift_res (bind_res (json_get ''status'' c) json_bool) (\<lambda>ctrl_status.
       if ctrl_status \<and> \<not> exp_status
       then seq (set_blocked idx True) (compare_tcp_loop js_dump control rs (idx + 1) False)
       else seq (set_blocked idx False) (compare_tcp_loop js_dump control rs (idx + 1) success))) (JObject ms) = Inr (s, j)"
    using Cons.prems(1) unfolding compare_tcp_loop.simps lift_res_Inr by blast
  have rest: "idx + length rs \<le> length xs" "idx + 1 + length rs \<le> length xs"
    "set (map (failed_socket js_dump) rs) \<subseteq> set (map (failed_socket js_dump) xs)"
    using Cons.prems(3,4) by simp_all
  show ?case
  proof (cases "json_at_key (ip @ '':'' @ js_dump p) control")
    case (Inl e)
    then have "compare_tcp_loop js_dump control rs idx success (JObject ms) = Inr (s, j)"
      using * by (cases e) simp_all
    from Cons.IH [OF this Cons.prems(2) rest(1,3) Cons.prems(5)] show ?thesis .
  next
    case (Inr c)
    then obtain ctrl_status where ctrl: "bind_res (json_get ''status'' c) json_bool = Inr ctrl_status"
      "(if ctrl_status \<and> \<not> exp_status then seq (set_blocked idx True) (compare_tcp_loop js_dump control rs (idx + 1) False)
       else seq (set_blocked idx False) (compare_tcp_loop js_dump control rs (idx + 1) success)) (JObject ms) = Inr (s, j)"
      using * by (auto simp: lift_res_Inr)
    define b where "b = (ctrl_status \<and> \<not> exp_status)"
    have "seq (set_blocked idx b) (compare_tcp_loop js_dump control rs (idx + 1) (success \<and> \<not> b)) (JObject ms) = Inr (s, j)"
      using ctrl(2) unfolding b_def by (auto split: if_splits)
    then obtain j1 where j1: "set_blocked idx b (JObject ms) = Inr ((), j1)"
      "compare_tcp_loop js_dump control rs (idx + 1) (success \<and> \<not> b) j1 = Inr (s, j)"
      unfolding seq_Inr by blast
    from set_blocked_keeps_failures [OF j1(1) Cons.prems(2), of js_dump] rest(2)
    obtain ms1 ys where ms1: "j1 = JObject ms1" "map_of ms1 ''tcp_connect'' = Some (JArray ys)"
      "map (failed_socket js_dump) ys = map (failed_socket js_dump) xs"
      by auto
    have len: "length ys = length xs"
      using ms1(3) by (rule map_eq_imp_length_eq)
    have "only_test_failed js_dump control xs" if b
    proof -
      have "failed_socket js_dump r = Some (ip @ '':'' @ js_dump p)"
        using that read by (simp add: failed_socket_def b_def)
      moreover have "control_reached control (ip @ '':'' @ js_dump p)"
        using that Inr status_true [of c] ctrl(1)
        by (cases control) (auto simp: control_reached_def json_at_key_def b_def split: option.splits)
      moreover have "failed_socket js_dump r \<in> set (map (failed_socket js_dump) xs)"
        using Cons.prems(4) by simp
      ultimately show ?thesis
        unfolding only_test_failed_iff by metis
    qed
    then have "success \<and> \<not> b \<or> only_test_failed js_dump control ys"
      using Cons.prems(5) unfolding only_test_failed_iff ms1(3) by blast
    from Cons.IH [OF j1(2) [unfolded ms1(1)] ms1(2) _ _ this] rest len ms1(3) show ?thesis
      by simp
  qed
qed auto

text \<open>Without an array of results, no result is marked.\<close>

lemma compare_tcp_loop_no_array:
  assumes "compare_tcp_loop js_dump control rs idx success (JObject ms) = Inr (s, j)"
    and "map_of ms ''tcp_connect'' = Some arr" "\<nexists>xs. arr = JArray xs"
  shows "j = JObject ms \<and> s = success"
  using assms(1)
proof (induction rs arbitrary: idx)
  case (Cons r rs)
  have no_mark: "set_blocked idx b (JObject ms) = Inl (ErrorExn (new JsonDomainError))" for b
    unfolding set_blocked_def bind_get_member [OF assms(2)] using assms(3) by (cases arr) simp_all
  obtain exp_status ip p where *: "(case json_at_key (ip @ '':'' @ js_dump p) control of
      Inl OutOfRange \<Rightarrow> compare_tcp_loop js_dump control rs idx success
    | Inl e \<Rightarrow> lift_res (Inl e) yields
    | Inr c \<Rightarrow>
       lift_res (bind_res (json_get ''status'' c) json_bool) (\<lambda>ctrl_status.
       if ctrl_status \<and> \<not> exp_status
       then seq (set_blocked idx True) (compare_tcp_loop js_dump control rs (idx + 1) False)
       else seq (set_blocked idx False) (compare_tcp_loop js_dump control rs (idx + 1) success))) (JObject ms) = Inr (s, j)"
    using Cons.prems unfolding compare_tcp_loop.simps lift_res_Inr by blast
  show ?case
  proof (cases "json_at_key (ip @ '':'' @ js_dump p) control")
    case (Inl e)
    then have "compare_tcp_loop js_dump control rs idx success (JObject ms) = Inr (s, j)"
      using * by (cases e) simp_all
    from Cons.IH [OF this] show ?thesis .
  next
    case (Inr c)
    then show ?thesis
      using * by (auto simp: lift_res_Inr seq_Inr no_mark split: if_splits)
  qed
qed simp

lemma compare_tcp_connect_evidence:
  assumes "compare_tcp_connect js_dump control (JObject ms) = Inr (s, j)"
  shows "\<exists>ms'. j = JObject ms' \<and> (s \<or> (\<exists>xs. map_of ms' ''tcp_connect'' = Some (JArray xs) \<and> only_test_failed js_dump control xs))"
proof -
  obtain arr j1 where j1: "get [''tcp_connect''] (JObject ms) = Inr (arr, j1)"
    "compare_tcp_loop js_dump control (json_items arr) 0 True j1 = Inr (s, j)"
    using assms unfolding compare_tcp_connect_def bind_entry_Inr by blast
  obtain ms1 where ms1: "j1 = JObject ms1" "map_of ms1 ''tcp_connect'' = Some arr"
    using j1(1) unfolding get_one by auto
  show ?thesis
  proof (cases "\<exists>xs. arr = JArray xs")
    case True
    then obtain xs where xs: "arr = JArray xs"
      by blast
    then have "json_items arr = xs"
      by (simp add: json_items_def)
    with compare_tcp_loop_evidence [OF j1(2) [unfolded ms1(1)] ms1(2) [unfolded xs]] show ?thesis
      by auto
  next
    case False
    from compare_tcp_loop_no_array [OF j1(2) [unfolded ms1(1)] ms1(2) False] show ?thesis
      by simp
  qed
qed

text \<open>An operation after which the entry has the same results of the control for the connections.\<close>

definition keeps_control :: "'a entry_op \<Rightarrow> bool" where
  "keeps_control m \<longleftrightarrow>
    (\<forall>ms x j. m (JObject ms) = Inr (x, j) \<longrightarrow> (\<exists>ms'. j = JObject ms' \<and> (control_connections ms \<noteq> None \<longrightarrow> control_connections ms' = control_connections ms)))"

lemma keeps_control_keeps: "keeps ''control'' m \<Longrightarrow> keeps_control m"
  unfolding keeps_control_def
proof (intro allI impI)
  fix ms x j
  assume keeps: "keeps ''control'' m" and run: "m (JObject ms) = Inr (x, j)"
  obtain ms' where "j = JObject ms'" "map_of ms' ''control'' = map_of ms ''control''"
    by (rule keepsD [OF keeps run])
  then show "\<exists>ms'. j = JObject ms' \<and> (control_connections ms \<noteq> None \<longrightarrow> control_connections ms' = control_connections ms)"
    unfolding control_connections_def by simp
qed

lemma keeps_controlD:
  assumes "keeps_control m" "m (JObject ms) = Inr (x, j)"
  obtains ms' where "j = JObject ms'" "control_connections ms \<noteq> None \<longrightarrow> control_connections ms' = control_connections ms"
  using assms(1) [unfolded keeps_control_def, THEN spec, THEN spec, THEN spec, THEN mp, OF assms(2)]
  by (elim exE conjE) (rule that)

lemma keeps_control_bind:
  assumes "keeps_control m" "\<And>x. keeps_control (f x)"
  shows "keeps_control (bind_entry m f)"
  unfolding keeps_control_def
proof (intro allI impI)
  fix ms y j
  assume "bind_entry m f (JObject ms) = Inr (y, j)"
  then obtain x j1 where run: "m (JObject ms) = Inr (x, j1)" "f x j1 = Inr (y, j)"
    unfolding bind_entry_Inr by blast
  obtain ms1 where ms1: "j1 = JObject ms1" "control_connections ms \<noteq> None \<longrightarrow> control_connections ms1 = control_connections ms"
    by (rule keeps_controlD [OF assms(1) run(1)])
  obtain ms2 where "j = JObject ms2" "control_connections ms1 \<noteq> None \<longrightarrow> control_connections ms2 = control_connections ms1"
    by (rule keeps_controlD [OF assms(2) run(2) [unfolded ms1(1)]])
  with ms1(2) show "\<exists>ms'. j = JObject ms' \<and> (control_connections ms \<noteq> None \<longrightarrow> control_connections ms' = control_connections ms)"
    by simp
qed

lemma keeps_control_seq: "keeps_control m \<Longrightarrow> keeps_control n \<Longrightarrow> keeps_control (seq m n)"
  unfolding seq_def by (rule keeps_control_bind)

lemma keeps_control_if: "(b \<Longrightarrow> keeps_control m) \<Longrightarrow> (\<not> b \<Longrightarrow> keeps_control n) \<Longrightarrow> keeps_control (if b then m else n)"
  by simp

lemma keeps_control_get:
  assumes "k \<noteq> ''tcp_connect''"
  shows "keeps_control (get (''control'' # k # ks))"
  unfolding keeps_control_def
proof (intro allI impI)
  fix ms x j
  assume "get (''control'' # k # ks) (JObject ms) = Inr (x, j)"
  then obtain sub where sub: "get (k # ks) (case map_of ms ''control'' of None \<Rightarrow> JNull | Some v \<Rightarrow> v) = Inr (x, sub)"
    "j = JObject (members_put ''control'' sub ms)"
    unfolding get.simps(2) [of "''control''"] by (auto simp: bind_res_Inr_iff entry_get_cases)
  have "control_connections (members_put ''control'' sub ms) = control_connections ms" if some: "control_connections ms \<noteq> None"
  proof -
    obtain cms where cms: "map_of ms ''control'' = Some (JObject cms)"
      using some unfolding control_connections_def by (auto split: option.splits json.splits)
    have "keeps ''tcp_connect'' (get (k # ks))"
      using assms by (intro keeps_get) simp
    from keepsD [OF this, of cms x sub] sub(1) cms obtain cms' where
      "sub = JObject cms'" "map_of cms' ''tcp_connect'' = map_of cms ''tcp_connect''"
      by auto
    with cms show ?thesis
      by (simp add: control_connections_def)
  qed
  with sub(2) show "\<exists>ms'. j = JObject ms' \<and> (control_connections ms \<noteq> None \<longrightarrow> control_connections ms' = control_connections ms)"
    by blast
qed

lemma keeps_control_conclude: "keeps_control (conclude s)"
proof -
  have failure: "keeps_control (http_failure [''control'', ''http_request'', ''failure''])"
    unfolding http_failure_def
    by (intro keeps_control_bind keeps_control_get keeps_control_if keeps_control_keeps keeps_intros) simp
  have blocking: "keeps_control (set_blocking dns s ef cf page)" for dns ef cf page
    unfolding set_blocking_def
    by (cases "blocking_reason dns s ef cf page")
      (simp_all add: keeps_control_bind keeps_control_get keeps_control_keeps keeps_intros)
  have "keeps_control expected_web_page" "keeps_control set_accessible"
    by (auto intro!: keeps_control_keeps keeps_expected_web_page keeps_set_accessible)
  then show ?thesis
    unfolding conclude_def
    by (intro keeps_control_bind keeps_control_seq keeps_control_if failure blocking)
      (auto intro!: keeps_control_keeps keeps_intros)
qed

lemma get_control_connections:
  assumes "get [''control'', ''tcp_connect''] (JObject ms) = Inr (JObject cms, JObject ms')"
  shows "control_connections ms' = Some (JObject cms)"
  using assms by (auto simp: get.simps bind_res_Inr_iff entry_get_cases control_connections_def entry_set_def entry_members_def
    split: option.splits json.splits)

text \<open>What a verdict on TCP rests on.\<close>

text \<open>Among the results of the entry there is one whose connection failed, and the reply of the control in the entry
  says that it could make the connection to the same socket.\<close>

definition blamed :: "(json \<Rightarrow> string) \<Rightarrow> (string \<times> json) list \<Rightarrow> bool" where
  "blamed js_dump ms \<longleftrightarrow>
    (\<exists>xs control. map_of ms ''tcp_connect'' = Some (JArray xs) \<and> control_connections ms = Some control
      \<and> only_test_failed js_dump control xs)"

definition tcp_ip_evidence :: "(json \<Rightarrow> string) \<Rightarrow> (string \<times> json) list \<Rightarrow> bool" where
  "tcp_ip_evidence js_dump ms \<longleftrightarrow>
    map_of ms ''dns_consistency'' = Some (JString ''consistent'') \<and> blamed js_dump ms
    \<and> map_of ms ''http_experiment_failure'' \<notin> {None, Some JNull}"

lemma member_string_Inr:
  assumes "member_string k (JObject ms) = Inr (s, j)"
  shows "j = JObject ms" "map_of ms k = Some (JString s)"
proof -
  obtain v where v: "get [k] (JObject ms) = Inr (v, j)" "json_string v = Inr s"
    using assms by (auto simp: member_string_def bind_entry_Inr lift_res_Inr)
  then have "v = JString s"
    by (cases v) (simp_all add: json_string_def)
  with get_present [OF v(1)] show "j = JObject ms" "map_of ms k = Some (JString s)"
    by simp_all
qed

lemma http_failure_present:
  assumes "http_failure [k] (JObject ms) = Inr (f, j)"
  shows "\<exists>ms'. j = JObject ms' \<and> (\<forall>k'. k' \<noteq> k \<longrightarrow> map_of ms' k' = map_of ms k')
    \<and> (f \<noteq> [] \<longrightarrow> map_of ms' k \<notin> {None, Some JNull})"
proof -
  obtain v j1 where v: "get [k] (JObject ms) = Inr (v, j1)"
    "(if v = JNull then yields [] else lift_res (first_word v) yields) j1 = Inr (f, j)"
    using assms unfolding http_failure_def bind_entry_Inr by blast
  show ?thesis
  proof (cases "v = JNull")
    case True
    with v(2) have "f = []" "j1 = j"
      by simp_all
    with get_null [OF v(1) [unfolded True]] show ?thesis
      by simp
  next
    case False
    from get_present [OF v(1) False] v(2) False have "j = JObject ms" "map_of ms k = Some v"
      by (simp_all add: lift_res_Inr)
    with False show ?thesis
      by simp
  qed
qed

abbreviation evidence_keys :: "string set" where
  "evidence_keys \<equiv> {''http_experiment_failure'', ''tcp_connect'', ''dns_consistency''}"

lemma finish_decides:
  assumes "seq (set_blocking dns s ef cf page) set_accessible (JObject ms) = Inr (u, j)" "map_of ms ''blocking'' = Some JNull"
  shows "\<exists>ms'. j = JObject ms' \<and> decided ms' \<and> (\<forall>k \<in> evidence_keys. map_of ms' k = map_of ms k)
    \<and> (map_of ms' ''blocking'' = Some (JString ''tcp_ip'') \<longrightarrow> dns = ''consistent'' \<and> \<not> s \<and> ef \<noteq> [])"
proof -
  obtain j5 where j5: "set_blocking dns s ef cf page (JObject ms) = Inr ((), j5)" "set_accessible j5 = Inr (u, j)"
    using assms(1) unfolding seq_Inr by blast
  from set_blocking_reason [OF j5(1) assms(2)] obtain ms5 where ms5: "j5 = JObject ms5" "set_for dns s ef ms5"
    by (elim exE conjE) (rule that)
  from set_accessible_decides [OF j5(2) [unfolded ms5(1)] ms5(2) [unfolded set_for_def, THEN conjunct1], of "''tcp_ip''"]
  obtain ms' where ms': "j = JObject ms'" "decided ms'"
    "map_of ms' ''blocking'' = Some (JString ''tcp_ip'') \<longrightarrow> map_of ms5 ''blocking'' = Some (JString ''tcp_ip'')"
    by (elim exE conjE) (rule that)
  have "keeps k (set_blocking dns s ef cf page)" "keeps k set_accessible" if "k \<in> evidence_keys" for k
    using that by (auto intro: keeps_set_blocking keeps_set_accessible)
  then have k: "keeps k (seq (set_blocking dns s ef cf page) set_accessible)" if "k \<in> evidence_keys" for k
    using that by (intro keeps_seq)
  have "\<forall>k \<in> evidence_keys. map_of ms' k = map_of ms k"
    using keeps_on [OF k _ assms(1)] ms'(1) by auto
  with ms' ms5(2) show ?thesis
    unfolding set_for_def by blast
qed

lemma conclude_decides:
  assumes "conclude s (JObject ms) = Inr (u, j)" "map_of ms ''blocking'' = Some JNull" "\<not> s \<Longrightarrow> blamed js_dump ms"
  shows "\<exists>ms'. j = JObject ms' \<and> decided ms'
    \<and> (map_of ms' ''blocking'' = Some (JString ''tcp_ip'') \<longrightarrow> tcp_ip_evidence js_dump ms')"
proof -
  obtain dns j1 ef j2 cf j3 page j4 where
    1: "member_string ''dns_consistency'' (JObject ms) = Inr (dns, j1)" and
    2: "http_failure [''http_experiment_failure''] j1 = Inr (ef, j2)" and
    3: "http_failure [''control'', ''http_request'', ''failure''] j2 = Inr (cf, j3)" and
    4: "(if ef = [] \<and> cf = [] then expected_web_page else yields False) j3 = Inr (page, j4)" and
    5: "seq (set_blocking dns s ef cf page) set_accessible j4 = Inr (u, j)"
    using assms(1) unfolding conclude_def bind_entry_Inr by (elim exE conjE) (rule that)
  note dns = member_string_Inr [OF 1]
  from http_failure_present [OF 2 [unfolded dns(1)]] obtain ms2 where ms2: "j2 = JObject ms2"
    "\<forall>k. k \<noteq> ''http_experiment_failure'' \<longrightarrow> map_of ms2 k = map_of ms k"
    "ef \<noteq> [] \<longrightarrow> map_of ms2 ''http_experiment_failure'' \<notin> {None, Some JNull}"
    by (elim exE conjE) (rule that)
  let ?ks = "insert ''blocking'' evidence_keys"
  have "keeps k (http_failure [''control'', ''http_request'', ''failure''])" if "k \<in> ?ks" for k
    using that by (intro keeps_intros) auto
  from keeps_on [OF this _ 3 [unfolded ms2(1)]] obtain ms3 where ms3: "j3 = JObject ms3"
    "\<forall>k \<in> ?ks. map_of ms3 k = map_of ms2 k"
    by blast
  have "keeps k (if ef = [] \<and> cf = [] then expected_web_page else yields False)" if "k \<in> ?ks" for k
    using that by (intro keeps_if keeps_expected_web_page keeps_yields) auto
  from keeps_on [OF this _ 4 [unfolded ms3(1)]] obtain ms4 where ms4: "j4 = JObject ms4"
    "\<forall>k \<in> ?ks. map_of ms4 k = map_of ms3 k"
    by blast
  have same: "\<forall>k \<in> ?ks. map_of ms4 k = map_of ms2 k"
    using ms3(2) ms4(2) by (metis (no_types))
  then have "map_of ms4 ''blocking'' = Some JNull"
    using ms2(2) assms(2) by simp
  from finish_decides [OF 5 [unfolded ms4(1)] this] obtain ms' where ms': "j = JObject ms'" "decided ms'"
    "\<forall>k \<in> evidence_keys. map_of ms' k = map_of ms4 k"
    "map_of ms' ''blocking'' = Some (JString ''tcp_ip'') \<longrightarrow> dns = ''consistent'' \<and> \<not> s \<and> ef \<noteq> []"
    by (elim exE conjE) (rule that)
  have "tcp_ip_evidence js_dump ms'" if tcp: "map_of ms' ''blocking'' = Some (JString ''tcp_ip'')"
  proof -
    have s: "dns = ''consistent''" "\<not> s" "ef \<noteq> []"
      using tcp ms'(4) by simp_all
    obtain xs control where xs: "map_of ms ''tcp_connect'' = Some (JArray xs)" "control_connections ms = Some control"
      "only_test_failed js_dump control xs"
      using assms(3) [OF s(2)] unfolding blamed_def by blast
    obtain ms'' where "j = JObject ms''" "control_connections ms \<noteq> None \<longrightarrow> control_connections ms'' = control_connections ms"
      by (rule keeps_controlD [OF keeps_control_conclude assms(1)])
    then have "control_connections ms' = Some control"
      using ms'(1) xs(2) by simp
    moreover have "map_of ms' ''tcp_connect'' = Some (JArray xs)"
      using ms'(3) same ms2(2) xs(1) by simp
    ultimately show ?thesis
      using xs(3) s ms'(3) same ms2(2,3) dns(2) unfolding tcp_ip_evidence_def blamed_def by simp
  qed
  with ms'(1,2) show ?thesis
    by blast
qed

text \<open>The comparison with the control.\<close>

definition undecided :: "(string \<times> json) list \<Rightarrow> bool" where
  "undecided ms \<longleftrightarrow> map_of ms ''accessible'' = Some JNull \<and> map_of ms ''blocking'' = Some JNull"

lemma keeps_undecided:
  assumes "keeps ''accessible'' m" "keeps ''blocking'' m" "undecided ms" "m (JObject ms) = Inr (x, j)"
  obtains ms' where "j = JObject ms'" "undecided ms'"
  using keepsD [OF assms(1,4)] keepsD [OF assms(2,4)] assms(3) unfolding undecided_def by (metis json.inject(6))

lemma compare_control_decides:
  assumes "compare_control_experiment js_dump lib response exp_addrs db (JObject ms) = Inr (db', j)" "undecided ms"
    "map_of ms ''control_failure'' \<noteq> None"
  shows "\<exists>ms'. j = JObject ms' \<and>
    (ms' = ms \<and> map_of ms ''control_failure'' \<noteq> Some JNull
     \<or> decided ms' \<and> (map_of ms' ''blocking'' = Some (JString ''tcp_ip'') \<longrightarrow> tcp_ip_evidence js_dump ms'))"
proof -
  obtain cf where cf: "map_of ms ''control_failure'' = Some cf"
    using assms(3) by auto
  note start = assms(1) [unfolded compare_control_experiment_def bind_entry_Inr get_member [OF cf]]
  show ?thesis
  proof (cases "cf = JNull")
    case False
    then show ?thesis
      using start cf by auto
  next
    case True
    obtain j1 j2 j3 j4 j5 j6 s db1 c1 c2 where
      1: "compare_pages response (JObject ms) = Inr ((), j1)" and
      2: "get [''control'', ''dns''] j1 = Inr (c1, j2)" and
      3: "compare_dns_queries lib exp_addrs c1 db j2 = Inr (db1, j3)" and
      4: "get [''control'', ''tcp_connect''] j3 = Inr (c2, j4)" and
      5: "compare_tcp_connect js_dump c2 j4 = Inr (s, j5)" and
      6: "conclude s j5 = Inr ((), j6)" "j = j6"
      using start True by (auto simp: bind_entry_Inr seq_Inr)
    obtain m1 where m1: "j1 = JObject m1" "undecided m1"
      by (rule keeps_undecided [where m = "compare_pages response", OF _ _ assms(2) 1]) (rule keeps_compare_pages, simp)+
    obtain m2 where m2: "j2 = JObject m2" "undecided m2"
      by (rule keeps_undecided [where m = "get [''control'', ''dns'']", OF _ _ m1(2) 2 [unfolded m1(1)]]) (intro keeps_intros, simp)+
    obtain m3 where m3: "j3 = JObject m3" "undecided m3"
      by (rule keeps_undecided [where m = "compare_dns_queries lib exp_addrs c1 db", OF _ _ m2(2) 3 [unfolded m2(1)]]) (rule keeps_compare_dns, simp)+
    obtain m4 where m4: "j4 = JObject m4" "undecided m4"
      by (rule keeps_undecided [where m = "get [''control'', ''tcp_connect'']", OF _ _ m3(2) 4 [unfolded m3(1)]]) (intro keeps_intros, simp)+
    obtain m5 where m5: "j5 = JObject m5" "undecided m5"
      by (rule keeps_undecided [where m = "compare_tcp_connect js_dump c2", OF _ _ m4(2) 5 [unfolded m4(1)]]) (rule keeps_compare_tcp, simp)+
    have blame: "blamed js_dump m5" if s: "\<not> s"
    proof -
      from compare_tcp_connect_evidence [OF 5 [unfolded m4(1)]] s m5(1) obtain xs where
        xs: "map_of m5 ''tcp_connect'' = Some (JArray xs)" "only_test_failed js_dump c2 xs"
        by auto
      obtain cms where cms: "c2 = JObject cms"
        using xs(2) unfolding only_test_failed_def control_reached_def by blast
      from get_control_connections [OF 4 [unfolded m3(1) m4(1) cms]] have "control_connections m4 = Some c2"
        by (simp add: cms)
      moreover have "keeps ''control'' (compare_tcp_connect js_dump c2)"
        by (rule keeps_compare_tcp) simp
      from keepsD [OF this 5 [unfolded m4(1)]] m5(1) have "map_of m5 ''control'' = map_of m4 ''control''"
        by auto
      ultimately show ?thesis
        using xs unfolding blamed_def control_connections_def by simp
    qed
    have "map_of m5 ''blocking'' = Some JNull"
      using m5(2) by (simp add: undecided_def)
    from conclude_decides [OF 6(1) [unfolded m5(1)] this blame] 6(2) show ?thesis
      by auto
  qed
qed

section \<open>The test as a whole\<close>

definition keeps_run :: "string \<Rightarrow> 'a entry_run \<Rightarrow> bool" where
  "keeps_run k m \<longleftrightarrow>
    (\<forall>ms x j. m (JObject ms) = Some (Inr (x, j)) \<longrightarrow> (\<exists>ms'. j = JObject ms' \<and> map_of ms' k = map_of ms k))"

lemma bind_run_Inr: "bind_run r f = Some (Inr y) \<longleftrightarrow> (\<exists>x. r = Some (Inr x) \<and> f x = Some (Inr y))"
  by (auto simp: bind_run_def split: option.split sum.split)

lemma bind_erun_Inr:
  "bind_erun m f j = Some (Inr (y, j2)) \<longleftrightarrow> (\<exists>x j1. m j = Some (Inr (x, j1)) \<and> f x j1 = Some (Inr (y, j2)))"
  by (auto simp: bind_erun_def bind_run_Inr)

lemma keeps_op_run: "keeps k m \<Longrightarrow> keeps_run k (op_run m)"
  by (simp add: keeps_def keeps_run_def op_run_def)

lemma keeps_push [keeps_intros]: "k \<noteq> k' \<Longrightarrow> keeps k (push k' v)"
  by (auto simp: keeps_def push_def entry_push_def split: sum.splits)

lemma keeps_connections_end [keeps_intros]: "k \<noteq> ''tcp_connect'' \<Longrightarrow> keeps k (connections_end n ends st)"
  by (induction ends arbitrary: st)
    (auto simp: handle_connect_def Let_def intro!: keeps_intros)

lemma keeps_dns: 
  assumes "k \<noteq> ''queries''"
  shows "keeps_run k (experiment_dns_query lb nw name nameserver options)"
proof -
  have "keeps_run k (\<lambda>j. bind_run r (\<lambda>q. op_run (seq (push ''queries'' q) (yields x)) j))" for r and x :: "error \<times> string list"
  proof -
    have "keeps_run k (op_run (seq (push ''queries'' q) (yields x)))" for q
      using assms by (intro keeps_op_run keeps_intros)
    then show ?thesis
      unfolding keeps_run_def bind_run_Inr by metis
  qed
  moreover have "keeps_run k (op_run (yields x))" for x :: "error \<times> string list"
    by (intro keeps_op_run keeps_intros)
  ultimately show ?thesis
    unfolding experiment_dns_query_def by (simp split: sum.split prod.split)
qed

lemma push_dumps_keeps:
  "push_dumps ds (JObject ms) = Some (Inr j) \<Longrightarrow> k \<noteq> ''requests'' \<Longrightarrow> \<exists>ms'. j = JObject ms' \<and> map_of ms' k = map_of ms k"
proof (induction ds arbitrary: ms)
  case (Cons d ds)
  then obtain rr where "(case entry_push ''requests'' rr (JObject ms) of
      Inl e \<Rightarrow> Some (Inl e) | Inr entry \<Rightarrow> push_dumps ds entry) = Some (Inr j)"
    by (auto simp: bind_run_Inr)
  then obtain j1 where j1: "entry_push ''requests'' rr (JObject ms) = Inr j1" "push_dumps ds j1 = Some (Inr j)"
    by (cases "entry_push ''requests'' rr (JObject ms)") simp_all
  then obtain ms1 where "j1 = JObject ms1" "map_of ms1 k = map_of ms k"
    using Cons.prems(2) by (auto simp: entry_push_def split: sum.splits)
  then show ?case
    using Cons.IH [of ms1] j1(2) Cons.prems(2) by simp
qed (auto simp: ok_def)

lemma keeps_http:
  assumes "k \<notin> {''requests'', ''agent'', ''socksproxy'', ''http_experiment_failure''}"
  shows "keeps_run k (experiment_http_request lb nw url options)"
  unfolding keeps_run_def
proof (intro allI impI)
  fix ms x j
  assume run: "experiment_http_request lb nw url options (JObject ms) = Some (Inr (x, j))"
  let ?options = "options(''http/url'' \<mapsto> url, ''net/allow_ssl23'' \<mapsto> ''1'', ''net/ssl_allow_dirty_shutdown'' \<mapsto> ''1'')"
  obtain st r where pre: "http_request_setup ?options (JObject ms) = (st, r)"
    by (rule prod.exhaust)
  then obtain j1 where r: "r = Inr j1"
    using run by (auto simp: experiment_http_request_def bind_run_Inr)
  obtain err responses where http: "nw_http nw st COMMON_CLIENT_HEADERS = (err, responses)"
    by (rule prod.exhaust)
  obtain j2 where j2: "http_request_done (lb_pton lb) (lb_uninit lb) st err responses j1 = Some (Inr j2)"
    "op_run (seq (if is_err err then put [''http_experiment_failure''] (JString (reason err)) else yields ())
      (yields (err, case responses of [] \<Rightarrow> None | rs # _ \<Rightarrow> Some rs))) j2 = Some (Inr (x, j))"
    using run pre r http by (auto simp: experiment_http_request_def bind_run_Inr)
  obtain m1 where m1: "j1 = JObject m1" "map_of m1 k = map_of ms k"
    using pre r assms by (auto simp: http_request_setup_def Let_def)
  obtain m2 where m2: "j2 = JObject m2" "map_of m2 k = map_of m1 k"
    using push_dumps_keeps [of _ m1 j2 k] j2(1) assms unfolding m1 http_request_done_def by auto
  have "keeps_run k (op_run (seq (if is_err err then put [''http_experiment_failure''] (JString (reason err)) else yields ())
      (yields (err, case responses of [] \<Rightarrow> None | rs # _ \<Rightarrow> Some rs))))"
    using assms by (intro keeps_op_run keeps_intros) simp
  with j2(2) m2 m1 show "\<exists>ms'. j = JObject ms' \<and> map_of ms' k = map_of ms k"
    unfolding keeps_run_def m2(1) by metis
qed

lemma control_reply_result:
  assumes "control_reply parse err reply (JObject ms) = Inr (x, j)"
  shows "\<exists>ms'. j = JObject ms' \<and> (\<forall>k. k \<notin> {''control'', ''control_failure''} \<longrightarrow> map_of ms' k = map_of ms k)
    \<and> (map_of ms' ''control_failure'' = map_of ms ''control_failure'' \<or> (\<exists>f. map_of ms' ''control_failure'' = Some (JString f)))"
  using assms by (auto simp: control_reply_def seq_Inr split: if_splits option.splits)

text \<open>What the parts before the comparison leave alone.\<close>

abbreviation verdict_keys :: "string set" where
  "verdict_keys \<equiv> {''accessible'', ''blocking'', ''control_failure''}"

lemma keeps_run_on:
  assumes "\<And>k. k \<in> verdict_keys \<Longrightarrow> keeps_run k m" "m (JObject ms) = Some (Inr (x, j))"
  shows "\<exists>ms'. j = JObject ms' \<and> (\<forall>k \<in> verdict_keys. map_of ms' k = map_of ms k)"
proof -
  have one: "\<exists>ms'. j = JObject ms' \<and> map_of ms' k = map_of ms k" if "k \<in> verdict_keys" for k
    using assms(1) [OF that] assms(2) unfolding keeps_run_def by blast
  then obtain ms' where ms': "j = JObject ms'"
    by blast
  have "map_of ms' k = map_of ms k" if "k \<in> verdict_keys" for k
    using one [OF that] ms' by auto
  with ms' show ?thesis
    by blast
qed

definition verdict :: "(json \<Rightarrow> string) \<Rightarrow> (string \<times> json) list \<Rightarrow> bool" where
  "verdict js_dump ms \<longleftrightarrow>
    undecided ms \<and> (\<exists>f. map_of ms ''failure'' = Some (JString f) \<or> map_of ms ''control_failure'' = Some (JString f))
    \<or> decided ms \<and> (map_of ms ''blocking'' = Some (JString ''tcp_ip'') \<longrightarrow> tcp_ip_evidence js_dump ms)"

lemma measure_url_verdict:
  assumes "measure_url lb nw input url options db (JObject ms) = Some (Inr (db', j))" "undecided ms"
    "map_of ms ''control_failure'' = Some JNull"
  shows "\<exists>ms'. j = JObject ms' \<and> verdict (lb_dump lb) ms'"
proof -
  obtain x1 j1 x2 j2 x3 j3 where
    1: "experiment_dns_query lb nw (address url) (settings_at options ''nameserver'') options (JObject ms) = Some (Inr (x1, j1))" and
    2: "op_run (experiment_tcp_connect (map (\<lambda>a. (a, url_port url)) (snd x1))
          (nw_ends nw (map (\<lambda>a. (a, url_port url)) (snd x1)))) j1 = Some (Inr (x2, j2))" and
    3: "experiment_http_request lb nw input options j2 = Some (Inr (x3, j3))" and
    4: "(case nw_control nw (control_settings options) (headers_put ''Content-Type'' ''application/json'' [])
          (lb_dump lb (control_body COMMON_CLIENT_HEADERS (map (\<lambda>a. (a, url_port url)) (snd x1)) input)) of (err, reply) \<Rightarrow>
          bind_erun (op_run (control_reply (lb_parse lb) err reply)) (\<lambda>_.
          op_run (compare_control_experiment (lb_dump lb) (lb_geoip lb) (snd x3) (snd x1) db))) j3 = Some (Inr (db', j))"
    using assms(1) by (auto simp: measure_url_def bind_erun_Inr Let_def case_prod_beta)
  obtain err reply where ctrl: "nw_control nw (control_settings options) (headers_put ''Content-Type'' ''application/json'' [])
          (lb_dump lb (control_body COMMON_CLIENT_HEADERS (map (\<lambda>a. (a, url_port url)) (snd x1)) input)) = (err, reply)"
    by (rule prod.exhaust)
  obtain x4 j4 where 5: "control_reply (lb_parse lb) err reply j3 = Inr (x4, j4)"
    and 6: "compare_control_experiment (lb_dump lb) (lb_geoip lb) (snd x3) (snd x1) db j4 = Inr (db', j)"
    using 4 unfolding ctrl by (auto simp: bind_erun_Inr op_run_def)
  obtain ms1 where ms1: "j1 = JObject ms1" "\<forall>k \<in> verdict_keys. map_of ms1 k = map_of ms k"
    using keeps_run_on [OF keeps_dns 1] by auto
  have "keeps_run k (op_run (experiment_tcp_connect sockets ends))" if "k \<in> verdict_keys" for k sockets ends
    using that unfolding experiment_tcp_connect_def by (intro keeps_op_run keeps_intros) auto
  from keeps_run_on [OF this 2 [unfolded ms1(1)]] obtain ms2 where ms2: "j2 = JObject ms2"
    "\<forall>k \<in> verdict_keys. map_of ms2 k = map_of ms1 k"
    by blast
  obtain ms3 where ms3: "j3 = JObject ms3" "\<forall>k \<in> verdict_keys. map_of ms3 k = map_of ms2 k"
    using keeps_run_on [OF keeps_http 3 [unfolded ms2(1)]] by auto
  from control_reply_result [OF 5 [unfolded ms3(1)]] obtain ms4 where ms4: "j4 = JObject ms4"
    "\<forall>k. k \<notin> {''control'', ''control_failure''} \<longrightarrow> map_of ms4 k = map_of ms3 k"
    "map_of ms4 ''control_failure'' = map_of ms3 ''control_failure'' \<or> (\<exists>f. map_of ms4 ''control_failure'' = Some (JString f))"
    by (elim exE conjE) (rule that)
  have und: "undecided ms4"
    using assms(2) ms1(2) ms2(2) ms3(2) ms4(2) unfolding undecided_def by simp
  have cf: "map_of ms4 ''control_failure'' = Some JNull \<or> (\<exists>f. map_of ms4 ''control_failure'' = Some (JString f))"
    using assms(3) ms1(2) ms2(2) ms3(2) ms4(3) by simp
  then have "map_of ms4 ''control_failure'' \<noteq> None"
    by auto
  from compare_control_decides [OF 6 [unfolded ms4(1)] und this] cf und show ?thesis
    unfolding verdict_def by auto
qed

lemma web_verdict:
  assumes "web_connectivity lb nw input options db = Some (Inr j)"
  shows "\<exists>ms. j = JObject ms \<and> verdict (lb_dump lb) ms"
proof -
  obtain ms0 where ms0: "wc_entry = JObject ms0" "undecided ms0" "map_of ms0 ''control_failure'' = Some JNull"
    by (simp add: wc_entry_def undecided_def)
  show ?thesis
  proof (cases "has_value (parse_url_noexcept (wc_input input))")
    case True
    then obtain db' where "measure_url lb nw (wc_input input) (snd (parse_url_noexcept (wc_input input)))
        (options(''http/max_redirects'' \<mapsto> scalar_of_int 20)) db (JObject ms0) = Some (Inr (db', j))"
      using assms by (auto simp: web_connectivity_def Let_def bind_run_Inr ok_def ms0(1))
    from measure_url_verdict [OF this ms0(2,3)] show ?thesis .
  next
    case False
    then show ?thesis
      using assms ms0(2) by (auto simp: web_connectivity_def Let_def bind_run_Inr ok_def op_run_def ms0(1) verdict_def undecided_def)
  qed
qed

section \<open>Results of connections\<close>

text \<open>A result with its mark, and what the control says of the connections of the test.\<close>

definition marked_result :: "(string \<Rightarrow> bool) \<Rightarrow> (json \<Rightarrow> string) \<Rightarrow> (string \<times> int) \<times> error \<Rightarrow> json" where
  "marked_result up_at js_dump c =
    (case c of ((a, p), e) \<Rightarrow>
      JObject [(''ip'', JString a), (''port'', JInt p),
        (''status'', JObject
          [(''success'', JBool (\<not> is_err e)), (''failure'', if is_err e then JString (reason e) else JNull),
           (''blocked'', JBool (up_at (a @ '':'' @ js_dump (JInt p)) \<and> is_err e))])])"

abbreviation result_of :: "(string \<times> int) \<times> error \<Rightarrow> json" where
  "result_of c \<equiv> tcp_result (fst (fst c)) (snd (fst c)) (snd c)"

abbreviation socket_of :: "(json \<Rightarrow> string) \<Rightarrow> (string \<times> int) \<times> error \<Rightarrow> string" where
  "socket_of js_dump c \<equiv> fst (fst c) @ '':'' @ js_dump (JInt (snd (fst c)))"

definition control_says :: "(string \<times> json) list \<Rightarrow> string \<Rightarrow> bool \<Rightarrow> bool" where
  "control_says cms s b \<longleftrightarrow> (\<exists>c. map_of cms s = Some (JObject c) \<and> map_of c ''status'' = Some (JBool b))"

lemma result_fields:
  "bind_res (bind_res (json_get ''status'' (result_of c)) (json_get ''success'')) json_bool = Inr (\<not> is_err (snd c))"
  "bind_res (json_get ''ip'' (result_of c)) json_string = Inr (fst (fst c))"
  "json_get ''port'' (result_of c) = Inr (JInt (snd (fst c)))"
  by (simp_all add: tcp_result_def json_get_def json_bool_def json_string_def)

lemma set_blocked_result:
  assumes "map_of ms ''tcp_connect'' = Some (JArray (xs @ result_of c # ys))"
    and "b = (up_at (socket_of js_dump c) \<and> is_err (snd c))"
  shows "set_blocked (length xs) b (JObject ms) =
    Inr ((), JObject (members_put ''tcp_connect'' (JArray (xs @ marked_result up_at js_dump c # ys)) ms))"
proof -
  have "entry_put [''status'', ''blocked''] (JBool b) (result_of c) = Inr (marked_result up_at js_dump c)"
    using assms(2) by (auto simp: tcp_result_def marked_result_def entry_get_cases case_prod_beta)
  then show ?thesis
    unfolding set_blocked_def bind_get_member [OF assms(1)]
    by (simp add: list_update_append del: entry_put.simps)
qed

lemma members_put_twice [simp]: "members_put k v (members_put k w ms) = members_put k v ms"
  by (induction ms) auto

lemma compare_tcp_loop_known:
  assumes "map_of ms ''tcp_connect'' = Some (JArray (xs @ map result_of cs))"
    and "\<And>c. c \<in> set cs \<Longrightarrow> control_says cms (socket_of js_dump c) (up_at (socket_of js_dump c))"
  shows "compare_tcp_loop js_dump (JObject cms) (map result_of cs) (length xs) s (JObject ms) =
    Inr (s \<and> list_all (\<lambda>c. \<not> (up_at (socket_of js_dump c) \<and> is_err (snd c))) cs,
      JObject (members_put ''tcp_connect'' (JArray (xs @ map (marked_result up_at js_dump) cs)) ms))"
  using assms
proof (induction cs arbitrary: xs ms s)
  case Nil
  then show ?case
    by (simp add: members_put_id)
next
  case (Cons c cs)
  define b where "b = (up_at (socket_of js_dump c) \<and> is_err (snd c))"
  let ?ms = "members_put ''tcp_connect'' (JArray (xs @ marked_result up_at js_dump c # map result_of cs)) ms"
  let ?loop = "compare_tcp_loop js_dump (JObject cms) (map result_of cs)"
  obtain st where st: "map_of cms (socket_of js_dump c) = Some (JObject st)"
    "map_of st ''status'' = Some (JBool (up_at (socket_of js_dump c)))"
    using Cons.prems(2) [of c] unfolding control_says_def by auto
  have at: "json_at_key (socket_of js_dump c) (JObject cms) = Inr (JObject st)"
    "bind_res (json_get ''status'' (JObject st)) json_bool = Inr (up_at (socket_of js_dump c))"
    using st by (simp_all add: json_at_key_def json_get_def json_bool_def)
  have mark: "set_blocked (length xs) b (JObject ms) = Inr ((), JObject ?ms)"
    by (rule set_blocked_result) (use Cons.prems(1) b_def in simp_all)
  have "compare_tcp_loop js_dump (JObject cms) (map result_of (c # cs)) (length xs) s (JObject ms) =
    (if b then seq (set_blocked (length xs) True) (?loop (length xs + 1) False)
     else seq (set_blocked (length xs) False) (?loop (length xs + 1) s)) (JObject ms)"
    unfolding list.map compare_tcp_loop.simps result_fields lift_res_run at b_def by (simp only: sum.case at lift_res_run not_not)
  also have "\<dots> = ?loop (length (xs @ [marked_result up_at js_dump c])) (s \<and> \<not> b) (JObject ?ms)"
    using mark by (cases b) (simp_all add: seq_run)
  also have "\<dots> = Inr ((s \<and> \<not> b) \<and> list_all (\<lambda>c. \<not> (up_at (socket_of js_dump c) \<and> is_err (snd c))) cs,
      JObject (members_put ''tcp_connect'' (JArray ((xs @ [marked_result up_at js_dump c]) @ map (marked_result up_at js_dump) cs)) ?ms))"
    by (rule Cons.IH) (use Cons.prems(2) in simp_all)
  finally show ?case
    by (simp add: b_def)
qed

lemma compare_tcp_connect_known:
  assumes "map_of ms ''tcp_connect'' = Some (JArray (map result_of cs))"
    and "\<And>c. c \<in> set cs \<Longrightarrow> control_says cms (socket_of js_dump c) (up_at (socket_of js_dump c))"
  shows "compare_tcp_connect js_dump (JObject cms) (JObject ms) =
    Inr (list_all (\<lambda>c. \<not> (up_at (socket_of js_dump c) \<and> is_err (snd c))) cs,
      JObject (members_put ''tcp_connect'' (JArray (map (marked_result up_at js_dump) cs)) ms))"
  using compare_tcp_loop_known [of ms "[]" cs cms js_dump up_at True] assms
  unfolding compare_tcp_connect_def bind_get_member [OF assms(1)] by (simp add: json_items_def)

text \<open>A result that the control does not know, as none of a private address is, shifts the marks: here the second
  connection fails though the control succeeds, and the first one gets the mark.\<close>

lemma mark_on_the_wrong_result:
  "map_sum (\<lambda>_. ()) (\<lambda>(s, j). (s, json_at ''tcp_connect'' j))
     (compare_tcp_connect (\<lambda>_. ''80'') (JObject [(''1.1.1.1:80'', JObject [(''status'', JBool True)])])
       (JObject [(''tcp_connect'', JArray [tcp_result ''10.0.0.1'' 80 (new NoError), tcp_result ''1.1.1.1'' 80 (new TimeoutError)])]))
   = Inr (False, Some (JArray
       [JObject [(''ip'', JString ''10.0.0.1''), (''port'', JInt 80),
          (''status'', JObject [(''success'', JBool True), (''failure'', JNull), (''blocked'', JBool True)])],
        JObject [(''ip'', JString ''1.1.1.1''), (''port'', JInt 80),
          (''status'', JObject [(''success'', JBool False), (''failure'', JString ''generic_timeout_error''), (''blocked'', JNull)])]]))"
  by code_simp

text \<open>A reply of the control without results of connections throws as soon as there is one to compare.\<close>

lemma reply_without_connections_throws:
  assumes "map_of ms ''tcp_connect'' = Some (JArray (result_of c # rs))"
  shows "compare_tcp_connect js_dump JNull (JObject ms) = Inl DomainError"
  unfolding compare_tcp_connect_def bind_get_member [OF assms]
  by (simp add: json_items_def result_fields json_at_key_def)

text \<open>The failure of the resolver that the comparison looks for is never set.\<close>

lemma dns_failure_never_set: "keeps_run ''dns_experiment_failure'' (experiment_dns_query lb nw name nameserver options)"
  by (rule keeps_dns) simp

section \<open>Ends of connections\<close>

fun calls_back :: "tcp_action \<Rightarrow> bool" where
  "calls_back CloseTxp = False"
| "calls_back CloseTxpThenCall = True"
| "calls_back CallNow = True"

lemma push_array:
  "map_of ms k = Some (JArray xs) \<Longrightarrow> push k v (JObject ms) = Inr ((), JObject (members_put k (JArray (xs @ [v])) ms))"
  by (simp add: push_def entry_push_def entry_get_cases json_push_def)

lemma connections_end_run:
  assumes "map_of ms ''tcp_connect'' = Some (JArray xs)" "t + length ends \<le> n"
  shows "\<exists>acts'. connections_end n ends (t, acts) (JObject ms) =
      Inr ((t + length ends, acts @ acts'), JObject (members_put ''tcp_connect'' (JArray (xs @ map result_of ends)) ms))
    \<and> filter calls_back acts' =
       (if ends \<noteq> [] \<and> t + length ends = n then [if is_err (snd (last ends)) then CallNow else CloseTxpThenCall] else [])
    \<and> (ends \<noteq> [] \<and> t + length ends = n \<longrightarrow> acts' \<noteq> [] \<and> calls_back (last acts'))"
  using assms
proof (induction ends arbitrary: t acts xs ms)
  case Nil
  then show ?case
    by (simp add: members_put_id)
next
  case (Cons e ends)
  obtain socket err where e: "e = (socket, err)"
    by (rule prod.exhaust)
  let ?new = "if n = t + 1 then [if \<not> is_err err then CloseTxpThenCall else CallNow] else if \<not> is_err err then [CloseTxp] else []"
  let ?ms = "members_put ''tcp_connect'' (JArray (xs @ [result_of e])) ms"
  have step: "handle_connect n socket err (t, acts) (JObject ms) = Inr ((t + 1, acts @ ?new), JObject ?ms)"
    unfolding handle_connect_def Let_def seq_run [of "push ''tcp_connect'' (tcp_result (fst socket) (snd socket) err)",
      OF push_array [OF Cons.prems(1)]] by (simp add: e)
  have ms': "map_of ?ms ''tcp_connect'' = Some (JArray (xs @ [result_of e]))" "t + 1 + length ends \<le> n"
    using Cons.prems(2) by simp_all
  obtain acts' where run: "connections_end n ends (t + 1, acts @ ?new) (JObject ?ms) =
      Inr ((t + 1 + length ends, (acts @ ?new) @ acts'), JObject (members_put ''tcp_connect'' (JArray ((xs @ [result_of e]) @ map result_of ends)) ?ms))"
    and calls: "filter calls_back acts' =
       (if ends \<noteq> [] \<and> t + 1 + length ends = n then [if is_err (snd (last ends)) then CallNow else CloseTxpThenCall] else [])"
    and last: "ends \<noteq> [] \<and> t + 1 + length ends = n \<longrightarrow> acts' \<noteq> [] \<and> calls_back (last acts')"
    using Cons.IH [OF ms'] by blast
  have "connections_end n (e # ends) (t, acts) (JObject ms) =
      Inr ((t + length (e # ends), acts @ ?new @ acts'), JObject (members_put ''tcp_connect'' (JArray (xs @ map result_of (e # ends))) ms))"
    using run unfolding e connections_end.simps bind_entry_run [of "handle_connect n socket err (t, acts)", OF step] by (simp add: e)
  moreover have "acts' = []" if "ends = []"
    using run that by simp
  ultimately show ?case
    using calls last e Cons.prems(2) by (cases "ends = []") (auto intro!: exI [of _ "?new @ acts'"])
qed

lemma connections_call_back:
  assumes "map_of ms ''tcp_connect'' = Some (JArray [])" "length ends = length sockets"
  shows "\<exists>acts. experiment_tcp_connect sockets ends (JObject ms) =
      Inr (acts, JObject (members_put ''tcp_connect'' (JArray (map result_of ends)) ms))
    \<and> length (filter calls_back acts) = 1 \<and> calls_back (last acts)"
proof (cases "sockets = []")
  case True
  then show ?thesis
    using assms by (simp add: experiment_tcp_connect_def members_put_id)
next
  case False
  then have "ends \<noteq> []"
    using assms(2) by auto
  from connections_end_run [OF assms(1), of 0 ends "length sockets" "[]"] this assms(2)
  obtain acts where "connections_end (length sockets) ends (0, []) (JObject ms) =
      Inr ((length ends, acts), JObject (members_put ''tcp_connect'' (JArray (map result_of ends)) ms))"
    "filter calls_back acts = [if is_err (snd (last ends)) then CallNow else CloseTxpThenCall]" "calls_back (last acts)"
    by auto
  then show ?thesis
    using False unfolding experiment_tcp_connect_def
    by (intro exI [of _ acts]) (simp add: bind_entry_def)
qed

section \<open>Properties\<close>

text \<open>C6: Whatever the network, the resolver, the site and the control do, a test that calls back reports a
  site either as accessible and not blocked, or as not accessible and blocked for one of four reasons, or decides nothing
  and reports why.  It blames TCP only if the addresses are consistent, the page could not be fetched, and the entry
  has a result of a connection that failed for the test and that the control, as reported in the same entry, could make
  (\<open>blamed\<close>).\<close>

theorem website_verdict:
  assumes "web_connectivity lb nw input options db = Some (Inr j)"
  shows "\<exists>ms. j = JObject ms \<and>
    (map_of ms ''accessible'' = Some JNull \<and> map_of ms ''blocking'' = Some JNull
       \<and> (\<exists>f. map_of ms ''failure'' = Some (JString f) \<or> map_of ms ''control_failure'' = Some (JString f))
     \<or> map_of ms ''accessible'' = Some (JBool True) \<and> map_of ms ''blocking'' = Some (JBool False)
     \<or> map_of ms ''accessible'' = Some (JBool False) \<and> map_of ms ''blocking'' = Some (JString ''tcp_ip'')
       \<and> map_of ms ''dns_consistency'' = Some (JString ''consistent'') \<and> blamed (lb_dump lb) ms
       \<and> map_of ms ''http_experiment_failure'' \<notin> {None, Some JNull}
     \<or> map_of ms ''accessible'' = Some (JBool False)
       \<and> map_of ms ''blocking'' \<in> (Some \<circ> JString) ` {''dns'', ''http-diff'', ''http-failure''})"
proof -
  from web_verdict [OF assms] obtain ms where ms: "j = JObject ms" "verdict (lb_dump lb) ms"
    by blast
  from ms(2) show ?thesis
    unfolding verdict_def decided_def undecided_def reasons_def tcp_ip_evidence_def
    by (intro exI [of _ ms] conjI ms(1)) auto
qed

text \<open>A site that answers the control but not the test.\<close>

definition example_network :: network where
  "example_network =
    \<lparr>nw_dns = (\<lambda>_ _. (new TimeoutError, \<lparr>rtt = 0, error_code = 0, answers = [], queries = []\<rparr>)),
     nw_ends = map (\<lambda>s. (s, new TimeoutError)), nw_http = (\<lambda>_ _. (new TimeoutError, [])),
     nw_control = (\<lambda>_ _ _. (new NoError, []))\<rparr>"

definition example_libs :: libs where
  "example_libs =
    \<lparr>lb_pton = \<lparr>pton4 = (\<lambda>_. Some [1, 2, 3, 4]), pton6 = (\<lambda>_. None)\<rparr>,
     lb_geoip = \<lparr>gl_opens = (\<lambda>_. False), gl_country_code = (\<lambda>_ _. None), gl_country_name = (\<lambda>_ _. None),
       gl_city = (\<lambda>_ _. None), gl_name = (\<lambda>_ _. None)\<rparr>,
     lb_parse = (\<lambda>_. Some (JObject
       [(''http_request'', JObject [(''failure'', JNull)]), (''dns'', JObject [(''addrs'', JArray [JString ''1.2.3.4''])]),
        (''tcp_connect'', JObject [(''1.2.3.4:80'', JObject [(''status'', JBool True)])])])),
     lb_dump = (\<lambda>j. case j of JInt i \<Rightarrow> int_dec i | _ \<Rightarrow> []), lb_uninit = []\<rparr>"

theorem website_verdict_witness:
  "case web_connectivity example_libs example_network ''1.2.3.4'' Map.empty \<lparr>gd_path = [], gd_open = False\<rparr> of
     Some (Inr (JObject ms)) \<Rightarrow> map_of ms ''blocking'' = Some (JString ''tcp_ip'') \<and> blamed (lb_dump example_libs) ms
   | _ \<Rightarrow> False"
proof -
  let ?r = "web_connectivity example_libs example_network ''1.2.3.4'' Map.empty \<lparr>gd_path = [], gd_open = False\<rparr>"
  have "case ?r of Some (Inr (JObject ms)) \<Rightarrow> map_of ms ''blocking'' = Some (JString ''tcp_ip'') | _ \<Rightarrow> False"
    by code_simp
  then obtain ms where ms: "?r = Some (Inr (JObject ms))" "map_of ms ''blocking'' = Some (JString ''tcp_ip'')"
    by (simp split: option.splits sum.splits json.splits)
  from website_verdict [OF ms(1)] ms(2) have "blamed (lb_dump example_libs) ms"
    by auto
  with ms show ?thesis
    by simp
qed

text \<open>C34: For bodies of less than 5592406 bytes the comparison of single-precision quotients with the constant
  is exact: the lengths match when they are equal or the smaller one is more than seven tenths of the larger.\<close>

theorem body_length_exact:
  assumes "0 < m" "0 < n" "m \<le> 5592405" "n \<le> 5592405"
  shows "single_greater (body_proportion (int m) (int n)) BODY_PROPORTION_FACTOR \<longleftrightarrow>
    m = n \<or> 10 * min m n > 7 * max m n"
proof -
  have eq: "single_greater (False, 2 ^ 23, - 23) BODY_PROPORTION_FACTOR"
    by (simp add: single_greater_def BODY_PROPORTION_FACTOR_def)
  consider "m = n" | "m < n" | "n < m"
    by linarith
  then show ?thesis
  proof cases
    case 1
    with eq show ?thesis
      by (simp add: body_proportion_def)
  next
    case 2
    with quotient_greater [of m n] assms show ?thesis
      by (simp add: body_proportion_def)
  next
    case 3
    with quotient_greater [of n m] assms show ?thesis
      by (simp add: body_proportion_def)
  qed
qed

theorem body_length_exact_witness:
  "\<not> single_greater (body_proportion 7 10) BODY_PROPORTION_FACTOR
    \<and> single_greater (body_proportion 5592405 3914684) BODY_PROPORTION_FACTOR"
  using body_length_exact [of 7 10] body_length_exact [of 5592405 3914684] by simp

text \<open>When the control knows all the connections of the test, each result is marked as blocked exactly when the
  connection failed and the control could make it, and the comparison succeeds exactly when none is.\<close>

theorem known_connections_marked:
  assumes "map_of ms ''tcp_connect'' = Some (JArray (map result_of cs))"
    and "\<And>c. c \<in> set cs \<Longrightarrow> control_says cms (socket_of js_dump c) (up_at (socket_of js_dump c))"
  shows "compare_tcp_connect js_dump (JObject cms) (JObject ms) =
    Inr (list_all (\<lambda>c. \<not> (up_at (socket_of js_dump c) \<and> is_err (snd c))) cs,
      JObject (members_put ''tcp_connect'' (JArray (map (marked_result up_at js_dump) cs)) ms))"
  by (rule compare_tcp_connect_known [OF assms])

theorem known_connections_marked_witness:
  "let cms = [(''a:80'', JObject [(''status'', JBool True)]), (''b:80'', JObject [(''status'', JBool True)])];
     cs = [((''a'', 80), new NoError), ((''b'', 80), new TimeoutError)]
   in compare_tcp_connect (\<lambda>_. ''80'') (JObject cms) (JObject [(''tcp_connect'', JArray (map result_of cs))])
      = Inr (False, JObject [(''tcp_connect'', JArray (map (marked_result (\<lambda>_. True) (\<lambda>_. ''80'')) cs))])"
proof -
  define cms :: "(string \<times> json) list" where
    "cms = [(''a:80'', JObject [(''status'', JBool True)]), (''b:80'', JObject [(''status'', JBool True)])]"
  define cs :: "((string \<times> int) \<times> error) list" where "cs = [((''a'', 80), new NoError), ((''b'', 80), new TimeoutError)]"
  let ?ms = "[(''tcp_connect'', JArray (map result_of cs))]"
  have "compare_tcp_connect (\<lambda>_. ''80'') (JObject cms) (JObject ?ms) =
    Inr (list_all (\<lambda>c. \<not> (True \<and> is_err (snd c))) cs,
      JObject (members_put ''tcp_connect'' (JArray (map (marked_result (\<lambda>_. True) (\<lambda>_. ''80'')) cs)) ?ms))"
  proof (rule known_connections_marked)
    fix c
    assume "c \<in> set cs"
    then have "fst (fst c) = ''a'' \<or> fst (fst c) = ''b''"
      unfolding cs_def by auto
    then show "control_says cms (fst (fst c) @ '':'' @ ''80'') True"
      by (auto simp: control_says_def cms_def)
  qed simp
  moreover have "\<not> list_all (\<lambda>c. \<not> (True \<and> is_err (snd c))) cs"
    by (simp add: cs_def is_err_def TimeoutError_def)
  ultimately show ?thesis
    by (simp add: Let_def cms_def cs_def)
qed

text \<open>C27: Once all the connections of the test have ended, in whatever order and with whatever errors, there is one
  result for each, in this order, and the test is called back once, last.\<close>

theorem connections_call_back_once:
  assumes "map_of ms ''tcp_connect'' = Some (JArray [])" "length ends = length sockets"
  shows "\<exists>acts. experiment_tcp_connect sockets ends (JObject ms) =
      Inr (acts, JObject (members_put ''tcp_connect'' (JArray (map result_of ends)) ms))
    \<and> length (filter calls_back acts) = 1 \<and> calls_back (last acts)"
  by (rule connections_call_back [OF assms])

theorem connections_call_back_once_witness:
  "\<exists>acts. experiment_tcp_connect [(''a'', 1), (''b'', 2)] [((''b'', 2), new NoError), ((''a'', 1), new TimeoutError)]
      (JObject [(''tcp_connect'', JArray [])]) =
      Inr (acts, JObject [(''tcp_connect'', JArray [tcp_result ''b'' 2 (new NoError), tcp_result ''a'' 1 (new TimeoutError)])])
    \<and> length (filter calls_back acts) = 1 \<and> calls_back (last acts)"
  using connections_call_back_once [of "[(''tcp_connect'', JArray [])]" "[((''b'', 2), new NoError), ((''a'', 1), new TimeoutError)]"
    "[(''a'', 1), (''b'', 2)]"] by simp

end
