(* ===== verification/Mlabns.thy ===== *)
theory Mlabns
  imports Bouncer EntryState
begin

text \<open>
  \<open>mlabns/mlabns\_impl.hpp\<close>: the service that names a server of Measurement Lab for a tool.  The query is made
  from the options of the caller; the request itself (\<open>http::request\_json\_no\_body\<close>) is an argument.
\<close>

section \<open>Errors\<close>

definition InvalidPolicyError :: error_class where
  "InvalidPolicyError = (MK_ERR_MLABNS 0, ''mlabns_invalid_policy'')"
definition InvalidAddressFamilyError :: error_class where
  "InvalidAddressFamilyError = (MK_ERR_MLABNS 1, ''mlabns_invalid_address_family'')"
definition InvalidMetroError :: error_class where
  "InvalidMetroError = (MK_ERR_MLABNS 2, ''mlabns_invalid_metro'')"
definition InvalidToolNameError :: error_class where
  "InvalidToolNameError = (MK_ERR_MLABNS 3, ''mlabns_invalid_tool'')"
definition InvalidCountryError :: error_class where
  "InvalidCountryError = (MK_ERR_MLABNS 4, ''mlabns_invalid_country'')"

lemmas mlabns_error_defs [err_simps] =
  InvalidPolicyError_def InvalidAddressFamilyError_def InvalidMetroError_def InvalidToolNameError_def
  InvalidCountryError_def

section \<open>The query\<close>

definition is_lower :: "char \<Rightarrow> bool" where
  "is_lower c \<longleftrightarrow> (of_char c :: nat) \<in> {97..122}"

definition is_upper :: "char \<Rightarrow> bool" where
  "is_upper c \<longleftrightarrow> (of_char c :: nat) \<in> {65..90}"

text \<open>One option: left out if it is empty, else checked and added behind an ampersand.\<close>

definition add_parameter ::
    "string \<Rightarrow> (string \<Rightarrow> bool) \<Rightarrow> error_class \<Rightarrow> string \<Rightarrow> error + string \<Rightarrow> error + string" where
  "add_parameter key ok_value err v r =
    (case r of
       Inl e \<Rightarrow> Inl e
     | Inr q \<Rightarrow>
        if v = [] then Inr q
        else if \<not> ok_value v then Inl (new err)
        else Inr ((if q \<noteq> [] then q @ ''&'' else q) @ key @ ''='' @ v))"

definition as_query :: "settings \<Rightarrow> string error_or" where
  "as_query settings =
    (let policy = settings_get_str settings ''mlabns/policy'' [];
         country = settings_get_str settings ''mlabns/country'' [];
         metro = settings_get_str settings ''mlabns/metro'' [];
         address_family = settings_get_str settings ''mlabns/address_family'' []
     in if policy = [] \<and> metro = [] \<and> address_family = [] then no_err []
        else case add_parameter ''address_family'' (\<lambda>v. v \<in> {''ipv4'', ''ipv6''}) InvalidAddressFamilyError address_family
             (add_parameter ''metro'' (\<lambda>v. length v = 3 \<and> list_all is_lower v) InvalidMetroError metro
             (add_parameter ''country'' (\<lambda>v. length v = 2 \<and> list_all is_upper v) InvalidCountryError country
             (add_parameter ''policy'' (\<lambda>v. v \<in> {''geo'', ''random'', ''metro'', ''country''}) InvalidPolicyError policy
               (Inr [])))) of
               Inl e \<Rightarrow> (e, [])
             | Inr q \<Rightarrow> no_err (CHR ''?'' # q))"

text \<open>The error that is called back before any request, or the URL.\<close>

definition mlabns_url :: "string \<Rightarrow> settings \<Rightarrow> error + string" where
  "mlabns_url tool settings =
    (let q = as_query settings in
     if \<not> has_value q then Inl (as_error q)
     else if tool = [] \<or> \<not> list_all is_lower tool then Inl (new InvalidToolNameError)
     else Inr (settings_get_str settings ''mlabns/base_url'' ''https://mlab-ns.appspot.com/'' @ tool @ snd q))"

section \<open>The reply\<close>

record mlabns_reply =
  mr_city :: string
  mr_url :: string
  mr_ip :: "string list"
  mr_fqdn :: string
  mr_site :: string
  mr_country :: string

definition mlabns_reply_empty :: mlabns_reply where
  "mlabns_reply_empty = \<lparr>mr_city = [], mr_url = [], mr_ip = [], mr_fqdn = [], mr_site = [], mr_country = []\<rparr>"

text \<open>The members are read one after the other; the first that throws ends it, and what was read stays.\<close>

type_synonym reading = "exn option \<times> mlabns_reply"

definition read_member :: "json \<Rightarrow> string \<Rightarrow> (string \<Rightarrow> mlabns_reply \<Rightarrow> mlabns_reply) \<Rightarrow> reading \<Rightarrow> reading" where
  "read_member j k upd r =
    (case fst r of
       Some e \<Rightarrow> r
     | None \<Rightarrow> (case bind_res (json_at_key k j) json_string of Inl e \<Rightarrow> (Some e, snd r) | Inr s \<Rightarrow> (None, upd s (snd r))))"

fun read_ips :: "json list \<Rightarrow> mlabns_reply \<Rightarrow> reading" where
  "read_ips [] reply = (None, reply)"
| "read_ips (x # xs) reply =
    (case json_string x of Inl e \<Rightarrow> (Some e, reply) | Inr s \<Rightarrow> read_ips xs (reply\<lparr>mr_ip := mr_ip reply @ [s]\<rparr>))"

definition read_ip :: "json \<Rightarrow> reading \<Rightarrow> reading" where
  "read_ip j r =
    (case fst r of
       Some e \<Rightarrow> r
     | None \<Rightarrow> (case json_at_key ''ip'' j of Inl e \<Rightarrow> (Some e, snd r) | Inr xs \<Rightarrow> read_ips (json_items xs) (snd r)))"

definition read_reply :: "json \<Rightarrow> reading" where
  "read_reply j =
    read_member j ''country'' (\<lambda>s. mr_country_update (\<lambda>_. s))
      (read_member j ''site'' (\<lambda>s. mr_site_update (\<lambda>_. s))
      (read_member j ''fqdn'' (\<lambda>s. mr_fqdn_update (\<lambda>_. s))
      (read_ip j
      (read_member j ''url'' (\<lambda>s. mr_url_update (\<lambda>_. s))
      (read_member j ''city'' (\<lambda>s. mr_city_update (\<lambda>_. s)) (None, mlabns_reply_empty))))))"

text \<open>What the callback of the request gives the caller.\<close>

definition mlabns_done :: "error \<Rightarrow> json \<Rightarrow> error \<times> mlabns_reply" where
  "mlabns_done err j =
    (if is_err err then (err, mlabns_reply_empty)
     else let (e, reply) = read_reply j in
       (case e of None \<Rightarrow> new NoError | Some e \<Rightarrow> json_error e, reply))"

text \<open>\<open>mlabns::query\<close>; the request is a function of the URL.\<close>

definition mlabns_query :: "(string \<Rightarrow> error \<times> json) \<Rightarrow> string \<Rightarrow> settings \<Rightarrow> error \<times> mlabns_reply" where
  "mlabns_query request tool settings =
    (case mlabns_url tool settings of
       Inl e \<Rightarrow> (e, mlabns_reply_empty)
     | Inr url \<Rightarrow> let (err, j) = request url in mlabns_done err j)"

section \<open>Lemmas\<close>

text \<open>The characters that a query is made of.\<close>

definition query_char :: "char \<Rightarrow> bool" where
  "query_char c \<longleftrightarrow> is_lower c \<or> is_upper c \<or> c \<in> set ''0123456789_&=''"

lemma add_parameter_clean:
  assumes "\<And>q. r = Inr q \<Longrightarrow> list_all query_char q" "list_all query_char key"
    "\<And>v. v \<noteq> [] \<Longrightarrow> ok_value v \<Longrightarrow> list_all query_char v" "add_parameter key ok_value err v r = Inr q"
  shows "list_all query_char q"
proof -
  obtain q0 where q0: "r = Inr q0" "list_all query_char q0"
    using assms(1,4) by (cases r) (auto simp: add_parameter_def)
  have amp: "list_all query_char ''&''" "list_all query_char ''=''"
    by (simp_all add: query_char_def)
  show ?thesis
    using assms(2,3,4) q0 amp by (auto simp: add_parameter_def split: if_splits)
qed

lemma letters_clean: "list_all is_lower v \<Longrightarrow> list_all query_char v" "list_all is_upper v \<Longrightarrow> list_all query_char v"
  by (auto simp: list_all_iff query_char_def)

lemma keys_clean:
  "list_all query_char ''policy''" "list_all query_char ''country''" "list_all query_char ''metro''"
  "list_all query_char ''address_family''" "list_all query_char ''geo''" "list_all query_char ''random''"
  "list_all query_char ''ipv4''" "list_all query_char ''ipv6''"
  by (simp_all add: query_char_def is_lower_def)

lemma as_query_clean:
  assumes "as_query settings = (e, q)" "q \<noteq> []"
  shows "\<exists>q'. q = CHR ''?'' # q' \<and> list_all query_char q'"
proof -
  let ?p = "add_parameter ''policy'' (\<lambda>v. v \<in> {''geo'', ''random'', ''metro'', ''country''}) InvalidPolicyError
    (settings_get_str settings ''mlabns/policy'' []) (Inr [])"
  let ?c = "add_parameter ''country'' (\<lambda>v. length v = 2 \<and> list_all is_upper v) InvalidCountryError
    (settings_get_str settings ''mlabns/country'' []) ?p"
  let ?m = "add_parameter ''metro'' (\<lambda>v. length v = 3 \<and> list_all is_lower v) InvalidMetroError
    (settings_get_str settings ''mlabns/metro'' []) ?c"
  let ?a = "add_parameter ''address_family'' (\<lambda>v. v \<in> {''ipv4'', ''ipv6''}) InvalidAddressFamilyError
    (settings_get_str settings ''mlabns/address_family'' []) ?m"
  have p: "list_all query_char q" if "?p = Inr q" for q
    by (rule add_parameter_clean [OF _ _ _ that]) (use keys_clean in auto)
  have c: "list_all query_char q" if "?c = Inr q" for q
    by (rule add_parameter_clean [OF p _ _ that]) (use keys_clean letters_clean in auto)
  have m: "list_all query_char q" if "?m = Inr q" for q
    by (rule add_parameter_clean [OF c _ _ that]) (use keys_clean letters_clean in auto)
  have a: "list_all query_char q" if "?a = Inr q" for q
    by (rule add_parameter_clean [OF m _ _ that]) (use keys_clean in auto)
  show ?thesis
    using assms a by (cases ?a) (auto simp: as_query_def Let_def no_err_def split: if_splits)
qed

text \<open>A country alone is ignored.\<close>

lemma country_alone_ignored: "as_query [''mlabns/country'' \<mapsto> ''IT''] = no_err []"
  by (simp add: as_query_def settings_get_str_def)

end
