(* ===== verification/Dash.thy ===== *)
theory Dash
  imports Http EntryState Mlabns
begin

text \<open>
  The DASH streaming test of Neubot (\<open>neubot/dash\_impl.hpp\<close>, \<open>neubot/dash.cpp\<close>): the negotiation with a server, the
  loop that downloads chunks at a rate that follows the speed measured, the summary and the delivery of the
  results; with the percentiles of \<open>common/utils.cpp\<close>.  Times and speeds, which the code keeps as \<open>double\<close>, are rational
  numbers.  What the servers answer, and when, is an argument.
\<close>

section \<open>Errors and rates\<close>

definition MiddleboxDetectedError :: error_class where
  "MiddleboxDetectedError = (MK_ERR_NEUBOT 0, ''middlebox_detected_error'')"

declare MiddleboxDetectedError_def [err_simps]

definition dash_rates :: "int list" where
  "dash_rates =
    [100, 150, 200, 250, 300, 400, 500, 700, 900, 1200, 1500, 2000, 2500, 3000, 4000, 5000, 6000, 7000, 10000, 20000,
     30000, 40000, 50000]"

text \<open>The loop reads the rate before it looks whether there is one; \<open>beyond\<close> is what it reads behind the last.\<close>

function rate_loop :: "int \<Rightarrow> int \<Rightarrow> nat \<Rightarrow> nat" where
  "rate_loop beyond speed_kbit i =
    (if (if i < length dash_rates then dash_rates ! i else beyond) < speed_kbit \<and> i < length dash_rates
     then rate_loop beyond speed_kbit (i + 1) else i)"
  by pat_completeness auto

termination rate_loop
  by (relation "measure (\<lambda>(b, s, i). length dash_rates - i)") auto

declare rate_loop.simps [simp del]

definition select_lower_rate_index :: "int \<Rightarrow> int \<Rightarrow> nat" where
  "select_lower_rate_index beyond speed_kbit =
    (let i = rate_loop beyond speed_kbit 0 in if i > 0 then i - 1 else i)"

section \<open>Percentiles\<close>

definition percentile :: "rat list \<Rightarrow> rat \<Rightarrow> rat res" where
  "percentile v percent =
    (if v = [] then Inl (RuntimeError ''zero length vector'')
     else let v = sort v; pivot = of_nat (length v - 1) * percent; lo = \<lfloor>pivot\<rfloor>; hi = \<lceil>pivot\<rceil> in
       Inr (if lo = hi then v ! nat lo
            else v ! nat lo * (of_int hi - pivot) + v ! nat hi * (pivot - of_int lo)))"

definition median :: "rat list \<Rightarrow> rat res" where
  "median v = percentile v (1 / 2)"

section \<open>Options\<close>

record dash_options =
  do_fast_scale_down :: bool
  do_constant_bitrate :: int
  do_use_fixed_rates :: bool
  do_elapsed_target :: int
  do_max_iterations :: int
  do_initial_rate :: int

definition natural_option :: "settings \<Rightarrow> string \<Rightarrow> int \<Rightarrow> error + int" where
  "natural_option settings key def_value =
    (let v = settings_get_int_noexcept settings key def_value in
     if \<not> has_value v \<or> snd v < 0 then Inl (new ValueError) else Inr (snd v))"

definition bool_option :: "settings \<Rightarrow> string \<Rightarrow> error + bool" where
  "bool_option settings key =
    (let v = settings_get_bool_noexcept settings key False in
     if \<not> has_value v then Inl (as_error v) else Inr (snd v))"

definition or_else :: "error + 'a \<Rightarrow> ('a \<Rightarrow> error + 'b) \<Rightarrow> error + 'b" where
  "or_else r f = (case r of Inl e \<Rightarrow> Inl e | Inr x \<Rightarrow> f x)"

definition read_options :: "settings \<Rightarrow> error + dash_options" where
  "read_options settings =
    or_else (bool_option settings ''fast_scale_down'') (\<lambda>fast.
    or_else (natural_option settings ''constant_bitrate'' 0) (\<lambda>bitrate.
    or_else (bool_option settings ''use_fixed_rates'') (\<lambda>fixed.
    or_else (natural_option settings ''elapsed_target'' 2) (\<lambda>elapsed.
    or_else (natural_option settings ''max_iteration'' 15) (\<lambda>max_it.
    or_else (natural_option settings ''initial_rate'' 3000) (\<lambda>initial.
    Inr \<lparr>do_fast_scale_down = fast, do_constant_bitrate = bitrate, do_use_fixed_rates = fixed,
      do_elapsed_target = elapsed, do_max_iterations = max_it, do_initial_rate = initial\<rparr>))))))"

section \<open>One chunk\<close>

text \<open>What a chunk adds to the results; the members that are the same for all chunks are added by \<open>chunk\_json\<close>.\<close>

record chunk =
  ck_connect_time :: rat
  ck_elapsed :: rat
  ck_elapsed_target :: int
  ck_iteration :: int
  ck_rate :: int
  ck_received :: nat
  ck_request_ticks :: rat

record dash_loop =
  dl_speed_kbit :: int
  dl_iteration :: int
  dl_data :: "chunk list"
  dl_summary :: "(string \<times> rat) list"

definition dash_loop_init :: dash_loop where
  "dash_loop_init = \<lparr>dl_speed_kbit = - 1, dl_iteration = 1, dl_data = [], dl_summary = []\<rparr>"

definition start_speed :: "dash_options \<Rightarrow> int \<Rightarrow> int" where
  "start_speed opts speed_kbit =
    (if speed_kbit < 0 then if do_use_fixed_rates opts then dash_rates ! 0 else do_initial_rate opts else speed_kbit)"

definition rate_of :: "dash_options \<Rightarrow> int \<Rightarrow> int \<Rightarrow> int" where
  "rate_of opts beyond speed_kbit =
    (if do_use_fixed_rates opts then dash_rates ! select_lower_rate_index beyond speed_kbit
     else if do_constant_bitrate opts > 0 then do_constant_bitrate opts else speed_kbit)"

text \<open>The arithmetic of \<open>int\<close>, where the product may overflow.\<close>

definition byte_count :: "int \<Rightarrow> int \<Rightarrow> int" where
  "byte_count rate_kbit elapsed_target =
    (let bits = signed_take_bit 31 (rate_kbit * 1000); bytes = (if bits < 0 then - (- bits div 8) else bits div 8) in
     signed_take_bit 31 (bytes * elapsed_target))"

definition chunk_path :: "int \<Rightarrow> int \<Rightarrow> string" where
  "chunk_path rate_kbit elapsed_target = ''/dash/download/'' @ int_dec (byte_count rate_kbit elapsed_target)"

text \<open>The new speed: the one that was measured, or, on demand, a smaller one after a chunk that was late; with a
  target of zero the quotient is infinite, and its product with a speed of zero no number.  The conversion to \<open>int\<close> is
  not defined for large values and for no number; the least one stands for them.\<close>

definition measured_speed :: "rat \<Rightarrow> nat \<Rightarrow> rat" where
  "measured_speed elapsed received = of_nat received / elapsed * 8 / 1000"

definition to_int :: "rat \<Rightarrow> int" where
  "to_int r = (if int_range \<lfloor>r\<rfloor> then \<lfloor>r\<rfloor> else INT_MIN)"

definition next_speed :: "dash_options \<Rightarrow> rat \<Rightarrow> nat \<Rightarrow> int" where
  "next_speed opts elapsed received =
    (let s_k = measured_speed elapsed received; target = of_int (do_elapsed_target opts) in
     if do_fast_scale_down opts \<and> elapsed > target
     then if target = 0 then if s_k = 0 then INT_MIN else dash_rates ! 0
          else let s_k = s_k * (1 - elapsed / target) in to_int (if s_k \<le> 0 then of_int (dash_rates ! 0) else s_k)
     else to_int s_k)"

text \<open>The server: the error of sending, the response or the error of receiving it, and the times before and after.\<close>

record exchange =
  ex_sent :: error
  ex_received :: "error \<times> response"
  ex_before :: rat
  ex_after :: rat
  ex_connect_time :: rat

text \<open>What a chunk leaves in the context.\<close>

definition chunk_added :: "dash_options \<Rightarrow> int \<Rightarrow> exchange \<Rightarrow> dash_loop \<Rightarrow> dash_loop" where
  "chunk_added opts rate_kbit ex l =
    (let res = snd (ex_received ex); elapsed = ex_after ex - ex_before ex in
     l\<lparr>dl_speed_kbit := next_speed opts elapsed (length (rs_body res)), dl_iteration := dl_iteration l + 1,
       dl_data := dl_data l @
         [\<lparr>ck_connect_time = ex_connect_time ex, ck_elapsed = elapsed, ck_elapsed_target = do_elapsed_target opts,
           ck_iteration = dl_iteration l, ck_rate = rate_kbit, ck_received = length (rs_body res),
           ck_request_ticks = ex_before ex\<rparr>]\<rparr>)"

section \<open>The summary\<close>

fun connect_latency :: "chunk list \<Rightarrow> rat \<Rightarrow> rat" where
  "connect_latency [] c = c"
| "connect_latency (e # es) c = connect_latency es (if c = 0 then ck_connect_time e else c)"

fun stalls :: "chunk list \<Rightarrow> rat \<Rightarrow> rat \<Rightarrow> rat list" where
  "stalls [] ready play = []"
| "stalls (e # es) ready play =
    (let ready = ready + ck_elapsed e;
         play = play + (if play = 0 then ready else of_int (ck_elapsed_target e))
     in (ready - play) # stalls es ready play)"

definition min_playout_delay :: "chunk list \<Rightarrow> rat" where
  "min_playout_delay es = (let ss = stalls es 0 0 in if ss = [] then 0 else Max (set ss))"

text \<open>Without chunks the median throws, after the latency was set.\<close>

definition dash_summary :: "chunk list \<Rightarrow> (string \<times> rat) list" where
  "dash_summary es =
    (''connect_latency'', connect_latency es 0)
    # (case median (map (\<lambda>e. of_int (ck_rate e)) es) of
         Inl e \<Rightarrow> []
       | Inr m \<Rightarrow> [(''median_bitrate'', m), (''min_playout_delay'', min_playout_delay es)])"

section \<open>The loop\<close>

text \<open>The server answers a request for a path in an iteration.  The loop does not return a result: each of its exits
  calls the callback of the context, which does something to the world, and then returns.\<close>

function run_loop ::
    "settings \<Rightarrow> int \<Rightarrow> (int \<Rightarrow> string \<Rightarrow> exchange) \<Rightarrow> (error \<Rightarrow> dash_loop \<Rightarrow> 'w \<Rightarrow> 'w) \<Rightarrow> dash_loop \<Rightarrow> 'w \<Rightarrow> 'w" where
  "run_loop settings beyond server cb l w =
    (case read_options settings of
       Inl e \<Rightarrow> cb e l w
     | Inr opts \<Rightarrow>
        if dl_iteration l > do_max_iterations opts then cb (new NoError) (l\<lparr>dl_summary := dash_summary (dl_data l)\<rparr>) w
        else
          let speed = start_speed opts (dl_speed_kbit l); l = l\<lparr>dl_speed_kbit := speed\<rparr>;
              rate_kbit = rate_of opts beyond speed;
              ex = server (dl_iteration l) (chunk_path rate_kbit (do_elapsed_target opts))
          in if is_err (ex_sent ex) then cb (ex_sent ex) l w
             else if is_err (fst (ex_received ex)) then cb (fst (ex_received ex)) l w
             else if rs_status (snd (ex_received ex)) \<noteq> 200 then cb (new HttpRequestFailedError) l w
             else if headers_find ''connection'' (rs_headers (snd (ex_received ex))) = Some ''close''
               then cb (new MiddleboxDetectedError) l w
             else if ex_after ex - ex_before ex \<le> 0 then cb (new_s GenericError ''negative_time_error'') l w
             else run_loop settings beyond server cb (chunk_added opts rate_kbit ex l) w)"
  by pat_completeness auto

lemma chunk_added_iteration: "dl_iteration (chunk_added opts r ex l) = dl_iteration l + 1"
  by (simp add: chunk_added_def Let_def)

termination run_loop
  by (relation "measure (\<lambda>(settings, b, s, cb, l, w). case read_options settings of
      Inl _ \<Rightarrow> 0 | Inr opts \<Rightarrow> nat (do_max_iterations opts + 1 - dl_iteration l))")
    (auto simp: chunk_added_iteration)

declare run_loop.simps [simp del]

section \<open>Negotiation\<close>

text \<open>What is said on one connection: a request with its path, its token and its body.\<close>

type_synonym sendrecv = "string \<Rightarrow> string \<Rightarrow> string \<Rightarrow> error \<times> response"

definition negotiate_reply :: "(string \<Rightarrow> json option) \<Rightarrow> string \<Rightarrow> error + (string \<times> string \<times> int)" where
  "negotiate_reply parse body =
    (case parse body of
       None \<Rightarrow> Inl (new JsonParseError)
     | Some j \<Rightarrow>
        (case bind_res (bind_res (json_at_key ''authorization'' j) json_string) (\<lambda>auth.
              bind_res (bind_res (json_at_key ''queue_pos'' j) json_int) (\<lambda>queue_pos.
              bind_res (bind_res (json_at_key ''real_address'' j) json_string) (\<lambda>real_address.
              bind_res (bind_res (json_at_key ''unchoked'' j) json_int) (\<lambda>unchoked.
              Inr (auth, real_address, unchoked))))) of
           Inl e \<Rightarrow> Inl (json_error e)
         | Inr r \<Rightarrow> Inr r))"

definition MAX_NEGOTIATIONS :: nat where
  "MAX_NEGOTIATIONS = 512"

text \<open>The server answers the request of an iteration; each exit calls back.\<close>

function negotiate_loop ::
    "(string \<Rightarrow> json option) \<Rightarrow> string \<Rightarrow> (nat \<Rightarrow> sendrecv) \<Rightarrow> (error \<Rightarrow> string \<Rightarrow> string \<Rightarrow> 'w \<Rightarrow> 'w)
      \<Rightarrow> nat \<Rightarrow> string \<Rightarrow> 'w \<Rightarrow> 'w" where
  "negotiate_loop parse body server cb iteration auth_token w =
    (if iteration > MAX_NEGOTIATIONS then cb (new_s GenericError ''too_many_negotiations'') [] [] w
     else let (err, res) = server iteration ''/negotiate/dash'' auth_token body in
       if is_err err then cb err [] [] w
       else if rs_status res \<noteq> 200 then cb (new HttpRequestFailedError) [] [] w
       else case negotiate_reply parse (rs_body res) of
              Inl e \<Rightarrow> cb e [] [] w
            | Inr (auth, real_address, unchoked) \<Rightarrow>
                if unchoked = 0 then negotiate_loop parse body server cb (iteration + 1) auth w
                else cb (new NoError) auth real_address w)"
  by pat_completeness auto

termination negotiate_loop
  by (relation "measure (\<lambda>(p, b, s, cb, i, a, w). MAX_NEGOTIATIONS + 1 - i)") auto

declare negotiate_loop.simps [simp del]

section \<open>The test\<close>

text \<open>The constants of a run: how a \<open>double\<close> is written, and the members that are the same for all chunks.\<close>

record dash_env =
  de_double :: "rat \<Rightarrow> double"
  de_round :: "rat \<Rightarrow> int"
  de_version :: string
  de_platform :: string
  de_uuid :: string
  de_internal_address :: string
  de_remote_address :: string
  de_parse :: "string \<Rightarrow> json option"
  de_dump :: "json \<Rightarrow> string"
  de_beyond :: int

definition chunk_json :: "dash_env \<Rightarrow> dash_options \<Rightarrow> string \<Rightarrow> chunk \<Rightarrow> json" where
  "chunk_json env opts real_address c =
    JObject
      [(''connect_time'', JFloat (de_double env (ck_connect_time c))),
       (''constant_bitrate'', JBool (do_constant_bitrate opts \<noteq> 0)),
       (''delta_user_time'', JFloat 0), (''delta_sys_time'', JFloat 0),
       (''elapsed'', JFloat (de_double env (ck_elapsed c))),
       (''elapsed_target'', JInt (ck_elapsed_target c)),
       (''engine_name'', JString ''libmeasurement_kit''), (''engine_version'', JString (de_version env)),
       (''fast_scale_down'', JBool (do_fast_scale_down opts)),
       (''internal_address'', JString (de_internal_address env)),
       (''iteration'', JInt (ck_iteration c)), (''platform'', JString (de_platform env)),
       (''rate'', JInt (ck_rate c)), (''real_address'', JString real_address),
       (''received'', JInt (int (ck_received c))), (''remote_address'', JString (de_remote_address env)),
       (''request_ticks'', JFloat (de_double env (ck_request_ticks c))),
       (''timestamp'', JInt (de_round env (ck_request_ticks c))),
       (''use_fixed_rates'', JBool (do_use_fixed_rates opts)), (''uuid'', JString (de_uuid env)),
       (''version'', JString ''0.007000000'')]"

text \<open>What happens to the connections of a test: one for the negotiation and one for the download.\<close>

datatype connection = Negotiation | Download

datatype dash_event = Opened connection | Closed connection | Called error

text \<open>The servers: how the connections come about, and what they answer.\<close>

record dash_servers =
  ds_connect :: "connection \<Rightarrow> string \<Rightarrow> error"
  ds_negotiate :: "nat \<Rightarrow> sendrecv"
  ds_download :: "string \<Rightarrow> int \<Rightarrow> string \<Rightarrow> exchange"
  ds_collect :: sendrecv

text \<open>What the callbacks change: the events so far and the results in the entry.\<close>

record dash_world =
  dw_events :: "dash_event list"
  dw_receiver :: "chunk list"
  dw_summary :: "(string \<times> rat) list"
  dw_sender :: "json option"

definition dash_start :: dash_world where
  "dash_start = \<lparr>dw_events = [], dw_receiver = [], dw_summary = [], dw_sender = None\<rparr>"

definition happens :: "dash_event \<Rightarrow> dash_world \<Rightarrow> dash_world" where
  "happens ev w = w\<lparr>dw_events := dw_events w @ [ev]\<rparr>"

type_synonym callback = "error \<Rightarrow> dash_world \<Rightarrow> dash_world"

text \<open>The callback of the context closes the connection before it goes on.\<close>

definition loop_ended :: "callback \<Rightarrow> error \<Rightarrow> dash_loop \<Rightarrow> dash_world \<Rightarrow> dash_world" where
  "loop_ended cb err l w =
    (let w = w\<lparr>dw_receiver := dl_data l, dw_summary := dl_summary l\<rparr> in cb err (happens (Closed Download) w))"

definition run_impl :: "dash_env \<Rightarrow> dash_servers \<Rightarrow> settings \<Rightarrow> string \<Rightarrow> string \<Rightarrow> callback \<Rightarrow> dash_world \<Rightarrow> dash_world" where
  "run_impl env sv settings url auth_token cb w =
    (let err = ds_connect sv Download url in
     if is_err err then cb err w
     else run_loop settings (de_beyond env) (ds_download sv auth_token) (loop_ended cb) dash_loop_init
       (happens (Opened Download) w))"

definition receiver_data :: "dash_env \<Rightarrow> settings \<Rightarrow> string \<Rightarrow> chunk list \<Rightarrow> json" where
  "receiver_data env settings real_address es =
    (case read_options settings of
       Inl _ \<Rightarrow> JNull
     | Inr opts \<Rightarrow> if es = [] then JNull else JArray (map (chunk_json env opts real_address) es))"

definition collect ::
    "dash_env \<Rightarrow> sendrecv \<Rightarrow> settings \<Rightarrow> string \<Rightarrow> string \<Rightarrow> callback \<Rightarrow> dash_world \<Rightarrow> dash_world" where
  "collect env server settings auth real_address cb w =
    (let (err, res) = server ''/collect/dash'' auth (de_dump env (receiver_data env settings real_address (dw_receiver w)))
     in if is_err err then cb err w
        else if rs_status res \<noteq> 200 then cb (new HttpRequestFailedError) w
        else case de_parse env (rs_body res) of
               None \<Rightarrow> cb (new JsonParseError) w
             | Some j \<Rightarrow> cb (new NoError) (w\<lparr>dw_sender := Some j\<rparr>))"

text \<open>The callbacks of a negotiation that has a connection: of the collection, of the test and of the loop.\<close>

definition collected :: "callback \<Rightarrow> callback" where
  "collected cb err w = cb err (happens (Closed Negotiation) w)"

definition tested ::
    "dash_env \<Rightarrow> dash_servers \<Rightarrow> settings \<Rightarrow> string \<Rightarrow> string \<Rightarrow> callback \<Rightarrow> callback" where
  "tested env sv settings auth real_address cb err w =
    collect env (ds_collect sv) settings auth real_address (collected cb) w"

definition negotiated ::
    "dash_env \<Rightarrow> dash_servers \<Rightarrow> settings \<Rightarrow> string \<Rightarrow> callback \<Rightarrow> error \<Rightarrow> string \<Rightarrow> string \<Rightarrow> dash_world \<Rightarrow> dash_world" where
  "negotiated env sv settings url cb err auth real_address w =
    (if is_err err then cb err (happens (Closed Negotiation) w)
     else run_impl env sv settings url auth (tested env sv settings auth real_address cb) w)"

definition negotiate_with ::
    "dash_env \<Rightarrow> dash_servers \<Rightarrow> settings \<Rightarrow> string \<Rightarrow> callback \<Rightarrow> dash_world \<Rightarrow> dash_world" where
  "negotiate_with env sv settings name cb w =
    (let url = ''http://'' @ name @ ''/''; settings = settings(''http/url'' \<mapsto> url);
         err = ds_connect sv Negotiation url
     in if is_err err then cb err w
        else negotiate_loop (de_parse env) (de_dump env (JObject [(''dash_rates'', JArray (map JInt dash_rates))]))
          (ds_negotiate sv) (negotiated env sv settings url cb) 0 [] (happens (Opened Negotiation) w))"

text \<open>\<open>negotiate\_impl\<close>: the server is the one of the options, or the one that the name service gives.\<close>

definition negotiate ::
    "dash_env \<Rightarrow> dash_servers \<Rightarrow> (string \<Rightarrow> error \<times> json) \<Rightarrow> settings \<Rightarrow> callback \<Rightarrow> dash_world \<Rightarrow> dash_world" where
  "negotiate env sv request settings cb w =
    (case settings ''hostname'' of
       Some name \<Rightarrow> negotiate_with env sv settings name cb w
     | None \<Rightarrow>
        let (err, reply) = mlabns_query request ''neubot'' settings in
        if is_err err then cb err w else negotiate_with env sv settings (mr_fqdn reply) cb w)"

section \<open>Rates\<close>

lemma dash_rates_simps: "length dash_rates = 23" "sorted dash_rates" "dash_rates ! 0 = 100"
  by (simp_all add: dash_rates_def)

lemma rate_loop_spec:
  assumes "i \<le> length dash_rates" "\<And>k. k < i \<Longrightarrow> dash_rates ! k < speed"
  shows "rate_loop beyond speed i \<le> length dash_rates
    \<and> (\<forall>k < rate_loop beyond speed i. dash_rates ! k < speed)
    \<and> (rate_loop beyond speed i < length dash_rates \<longrightarrow> speed \<le> dash_rates ! rate_loop beyond speed i)"
  using assms
proof (induction beyond speed i rule: rate_loop.induct)
  case (1 beyond speed i)
  show ?case
  proof (cases "i < length dash_rates \<and> dash_rates ! i < speed")
    case True
    have "rate_loop beyond speed i = rate_loop beyond speed (i + 1)"
      using True by (simp add: rate_loop.simps [of beyond speed i])
    moreover have "\<And>k. k < i + 1 \<Longrightarrow> dash_rates ! k < speed"
      using "1.prems"(2) True by (metis less_SucE Suc_eq_plus1)
    ultimately show ?thesis
      using "1.IH" True by simp
  next
    case False
    then have "rate_loop beyond speed i = i"
      by (simp add: rate_loop.simps [of beyond speed i])
    then show ?thesis
      using 1 False by auto
  qed
qed

lemma select_lower_rate:
  "select_lower_rate_index beyond speed < length dash_rates
    \<and> (select_lower_rate_index beyond speed = 0 \<or> dash_rates ! select_lower_rate_index beyond speed < speed)
    \<and> (\<forall>k < length dash_rates. select_lower_rate_index beyond speed < k \<longrightarrow> speed \<le> dash_rates ! k)"
proof -
  let ?i = "rate_loop beyond speed 0"
  have i: "?i \<le> length dash_rates" "\<forall>k < ?i. dash_rates ! k < speed"
    "?i < length dash_rates \<longrightarrow> speed \<le> dash_rates ! ?i"
    using rate_loop_spec [of 0 speed beyond] by auto
  have above: "speed \<le> dash_rates ! k" if "k < length dash_rates" "?i \<le> k" for k
    using i(3) sorted_nth_mono [OF dash_rates_simps(2) that(2,1)] that by auto
  show ?thesis
    using i above dash_rates_simps(1) by (auto simp: select_lower_rate_index_def Let_def)
qed

text \<open>Above the largest rate the loop reads behind the rates.\<close>

lemma rates_read_beyond: "50000 < speed \<Longrightarrow> rate_loop beyond speed 0 = length dash_rates"
proof -
  assume fast: "50000 < speed"
  have "\<forall>r \<in> set dash_rates. r \<le> 50000"
    by (simp add: dash_rates_def)
  then have "\<not> speed \<le> dash_rates ! k" if "k < length dash_rates" for k
    using that fast nth_mem by fastforce
  then show ?thesis
    using rate_loop_spec [of 0 speed beyond] by (auto simp: le_less)
qed

text \<open>A late chunk on demand always scales down to the lowest rate, however late it was.\<close>

lemma scale_down_lowest:
  assumes "do_fast_scale_down opts" "0 < do_elapsed_target opts" "of_int (do_elapsed_target opts) < elapsed"
  shows "next_speed opts elapsed received = 100"
proof -
  have "0 \<le> measured_speed elapsed received"
    using assms(2,3) by (simp add: measured_speed_def)
  moreover have "1 - elapsed / of_int (do_elapsed_target opts) \<le> 0"
    using assms(2,3) by simp
  ultimately have "measured_speed elapsed received * (1 - elapsed / of_int (do_elapsed_target opts)) \<le> 0"
    by (rule mult_nonneg_nonpos)
  then show ?thesis
    using assms by (simp add: next_speed_def Let_def to_int_def int_range_def INT_MIN_def INT_MAX_def dash_rates_simps)
qed

text \<open>A speed of more than 2 Gbit/s overflows: the path asks for a negative number of bytes.\<close>

lemma byte_count_overflow: "byte_count 2200000 2 < 0"
  by (simp add: byte_count_def signed_take_bit_eq_take_bit_shift take_bit_eq_mod)

section \<open>The chunks of a run\<close>

text \<open>The loop without callbacks: the error, and the context at the end.\<close>

definition chunk_error :: "exchange \<Rightarrow> error option" where
  "chunk_error ex =
    (if is_err (ex_sent ex) then Some (ex_sent ex)
     else if is_err (fst (ex_received ex)) then Some (fst (ex_received ex))
     else if rs_status (snd (ex_received ex)) \<noteq> 200 then Some (new HttpRequestFailedError)
     else if headers_find ''connection'' (rs_headers (snd (ex_received ex))) = Some ''close'' then Some (new MiddleboxDetectedError)
     else if ex_after ex - ex_before ex \<le> 0 then Some (new_s GenericError ''negative_time_error'')
     else None)"

lemma chunk_error_is: "chunk_error ex = Some e \<Longrightarrow> is_err e"
  by (auto simp: chunk_error_def err_simps split: if_splits)

lemma chunk_error_none: "chunk_error ex = None \<Longrightarrow> 0 < ex_after ex - ex_before ex"
  by (auto simp: chunk_error_def split: if_splits)

text \<open>One turn of the loop, and that it calls back exactly once, with what was downloaded.\<close>

lemma run_loop_turn:
  assumes "read_options settings = Inr opts" "dl_iteration l \<le> do_max_iterations opts"
    and "s = start_speed opts (dl_speed_kbit l)" "r = rate_of opts beyond s"
    and "ex = server (dl_iteration l) (chunk_path r (do_elapsed_target opts))"
  shows "run_loop settings beyond server cb l w =
    (case chunk_error ex of
       Some e \<Rightarrow> cb e (l\<lparr>dl_speed_kbit := s\<rparr>) w
     | None \<Rightarrow> run_loop settings beyond server cb (chunk_added opts r ex (l\<lparr>dl_speed_kbit := s\<rparr>)) w)"
  using assms(2) unfolding run_loop.simps [of settings beyond server cb l w] chunk_error_def assms(1,3,4,5)
  by (simp add: Let_def)

lemma run_loop_end:
  "read_options settings = Inr opts \<Longrightarrow> do_max_iterations opts < dl_iteration l \<Longrightarrow>
    run_loop settings beyond server cb l w = cb (new NoError) (l\<lparr>dl_summary := dash_summary (dl_data l)\<rparr>) w"
  by (simp add: run_loop.simps [of settings beyond server cb l w])

lemma run_loop_calls_once:
  assumes "read_options settings = Inr opts"
  shows "\<exists>err l' cs. (\<forall>(cb :: error \<Rightarrow> dash_loop \<Rightarrow> 'w \<Rightarrow> 'w) w. run_loop settings beyond server cb l w = cb err l' w)
    \<and> dl_data l' = dl_data l @ cs \<and> length cs \<le> nat (do_max_iterations opts + 1 - dl_iteration l)
    \<and> (\<forall>k < length cs. ck_iteration (cs ! k) = dl_iteration l + int k)
    \<and> (\<forall>c \<in> set cs. 0 < ck_elapsed c \<and> ck_elapsed_target c = do_elapsed_target opts)
    \<and> (\<not> is_err err \<longrightarrow> length cs = nat (do_max_iterations opts + 1 - dl_iteration l))"
proof (induction "nat (do_max_iterations opts + 1 - dl_iteration l)" arbitrary: l)
  case 0
  then have "\<forall>(cb :: error \<Rightarrow> dash_loop \<Rightarrow> 'w \<Rightarrow> 'w) w. run_loop settings beyond server cb l w
      = cb (new NoError) (l\<lparr>dl_summary := dash_summary (dl_data l)\<rparr>) w"
    by (simp add: run_loop_end [OF assms])
  then show ?case
    using 0 by (intro exI conjI) (assumption, auto)
next
  case (Suc n)
  define s where "s = start_speed opts (dl_speed_kbit l)"
  define r where "r = rate_of opts beyond s"
  define ex where "ex = server (dl_iteration l) (chunk_path r (do_elapsed_target opts))"
  have "dl_iteration l \<le> do_max_iterations opts"
    using Suc(2) by simp
  note turn = run_loop_turn [where server = server and l = l and beyond = beyond, OF assms this s_def r_def ex_def]
  show ?case
  proof (cases "chunk_error ex")
    case (Some e)
    then have "\<forall>(cb :: error \<Rightarrow> dash_loop \<Rightarrow> 'w \<Rightarrow> 'w) w. run_loop settings beyond server cb l w = cb e (l\<lparr>dl_speed_kbit := s\<rparr>) w"
      by (simp add: turn)
    then show ?thesis
      using chunk_error_is [OF Some] by (intro exI conjI) (assumption, auto)
  next
    case None
    define l1 where "l1 = chunk_added opts r ex (l\<lparr>dl_speed_kbit := s\<rparr>)"
    obtain c where l1: "dl_data l1 = dl_data l @ [c]" "dl_iteration l1 = dl_iteration l + 1" "ck_iteration c = dl_iteration l"
      "0 < ck_elapsed c" "ck_elapsed_target c = do_elapsed_target opts"
      using chunk_error_none [OF None] by (simp add: l1_def chunk_added_def Let_def)
    have "n = nat (do_max_iterations opts + 1 - dl_iteration l1)"
      using Suc(2) l1(2) by simp
    from Suc(1) [OF this] obtain err l' cs where cs:
      "\<forall>(cb :: error \<Rightarrow> dash_loop \<Rightarrow> 'w \<Rightarrow> 'w) w. run_loop settings beyond server cb l1 w = cb err l' w"
      "dl_data l' = dl_data l1 @ cs" "length cs \<le> nat (do_max_iterations opts + 1 - dl_iteration l1)"
      "\<forall>k < length cs. ck_iteration (cs ! k) = dl_iteration l1 + int k"
      "\<forall>c \<in> set cs. 0 < ck_elapsed c \<and> ck_elapsed_target c = do_elapsed_target opts"
      "\<not> is_err err \<longrightarrow> length cs = nat (do_max_iterations opts + 1 - dl_iteration l1)"
      by (elim exE conjE) (rule that)
    have calls: "\<forall>(cb :: error \<Rightarrow> dash_loop \<Rightarrow> 'w \<Rightarrow> 'w) w. run_loop settings beyond server cb l w = cb err l' w"
      using cs(1) by (simp add: turn None l1_def)
    have its: "\<forall>k < length (c # cs). ck_iteration ((c # cs) ! k) = dl_iteration l + int k"
      using cs(4) l1(2,3) by (auto simp: nth_Cons split: nat.split)
    show ?thesis
      using Suc(2) cs l1 its by (intro exI [of _ err] exI [of _ l'] exI [of _ "c # cs"] conjI calls) auto
  qed
qed

text \<open>What the callback gets from a run.\<close>

lemma run_loop_data:
  assumes "read_options settings = Inr opts" "run_loop settings beyond server (\<lambda>err l w. (err, l)) l w = (err, l')"
  shows "\<exists>cs. dl_data l' = dl_data l @ cs \<and> length cs \<le> nat (do_max_iterations opts + 1 - dl_iteration l)
    \<and> (\<forall>k < length cs. ck_iteration (cs ! k) = dl_iteration l + int k)
    \<and> (\<forall>c \<in> set cs. 0 < ck_elapsed c \<and> ck_elapsed_target c = do_elapsed_target opts)
    \<and> (\<not> is_err err \<longrightarrow> length cs = nat (do_max_iterations opts + 1 - dl_iteration l))"
proof -
  obtain e l1 cs where cs:
    "\<forall>(cb :: error \<Rightarrow> dash_loop \<Rightarrow> error \<times> dash_loop \<Rightarrow> error \<times> dash_loop) w. run_loop settings beyond server cb l w = cb e l1 w"
    "dl_data l1 = dl_data l @ cs" "length cs \<le> nat (do_max_iterations opts + 1 - dl_iteration l)"
    "\<forall>k < length cs. ck_iteration (cs ! k) = dl_iteration l + int k"
    "\<forall>c \<in> set cs. 0 < ck_elapsed c \<and> ck_elapsed_target c = do_elapsed_target opts"
    "\<not> is_err e \<longrightarrow> length cs = nat (do_max_iterations opts + 1 - dl_iteration l)"
    using run_loop_calls_once [OF assms(1), of beyond server l, where 'w = "error \<times> dash_loop"]
    by (elim exE conjE) (rule that)
  have "err = e" "l' = l1"
    using assms(2) unfolding cs(1) [rule_format] by simp_all
  then show ?thesis
    using cs by blast
qed

section \<open>Playing the chunks\<close>

text \<open>When a chunk is there, counted from the first request, and when a player that waits \<open>d\<close> after the first chunk
  can play all of them without a pause.\<close>

definition arrival :: "chunk list \<Rightarrow> nat \<Rightarrow> rat" where
  "arrival es k = sum_list (map ck_elapsed (take (k + 1) es))"

definition smooth :: "rat \<Rightarrow> rat \<Rightarrow> chunk list \<Rightarrow> bool" where
  "smooth d target es \<longleftrightarrow> (\<forall>k < length es. arrival es k \<le> arrival es 0 + d + of_nat k * target)"

lemma image_below_Suc: "{f k |k. k < Suc n} = insert (f 0) {f (Suc k) |k. k < n}"
  by (auto simp: less_Suc_eq_0_disj)

lemma stalls_later:
  assumes "0 < play" "0 \<le> target" "\<forall>e \<in> set es. of_int (ck_elapsed_target e) = target"
  shows "set (stalls es ready play) = {ready + arrival es k - (play + of_nat (k + 1) * target) |k. k < length es}"
  using assms
proof (induction es arbitrary: ready play)
  case (Cons e es)
  let ?r = "ready + ck_elapsed e" and ?p = "play + target"
  have step: "stalls (e # es) ready play = (?r - ?p) # stalls es ?r ?p"
    using Cons.prems by (simp add: Let_def)
  have IH: "set (stalls es ?r ?p) = {?r + arrival es k - (?p + of_nat (k + 1) * target) |k. k < length es}"
    using Cons.prems by (intro Cons.IH) auto
  have shift: "?r + arrival es k - (?p + of_nat (k + 1) * target)
      = ready + arrival (e # es) (Suc k) - (play + of_nat (Suc k + 1) * target)" for k
    by (simp add: arrival_def algebra_simps)
  have zero: "?r - ?p = ready + arrival (e # es) 0 - (play + of_nat (0 + 1) * target)"
    by (simp add: arrival_def)
  let ?f = "\<lambda>k. ready + arrival (e # es) k - (play + of_nat (k + 1) * target)"
  have "set (stalls (e # es) ready play) = insert (?f 0) {?f (Suc k) |k. k < length es}"
    unfolding step list.set IH shift zero ..
  also have "\<dots> = {?f k |k. k < length (e # es)}"
    using image_below_Suc [of ?f "length es"] by simp
  finally show ?case .
qed simp

lemma min_playout_delay_least:
  assumes "es \<noteq> []" "0 \<le> target" "\<forall>e \<in> set es. 0 < ck_elapsed e \<and> of_int (ck_elapsed_target e) = target"
  shows "min_playout_delay es \<le> d \<longleftrightarrow> smooth d target es"
proof -
  obtain e es' where es: "es = e # es'"
    using assms(1) by (cases es) auto
  let ?c = "ck_elapsed e"
  have c: "0 < ?c"
    using assms(3) es by simp
  have st: "stalls es 0 0 = 0 # stalls es' ?c ?c"
    by (simp add: es Let_def)
  have "set (stalls es' ?c ?c) = {?c + arrival es' k - (?c + of_nat (k + 1) * target) |k. k < length es'}"
    using c assms(2,3) es by (intro stalls_later) auto
  moreover have "?c + arrival es' k - (?c + of_nat (k + 1) * target) \<le> d
      \<longleftrightarrow> arrival es (Suc k) \<le> arrival es 0 + d + of_nat (Suc k) * target" for k
    by (auto simp: es arrival_def)
  ultimately have "(\<forall>x \<in> set (stalls es' ?c ?c). x \<le> d)
      \<longleftrightarrow> (\<forall>k < length es'. arrival es (Suc k) \<le> arrival es 0 + d + of_nat (Suc k) * target)"
    by auto
  then have "(\<forall>x \<in> set (stalls es 0 0). x \<le> d) \<longleftrightarrow> smooth d target es"
    unfolding st smooth_def by (simp add: es All_less_Suc2)
  then show ?thesis
    unfolding min_playout_delay_def Let_def st by simp
qed

section \<open>Connections\<close>

fun connections :: "dash_event list \<Rightarrow> connection list \<Rightarrow> connection list option" where
  "connections [] live = Some live"
| "connections (Opened c # evs) live = (if c \<in> set live then None else connections evs (c # live))"
| "connections (Closed c # evs) live = (if c \<in> set live then connections evs (remove1 c live) else None)"
| "connections (Called e # evs) live = (if live = [] then connections evs [] else None)"

text \<open>Each part calls its callback exactly once.\<close>

lemma run_loop_calls: "\<exists>err l'. run_loop settings beyond server cb l w = cb err l' w"
proof (cases "read_options settings")
  case (Inl e)
  then have "run_loop settings beyond server cb l w = cb e l w"
    by (simp only: run_loop.simps [of settings beyond server cb l w] sum.case)
  then show ?thesis
    by (intro exI)
next
  case (Inr opts)
  then show ?thesis
    using run_loop_calls_once [OF Inr, of beyond server l] by (elim exE conjE) (intro exI, erule allE, erule allE, assumption)
qed

lemma negotiate_loop_calls: "\<exists>err auth addr. negotiate_loop parse body server cb i a w = cb err auth addr w"
proof (induction parse body server cb i a w rule: negotiate_loop.induct)
  case (1 parse body server cb i a w)
  obtain err res where sent: "server i ''/negotiate/dash'' a body = (err, res)"
    by (rule prod.exhaust)
  note turn = negotiate_loop.simps [of parse body server cb i a w, unfolded sent Let_def prod.case]
  consider (many) "i > MAX_NEGOTIATIONS" | (failed) "\<not> i > MAX_NEGOTIATIONS" "is_err err"
    | (refused) "\<not> i > MAX_NEGOTIATIONS" "\<not> is_err err" "rs_status res \<noteq> 200"
    | (replied) "\<not> i > MAX_NEGOTIATIONS" "\<not> is_err err" "\<not> rs_status res \<noteq> 200"
    by blast
  then show ?case
  proof cases
    case replied
    note turn = turn [unfolded if_not_P [OF replied(1)] if_not_P [OF replied(2)] if_not_P [OF replied(3)]]
    show ?thesis
    proof (cases "negotiate_reply parse (rs_body res)")
      case (Inl e)
      show ?thesis
        unfolding turn Inl sum.case by (intro exI) (rule refl)
    next
      case (Inr r)
      obtain auth addr unchoked where r: "r = (auth, addr, unchoked)"
        by (rule prod_cases3)
      note turn = turn [unfolded Inr r sum.case prod.case]
      show ?thesis
      proof (cases "unchoked = 0")
        case True
        from "1.IH" [OF replied(1) refl sent [symmetric] replied(2,3) Inr r [symmetric] refl True] show ?thesis
          unfolding turn if_P [OF True] .
      next
        case False
        show ?thesis
          unfolding turn if_not_P [OF False] by (intro exI) (rule refl)
      qed
    qed
  next
    case many
    show ?thesis unfolding turn if_P [OF many] by (intro exI) (rule refl)
  next
    case failed
    show ?thesis unfolding turn if_not_P [OF failed(1)] if_P [OF failed(2)] by (intro exI) (rule refl)
  next
    case refused
    show ?thesis unfolding turn if_not_P [OF refused(1)] if_not_P [OF refused(2)] if_P [OF refused(3)] by (intro exI) (rule refl)
  qed
qed

lemma collect_calls:
  "\<exists>err w'. collect env server settings auth addr cb w = cb err w' \<and> dw_events w' = dw_events w"
  by (fastforce simp: collect_def Let_def split: prod.split option.split)

text \<open>The events of a test with a connection for the download, and of the whole.\<close>

lemma run_impl_calls:
  "\<exists>err w'. run_impl env sv settings url auth cb w = cb err w'
    \<and> (dw_events w' = dw_events w \<or> dw_events w' = dw_events w @ [Opened Download, Closed Download])"
proof (cases "is_err (ds_connect sv Download url)")
  case True
  then show ?thesis
    by (auto simp: run_impl_def)
next
  case False
  obtain err l where "run_loop settings (de_beyond env) (ds_download sv auth) (loop_ended cb) dash_loop_init (happens (Opened Download) w)
      = loop_ended cb err l (happens (Opened Download) w)"
    using run_loop_calls [of settings "de_beyond env" "ds_download sv auth" "loop_ended cb" dash_loop_init "happens (Opened Download) w"]
    by (elim exE)
  with False have "run_impl env sv settings url auth cb w = cb err
      (happens (Closed Download) ((happens (Opened Download) w)\<lparr>dw_receiver := dl_data l, dw_summary := dl_summary l\<rparr>))"
    by (simp add: run_impl_def loop_ended_def Let_def)
  then show ?thesis
    by (intro exI conjI) (assumption, simp add: happens_def)
qed

lemma negotiate_with_calls:
  "\<exists>err w'. negotiate_with env sv settings name cb w = cb err w'
    \<and> (dw_events w' = dw_events w
      \<or> dw_events w' = dw_events w @ [Opened Negotiation, Closed Negotiation]
      \<or> dw_events w' = dw_events w @ [Opened Negotiation, Opened Download, Closed Download, Closed Negotiation])"
proof -
  define url where "url = ''http://'' @ name @ ''/''"
  define st where "st = settings(''http/url'' \<mapsto> url)"
  let ?w = "happens (Opened Negotiation) w"
  have w: "dw_events ?w = dw_events w @ [Opened Negotiation]"
    by (simp add: happens_def)
  show ?thesis
  proof (cases "is_err (ds_connect sv Negotiation url)")
    case True
    then show ?thesis
      unfolding negotiate_with_def Let_def url_def [symmetric] by (simp only: if_True) blast
  next
    case ok: False
    have "negotiate_with env sv settings name cb w
        = negotiate_loop (de_parse env) (de_dump env (JObject [(''dash_rates'', JArray (map JInt dash_rates))]))
            (ds_negotiate sv) (negotiated env sv st url cb) 0 [] ?w"
      using ok unfolding negotiate_with_def Let_def url_def [symmetric] st_def [symmetric] by (simp only: if_False)
    then obtain err auth addr where n: "negotiate_with env sv settings name cb w = negotiated env sv st url cb err auth addr ?w"
      using negotiate_loop_calls [of "de_parse env" "de_dump env (JObject [(''dash_rates'', JArray (map JInt dash_rates))])"
          "ds_negotiate sv" "negotiated env sv st url cb" 0 "[]" ?w] by (elim exE) (simp only:)
    show ?thesis
    proof (cases "is_err err")
      case True
      then show ?thesis
        by (intro exI conjI) (simp add: n negotiated_def, simp add: happens_def)
    next
      case False
      obtain e1 w1 where 1: "run_impl env sv st url auth (tested env sv st auth addr cb) ?w = tested env sv st auth addr cb e1 w1"
        "dw_events w1 = dw_events ?w \<or> dw_events w1 = dw_events ?w @ [Opened Download, Closed Download]"
        using run_impl_calls [of env sv st url auth "tested env sv st auth addr cb" ?w] by (elim exE conjE) (rule that)
      obtain e2 w2 where 2: "collect env (ds_collect sv) st auth addr (collected cb) w1 = collected cb e2 w2"
        "dw_events w2 = dw_events w1"
        using collect_calls [of env "ds_collect sv" st auth addr "collected cb" w1] by (elim exE conjE) (rule that)
      have "negotiate_with env sv settings name cb w = cb e2 (happens (Closed Negotiation) w2)"
        by (simp add: n negotiated_def False 1(1) tested_def 2(1) collected_def)
      then show ?thesis
        using 1(2) 2(2) w by (intro exI conjI) (assumption, auto simp: happens_def)
    qed
  qed
qed

section \<open>The median\<close>

lemma filter_sorted_less: "sorted (xs :: rat list) \<Longrightarrow> k < length xs \<Longrightarrow> m \<le> xs ! k \<Longrightarrow> length (filter (\<lambda>x. x < m) xs) \<le> k"
proof -
  assume s: "sorted xs" "k < length xs" "m \<le> xs ! k"
  have "filter (\<lambda>x. x < m) (drop k xs) = []"
  proof -
    have "m \<le> x" if "x \<in> set (drop k xs)" for x
    proof -
      obtain i where "i < length (drop k xs)" "x = drop k xs ! i"
        using \<open>x \<in> set (drop k xs)\<close> by (auto simp: in_set_conv_nth)
      then have "xs ! k \<le> x"
        using s(2) sorted_nth_mono [OF s(1), of k "k + i"] by simp
      with s(3) show ?thesis
        by simp
    qed
    then show ?thesis
      by (auto simp: filter_empty_conv not_less)
  qed
  then have "filter (\<lambda>x. x < m) xs = filter (\<lambda>x. x < m) (take k xs)"
    by (metis append_Nil2 append_take_drop_id filter_append)
  then show ?thesis
    using length_filter_le [of "\<lambda>x. x < m" "take k xs"] s(2) by simp
qed

lemma filter_sorted_greater: "sorted (xs :: rat list) \<Longrightarrow> k < length xs \<Longrightarrow> xs ! k \<le> m \<Longrightarrow> length (filter (\<lambda>x. m < x) xs) < length xs - k"
proof -
  assume s: "sorted xs" "k < length xs" "xs ! k \<le> m"
  have "filter (\<lambda>x. m < x) (take (k + 1) xs) = []"
  proof -
    have "x \<le> m" if "x \<in> set (take (k + 1) xs)" for x
    proof -
      obtain i where "i < length (take (k + 1) xs)" "x = take (k + 1) xs ! i"
        using \<open>x \<in> set (take (k + 1) xs)\<close> unfolding in_set_conv_nth by blast
      then show ?thesis
        using s sorted_nth_mono [OF s(1), of i k] by auto
    qed
    then show ?thesis
      by (auto simp: filter_empty_conv not_less)
  qed
  then have "filter (\<lambda>x. m < x) xs = filter (\<lambda>x. m < x) (drop (k + 1) xs)"
    by (metis append_Nil append_take_drop_id filter_append)
  then show ?thesis
    using length_filter_le [of "\<lambda>x. m < x" "drop (k + 1) xs"] s(2) by simp
qed

lemma floor_half: "\<lfloor>of_nat n * (1 / 2) :: rat\<rfloor> = int (n div 2)" "\<lceil>of_nat n * (1 / 2) :: rat\<rceil> = int ((n + 1) div 2)"
proof -
  have "\<lfloor>rat_of_int (int n) / rat_of_int 2\<rfloor> = int n div 2"
    by (rule floor_divide_of_int_eq)
  then show "\<lfloor>of_nat n * (1 / 2) :: rat\<rfloor> = int (n div 2)"
    by simp
  have "\<lceil>rat_of_int (int n) / rat_of_int 2\<rceil> = - (- int n div 2)"
    by (rule ceiling_divide_eq_div)
  moreover have "- (- int n div 2) = int ((n + 1) div 2)"
    by simp
  ultimately show "\<lceil>of_nat n * (1 / 2) :: rat\<rceil> = int ((n + 1) div 2)"
    by simp
qed

text \<open>At most half of the values are less than the median, and at most half greater.\<close>

lemma median_splits:
  assumes "median v = Inr m"
  shows "2 * length (filter (\<lambda>x. x < m) v) \<le> length v \<and> 2 * length (filter (\<lambda>x. m < x) v) \<le> length v"
proof -
  define n where "n = length v - 1"
  have v: "v \<noteq> []" "length v = n + 1"
    using assms by (auto simp: median_def percentile_def n_def split: if_splits)
  let ?s = "sort v" and ?lo = "n div 2" and ?hi = "(n + 1) div 2"
  have m: "m = (if ?lo = ?hi then ?s ! ?lo else ?s ! ?lo * (of_nat ?hi - of_nat n * (1 / 2)) + ?s ! ?hi * (of_nat n * (1 / 2) - of_nat ?lo))"
    using assms v unfolding median_def percentile_def Let_def length_sort n_def [symmetric] floor_half by (auto split: if_splits)
  have le: "?s ! ?lo \<le> ?s ! ?hi"
    using v(2) by (intro sorted_nth_mono) auto
  have between: "?s ! ?lo \<le> m \<and> m \<le> ?s ! ?hi"
  proof (cases "even n")
    case True
    then have "?lo = ?hi"
      by presburger
    then have "m = ?s ! ?lo" "m = ?s ! ?hi"
      using m by simp_all
    then show ?thesis
      by simp
  next
    case False
    then obtain k where k: "n = 2 * k + 1"
      by (auto elim: oddE)
    then have "?lo = k" "?hi = k + 1"
      by simp_all
    with m k have "m = (?s ! ?lo + ?s ! ?hi) / 2"
      by (simp add: field_simps)
    then show ?thesis
      using le by simp
  qed
  have "length (filter P (sort v)) = length (filter P v)" for P
    by (metis filter_sort length_sort)
  moreover have "length (filter (\<lambda>x. x < m) ?s) \<le> ?hi" "length (filter (\<lambda>x. m < x) ?s) < length ?s - ?lo"
    using filter_sorted_less [of ?s ?hi m] filter_sorted_greater [of ?s ?lo m] between v(2) by auto
  ultimately show ?thesis
    using v(2) by auto
qed

section \<open>Properties\<close>

text \<open>C32: The delay in the summary is the least one that lets a player play all chunks without a pause: each chunk has
  arrived when its turn comes, one target after the other, for a start delayed by \<open>d\<close> exactly when \<open>d\<close> is at least the delay.\<close>

theorem playout_delay_is_least:
  assumes "read_options settings = Inr opts" "run_loop settings beyond server (\<lambda>err l w. (err, l)) dash_loop_init w = (err, l)"
    and "dl_data l \<noteq> []"
  shows "min_playout_delay (dl_data l) \<le> d \<longleftrightarrow> smooth d (of_int (do_elapsed_target opts)) (dl_data l)"
proof (rule min_playout_delay_least [OF assms(3)])
  have "0 \<le> do_elapsed_target opts"
    using assms(1) by (auto simp: read_options_def or_else_def natural_option_def Let_def split: sum.splits if_splits)
  then show "0 \<le> rat_of_int (do_elapsed_target opts)"
    by simp
  show "\<forall>e \<in> set (dl_data l). 0 < ck_elapsed e \<and> rat_of_int (ck_elapsed_target e) = of_int (do_elapsed_target opts)"
    using run_loop_data [OF assms(1,2)] by (auto simp: dash_loop_init_def)
qed

text \<open>Two chunks, the second of which takes three seconds.\<close>

definition slow_server :: "int \<Rightarrow> string \<Rightarrow> exchange" where
  "slow_server i p =
    \<lparr>ex_sent = new NoError, ex_received = (new NoError, response_empty\<lparr>rs_status := 200\<rparr>), ex_before = 0,
     ex_after = (if i = 1 then 1 else 3), ex_connect_time = 1\<rparr>"

definition two_chunks :: dash_options where
  "two_chunks = \<lparr>do_fast_scale_down = False, do_constant_bitrate = 0, do_use_fixed_rates = False, do_elapsed_target = 2,
    do_max_iterations = 2, do_initial_rate = 3000\<rparr>"

definition two_settings :: settings where
  "two_settings = [''max_iteration'' \<mapsto> ''2'']"

lemma two_chunks_options: "read_options two_settings = Inr two_chunks"
  by code_simp

lemma no_speed: "next_speed two_chunks elapsed 0 = 0"
  by (simp add: next_speed_def two_chunks_def measured_speed_def to_int_def int_range_def INT_MIN_def INT_MAX_def Let_def)

lemma two_chunks_values: "do_max_iterations two_chunks = 2" "do_elapsed_target two_chunks = 2"
  by (simp_all add: two_chunks_def)

definition slow_next :: "int \<Rightarrow> dash_loop \<Rightarrow> dash_loop" where
  "slow_next r l = l\<lparr>dl_speed_kbit := 0, dl_iteration := dl_iteration l + 1,
    dl_data := dl_data l @ [\<lparr>ck_connect_time = 1, ck_elapsed = (if dl_iteration l = 1 then 1 else 3), ck_elapsed_target = 2,
      ck_iteration = dl_iteration l, ck_rate = r, ck_received = 0, ck_request_ticks = 0\<rparr>]\<rparr>"

lemma slow_chunk:
  "chunk_error (slow_server i p) = None"
  "chunk_added two_chunks r (slow_server (dl_iteration l) p) (l\<lparr>dl_speed_kbit := s\<rparr>) = slow_next r l"
proof -
  have "headers_find ''connection'' (rs_headers response_empty) \<noteq> Some ''close''" "rs_body response_empty = []"
    by code_simp+
  then show "chunk_error (slow_server i p) = None"
    "chunk_added two_chunks r (slow_server (dl_iteration l) p) (l\<lparr>dl_speed_kbit := s\<rparr>) = slow_next r l"
    by (simp_all add: chunk_error_def chunk_added_def slow_server_def Let_def no_speed two_chunks_values slow_next_def err_simps)
qed

abbreviation slow_loop :: "dash_loop \<Rightarrow> error \<times> dash_loop" where
  "slow_loop l \<equiv> run_loop two_settings 0 slow_server (\<lambda>err l w. (err, l)) l (new NoError, dash_loop_init)"

lemma slow_step: "dl_iteration l \<le> 2 \<Longrightarrow> \<exists>r. slow_loop l = slow_loop (slow_next r l)"
  using run_loop_turn [OF two_chunks_options, of l _ _ 0 _ slow_server "\<lambda>err l w. (err, l)" "(new NoError, dash_loop_init)"]
  by (auto simp: two_chunks_values slow_chunk)

lemma slow_end: "2 < dl_iteration l \<Longrightarrow> slow_loop l = (new NoError, l\<lparr>dl_summary := dash_summary (dl_data l)\<rparr>)"
  by (simp add: run_loop_end [OF two_chunks_options] two_chunks_values)

lemma slow_run:
  "\<exists>l. slow_loop dash_loop_init = (new NoError, l)
    \<and> map (\<lambda>c. (ck_iteration c, ck_elapsed c, ck_elapsed_target c)) (dl_data l) = [(1, 1, 2), (2, 3, 2)]"
proof -
  have it: "dl_iteration dash_loop_init = 1" "dl_data dash_loop_init = []" "dl_iteration (slow_next r l) = dl_iteration l + 1" for r l
    by (simp_all add: dash_loop_init_def slow_next_def)
  obtain r1 where 1: "slow_loop dash_loop_init = slow_loop (slow_next r1 dash_loop_init)"
    using slow_step [of dash_loop_init] it by auto
  let ?l1 = "slow_next r1 dash_loop_init"
  obtain r2 where 2: "slow_loop ?l1 = slow_loop (slow_next r2 ?l1)"
    using slow_step [of ?l1] it by auto
  let ?l2 = "slow_next r2 ?l1"
  have "slow_loop ?l2 = (new NoError, ?l2\<lparr>dl_summary := dash_summary (dl_data ?l2)\<rparr>)"
    using it by (intro slow_end) simp
  moreover have "map (\<lambda>c. (ck_iteration c, ck_elapsed c, ck_elapsed_target c)) (dl_data ?l2) = [(1, 1, 2), (2, 3, 2)]"
    using it by (simp add: slow_next_def)
  ultimately show ?thesis
    using 1 2 by auto
qed

theorem playout_delay_is_least_witness: "smooth 1 2 (dl_data (snd (slow_loop dash_loop_init)))"
proof -
  obtain l where l: "slow_loop dash_loop_init = (new NoError, l)"
    "map (\<lambda>c. (ck_iteration c, ck_elapsed c, ck_elapsed_target c)) (dl_data l) = [(1, 1, 2), (2, 3, 2)]"
    using slow_run by (elim exE conjE)
  obtain c1 c2 where c: "dl_data l = [c1, c2]"
    using l(2) by (cases "dl_data l"; cases "List.tl (dl_data l)") simp_all
  have e: "ck_elapsed c1 = 1" "ck_elapsed c2 = 3" "ck_elapsed_target c2 = 2"
    using l(2) unfolding c by simp_all
  have "min_playout_delay (dl_data l) \<le> 1"
    by (simp add: c e min_playout_delay_def Let_def)
  moreover have "dl_data l \<noteq> []"
    by (simp add: c)
  ultimately have "smooth 1 (of_int (do_elapsed_target two_chunks)) (dl_data l)"
    using playout_delay_is_least [OF two_chunks_options l(1), of 1] by simp
  then show ?thesis
    unfolding l(1) snd_conv two_chunks_values by simp
qed

text \<open>C29: However the test ends, the connections for the negotiation and for the download are opened at most once, each
  is closed once, and only then is the caller called back, once: no exit of the loops of the negotiation and of the
  download, of the collection or of a callback between them calls back twice, not at all or too early.\<close>

theorem dash_connections_closed:
  "\<exists>evs e. dw_events (negotiate env sv request settings (\<lambda>err. happens (Called err)) dash_start) = evs @ [Called e]
    \<and> connections (evs @ [Called e]) [] = Some []
    \<and> filter (\<lambda>ev. case ev of Called _ \<Rightarrow> True | _ \<Rightarrow> False) evs = []"
proof -
  let ?cb = "\<lambda>err. happens (Called err)"
  have "\<exists>err w'. negotiate env sv request settings ?cb dash_start = ?cb err w'
    \<and> (dw_events w' = [] \<or> dw_events w' = [Opened Negotiation, Closed Negotiation]
      \<or> dw_events w' = [Opened Negotiation, Opened Download, Closed Download, Closed Negotiation])"
  proof -
    have start: "dw_events dash_start = []"
      by (simp add: dash_start_def)
    have name: ?thesis if "negotiate env sv request settings ?cb dash_start = negotiate_with env sv settings name ?cb dash_start" for name
      unfolding that using negotiate_with_calls [of env sv settings name ?cb dash_start] start by simp
    obtain err reply where q: "mlabns_query request ''neubot'' settings = (err, reply)"
      by (rule prod.exhaust)
    consider name where "settings ''hostname'' = Some name" | "settings ''hostname'' = None" "is_err err"
      | "settings ''hostname'' = None" "\<not> is_err err"
      by fastforce
    then show ?thesis
    proof cases
      case 2
      then have "negotiate env sv request settings ?cb dash_start = ?cb err dash_start"
        by (simp add: negotiate_def q)
      then show ?thesis
        using start by blast
    qed (rule name, simp add: negotiate_def q)+
  qed
  then obtain err w' where w': "negotiate env sv request settings ?cb dash_start = happens (Called err) w'"
    "dw_events w' = [] \<or> dw_events w' = [Opened Negotiation, Closed Negotiation]
      \<or> dw_events w' = [Opened Negotiation, Opened Download, Closed Download, Closed Negotiation]"
    by blast
  then show ?thesis
    unfolding w'(1) by (intro exI [of _ "dw_events w'"] exI [of _ err]) (auto simp: happens_def)
qed

text \<open>CX: Whatever is read behind the rates, the rate selected is the largest one less than the speed, or the lowest
  one if there is none.\<close>

theorem lower_rate_selected:
  "let i = select_lower_rate_index beyond speed in
   i < length dash_rates \<and> (i = 0 \<or> dash_rates ! i < speed)
   \<and> filter (\<lambda>k. i < k \<and> dash_rates ! k < speed) [0..<length dash_rates] = []"
proof -
  let ?i = "select_lower_rate_index beyond speed"
  have "\<not> (?i < k \<and> dash_rates ! k < speed)" if "k < length dash_rates" for k
    using select_lower_rate [of beyond speed] that by (meson leD)
  then have "filter (\<lambda>k. ?i < k \<and> dash_rates ! k < speed) [0..<length dash_rates] = []"
    by (simp add: filter_empty_conv)
  then show ?thesis
    using select_lower_rate [of beyond speed] by (simp add: Let_def)
qed

text \<open>CX: A run that ends without an error has downloaded as many chunks as there are iterations; with an error it has
  downloaded at most so many, the first ones.\<close>

theorem dash_chunks_in_order:
  assumes "read_options settings = Inr opts" "run_loop settings beyond server (\<lambda>err l w. (err, l)) dash_loop_init w = (err, l)"
  shows "map ck_iteration (dl_data l) = map int [1..<length (dl_data l) + 1]
    \<and> length (dl_data l) \<le> nat (do_max_iterations opts)
    \<and> (is_err err \<or> length (dl_data l) = nat (do_max_iterations opts))"
proof -
  from run_loop_data [OF assms] have *: "length (dl_data l) \<le> nat (do_max_iterations opts)"
    "\<forall>k < length (dl_data l). ck_iteration (dl_data l ! k) = 1 + int k"
    "\<not> is_err err \<longrightarrow> length (dl_data l) = nat (do_max_iterations opts)"
    by (auto simp: dash_loop_init_def)
  moreover have "map ck_iteration (dl_data l) = map int [1..<length (dl_data l) + 1]"
    by (rule nth_equalityI) (use *(2) in \<open>simp_all del: upt_Suc\<close>)
  ultimately show ?thesis
    by blast
qed

theorem dash_chunks_in_order_witness:
  "map ck_iteration (dl_data (snd (slow_loop dash_loop_init))) = [1, 2]"
proof -
  obtain l where l: "slow_loop dash_loop_init = (new NoError, l)"
    using slow_run by blast
  from dash_chunks_in_order [OF two_chunks_options l] have "length (dl_data l) = 2"
    by (simp add: two_chunks_values err_simps)
  moreover from dash_chunks_in_order [OF two_chunks_options l] have "map ck_iteration (dl_data l) = map int [1..<length (dl_data l) + 1]"
    by (rule conjunct1)
  ultimately have "map ck_iteration (dl_data l) = map int [1..<2 + 1]"
    by (simp only:)
  also have "\<dots> = [1, 2]"
    by code_simp
  finally show ?thesis
    using l by simp
qed

end
