(* ===== verification/Regexes.thy ===== *)
theory Regexes
  imports Prelude
begin

text \<open>
  The regular expressions that the program uses of \<open>std::regex\<close> (ECMAScript): a backtracking matcher and the language
  that it decides.
\<close>

section \<open>Expressions\<close>

datatype regex =
    Empty
  | Class "char \<Rightarrow> bool"
  | Seq regex regex
  | Alt regex regex
  | Star regex

definition Opt :: "regex \<Rightarrow> regex" where
  "Opt a = Alt a Empty"

definition Plus :: "regex \<Rightarrow> regex" where
  "Plus a = Seq a (Star a)"

fun Times :: "nat \<Rightarrow> regex \<Rightarrow> regex" where
  "Times 0 a = Empty"
| "Times (Suc n) a = Seq a (Times n a)"

fun Seqs :: "regex list \<Rightarrow> regex" where
  "Seqs [] = Empty"
| "Seqs (a # as) = Seq a (Seqs as)"

definition Chr :: "char \<Rightarrow> regex" where
  "Chr c = Class (\<lambda>d. d = c)"

definition is_az :: "char \<Rightarrow> bool" where
  "is_az c \<longleftrightarrow> (let n = of_char c :: nat in 97 \<le> n \<and> n \<le> 122)"

definition is_AZ :: "char \<Rightarrow> bool" where
  "is_AZ c \<longleftrightarrow> (let n = of_char c :: nat in 65 \<le> n \<and> n \<le> 90)"

section \<open>Matching\<close>

text \<open>What is left of the subject after each way in which the expression matches in front of it; an
  iteration that matches nothing is not repeated.\<close>

function rests :: "regex \<Rightarrow> string \<Rightarrow> string list" where
  "rests Empty s = [s]"
| "rests (Class p) s = (case s of [] \<Rightarrow> [] | c # cs \<Rightarrow> if p c then [cs] else [])"
| "rests (Seq a b) s = concat (map (rests b) (rests a s))"
| "rests (Alt a b) s = rests a s @ rests b s"
| "rests (Star a) s = concat (map (rests (Star a)) (filter (\<lambda>t. length t < length s) (rests a s))) @ [s]"
  by pat_completeness auto

termination
  by (relation "measures [\<lambda>(r, s). size r, \<lambda>(r, s). length s]") auto

declare rests.simps(5) [simp del]

definition re_match :: "regex \<Rightarrow> string \<Rightarrow> bool" where
  "re_match r s \<longleftrightarrow> [] \<in> set (rests r s)"

section \<open>The language\<close>

inductive matches :: "regex \<Rightarrow> string \<Rightarrow> bool" where
  matches_Empty: "matches Empty []"
| matches_Class: "p c \<Longrightarrow> matches (Class p) [c]"
| matches_Seq: "matches a u \<Longrightarrow> matches b v \<Longrightarrow> matches (Seq a b) (u @ v)"
| matches_Alt1: "matches a u \<Longrightarrow> matches (Alt a b) u"
| matches_Alt2: "matches b u \<Longrightarrow> matches (Alt a b) u"
| matches_Star0: "matches (Star a) []"
| matches_Star: "matches a u \<Longrightarrow> u \<noteq> [] \<Longrightarrow> matches (Star a) v \<Longrightarrow> matches (Star a) (u @ v)"

inductive_simps matches_Empty_iff [simp]: "matches Empty s"
inductive_simps matches_Class_iff [simp]: "matches (Class p) s"
inductive_simps matches_Seq_iff: "matches (Seq a b) s"
inductive_simps matches_Alt_iff [simp]: "matches (Alt a b) s"
inductive_simps matches_Star_iff: "matches (Star a) s"

lemma split_twice:
  "(\<exists>x. (\<exists>u. s = u @ x \<and> P u) \<and> (\<exists>v. x = v @ t \<and> Q v)) \<longleftrightarrow> (\<exists>w. s = w @ t \<and> (\<exists>u v. w = u @ v \<and> P u \<and> Q v))"
  (is "?L \<longleftrightarrow> ?R")
proof
  assume ?L
  then obtain u v where "s = u @ v @ t" "P u" "Q v"
    by blast
  then show ?R
    by (intro exI [of _ "u @ v"] conjI exI [of _ u] exI [of _ v]) simp_all
next
  assume ?R
  then obtain u v where "s = (u @ v) @ t" "P u" "Q v"
    by blast
  then show ?L
    by (intro exI [of _ "v @ t"] conjI exI [of _ u] exI [of _ v]) simp_all
qed

lemma star_words:
  "(\<exists>w. s = w @ t \<and> matches (Star a) w)
    \<longleftrightarrow> t = s \<or> (\<exists>w. s = w @ t \<and> (\<exists>u v. w = u @ v \<and> (matches a u \<and> u \<noteq> []) \<and> matches (Star a) v))"
proof -
  have "(\<exists>w. s = w @ t \<and> matches (Star a) w) \<longleftrightarrow>
      (\<exists>w. s = w @ t \<and> (w = [] \<or> (\<exists>u v. w = u @ v \<and> matches a u \<and> u \<noteq> [] \<and> matches (Star a) v)))"
    by (intro ex_cong1 conj_cong refl matches_Star_iff)
  then show ?thesis
    by blast
qed

lemma in_rests_Star:
  "t \<in> set (rests (Star a) s)
    \<longleftrightarrow> t = s \<or> (\<exists>x. (x \<in> set (rests a s) \<and> length x < length s) \<and> t \<in> set (rests (Star a) x))"
proof -
  have "t \<in> set (concat (map f (filter P xs)) @ [s]) \<longleftrightarrow> t = s \<or> (\<exists>x. (x \<in> set xs \<and> P x) \<and> t \<in> set (f x))" for f P xs
    by auto
  then show ?thesis
    unfolding rests.simps(5) [of a s] .
qed

lemma shorter_rest:
  assumes "\<And>x. x \<in> set (rests a s) \<longleftrightarrow> (\<exists>u. s = u @ x \<and> matches a u)"
  shows "x \<in> set (rests a s) \<and> length x < length s \<longleftrightarrow> (\<exists>u. s = u @ x \<and> matches a u \<and> u \<noteq> [])"
proof -
  have "length x < length (u @ x) \<longleftrightarrow> u \<noteq> []" for u
    by simp
  then show ?thesis
    unfolding assms by blast
qed

text \<open>What is left is what follows a word of the language.\<close>

lemma rests_iff: "t \<in> set (rests r s) \<longleftrightarrow> (\<exists>u. s = u @ t \<and> matches r u)"
proof (induction r s arbitrary: t rule: rests.induct)
  case (1 s)
  then show ?case
    by auto
next
  case (2 p s)
  then show ?case
    by (auto split: list.splits)
next
  case (3 a b s)
  have "t \<in> set (rests (Seq a b) s) \<longleftrightarrow> (\<exists>x. x \<in> set (rests a s) \<and> t \<in> set (rests b x))"
    by auto
  also have "\<dots> \<longleftrightarrow> (\<exists>x. (\<exists>u. s = u @ x \<and> matches a u) \<and> (\<exists>v. x = v @ t \<and> matches b v))"
    using 3 by blast
  finally show ?case
    unfolding split_twice matches_Seq_iff .
next
  case (4 a b s)
  then show ?case
    by auto
next
  case (5 a s)
  have "t \<in> set (rests (Star a) s)
      \<longleftrightarrow> t = s \<or> (\<exists>x. (x \<in> set (rests a s) \<and> length x < length s) \<and> (\<exists>v. x = v @ t \<and> matches (Star a) v))"
    unfolding in_rests_Star [of t a s]
    by (intro arg_cong2 [where f = "(\<or>)"] refl ex_cong1 conj_cong "5.IH"(2)) simp
  then show ?case
    unfolding star_words [of s t a] split_twice [of s "\<lambda>u. matches a u \<and> u \<noteq> []", symmetric] shorter_rest [OF "5.IH"(1)]
    by (simp only: conj_assoc)
qed

lemma re_match_iff: "re_match r s \<longleftrightarrow> matches r s"
  by (simp add: re_match_def rests_iff)

section \<open>Characters\<close>

text \<open>The characters of the words of an expression.\<close>

fun chars_ok :: "(char \<Rightarrow> bool) \<Rightarrow> regex \<Rightarrow> bool" where
  "chars_ok q Empty \<longleftrightarrow> True"
| "chars_ok q (Class p) \<longleftrightarrow> (\<forall>c. p c \<longrightarrow> q c)"
| "chars_ok q (Seq a b) \<longleftrightarrow> chars_ok q a \<and> chars_ok q b"
| "chars_ok q (Alt a b) \<longleftrightarrow> chars_ok q a \<and> chars_ok q b"
| "chars_ok q (Star a) \<longleftrightarrow> chars_ok q a"

lemma matches_chars: "matches r s \<Longrightarrow> chars_ok q r \<Longrightarrow> list_all q s"
  by (induction rule: matches.induct) auto

section \<open>Languages of the constructs\<close>

lemma matches_Chr [simp]: "matches (Chr c) s \<longleftrightarrow> s = [c]"
  by (auto simp: Chr_def)

text \<open>A word of a repetition is a sequence of words.\<close>

lemma matches_Star_concat: "matches (Star a) s \<longleftrightarrow> (\<exists>us. list_all (matches a) us \<and> s = concat us)"
proof
  assume "matches (Star a) s"
  then show "\<exists>us. list_all (matches a) us \<and> s = concat us"
  proof (induction "Star a" s)
    case matches_Star0
    show ?case
      by (intro exI [of _ "[]"]) simp
  next
    case (matches_Star u v)
    then obtain us where "list_all (matches a) us" "v = concat us"
      by blast
    with matches_Star(1) show ?case
      by (intro exI [of _ "u # us"]) simp
  qed
next
  assume "\<exists>us. list_all (matches a) us \<and> s = concat us"
  then obtain us where "list_all (matches a) us" "s = concat us"
    by blast
  then show "matches (Star a) s"
  proof (induction us arbitrary: s)
    case (Cons u us)
    then show ?case
      using matches_Star [of a u "concat us"] by (cases "u = []") auto
  qed (simp add: matches_Star0)
qed

lemma matches_Seq_Class: "matches (Seq (Class p) b) s \<longleftrightarrow> (\<exists>c v. s = c # v \<and> p c \<and> matches b v)"
  by (auto simp: matches_Seq_iff) (metis append_Cons append_Nil)

lemma matches_Star_Class: "matches (Star (Class p)) s \<longleftrightarrow> list_all p s"
proof
  assume "matches (Star (Class p)) s"
  then obtain us where us: "list_all (matches (Class p)) us" "s = concat us"
    unfolding matches_Star_concat by blast
  then show "list_all p s"
    by (induction us arbitrary: s) auto
next
  assume "list_all p s"
  then have "list_all (matches (Class p)) (map (\<lambda>c. [c]) s)" "s = concat (map (\<lambda>c. [c]) s)"
    by (auto simp: list_all_iff)
  then show "matches (Star (Class p)) s"
    unfolding matches_Star_concat by blast
qed

lemma matches_Plus_Class: "matches (Plus (Class p)) s \<longleftrightarrow> s \<noteq> [] \<and> list_all p s"
  by (cases s) (simp_all add: Plus_def matches_Seq_Class matches_Star_Class)

lemma matches_Times_Class: "matches (Times n (Class p)) s \<longleftrightarrow> length s = n \<and> list_all p s"
proof (induction n arbitrary: s)
  case (Suc n)
  then show ?case
    by (cases s) (auto simp: matches_Seq_Class)
qed auto

lemma matches_Opt: "matches (Opt a) s \<longleftrightarrow> matches a s \<or> s = []"
  by (simp add: Opt_def)

text \<open>A word of a sequence has a word of each part.\<close>

lemma matches_Seqs: "matches (Seqs as) s \<longleftrightarrow> (\<exists>us. list_all2 matches as us \<and> s = concat us)"
proof (induction as arbitrary: s)
  case (Cons a as)
  have "matches (Seqs (a # as)) s \<longleftrightarrow> (\<exists>u us. s = u @ concat us \<and> matches a u \<and> list_all2 matches as us)"
    using Cons.IH by (auto simp: matches_Seq_iff)
  then show ?case
    by (force simp: list_all2_Cons1)
qed simp

end
