(* ===== verification/CollectorClient.thy ===== *)
theory CollectorClient
  imports Http EntryState Regexes
begin

text \<open>
  The client of the collector (\<open>ooni/collector\_client\_impl.hpp\<close>, \<open>ooni/collector\_client.cpp\<close>): which entries may be
  submitted, the requests that create, update and close a report, and the submission of a report from a
  file, entry by entry.  The parser and the printer of JSON, the connection and the answers of the collector, which
  may depend on all requests before, are arguments.
\<close>

section \<open>Mandatory values\<close>

definition re_name :: regex where
  "re_name = Plus (Class (\<lambda>c. is_AZ c \<or> is_az c \<or> is_digit c \<or> c \<in> set ''._-''))"

text \<open>\<open>0|[1-9]\d*\<close> and the dotted parts of a label behind the numbers; case is ignored.\<close>

definition re_number :: regex where
  "re_number = Alt (Chr CHR ''0'') (Seq (Class (\<lambda>c. is_digit c \<and> c \<noteq> CHR ''0'')) (Star (Class is_digit)))"

definition re_label :: "char \<Rightarrow> regex" where
  "re_label mark =
    (let word = Plus (Class (\<lambda>c. is_digit c \<or> is_az c \<or> is_AZ c \<or> c = CHR ''-'')) in
     Opt (Seq (Chr mark) (Seq word (Star (Seq (Chr CHR ''.'') word)))))"

definition re_version :: regex where
  "re_version =
    Seqs [Opt (Class (\<lambda>c. c \<in> set ''vV'')), re_number, Chr CHR ''.'', re_number, Chr CHR ''.'', re_number,
      re_label CHR ''-'', re_label CHR ''+'']"

definition re_asn :: regex where
  "re_asn = Seqs [Chr CHR ''A'', Chr CHR ''S'', Plus (Class is_digit)]"

definition re_cc :: regex where
  "re_cc = Times 2 (Class is_AZ)"

definition re_time :: regex where
  "re_time =
    (let d = Class is_digit in
     Seqs [Times 4 d, Chr CHR ''-'', Times 2 d, Chr CHR ''-'', Times 2 d, Chr CHR '' '',
       Times 2 d, Chr CHR '':'', Times 2 d, Chr CHR '':'', Times 2 d])"

text \<open>In the order of the keys, which is the order of the map.\<close>

definition mandatory_re :: "(string \<times> regex) list" where
  "mandatory_re =
    [(''data_format_version'', re_version), (''probe_asn'', re_asn), (''probe_cc'', re_cc),
     (''software_name'', re_name), (''software_version'', re_version), (''test_name'', re_name),
     (''test_start_time'', re_time), (''test_version'', re_version)]"

text \<open>Reading a member throws when the entry is not an object.\<close>

fun valid_values :: "(string \<times> regex) list \<Rightarrow> json \<Rightarrow> error res" where
  "valid_values [] entry = Inr (new NoError)"
| "valid_values ((k, re) # rs) entry =
    (case entry_get k entry of
       Inl e \<Rightarrow> Inl e
     | Inr (JString s) \<Rightarrow>
        if \<not> re_match re s then Inr (new_s InvalidMandatoryValueError k) else valid_values rs entry
     | Inr _ \<Rightarrow> Inr (new_e MissingMandatoryKeyError (new JsonDomainError)))"

definition valid_entry :: "json \<Rightarrow> error res" where
  "valid_entry entry = valid_values mandatory_re entry"

section \<open>Requests\<close>

text \<open>A request: its URL, its headers and its body.\<close>

type_synonym posted = "string \<times> headers \<times> string"

record collector_env =
  ce_parse :: "string \<Rightarrow> json option"
  ce_dump :: "json \<Rightarrow> string"
  ce_connect :: "string \<Rightarrow> error"
  ce_answer :: "posted list \<Rightarrow> posted \<Rightarrow> error \<times> response"

text \<open>Where a request goes: the error that is called back, or the URL in front and the headers.  An invalid base
  URL behind a front domain throws.\<close>

definition collector_target :: "settings \<Rightarrow> (error + string \<times> headers) res" where
  "collector_target settings =
    (case settings ''collector_base_url'' of
       None \<Rightarrow> Inr (Inl (new MissingCollectorBaseUrlError))
     | Some base_url \<Rightarrow>
        (case settings ''collector_front_domain'' of
           None \<Rightarrow> Inr (Inr (base_url, []))
         | Some front \<Rightarrow>
            (case parse_url base_url of
               Inl e \<Rightarrow> Inl (ErrorExn e)
             | Inr u \<Rightarrow> Inr (Inr (''https://'' @ front @ path u, headers_put ''Host'' (address u) [])))))"

definition post_to :: "string \<times> headers \<Rightarrow> string \<Rightarrow> string \<Rightarrow> posted" where
  "post_to target append_to_url body =
    (fst target @ append_to_url,
     if body \<noteq> [] then headers_put ''Content-Type'' ''application/json'' (snd target) else snd target, body)"

definition post_reply :: "(string \<Rightarrow> json option) \<Rightarrow> error \<times> response \<Rightarrow> error \<times> json" where
  "post_reply parse answer =
    (if is_err (fst answer) then (fst answer, JNull)
     else if rs_status (snd answer) div 100 \<noteq> 2 then (new HttpRequestFailedError, JNull)
     else if rs_body (snd answer) = [] then (new NoError, JNull)
     else case parse (rs_body (snd answer)) of None \<Rightarrow> (new JsonParseError, JNull) | Some j \<Rightarrow> (new NoError, j))"

text \<open>An operation on the transport: from the requests sent so far to its result and the requests sent then.\<close>

type_synonym 'a call = "posted list \<Rightarrow> 'a res \<times> posted list"

definition post :: "collector_env \<Rightarrow> settings \<Rightarrow> string \<Rightarrow> string \<Rightarrow> (error \<times> json) call" where
  "post env settings append_to_url body sent =
    (case collector_target settings of
       Inl e \<Rightarrow> (Inl e, sent)
     | Inr (Inl err) \<Rightarrow> (Inr (err, JNull), sent)
     | Inr (Inr target) \<Rightarrow>
        let p = post_to target append_to_url body in
        (Inr (post_reply (ce_parse env) (ce_answer env sent p)), sent @ [p]))"

definition collector_connect :: "collector_env \<Rightarrow> settings \<Rightarrow> error res" where
  "collector_connect env settings =
    (case collector_target settings of
       Inl e \<Rightarrow> Inl e
     | Inr (Inl err) \<Rightarrow> Inr err
     | Inr (Inr target) \<Rightarrow> Inr (ce_connect env (fst target)))"

section \<open>Operations on a report\<close>

definition create_request :: "json \<Rightarrow> json res" where
  "create_request entry =
    bind_res (map_res (\<lambda>k. bind_res (entry_get k entry) (\<lambda>v. Inr (k, v)))
        [''software_name'', ''software_version'', ''probe_asn'', ''probe_cc'', ''test_name'', ''test_version'',
         ''test_start_time'']) (\<lambda>ms.
      bind_res (entry_get ''input_hashes'' entry) (\<lambda>hashes.
      bind_res (entry_get ''data_format_version'' entry) (\<lambda>version.
      Inr (JObject (ms @ [(''input_hashes'', if hashes \<noteq> JNull then hashes else JArray []),
        (''data_format_version'', version), (''format'', JString ''json'')])))))"

definition create_done :: "error \<times> json \<Rightarrow> error \<times> string" where
  "create_done r =
    (if is_err (fst r) then (fst r, [])
     else case bind_res (json_at_key ''report_id'' (snd r)) json_string of
            Inl OutOfRange \<Rightarrow> (new JsonKeyError, [])
          | Inl _ \<Rightarrow> (new JsonDomainError, [])
          | Inr report_id \<Rightarrow> (new NoError, report_id))"

definition create_report :: "collector_env \<Rightarrow> settings \<Rightarrow> json \<Rightarrow> (error \<times> string) call" where
  "create_report env settings entry sent =
    (case valid_entry entry of
       Inl e \<Rightarrow> (Inl e, sent)
     | Inr err \<Rightarrow>
        if \<not> err_eq err (new NoError) then (Inr (err, []), sent)
        else case create_request entry of
               Inl e \<Rightarrow> (Inl e, sent)
             | Inr request \<Rightarrow> apfst (map_sum id create_done) (post env settings ''/report'' (ce_dump env request) sent))"

text \<open>The identifier is forced when the entry has none.\<close>

definition with_report_id :: "string \<Rightarrow> json \<Rightarrow> json res" where
  "with_report_id report_id entry =
    bind_res (entry_get ''report_id'' entry)
      (\<lambda>v. if v = JNull then entry_set ''report_id'' (JString report_id) entry else Inr entry)"

definition update_request :: "json \<Rightarrow> json" where
  "update_request entry = JObject [(''format'', JString ''json''), (''content'', entry)]"

definition update_report :: "collector_env \<Rightarrow> settings \<Rightarrow> string \<Rightarrow> json \<Rightarrow> error call" where
  "update_report env settings report_id entry sent =
    (case with_report_id report_id entry of
       Inl e \<Rightarrow> (Inl e, sent)
     | Inr entry \<Rightarrow>
        (case valid_entry entry of
           Inl e \<Rightarrow> (Inl e, sent)
         | Inr err \<Rightarrow>
            if \<not> err_eq err (new NoError) then (Inr err, sent)
            else apfst (map_sum id fst)
              (post env settings (''/report/'' @ report_id) (ce_dump env (update_request entry)) sent)))"

definition close_report :: "collector_env \<Rightarrow> settings \<Rightarrow> string \<Rightarrow> error call" where
  "close_report env settings report_id sent =
    apfst (map_sum id fst) (post env settings (''/report/'' @ report_id @ ''/close'') [] sent)"

section \<open>The life of a transport\<close>

text \<open>What happens in the order in which it happens, and what is thrown to the caller or out of a callback.\<close>

datatype 'a col_event = Connected | Posted posted | Disconnected | Calls 'a

type_synonym 'a col_run = "'a col_event list \<times> exn option"

text \<open>Every way out closes the transport and then calls back.\<close>

definition hang_up :: "'a res \<times> posted list \<Rightarrow> 'a col_run" where
  "hang_up r =
    (case fst r of
       Inl e \<Rightarrow> (Connected # map Posted (snd r), Some e)
     | Inr x \<Rightarrow> (Connected # map Posted (snd r) @ [Disconnected, Calls x], None))"

definition connect_and :: "collector_env \<Rightarrow> settings \<Rightarrow> (error \<Rightarrow> 'a) \<Rightarrow> 'a call \<Rightarrow> 'a col_run" where
  "connect_and env settings failed call =
    (case collector_connect env settings of
       Inl e \<Rightarrow> ([], Some e)
     | Inr err \<Rightarrow> if is_err err then ([Calls (failed err)], None) else hang_up (call []))"

definition connect_and_create_report :: "collector_env \<Rightarrow> settings \<Rightarrow> json \<Rightarrow> (error \<times> string) col_run" where
  "connect_and_create_report env settings entry =
    connect_and env settings (\<lambda>err. (err, [])) (create_report env settings entry)"

definition connect_and_update_report :: "collector_env \<Rightarrow> settings \<Rightarrow> string \<Rightarrow> json \<Rightarrow> error col_run" where
  "connect_and_update_report env settings report_id entry =
    connect_and env settings id (update_report env settings report_id entry)"

definition connect_and_close_report :: "collector_env \<Rightarrow> settings \<Rightarrow> string \<Rightarrow> error col_run" where
  "connect_and_close_report env settings report_id =
    connect_and env settings id (close_report env settings report_id)"

section \<open>Submission of a file\<close>

text \<open>What is left to read of a file, and whether reading fails there instead of ending.\<close>

type_synonym istream = "string \<times> bool"

text \<open>\<open>std::getline\<close> at the end of the file, also behind an incomplete line, sets the end of file.\<close>

definition get_next_entry :: "(string \<Rightarrow> json option) \<Rightarrow> istream \<Rightarrow> json error_or \<times> istream" where
  "get_next_entry parse f =
    (if CHR ''\<newline>'' \<notin> set (fst f) then ((new (if snd f then FileIoError else FileEofError), JNull), [], snd f)
     else
       let line = takeWhile (\<lambda>c. c \<noteq> CHR ''\<newline>'') (fst f); f' = (drop (length line + 1) (fst f), snd f) in
       case parse line of None \<Rightarrow> ((new JsonParseError, JNull), f') | Some j \<Rightarrow> (no_err j, f'))"

text \<open>A file without a line gives no entry, and every entry makes it shorter.\<close>

lemma get_next_entry_shorter:
  "get_next_entry parse f = (e, f') \<Longrightarrow> has_value e \<Longrightarrow> length (fst f') < length (fst f)"
  by (cases "fst f") (auto simp: get_next_entry_def Let_def has_value_def err_eq_def err_simps split: if_splits option.splits)

function update_and_fetch_next :: "collector_env \<Rightarrow> settings \<Rightarrow> string \<Rightarrow> istream \<Rightarrow> json \<Rightarrow> error call" where
  "update_and_fetch_next env settings report_id f entry sent =
    (case update_report env settings report_id entry sent of
       (Inl e, sent) \<Rightarrow> (Inl e, sent)
     | (Inr err, sent) \<Rightarrow>
        if is_err err then (Inr err, sent)
        else let (e, f') = get_next_entry (ce_parse env) f in
          if has_value e then update_and_fetch_next env settings report_id f' (snd e) sent
          else if \<not> err_eq (as_error e) (new FileEofError) then (Inr (as_error e), sent)
          else close_report env settings report_id sent)"
  by pat_completeness auto

termination update_and_fetch_next
  by (relation "measure (\<lambda>(env, s, r, f, e, sent). length (fst f))") (auto dest!: get_next_entry_shorter [OF sym])

declare update_and_fetch_next.simps [simp del]

definition submission_settings :: "settings \<Rightarrow> string \<Rightarrow> string \<Rightarrow> settings" where
  "submission_settings settings base_url front_domain =
    (let settings = settings(''collector_base_url'' \<mapsto> base_url) in
     if front_domain \<noteq> [] then settings(''collector_front_domain'' \<mapsto> front_domain) else settings)"

definition submit_entries :: "collector_env \<Rightarrow> settings \<Rightarrow> istream \<Rightarrow> json \<Rightarrow> error call" where
  "submit_entries env settings f entry sent =
    (case create_report env settings entry sent of
       (Inl e, sent) \<Rightarrow> (Inl e, sent)
     | (Inr (err, report_id), sent) \<Rightarrow>
        if is_err err then (Inr err, sent) else update_and_fetch_next env settings report_id f entry sent)"

definition submit_report :: "collector_env \<Rightarrow> settings \<Rightarrow> istream option \<Rightarrow> string \<Rightarrow> string \<Rightarrow> error col_run" where
  "submit_report env settings f base_url front_domain =
    (case f of
       None \<Rightarrow> ([Calls (new CannotOpenReportError)], None)
     | Some f \<Rightarrow>
        let (e, f) = get_next_entry (ce_parse env) f in
        if \<not> has_value e then ([Calls (as_error e)], None)
        else
          let settings = submission_settings settings base_url front_domain in
          connect_and env settings id (submit_entries env settings f (snd e)))"

definition production_collector_url :: string where
  "production_collector_url = ''https://b.collector.ooni.io''"

definition testing_collector_url :: string where
  "testing_collector_url = ''https://collector-sandbox.ooni.io''"

section \<open>Valid entries\<close>

text \<open>What the mandatory values have to be, in terms of their parts.\<close>

definition name_value :: "string \<Rightarrow> bool" where
  "name_value s \<longleftrightarrow> s \<noteq> [] \<and> (\<forall>c \<in> set s. is_AZ c \<or> is_az c \<or> is_digit c \<or> c \<in> {CHR ''.'', CHR ''_'', CHR ''-''})"

definition number_value :: "string \<Rightarrow> bool" where
  "number_value s \<longleftrightarrow> s \<noteq> [] \<and> list_all is_digit s \<and> (hd s = CHR ''0'' \<longrightarrow> s = ''0'')"

definition label_word :: "string \<Rightarrow> bool" where
  "label_word s \<longleftrightarrow> s \<noteq> [] \<and> (\<forall>c \<in> set s. is_digit c \<or> is_az c \<or> is_AZ c \<or> c = CHR ''-'')"

text \<open>Nothing, or identifiers with dots between them behind a mark.\<close>

definition label_value :: "char \<Rightarrow> string \<Rightarrow> bool" where
  "label_value mark s \<longleftrightarrow>
    s = [] \<or> (\<exists>w ws. list_all label_word (w # ws) \<and> s = mark # w @ concat (map (Cons CHR ''.'') ws))"

text \<open>A version: perhaps a letter v, three numbers with dots between them, and perhaps labels for a release and a build.\<close>

definition version_value :: "string \<Rightarrow> bool" where
  "version_value s \<longleftrightarrow>
    (\<exists>v major minor patch release build.
      s = v @ major @ ''.'' @ minor @ ''.'' @ patch @ release @ build \<and> v \<in> {[], ''v'', ''V''}
      \<and> number_value major \<and> number_value minor \<and> number_value patch
      \<and> label_value CHR ''-'' release \<and> label_value CHR ''+'' build)"

definition asn_value :: "string \<Rightarrow> bool" where
  "asn_value s \<longleftrightarrow> (\<exists>ds. s = ''AS'' @ ds \<and> ds \<noteq> [] \<and> list_all is_digit ds)"

definition cc_value :: "string \<Rightarrow> bool" where
  "cc_value s \<longleftrightarrow> (\<exists>c d. s = [c, d] \<and> is_AZ c \<and> is_AZ d)"

text \<open>Digits for the date and the time with their separators, as in 2018-06-12 10:00:00.\<close>

definition time_value :: "string \<Rightarrow> bool" where
  "time_value s \<longleftrightarrow>
    (\<exists>y m d h mi sec. s = y @ ''-'' @ m @ ''-'' @ d @ '' '' @ h @ '':'' @ mi @ '':'' @ sec
      \<and> length y = 4 \<and> map length [m, d, h, mi, sec] = [2, 2, 2, 2, 2] \<and> list_all (list_all is_digit) [y, m, d, h, mi, sec])"

text \<open>A member of the entry that is a string with a property.\<close>

definition member_is :: "string \<Rightarrow> (string \<Rightarrow> bool) \<Rightarrow> json \<Rightarrow> bool" where
  "member_is k P entry \<longleftrightarrow> (\<exists>s. json_at k entry = Some (JString s) \<and> P s)"

lemma matches_name: "matches re_name s \<longleftrightarrow> name_value s"
  by (auto simp: re_name_def matches_Plus_Class name_value_def list_all_iff)

lemma matches_number: "matches re_number s \<longleftrightarrow> number_value s"
  by (cases s) (auto simp: re_number_def matches_Seq_Class matches_Star_Class number_value_def is_digit_def Cons_eq_append_conv)

lemma list_all_image: "list_all (\<lambda>u. \<exists>w. P w \<and> u = f w) us \<longleftrightarrow> (\<exists>ws. list_all P ws \<and> us = map f ws)"
proof (induction us)
  case (Cons u us)
  have "(\<exists>ws. list_all P ws \<and> u # us = map f ws) \<longleftrightarrow> (\<exists>w ws. list_all P (w # ws) \<and> u = f w \<and> us = map f ws)"
  proof (intro iffI; elim exE conjE)
    fix ws
    assume "list_all P ws" "u # us = map f ws"
    then show "\<exists>w ws. list_all P (w # ws) \<and> u = f w \<and> us = map f ws"
      by (cases ws) fastforce+
  next
    fix w ws
    assume "list_all P (w # ws)" "u = f w" "us = map f ws"
    then show "\<exists>ws. list_all P ws \<and> u # us = map f ws"
      by (intro exI [of _ "w # ws"]) simp
  qed
  then show ?case
    unfolding list.pred_inject(2) Cons.IH by auto
qed simp

lemma matches_label: "matches (re_label mark) s \<longleftrightarrow> label_value mark s"
proof -
  define letter where "letter = (\<lambda>c. is_digit c \<or> is_az c \<or> is_AZ c \<or> c = CHR ''-'')"
  have word: "matches (Plus (Class letter)) s \<longleftrightarrow> label_word s" for s
    by (simp add: matches_Plus_Class label_word_def letter_def list_all_iff)
  have "matches (Seq (Chr CHR ''.'') (Plus (Class letter))) = (\<lambda>u. \<exists>w. label_word w \<and> u = CHR ''.'' # w)"
    by (rule ext) (auto simp: Chr_def matches_Seq_Class word)
  then have rest: "matches (Star (Seq (Chr CHR ''.'') (Plus (Class letter)))) v \<longleftrightarrow>
      (\<exists>ws. list_all label_word ws \<and> v = concat (map (Cons CHR ''.'') ws))" for v
    unfolding matches_Star_concat by (simp only: list_all_image) blast
  have "matches (re_label mark) s \<longleftrightarrow>
      s = [] \<or> (\<exists>v. s = mark # v \<and> (\<exists>w r. v = w @ r \<and> label_word w \<and> (\<exists>ws. list_all label_word ws \<and> r = concat (map (Cons CHR ''.'') ws))))"
    unfolding re_label_def Let_def letter_def [symmetric] matches_Opt Chr_def [of mark] matches_Seq_Class
      matches_Seq_iff [of "Plus (Class letter)"] word rest by auto
  then show ?thesis
    unfolding label_value_def list.pred_inject(2) by blast
qed

lemma matches_version: "matches re_version s \<longleftrightarrow> version_value s"
proof
  have v: "matches (Opt (Class (\<lambda>c. c \<in> set ''vV''))) s \<longleftrightarrow> s \<in> {[], ''v'', ''V''}" for s
    by (auto simp: matches_Opt)
  note parts = v matches_number matches_label matches_Chr
  show "version_value s" if m: "matches re_version s"
  proof -
    obtain v a b c r u where "v \<in> {[], ''v'', ''V''}" "number_value a" "number_value b" "number_value c"
      "label_value CHR ''-'' r" "label_value CHR ''+'' u" "s = concat [v, a, ''.'', b, ''.'', c, r, u]"
      using m unfolding re_version_def matches_Seqs list_all2_Cons1 list_all2_Nil parts by (elim exE conjE) (hypsubst, rule that)
    then show ?thesis
      unfolding version_value_def
      by (intro exI [of _ v] exI [of _ a] exI [of _ b] exI [of _ c] exI [of _ r] exI [of _ u] conjI) simp_all
  qed
  show "matches re_version s" if "version_value s"
  proof -
    from that obtain v a b c r u where s: "s = v @ a @ ''.'' @ b @ ''.'' @ c @ r @ u" "v \<in> {[], ''v'', ''V''}"
      "number_value a" "number_value b" "number_value c" "label_value CHR ''-'' r" "label_value CHR ''+'' u"
      unfolding version_value_def by (elim exE conjE) (rule that)
    show ?thesis
      unfolding re_version_def matches_Seqs
      by (rule exI [of _ "[v, a, ''.'', b, ''.'', c, r, u]"]) (use s in \<open>simp add: parts v [simplified]\<close>)
  qed
qed

lemma matches_asn: "matches re_asn s \<longleftrightarrow> asn_value s"
  by (auto simp: re_asn_def matches_Seq_iff matches_Plus_Class asn_value_def)

lemma matches_cc: "matches re_cc s \<longleftrightarrow> cc_value s"
  unfolding re_cc_def matches_Times_Class cc_value_def by (auto simp: length_Suc_conv numeral_2_eq_2)

lemma matches_time: "matches re_time s \<longleftrightarrow> time_value s"
proof
  note parts = matches_Times_Class matches_Chr
  show "time_value s" if m: "matches re_time s"
  proof -
    obtain y m d h mi sec where "length y = 4" "list_all is_digit y" "length m = 2" "list_all is_digit m"
      "length d = 2" "list_all is_digit d" "length h = 2" "list_all is_digit h" "length mi = 2" "list_all is_digit mi"
      "length sec = 2" "list_all is_digit sec" "s = concat [y, ''-'', m, ''-'', d, '' '', h, '':'', mi, '':'', sec]"
      using m unfolding re_time_def Let_def matches_Seqs list_all2_Cons1 list_all2_Nil parts
      by (elim exE conjE) (hypsubst, rule that)
    then show ?thesis
      unfolding time_value_def
      by (intro exI [of _ y] exI [of _ m] exI [of _ d] exI [of _ h] exI [of _ mi] exI [of _ sec] conjI) simp_all
  qed
  show "matches re_time s" if "time_value s"
  proof -
    from that obtain y m d h mi sec where s: "s = y @ ''-'' @ m @ ''-'' @ d @ '' '' @ h @ '':'' @ mi @ '':'' @ sec"
      "length y = 4" "map length [m, d, h, mi, sec] = [2, 2, 2, 2, 2]" "list_all (list_all is_digit) [y, m, d, h, mi, sec]"
      unfolding time_value_def by (elim exE conjE) (rule that)
    show ?thesis
      unfolding re_time_def Let_def matches_Seqs
      by (rule exI [of _ "[y, ''-'', m, ''-'', d, '' '', h, '':'', mi, '':'', sec]"]) (use s in \<open>simp add: parts\<close>)
  qed
qed

lemma entry_get_string: "entry_get k entry = Inr (JString s) \<longleftrightarrow> json_at k entry = Some (JString s)"
  by (cases entry) (auto simp: entry_get_def entry_members_def split: option.splits)

lemma mandatory_errors [simp]:
  "new_s InvalidMandatoryValueError k \<noteq> new NoError" "new_e MissingMandatoryKeyError e \<noteq> new NoError"
  "is_err (new_s InvalidMandatoryValueError k)" "is_err (new_e MissingMandatoryKeyError e)"
  by (simp_all add: new_def new_s_def new_e_def mk_error_def mk_error_child_def is_err_def add_child_error_def err_simps
      split: error.split)

lemma valid_values_accepts:
  "valid_values rs entry = Inr (new NoError) \<longleftrightarrow>
    list_all (\<lambda>(k, re). \<exists>s. json_at k entry = Some (JString s) \<and> matches re s) rs"
proof (induction rs)
  case (Cons r rs)
  obtain k re where r: "r = (k, re)"
    by (rule prod.exhaust)
  show ?case
    using Cons unfolding r entry_get_string [symmetric]
    by (auto simp: re_match_iff split: sum.splits json.splits)
qed simp

lemma valid_values_error: "valid_values rs entry = Inr err \<Longrightarrow> err = new NoError \<or> is_err err"
  by (induction rs) (auto simp: err_simps split: sum.splits json.splits if_splits)

text \<open>An entry that is no object is not refused: the reading of its members throws.\<close>

lemma list_entry_throws: "valid_entry (JArray xs) = Inl (ErrorExn (new JsonDomainError))"
  by (simp add: valid_entry_def mandatory_re_def entry_get_def entry_members_def)

section \<open>Reading a file\<close>

lemma drop_line: "drop (length line + 1) (line @ c # rest) = rest"
  by (induction line) simp_all

lemma get_next_entry_line:
  assumes "get_next_entry parse f = (e, f')" "has_value e"
  obtains line where "fst f = line @ ''\<newline>'' @ fst f'" "CHR ''\<newline>'' \<notin> set line" "parse line = Some (snd e)" "snd f' = snd f"
proof -
  have "CHR ''\<newline>'' \<in> set (fst f)"
  proof (rule ccontr)
    assume "CHR ''\<newline>'' \<notin> set (fst f)"
    with assms show False
      by (auto simp: get_next_entry_def has_value_def err_eq_def err_simps split: if_splits)
  qed
  then obtain line rest where f: "fst f = line @ CHR ''\<newline>'' # rest" "CHR ''\<newline>'' \<notin> set line"
    by (blast dest: split_list_first)
  then have "takeWhile (\<lambda>c. c \<noteq> CHR ''\<newline>'') (fst f) = line"
    by (subst f(1), subst takeWhile_append2) auto
  then have "get_next_entry parse f
      = (case parse line of None \<Rightarrow> ((new JsonParseError, JNull), rest, snd f) | Some j \<Rightarrow> (no_err j, rest, snd f))"
    using f drop_line [of line "CHR ''\<newline>''" rest] by (simp add: get_next_entry_def Let_def del: drop_append split: option.splits)
  then have "parse line = Some (snd e)" "f' = (rest, snd f)"
    using assms by (auto simp: no_err_def has_value_def err_eq_def err_simps split: option.splits)
  then show ?thesis
    using f by (intro that [of line]) simp_all
qed

text \<open>A report that ends without a newline loses its last line.\<close>

lemma incomplete_line_lost:
  "CHR ''\<newline>'' \<notin> set s
    \<Longrightarrow> submit_report env settings (Some (s, False)) base_url front = ([Calls (new FileEofError)], None)"
  by (simp add: submit_report_def get_next_entry_def has_value_def as_error_def err_eq_def err_simps)

section \<open>Requests of a submission\<close>

definition update_post :: "collector_env \<Rightarrow> string \<times> headers \<Rightarrow> string \<Rightarrow> json \<Rightarrow> posted" where
  "update_post env target report_id entry =
    post_to target (''/report/'' @ report_id) (ce_dump env (update_request entry))"

definition close_post :: "string \<times> headers \<Rightarrow> string \<Rightarrow> posted" where
  "close_post target report_id = post_to target (''/report/'' @ report_id @ ''/close'') []"

definition create_post :: "collector_env \<Rightarrow> string \<times> headers \<Rightarrow> json \<Rightarrow> posted" where
  "create_post env target request = post_to target ''/report'' (ce_dump env request)"

text \<open>The collector answers each of the requests, sent one after the other, without an error and with a status of success.\<close>

fun accepted :: "collector_env \<Rightarrow> posted list \<Rightarrow> posted list \<Rightarrow> bool" where
  "accepted env sent [] = True"
| "accepted env sent (p # ps) =
    (\<not> is_err (fst (ce_answer env sent p)) \<and> rs_status (snd (ce_answer env sent p)) div 100 = 2
      \<and> accepted env (sent @ [p]) ps)"

lemma accepted_append: "accepted env sent (ps @ qs) \<longleftrightarrow> accepted env sent ps \<and> accepted env (sent @ ps) qs"
  by (induction ps arbitrary: sent) simp_all

lemma accepted_post: "\<not> is_err (fst (post_reply parse (ce_answer env sent p))) \<Longrightarrow> accepted env sent [p]"
  by (simp add: post_reply_def err_simps split: if_splits)

text \<open>The identifier that the collector gave to the report, in its answer to the first request.\<close>

definition given_id :: "collector_env \<Rightarrow> posted \<Rightarrow> string \<Rightarrow> bool" where
  "given_id env p report_id \<longleftrightarrow>
    (\<exists>reply. ce_parse env (rs_body (snd (ce_answer env [] p))) = Some reply
      \<and> json_at ''report_id'' reply = Some (JString report_id))"

lemma json_string_Inr: "json_string j = Inr s \<longleftrightarrow> j = JString s"
  by (cases j) (auto simp: json_string_def)

lemma at_key_string: "bind_res (json_at_key k j) json_string = Inr s \<longleftrightarrow> (\<exists>ms. j = JObject ms \<and> map_of ms k = Some (JString s))"
  by (cases j) (auto simp: json_at_key_def bind_res_Inr_iff json_string_Inr split: option.split)

lemma given_idI:
  assumes "create_done (post_reply (ce_parse env) (ce_answer env [] p)) = (err, report_id)" "\<not> is_err err"
  shows "given_id env p report_id" "accepted env [] [p]"
proof -
  let ?r = "post_reply (ce_parse env) (ce_answer env [] p)"
  have ok: "\<not> is_err (fst ?r)"
    using assms by (auto simp: create_done_def split: if_splits)
  then show "accepted env [] [p]"
    by (rule accepted_post)
  have "bind_res (json_at_key ''report_id'' (snd ?r)) json_string = Inr report_id"
    using assms ok by (auto simp: create_done_def err_simps split: sum.splits exn.splits)
  then obtain ms where ms: "snd ?r = JObject ms" "map_of ms ''report_id'' = Some (JString report_id)"
    unfolding at_key_string by blast
  then have "ce_parse env (rs_body (snd (ce_answer env [] p))) = Some (JObject ms)"
    using ok by (auto simp: post_reply_def err_simps split: if_splits option.splits)
  with ms(2) show "given_id env p report_id"
    by (simp add: given_id_def)
qed

lemma post_run:
  "collector_target st = Inr (Inr t) \<Longrightarrow> post env st u b sent
    = (Inr (post_reply (ce_parse env) (ce_answer env sent (post_to t u b))), sent @ [post_to t u b])"
  by (simp add: post_def Let_def)

lemma update_report_run:
  assumes "collector_target st = Inr (Inr t)" "update_report env st rid entry sent = (Inr err, sent')" "\<not> is_err err"
  obtains entry' where "with_report_id rid entry = Inr entry'" "sent' = sent @ [update_post env t rid entry']"
    "accepted env sent [update_post env t rid entry']"
proof -
  obtain entry' where e: "with_report_id rid entry = Inr entry'"
    using assms(2) by (auto simp: update_report_def split: sum.splits)
  obtain v where v: "valid_entry entry' = Inr v"
    using assms(2) e by (auto simp: update_report_def split: sum.splits)
  have "err_eq v (new NoError)"
    using assms(2,3) e v by (auto simp: update_report_def err_eq_def is_err_def err_simps split: if_splits)
  then have "sent' = sent @ [update_post env t rid entry']"
    "err = fst (post_reply (ce_parse env) (ce_answer env sent (update_post env t rid entry')))"
    using assms(2) e v by (simp_all add: update_report_def post_run [OF assms(1)] update_post_def)
  with e assms(3) show ?thesis
    by (intro that accepted_post) simp_all
qed

lemma update_loop_run:
  assumes "collector_target st = Inr (Inr t)"
    and "update_and_fetch_next env st rid f entry sent = (Inr err, sent')" "\<not> is_err err"
  shows "\<exists>ls rest js es. fst f = concat (map (\<lambda>l. l @ ''\<newline>'') ls) @ rest \<and> CHR ''\<newline>'' \<notin> set (concat ls @ rest)
    \<and> map (ce_parse env) ls = map Some js \<and> map (with_report_id rid) (entry # js) = map Inr es
    \<and> sent' = sent @ map (update_post env t rid) es @ [close_post t rid]
    \<and> accepted env sent (map (update_post env t rid) es @ [close_post t rid])"
  using assms
proof (induction env st rid f entry sent rule: update_and_fetch_next.induct)
  case (1 env st rid f entry sent)
  note run = "1.prems"(2)
  obtain r sent1 where up: "update_report env st rid entry sent = (r, sent1)"
    by (rule prod.exhaust)
  obtain err1 where r: "r = Inr err1"
    using run up by (cases r) (auto simp: update_and_fetch_next.simps [of env st rid f entry sent])
  have ok: "\<not> is_err err1"
    using run "1.prems"(3) up r by (auto simp: update_and_fetch_next.simps [of env st rid f entry sent] split: if_splits)
  obtain entry' where entry': "with_report_id rid entry = Inr entry'" "sent1 = sent @ [update_post env t rid entry']"
    "accepted env sent [update_post env t rid entry']"
    using update_report_run [OF "1.prems"(1) up [unfolded r] ok] .
  obtain e f' where next_e: "get_next_entry (ce_parse env) f = (e, f')"
    by (rule prod.exhaust)
  show ?case
  proof (cases "has_value e")
    case True
    obtain line where line: "fst f = line @ ''\<newline>'' @ fst f'" "CHR ''\<newline>'' \<notin> set line" "ce_parse env line = Some (snd e)"
      using get_next_entry_line [OF next_e True] .
    have "update_and_fetch_next env st rid f' (snd e) sent1 = (Inr err, sent')"
      using run up r ok next_e True by (simp add: update_and_fetch_next.simps [of env st rid f entry sent] Let_def)
    from "1.IH" [OF up [symmetric] r ok next_e [symmetric] refl True "1.prems"(1) this "1.prems"(3)]
    obtain ls rest js es where IH: "fst f' = concat (map (\<lambda>l. l @ ''\<newline>'') ls) @ rest" "CHR ''\<newline>'' \<notin> set (concat ls @ rest)"
      "map (ce_parse env) ls = map Some js" "map (with_report_id rid) (snd e # js) = map Inr es"
      "sent' = sent1 @ map (update_post env t rid) es @ [close_post t rid]"
      "accepted env sent1 (map (update_post env t rid) es @ [close_post t rid])"
      by (elim exE conjE) (rule that)
    show ?thesis
      by (rule exI [of _ "line # ls"], rule exI [of _ rest], rule exI [of _ "snd e # js"], rule exI [of _ "entry' # es"])
        (use line IH entry' in simp)
  next
    case False
    have eof: "err_eq (as_error e) (new FileEofError)"
      using run "1.prems"(3) up r ok next_e False
      by (auto simp: update_and_fetch_next.simps [of env st rid f entry sent] has_value_def as_error_def err_eq_def is_err_def
          err_simps split: if_splits)
    have "CHR ''\<newline>'' \<notin> set (fst f)"
      using next_e False eof
      by (auto simp: get_next_entry_def Let_def as_error_def has_value_def no_err_def err_eq_def err_simps
          split: if_splits option.splits)
    moreover have "sent' = sent1 @ [close_post t rid]"
      "err = fst (post_reply (ce_parse env) (ce_answer env sent1 (close_post t rid)))"
      using run up r ok next_e False eof
      by (simp_all add: update_and_fetch_next.simps [of env st rid f entry sent] close_report_def
          post_run [OF "1.prems"(1)] close_post_def)
    moreover from this(2) have "accepted env sent1 [close_post t rid]"
      using "1.prems"(3) by (intro accepted_post) simp
    ultimately show ?thesis
      using entry' by (intro exI [of _ "[]"] exI [of _ "fst f"] exI [of _ "[entry']"]) simp
  qed
qed

section \<open>Submission\<close>

text \<open>Behind a front domain an invalid base URL is not called back but thrown.\<close>

lemma front_domain_throws:
  assumes "get_next_entry (ce_parse env) f = (no_err j, f')" "parse_url base_url = Inl e" "front \<noteq> []"
  shows "submit_report env settings (Some f) base_url front = ([], Some (ErrorExn e))"
  using assms
  by (simp add: submit_report_def Let_def has_value_def no_err_def err_eq_def connect_and_def collector_connect_def
      collector_target_def submission_settings_def)

lemma create_report_run:
  assumes "collector_target st = Inr (Inr t)" "create_report env st entry sent = (Inr (err, rid), sent')" "\<not> is_err err"
  obtains request where "create_request entry = Inr request" "valid_entry entry = Inr (new NoError)"
    "sent' = sent @ [create_post env t request]"
    "create_done (post_reply (ce_parse env) (ce_answer env sent (create_post env t request))) = (err, rid)"
proof -
  obtain v where v: "valid_entry entry = Inr v"
    using assms(2) by (auto simp: create_report_def split: sum.splits)
  have "err_eq v (new NoError)"
    using assms(2,3) v by (auto simp: create_report_def err_eq_def is_err_def err_simps split: if_splits)
  then have "v = new NoError"
    using valid_values_error [OF v [unfolded valid_entry_def]] by (auto simp: err_eq_def is_err_def err_simps)
  moreover obtain request where request: "create_request entry = Inr request"
    using assms(2) v \<open>err_eq v (new NoError)\<close> by (auto simp: create_report_def split: sum.splits)
  moreover have "sent' = sent @ [create_post env t request]"
    "create_done (post_reply (ce_parse env) (ce_answer env sent (create_post env t request))) = (err, rid)"
    using assms(2) v \<open>err_eq v (new NoError)\<close> request
    by (simp_all add: create_report_def post_run [OF assms(1)] create_post_def)
  ultimately show ?thesis
    using v by (intro that) simp_all
qed

lemma submit_entries_run:
  assumes "collector_target st = Inr (Inr t)" "submit_entries env st f entry [] = (Inr err, sent)" "\<not> is_err err"
  shows "\<exists>ls rest js es rid request. fst f = concat (map (\<lambda>l. l @ ''\<newline>'') ls) @ rest \<and> CHR ''\<newline>'' \<notin> set (concat ls @ rest)
    \<and> map (ce_parse env) ls = map Some js \<and> map (with_report_id rid) (entry # js) = map Inr es
    \<and> create_request entry = Inr request \<and> given_id env (create_post env t request) rid
    \<and> sent = create_post env t request # map (update_post env t rid) es @ [close_post t rid] \<and> accepted env [] sent"
proof -
  obtain r sent1 where c: "create_report env st entry [] = (r, sent1)"
    by (rule prod.exhaust)
  obtain err1 rid where r: "r = Inr (err1, rid)"
    using assms(2) c by (cases r) (auto simp: submit_entries_def)
  have ok: "\<not> is_err err1"
    using assms(2,3) c r by (auto simp: submit_entries_def split: if_splits)
  obtain request where request: "create_request entry = Inr request"
    "sent1 = [] @ [create_post env t request]"
    "create_done (post_reply (ce_parse env) (ce_answer env [] (create_post env t request))) = (err1, rid)"
    by (rule create_report_run [OF assms(1) c [unfolded r] ok])
  note given = given_idI [OF request(3) ok]
  have "update_and_fetch_next env st rid f entry sent1 = (Inr err, sent)"
    using assms(2) c r ok by (simp add: submit_entries_def)
  from update_loop_run [OF assms(1) this assms(3)] obtain ls rest js es where
    loop: "fst f = concat (map (\<lambda>l. l @ ''\<newline>'') ls) @ rest" "CHR ''\<newline>'' \<notin> set (concat ls @ rest)"
    "map (ce_parse env) ls = map Some js" "map (with_report_id rid) (entry # js) = map Inr es"
    "sent = sent1 @ map (update_post env t rid) es @ [close_post t rid]"
    "accepted env sent1 (map (update_post env t rid) es @ [close_post t rid])"
    by (elim exE conjE) (rule that)
  have "accepted env [] ([create_post env t request] @ map (update_post env t rid) es @ [close_post t rid])"
    using given(2) loop(6) request(2) unfolding accepted_append [of env "[]" "[create_post env t request]"] by simp
  then have "accepted env [] sent"
    using loop(5) request(2) by simp
  with loop request(1,2) given(1) show ?thesis
    by (intro exI [of _ ls] exI [of _ rest] exI [of _ js] exI [of _ es] exI [of _ rid] exI [of _ request]) simp
qed

definition update_entry :: "string \<Rightarrow> json \<Rightarrow> json" where
  "update_entry report_id entry = (case with_report_id report_id entry of Inl e \<Rightarrow> entry | Inr e \<Rightarrow> e)"

lemma submission:
  assumes "submit_report env settings (Some f) base_url front = (evs, None)" "last evs = Calls e" "\<not> is_err e"
  shows "\<exists>ls rest js rid target request posts.
    fst f = concat (map (\<lambda>l. l @ ''\<newline>'') ls) @ rest \<and> CHR ''\<newline>'' \<notin> set (concat ls @ rest)
    \<and> map (ce_parse env) ls = map Some js \<and> js \<noteq> [] \<and> create_request (hd js) = Inr request
    \<and> collector_target (submission_settings settings base_url front) = Inr (Inr target)
    \<and> given_id env (create_post env target request) rid
    \<and> posts = create_post env target request
        # map (\<lambda>j. update_post env target rid (update_entry rid j)) js @ [close_post target rid]
    \<and> accepted env [] posts
    \<and> evs = Connected # map Posted posts @ [Disconnected, Calls e]"
proof -
  let ?st = "submission_settings settings base_url front"
  obtain e1 f1 where n: "get_next_entry (ce_parse env) f = (e1, f1)"
    by (rule prod.exhaust)
  have first: "has_value e1"
    using assms n by (auto simp: submit_report_def as_error_def has_value_def err_eq_def is_err_def err_simps split: if_splits)
  then have run: "connect_and env ?st id (submit_entries env ?st f1 (snd e1)) = (evs, None)"
    using assms(1) n by (simp add: submit_report_def Let_def)
  obtain line where line: "fst f = line @ ''\<newline>'' @ fst f1" "CHR ''\<newline>'' \<notin> set line" "ce_parse env line = Some (snd e1)"
    using get_next_entry_line [OF n first] .
  obtain err where conn: "collector_connect env ?st = Inr err"
    using run by (auto simp: connect_and_def split: sum.splits)
  have ok: "\<not> is_err err"
    using run conn assms(2,3) by (auto simp: connect_and_def split: if_splits)
  obtain t where t: "collector_target ?st = Inr (Inr t)"
    using conn ok by (auto simp: collector_connect_def collector_target_def submission_settings_def Let_def
        split: option.splits sum.splits if_splits)
  obtain r sent where s: "submit_entries env ?st f1 (snd e1) [] = (r, sent)"
    by (rule prod.exhaust)
  have hang: "hang_up (r, sent) = (evs, None)"
    using run conn ok s by (simp add: connect_and_def)
  obtain err2 where r: "r = Inr err2"
    using hang by (cases r) (simp_all add: hang_up_def)
  have evs: "evs = Connected # map Posted sent @ [Disconnected, Calls err2]"
    using hang r by (simp add: hang_up_def)
  with assms(2) have err2: "err2 = e"
    by simp
  obtain ls rest js es rid request where D: "fst f1 = concat (map (\<lambda>l. l @ ''\<newline>'') ls) @ rest"
    "CHR ''\<newline>'' \<notin> set (concat ls @ rest)" "map (ce_parse env) ls = map Some js"
    "map (with_report_id rid) (snd e1 # js) = map Inr es" "create_request (snd e1) = Inr request"
    "given_id env (create_post env t request) rid"
    "sent = create_post env t request # map (update_post env t rid) es @ [close_post t rid]" "accepted env [] sent"
    using submit_entries_run [OF t s [unfolded r] assms(3) [folded err2]] by (elim exE conjE) (rule that)
  have "es = map (update_entry rid) (snd e1 # js)"
  proof (rule nth_equalityI)
    show "length es = length (map (update_entry rid) (snd e1 # js))"
      using arg_cong [OF D(4), of length] by simp
    show "es ! i = map (update_entry rid) (snd e1 # js) ! i" if "i < length es" for i
      using arg_cong [OF D(4), of "\<lambda>xs. xs ! i"] arg_cong [OF D(4), of length] that
      by (simp add: update_entry_def nth_Cons' split: if_splits)
  qed
  then have "sent = create_post env t request
      # map (\<lambda>j. update_post env t rid (update_entry rid j)) (snd e1 # js) @ [close_post t rid]"
    using D(7) by simp
  with evs err2 D(1,2,3,5,6,8) line t show ?thesis
    by (intro exI [of _ "line # ls"] exI [of _ rest] exI [of _ "snd e1 # js"] exI [of _ rid] exI [of _ t]
        exI [of _ request] exI [of _ sent] conjI) simp_all
qed

section \<open>Properties\<close>

text \<open>C30: An entry may be submitted exactly when it has, as strings, the name and the version of the software, the network
  and the country of the probe, the name, the version and the time of the test, and the version of the format, and each
  has the form required of it: names of letters, digits and the marks dot, underscore and dash; semantic versions; a number
  behind AS; two capital letters; a date and a time.\<close>

theorem valid_entry_accepts:
  "valid_entry entry = Inr (new NoError) \<longleftrightarrow>
    member_is ''software_name'' name_value entry \<and> member_is ''software_version'' version_value entry
    \<and> member_is ''probe_asn'' asn_value entry \<and> member_is ''probe_cc'' cc_value entry
    \<and> member_is ''test_name'' name_value entry \<and> member_is ''test_version'' version_value entry
    \<and> member_is ''test_start_time'' time_value entry \<and> member_is ''data_format_version'' version_value entry"
  unfolding valid_entry_def valid_values_accepts mandatory_re_def member_is_def
  by (auto simp: matches_name matches_version matches_asn matches_cc matches_time)

text \<open>C11: A submission that reports no error has created one report, from the entry of the first line, has added the entries
  of all complete lines to it, each once and in the order of the file, and has closed it, all under the identifier that
  the collector gave in its answer to the first request; the collector accepted every one of these requests; and
  the transport was closed before the caller was called back.\<close>

theorem submission_is_complete:
  assumes "submit_report env settings (Some f) base_url front = (evs, None)" "last evs = Calls e" "\<not> is_err e"
  shows "\<exists>ls rest js rid target request posts.
    fst f = concat (map (\<lambda>l. l @ ''\<newline>'') ls) @ rest \<and> CHR ''\<newline>'' \<notin> set (concat ls @ rest)
    \<and> map (ce_parse env) ls = map Some js \<and> js \<noteq> [] \<and> create_request (hd js) = Inr request
    \<and> collector_target (submission_settings settings base_url front) = Inr (Inr target)
    \<and> given_id env (create_post env target request) rid
    \<and> posts = create_post env target request
        # map (\<lambda>j. update_post env target rid (update_entry rid j)) js @ [close_post target rid]
    \<and> accepted env [] posts
    \<and> evs = Connected # map Posted posts @ [Disconnected, Calls e]"
  by (rule submission [OF assms])

text \<open>Two lines are complete, the third one is not.\<close>

definition example_entry :: json where
  "example_entry =
    JObject [(''data_format_version'', JString ''0.2.0''), (''probe_asn'', JString ''AS30722''),
      (''probe_cc'', JString ''IT''), (''software_name'', JString ''measurement_kit''),
      (''software_version'', JString ''0.9.0-alpha.1''), (''test_name'', JString ''tcp_connect''),
      (''test_version'', JString ''0.0.1''), (''test_start_time'', JString ''2018-06-12 10:00:00'')]"

definition example_collector :: collector_env where
  "example_collector =
    \<lparr>ce_parse = (\<lambda>s. if s = ''E'' then Some example_entry
        else if s = ''R'' then Some (JObject [(''report_id'', JString ''r1'')]) else None),
     ce_dump = (\<lambda>j. ''J''), ce_connect = (\<lambda>u. new NoError),
     ce_answer = (\<lambda>sent p. (new NoError, response_empty\<lparr>rs_status := 200, rs_body := if sent = [] then ''R'' else []\<rparr>))\<rparr>"

definition example_submission :: "error col_run" where
  "example_submission =
    submit_report example_collector Map.empty (Some (''E\<newline>E\<newline>E'', False)) ''https://c'' []"

lemma example_valid: "valid_entry example_entry = Inr (new NoError)"
  by code_simp

lemma example_submission_ends:
  "snd example_submission = None" "last (fst example_submission) = Calls (new NoError)"
  by code_simp+

theorem submission_is_complete_witness:
  "\<exists>p target rid js posts. js \<noteq> [] \<and> given_id example_collector p rid
    \<and> posts = p # map (\<lambda>j. update_post example_collector target rid (update_entry rid j)) js @ [close_post target rid]
    \<and> accepted example_collector [] posts
    \<and> fst example_submission = Connected # map Posted posts @ [Disconnected, Calls (new NoError)]"
proof -
  have "submit_report example_collector Map.empty (Some (''E\<newline>E\<newline>E'', False)) ''https://c'' []
      = (fst example_submission, None)"
    using example_submission_ends(1) unfolding example_submission_def by (metis prod.collapse)
  moreover have "\<not> is_err (new NoError)"
    by (simp add: err_simps)
  ultimately show ?thesis
    using submission_is_complete [OF _ example_submission_ends(2)] by blast
qed

end
