(* ===== verification/NdtTests.thy ===== *)
theory NdtTests
  imports Ndt
begin

text \<open>
  The tests of a session of NDT that move data: \<open>ndt/measure\_speed.hpp\<close>, the upload (\<open>ndt/test\_c2s\_impl.hpp\<close>), the
  download (\<open>ndt/test\_s2c\_impl.hpp\<close>) and the statistics over their results (\<open>ndt/utils.cpp\<close>).  The messages are read from
  the control connection of the session; what happens on the connections for the data, and when, is an
  argument.  Times, speeds and other values of type \<open>double\<close> are rational numbers.
\<close>

section \<open>Measuring the speed\<close>

text \<open>A delay that is not positive stands for no snapshots.\<close>

record measure_speed =
  ms_start :: rat
  ms_previous :: rat
  ms_delay :: rat
  ms_total :: nat

definition measure_init :: "rat \<Rightarrow> rat \<Rightarrow> measure_speed" where
  "measure_init start delay = \<lparr>ms_start = start, ms_previous = start, ms_delay = delay, ms_total = 0\<rparr>"

definition speed_at :: "rat \<Rightarrow> measure_speed \<Rightarrow> rat" where
  "speed_at ct ms =
    (let elapsed = ct - ms_previous ms in
     if elapsed \<le> 0 then 0 else of_nat (ms_total ms) * 8 / 1000 / elapsed)"

definition measure_reset :: "rat \<Rightarrow> measure_speed \<Rightarrow> measure_speed" where
  "measure_reset ct ms = ms\<lparr>ms_previous := ct, ms_total := 0\<rparr>"

text \<open>The snapshot that is called back, if any: the time since the start, and the speed.\<close>

type_synonym snapshot = "rat \<times> rat"

definition maybe_speed :: "rat \<Rightarrow> measure_speed \<Rightarrow> snapshot list \<times> measure_speed" where
  "maybe_speed ct ms =
    (if ms_delay ms > 0 \<and> ct - ms_previous ms \<ge> ms_delay ms
     then ([(ct - ms_start ms, speed_at ct ms)], measure_reset ct ms) else ([], ms))"

definition add_bytes :: "nat \<Rightarrow> measure_speed \<Rightarrow> measure_speed" where
  "add_bytes n ms = ms\<lparr>ms_total := ms_total ms + n\<rparr>"

section \<open>Messages that are expected\<close>

text \<open>A message is read and its type compared; \<open>r\<close> is the result so far.\<close>

type_synonym 'a data_test = "ndt \<Rightarrow> ((error \<times> 'a) \<times> ndt) option"

definition expect ::
    "ndt_env \<Rightarrow> uint8 \<Rightarrow> error_class \<Rightarrow> error_class \<Rightarrow> 'a \<Rightarrow> (string \<Rightarrow> 'a data_test) \<Rightarrow> 'a data_test" where
  "expect env ty reading_error type_error r next_step s =
    (case read_msg env s of
       None \<Rightarrow> None
     | Some ((err, type, m), s) \<Rightarrow>
         if is_err err then Some ((new_e reading_error err, r), s)
         else if type \<noteq> ty then Some ((new type_error, r), s)
         else next_step m s)"

text \<open>\<open>read\_json\<close>, of which only the type is used.\<close>

definition read_json :: "(string \<Rightarrow> bool) \<Rightarrow> ndt \<Rightarrow> ((error \<times> uint8) \<times> ndt) option" where
  "read_json is_json s =
    (case read_ll s of
       None \<Rightarrow> None
     | Some ((err, type, m), s) \<Rightarrow>
         if is_err err then Some ((err, 0), s)
         else if \<not> is_json m then Some ((new JsonParseError, 0), s)
         else Some ((new NoError, type), s))"

section \<open>Upload\<close>

record c2s_entry =
  c2_connect_times :: "rat list"
  c2_sender_data :: "snapshot list"
  c2_avg_speed :: "rat option"

datatype c2s_event = Flushed rat | Failed error

definition BLOCK_SIZE :: nat where
  "BLOCK_SIZE = 8192"

text \<open>What the upload depends on: the connection, the clock when it begins, the events of the transport and how a text is
  read as a number.\<close>

record c2s_env =
  cv_connect :: "int \<Rightarrow> error \<times> rat"
  cv_begin :: rat
  cv_snap :: rat
  cv_events :: "c2s_event list"
  cv_double :: "string \<Rightarrow> rat option"

text \<open>The handlers of the transport: every flush takes a snapshot and writes again, until the time is over.  The last
  component counts the blocks that were written after the first one.\<close>

fun c2s_upload ::
    "rat \<Rightarrow> rat \<Rightarrow> c2s_event list \<Rightarrow> measure_speed \<times> snapshot list \<times> nat \<Rightarrow> (error \<times> measure_speed \<times> snapshot list \<times> nat) option" where
  "c2s_upload begin runtime [] st = None"
| "c2s_upload begin runtime (Flushed now # evs) (ms, snaps, blocks) =
    (let (sn, ms) = maybe_speed now ms; snaps = snaps @ sn in
     if now - begin > runtime then Some (new NoError, ms, snaps, blocks)
     else c2s_upload begin runtime evs (add_bytes BLOCK_SIZE ms, snaps, blocks + 1))"
| "c2s_upload begin runtime (Failed err # evs) st = Some (err, st)"

definition TEST_C2S_DURATION :: rat where
  "TEST_C2S_DURATION = 10"

definition c2s_transfer :: "c2s_env \<Rightarrow> (error \<times> measure_speed \<times> snapshot list \<times> nat) option" where
  "c2s_transfer cv = c2s_upload (cv_begin cv) TEST_C2S_DURATION (cv_events cv) (measure_init (cv_snap cv) (1 / 2), [], 0)"

text \<open>\<open>test\_c2s::run\<close>: the result is the error and the entry that was added to the report.\<close>

definition invalid_port :: "int error_or \<Rightarrow> bool" where
  "invalid_port port \<longleftrightarrow> \<not> has_value port \<or> snd port < 0 \<or> snd port > 65535"

definition c2s_measured :: "ndt_env \<Rightarrow> c2s_env \<Rightarrow> rat \<Rightarrow> snapshot list \<Rightarrow> string \<Rightarrow> c2s_entry option data_test" where
  "c2s_measured env cv connect_time snaps m =
    (let e = \<lparr>c2_connect_times = [connect_time], c2_sender_data = snaps, c2_avg_speed = cv_double cv m\<rparr> in
     expect env TEST_FINALIZE ReadingTestFinalizeError NotTestFinalizeError (Some e) (\<lambda>_ s. Some ((new NoError, Some e), s)))"

definition c2s_started :: "ndt_env \<Rightarrow> c2s_env \<Rightarrow> rat \<Rightarrow> string \<Rightarrow> c2s_entry option data_test" where
  "c2s_started env cv connect_time m s =
    (case c2s_transfer cv of
       None \<Rightarrow> None
     | Some (err, _, snaps, _) \<Rightarrow>
        if is_err err \<and> reason err \<noteq> ''broken_pipe'' then Some ((err, None), s)
        else expect env TEST_MSG ReadingTestMsgError NotTestMsgError None (c2s_measured env cv connect_time snaps) s)"

definition c2s_prepared :: "ndt_env \<Rightarrow> c2s_env \<Rightarrow> string \<Rightarrow> c2s_entry option data_test" where
  "c2s_prepared env cv m s =
    (let port = lexical_cast_int_noexcept m in
     if invalid_port port then Some ((new InvalidPortError, None), s)
     else
       let (err, connect_time) = cv_connect cv (snd port) in
       if is_err err then Some ((new_e ConnectTestConnectionError err, None), s)
       else expect env TEST_START ReadingTestStartError NotTestStartError None (c2s_started env cv connect_time) s)"

definition c2s_run :: "ndt_env \<Rightarrow> c2s_env \<Rightarrow> c2s_entry option data_test" where
  "c2s_run env cv = expect env TEST_PREPARE ReadingTestPrepareError NotTestPrepareError None (c2s_prepared env cv)"

section \<open>Download\<close>

record s2c_params =
  sp_port :: int
  sp_duration :: rat
  sp_snaps_delay :: rat
  sp_num_streams :: int

definition s2c_params_init :: "int \<Rightarrow> s2c_params" where
  "s2c_params_init port = \<lparr>sp_port = port, sp_duration = 10, sp_snaps_delay = 1 / 2, sp_num_streams = 1\<rparr>"

text \<open>The parameters behind the port are optional; the second and the fourth of them are read and ignored.\<close>

definition parse_params :: "(string \<Rightarrow> rat option) \<Rightarrow> string \<Rightarrow> error + s2c_params" where
  "parse_params read_double s =
    (let vec = split_ws s; port = lexical_cast_int_noexcept (vec ! 0) in
     if invalid_port port then Inl (new InvalidPortError)
     else
       let p = s2c_params_init (snd port); duration = read_double (vec ! 1) in
       if length vec \<ge> 2 \<and> (duration = None \<or> the duration < 0 \<or> the duration > 60000) then Inl (new InvalidDurationError)
       else
         let p = (if length vec \<ge> 2 then p\<lparr>sp_duration := the duration / 1000\<rparr> else p); delay = read_double (vec ! 3) in
         if length vec \<ge> 4 \<and> (delay = None \<or> the delay < 250) then Inl (new InvalidSnapsDelayError)
         else
           let p = (if length vec \<ge> 4 then p\<lparr>sp_snaps_delay := the delay / 1000\<rparr> else p);
               streams = lexical_cast_int_noexcept (vec ! 5) in
           if length vec \<ge> 6 \<and> (\<not> has_value streams \<or> snd streams < 1 \<or> snd streams > 8)
           then Inl (new InvalidNumStreamsError)
           else Inr (if length vec \<ge> 6 then p\<lparr>sp_num_streams := snd streams\<rparr> else p))"

text \<open>Data on a connection, with the time, and the end of a connection, with the time at which it is closed.\<close>

datatype s2c_event = Arrived nat rat | Ended error rat

record s2c_env =
  sv_connect :: "s2c_params \<Rightarrow> error \<times> rat list"
  sv_average :: rat
  sv_snap :: rat
  sv_events :: "s2c_event list"
  sv_double :: "string \<Rightarrow> rat option"
  sv_is_json :: "string \<Rightarrow> bool"
  sv_print :: "rat \<Rightarrow> string"

record s2c_state =
  st_average :: measure_speed
  st_snaps :: measure_speed
  st_completed :: nat
  st_data :: "snapshot list"

definition s2c_arrived :: "nat \<Rightarrow> rat \<Rightarrow> s2c_state \<Rightarrow> s2c_state" where
  "s2c_arrived n ct st =
    (let st = st\<lparr>st_average := add_bytes n (st_average st), st_snaps := add_bytes n (st_snaps st)\<rparr> in
     if st_completed st = 0
     then let (sn, ms) = maybe_speed ct (st_snaps st) in st\<lparr>st_snaps := ms, st_data := st_data st @ sn\<rparr>
     else st)"

text \<open>The download ends when all connections have ended: with the error of the last one if there is only one.\<close>

fun s2c_download :: "nat \<Rightarrow> s2c_event list \<Rightarrow> s2c_state \<Rightarrow> ((error \<times> rat) \<times> s2c_state) option" where
  "s2c_download num_flows [] st = None"
| "s2c_download num_flows (Arrived n ct # evs) st =
    s2c_download num_flows evs (s2c_arrived n ct st)"
| "s2c_download num_flows (Ended err ct # evs) st =
    (let err = (if err_eq err (new EofError) then new NoError else err);
         st = st\<lparr>st_completed := st_completed st + 1\<rparr> in
     if st_completed st < num_flows then s2c_download num_flows evs st
     else Some ((if num_flows = 1 then err else new NoError, speed_at ct (st_average st)), st))"

definition s2c_transfer :: "s2c_env \<Rightarrow> nat \<Rightarrow> ((error \<times> rat) \<times> s2c_state) option" where
  "s2c_transfer sv num_flows =
    s2c_download num_flows (sv_events sv)
      \<lparr>st_average = measure_init (sv_average sv) (- 1), st_snaps = measure_init (sv_snap sv) (1 / 2), st_completed = 0,
       st_data = []\<rparr>"

record s2c_entry =
  s2_connect_times :: "rat list"
  s2_num_streams :: int
  s2_snaps_delay :: rat
  s2_receiver_data :: "snapshot list"
  s2_web100 :: "string \<rightharpoonup> summary_value"

text \<open>The variables of the server come in any number of messages, before the one that ends the test.\<close>

function finalizing_test :: "ndt_env \<Rightarrow> (string \<rightharpoonup> summary_value) \<Rightarrow> (string \<rightharpoonup> summary_value) option data_test" where
  "finalizing_test env web100 s =
    (case read_msg env s of
       None \<Rightarrow> None
     | Some ((err, type, m), s) \<Rightarrow>
         if is_err err then Some ((new_e ReadingTestMsgError err, None), s)
         else if type = TEST_FINALIZE then Some ((new NoError, Some web100), s)
         else if type \<noteq> TEST_MSG then Some ((new NotTestMsgError, None), s)
         else finalizing_test env (add_results env m web100) s)"
  by pat_completeness auto

termination finalizing_test
  by (relation "measure (\<lambda>(env, web100, s). nd_work s)") (auto intro: read_msg_work)

declare finalizing_test.simps [simp del]

text \<open>\<open>test\_s2c::run\<close>.\<close>

definition s2c_finish :: "ndt_env \<Rightarrow> s2c_env \<Rightarrow> s2c_params \<Rightarrow> rat list \<Rightarrow> rat \<Rightarrow> s2c_state \<Rightarrow> s2c_entry option data_test" where
  "s2c_finish env sv p conn_times speed st s =
    (case read_json (sv_is_json sv) s of
       None \<Rightarrow> None
     | Some ((err, type), s) \<Rightarrow>
         if is_err err then Some ((new_e ReadingTestMsgError err, None), s)
         else if type \<noteq> TEST_MSG then Some ((new NotTestMsgError, None), s)
         else
           let out = format_test_msg env (sv_print sv speed) in
           if \<not> has_value out then Some ((new SerializingTestMsgError, None), s)
           else
             let (err, s) = ndt_write env (snd out) s in
             if is_err err then Some ((new_e WritingTestMsgError err, None), s)
             else map_option (map_prod (map_prod id (map_option (\<lambda>web100.
                 \<lparr>s2_connect_times = conn_times, s2_num_streams = sp_num_streams p, s2_snaps_delay = sp_snaps_delay p,
                  s2_receiver_data = st_data st, s2_web100 = web100\<rparr>))) id)
               (finalizing_test env Map.empty s))"

definition s2c_started :: "ndt_env \<Rightarrow> s2c_env \<Rightarrow> s2c_params \<Rightarrow> rat list \<Rightarrow> string \<Rightarrow> s2c_entry option data_test" where
  "s2c_started env sv p conn_times m s =
    (case s2c_transfer sv (length conn_times) of
       None \<Rightarrow> None
     | Some ((err, speed), st) \<Rightarrow> if is_err err then Some ((err, None), s) else s2c_finish env sv p conn_times speed st s)"

definition s2c_prepared :: "ndt_env \<Rightarrow> s2c_env \<Rightarrow> string \<Rightarrow> s2c_entry option data_test" where
  "s2c_prepared env sv m s =
    (case parse_params (sv_double sv) m of
       Inl e \<Rightarrow> Some ((e, None), s)
     | Inr p \<Rightarrow>
         let (err, conn_times) = sv_connect sv p in
         if is_err err then Some ((new_e ConnectTestConnectionError err, None), s)
         else expect env TEST_START ReadingTestStartError NotTestStartError None (s2c_started env sv p conn_times) s)"

definition s2c_run :: "ndt_env \<Rightarrow> s2c_env \<Rightarrow> s2c_entry option data_test" where
  "s2c_run env sv = expect env TEST_PREPARE ReadingTestPrepareError NotTestPrepareError None (s2c_prepared env sv)"

text \<open>As tests of a session.\<close>

definition test_phase :: "'a data_test \<Rightarrow> phase" where
  "test_phase test s = map_option (\<lambda>((err, _), s). (err, s)) (test s)"

definition data_tests :: "ndt_env \<Rightarrow> string \<Rightarrow> c2s_env \<Rightarrow> s2c_env \<Rightarrow> int \<Rightarrow> phase option" where
  "data_tests env version cv sv = test_func env version (test_phase (c2s_run env cv)) (test_phase (s2c_run env sv))"

section \<open>Statistics\<close>

text \<open>The speeds but the six lowest and the two highest ones; with fewer than eight the vector of the rest cannot be made.\<close>

definition compute_speed :: "snapshot list \<Rightarrow> rat option" where
  "compute_speed data =
    (let speeds = sort (map snd data); good_speeds = drop 6 (take (length speeds - 2) speeds) in
     if length speeds < 8 then None
     else if good_speeds = [] then None
     else Some (sum_list good_speeds / of_nat (length good_speeds)))"

definition summary_double :: "(string \<Rightarrow> rat option) \<Rightarrow> summary_value \<Rightarrow> rat option" where
  "summary_double read_double v =
    (case v of SvLong i \<Rightarrow> Some (of_int i) | SvDouble t \<Rightarrow> read_double t | SvString _ \<Rightarrow> None)"

definition web100_double :: "(string \<Rightarrow> rat option) \<Rightarrow> (string \<rightharpoonup> summary_value) \<Rightarrow> string \<Rightarrow> rat option" where
  "web100_double read_double web100 k = Option.bind (web100 k) (summary_double read_double)"

definition compute_ping :: "(string \<Rightarrow> rat option) \<Rightarrow> s2c_entry \<Rightarrow> rat option" where
  "compute_ping read_double e =
    (case web100_double read_double (s2_web100 e) ''MinRTT'' of
       Some rtt \<Rightarrow> Some rtt
     | None \<Rightarrow>
        if s2_connect_times e = [] then None
        else Some (sum_list (map (\<lambda>t. t * 1000) (s2_connect_times e)) / of_nat (length (s2_connect_times e))))"

text \<open>The members of the statistics, with null for what cannot be computed.\<close>

definition compute_simple_stats ::
    "(string \<Rightarrow> rat option) \<Rightarrow> s2c_entry list \<Rightarrow> c2s_entry list \<Rightarrow> (string \<times> rat option) list" where
  "compute_simple_stats read_double downloads uploads =
    (case downloads of [] \<Rightarrow> []
     | d # _ \<Rightarrow> [(''download'', compute_speed (s2_receiver_data d)), (''ping'', compute_ping read_double d)])
    @ (case uploads of [] \<Rightarrow> [] | u # _ \<Rightarrow> [(''upload'', compute_speed (c2_sender_data u))])"

definition quotient_or_zero :: "rat \<Rightarrow> rat \<Rightarrow> rat" where
  "quotient_or_zero a b = (if b > 0 then a / b else 0)"

text \<open>A variable that is needed and missing, or no number, throws.\<close>

definition compute_advanced_stats ::
    "(string \<Rightarrow> rat option) \<Rightarrow> (string \<rightharpoonup> summary_value) \<Rightarrow> ((string \<times> rat) list \<times> (string \<times> summary_value option) list) option" where
  "compute_advanced_stats read_double web100 =
    (let var = web100_double read_double web100;
         needed = [''SndLimTimeRwin'', ''SndLimTimeCwnd'', ''SndLimTimeSender'', ''CongestionSignals'', ''PktsOut'', ''DupAcksIn'',
           ''AckPktsIn'', ''SumRTT'', ''CountRTT'']
     in if list_ex (\<lambda>k. var k = None) needed then None
        else
          let v = (\<lambda>k. the (var k)); total_time = v ''SndLimTimeRwin'' + v ''SndLimTimeCwnd'' + v ''SndLimTimeSender'' in
          Some
            ([(''avg_rtt'', quotient_or_zero (v ''SumRTT'') (v ''CountRTT'')),
              (''out_of_order'', quotient_or_zero (v ''DupAcksIn'') (v ''AckPktsIn'')),
              (''packet_loss'', quotient_or_zero (v ''CongestionSignals'') (v ''PktsOut'')),
              (''congestion_limited'', quotient_or_zero (v ''SndLimTimeCwnd'') total_time),
              (''receiver_limited'', quotient_or_zero (v ''SndLimTimeRwin'') total_time),
              (''sender_limited'', quotient_or_zero (v ''SndLimTimeSender'') total_time)],
             [(''mss'', web100 ''CurMSS''), (''max_rtt'', web100 ''MaxRTT''), (''min_rtt'', web100 ''MinRTT''),
              (''timeouts'', web100 ''Timeouts''), (''fast_retran'', web100 ''FastRetran'')]))"

section \<open>Bytes and snapshots\<close>

text \<open>The bytes that the snapshots of a measurement stand for: each speed over the time since the one before.\<close>

fun snap_bytes :: "rat \<Rightarrow> snapshot list \<Rightarrow> rat" where
  "snap_bytes before [] = 0"
| "snap_bytes before ((el, x) # sn) = x * (el - before) * 1000 / 8 + snap_bytes el sn"

fun last_time :: "rat \<Rightarrow> snapshot list \<Rightarrow> rat" where
  "last_time before [] = before"
| "last_time before ((el, x) # sn) = last_time el sn"

fun apart :: "rat \<Rightarrow> rat \<Rightarrow> snapshot list \<Rightarrow> bool" where
  "apart delay before [] \<longleftrightarrow> True"
| "apart delay before ((el, x) # sn) \<longleftrightarrow> delay \<le> el - before \<and> apart delay el sn"

lemma snap_bytes_append [simp]: "snap_bytes b (xs @ ys) = snap_bytes b xs + snap_bytes (last_time b xs) ys"
  by (induction b xs rule: snap_bytes.induct) simp_all

lemma last_time_append [simp]: "last_time b (xs @ ys) = last_time (last_time b xs) ys"
  by (induction b xs rule: snap_bytes.induct) simp_all

lemma apart_append [simp]: "apart d b (xs @ ys) \<longleftrightarrow> apart d b xs \<and> apart d (last_time b xs) ys"
  by (induction b xs rule: snap_bytes.induct) simp_all

text \<open>The snapshots so far and what was counted since stand for \<open>n\<close> bytes.\<close>

definition measured :: "measure_speed \<Rightarrow> snapshot list \<Rightarrow> nat \<Rightarrow> bool" where
  "measured ms sn n \<longleftrightarrow> 0 < ms_delay ms \<and> snap_bytes 0 sn + of_nat (ms_total ms) = of_nat n
    \<and> last_time 0 sn = ms_previous ms - ms_start ms \<and> apart (ms_delay ms) 0 sn"

lemma measured_init: "0 < d \<Longrightarrow> measured (measure_init t d) [] 0"
  by (simp add: measured_def measure_init_def)

lemma add_bytes_delay [simp]: "ms_delay (add_bytes n ms) = ms_delay ms"
  by (simp add: add_bytes_def)

lemma measured_add: "measured ms sn n \<Longrightarrow> measured (add_bytes k ms) sn (n + k)"
  by (auto simp: measured_def add_bytes_def)

lemma speed_times: "0 < d \<Longrightarrow> (t :: rat) * 8 / 1000 / d * d * 1000 / 8 = t"
  by simp

lemma measured_snap:
  assumes "measured ms sn n" "maybe_speed ct ms = (new_sn, ms')"
  shows "measured ms' (sn @ new_sn) n" "ms_delay ms' = ms_delay ms"
proof -
  have "speed_at ct ms * (ct - ms_previous ms) * 1000 / 8 = of_nat (ms_total ms)" if "ct - ms_previous ms \<ge> ms_delay ms"
  proof -
    have "0 < ct - ms_previous ms"
      using assms(1) that by (simp add: measured_def)
    then have "speed_at ct ms = of_nat (ms_total ms) * 8 / 1000 / (ct - ms_previous ms)"
      by (simp add: speed_at_def Let_def)
    then show ?thesis
      using speed_times [OF \<open>0 < ct - ms_previous ms\<close>] by (simp only:)
  qed
  then show "measured ms' (sn @ new_sn) n"
    using assms by (auto simp: maybe_speed_def measured_def measure_reset_def split: if_splits)
  show "ms_delay ms' = ms_delay ms"
    using assms(2) by (auto simp: maybe_speed_def measure_reset_def split: if_splits)
qed

lemma c2s_upload_measured:
  assumes "c2s_upload begin runtime evs (ms, sn, blocks) = Some (err, ms', sn', blocks')" "measured ms sn (8192 * blocks)"
  shows "measured ms' sn' (8192 * blocks') \<and> ms_delay ms' = ms_delay ms"
  using assms
proof (induction evs arbitrary: ms sn blocks)
  case (Cons ev evs)
  show ?case
  proof (cases ev)
    case (Flushed now)
    obtain new_sn ms1 where sn: "maybe_speed now ms = (new_sn, ms1)"
      by (rule prod.exhaust)
    note m = measured_snap [OF Cons.prems(2) sn]
    show ?thesis
    proof (cases "now - begin > runtime")
      case True
      then show ?thesis
        using Cons.prems(1) sn m by (auto simp: Flushed)
    next
      case False
      have "measured (add_bytes BLOCK_SIZE ms1) (sn @ new_sn) (8192 * (blocks + 1))"
        using measured_add [OF m(1), of BLOCK_SIZE] by (simp add: BLOCK_SIZE_def add.commute)
      moreover have "c2s_upload begin runtime evs (add_bytes BLOCK_SIZE ms1, sn @ new_sn, blocks + 1) = Some (err, ms', sn', blocks')"
        using Cons.prems(1) sn False by (simp add: Flushed)
      ultimately show ?thesis
        using Cons.IH [of "add_bytes BLOCK_SIZE ms1"] m(2) by simp
    qed
  next
    case (Failed e)
    then show ?thesis
      using Cons.prems by auto
  qed
qed simp

lemma s2c_arrived_measured:
  assumes "measured (st_snaps st) (st_data st) (ms_total (st_average st))"
  shows "measured (st_snaps (s2c_arrived n ct st)) (st_data (s2c_arrived n ct st)) (ms_total (st_average (s2c_arrived n ct st)))"
proof -
  let ?ms = "add_bytes n (st_snaps st)"
  have m: "measured ?ms (st_data st) (ms_total (add_bytes n (st_average st)))"
    using measured_add [OF assms, of n] by (simp add: add_bytes_def)
  obtain new_sn ms where sn: "maybe_speed ct ?ms = (new_sn, ms)"
    by (rule prod.exhaust)
  show ?thesis
    using m measured_snap(1) [OF m sn] sn by (simp add: s2c_arrived_def Let_def)
qed

lemma s2c_download_measured:
  assumes "s2c_download n evs st = Some (r, st')" "measured (st_snaps st) (st_data st) (ms_total (st_average st))"
  shows "measured (st_snaps st') (st_data st') (ms_total (st_average st'))"
  using assms
proof (induction n evs st rule: s2c_download.induct)
  case (2 num_flows n ct evs st)
  then show ?case
    using s2c_arrived_measured [OF "2.prems"(2)] by simp
next
  case (3 num_flows err ct evs st)
  then show ?case
    by (auto simp: Let_def split: if_splits)
qed simp

section \<open>Parameters\<close>

lemma parse_params_bounds:
  assumes "parse_params read_double s = Inr p"
  shows "0 \<le> sp_port p \<and> sp_port p \<le> 65535 \<and> 1 \<le> sp_num_streams p \<and> sp_num_streams p \<le> 8
    \<and> 0 \<le> sp_duration p \<and> sp_duration p \<le> 60 \<and> 1 / 4 \<le> sp_snaps_delay p"
  using assms by (auto simp: parse_params_def Let_def invalid_port_def s2c_params_init_def split: if_splits)

section \<open>What the tests read\<close>

lemma expect_pending:
  assumes "json_msg env j m" "pending s (frame ty j @ rest) later"
  obtains s' where "\<forall>e1 e2 r k. expect env ty e1 e2 r k s = k m s'" "pending s' rest later" "rebuff s s'"
proof -
  obtain s' where "read_msg env s = Some ((new NoError, ty, m), s')" "pending s' rest later" "rebuff s s'"
    using json_msg_read [OF assms] .
  then show ?thesis
    by (intro that) (simp_all add: expect_def err_simps)
qed

lemma read_json_pending:
  assumes "ok j" "length j < 65536" "pending s (frame ty j @ rest) later"
  obtains s' where "read_json ok s = Some ((new NoError, ty), s')" "pending s' rest later" "rebuff s s'"
proof -
  obtain s' where "read_ll s = Some ((new NoError, ty, j), s')" "pending s' rest later" "rebuff s s'"
    using read_ll_pending [OF assms(3,2)] by blast
  then show ?thesis
    using assms(1) by (intro that) (simp_all add: read_json_def err_simps)
qed

text \<open>An upload that the server follows to the end.\<close>

lemma c2s_run_pending:
  assumes "json_msg env jp port" "lexical_cast_int_noexcept port = no_err n" "0 \<le> n" "n \<le> 65535"
    and "cv_connect cv n = (cerr, connect_time)" "\<not> is_err cerr"
    and "json_msg env js b" "c2s_transfer cv = Some (err, ms, snaps, blocks)" "is_err err \<longrightarrow> reason err = ''broken_pipe''"
    and "json_msg env jm m" "json_msg env jf f"
    and "pending s (frame TEST_PREPARE jp @ frame TEST_START js @ frame TEST_MSG jm @ frame TEST_FINALIZE jf @ rest) later"
  shows "\<exists>s'. c2s_run env cv s = Some ((new NoError, Some \<lparr>c2_connect_times = [connect_time], c2_sender_data = snaps,
      c2_avg_speed = cv_double cv m\<rparr>), s') \<and> pending s' rest later \<and> rebuff s s'"
proof -
  let ?e = "\<lparr>c2_connect_times = [connect_time], c2_sender_data = snaps, c2_avg_speed = cv_double cv m\<rparr>"
  obtain s1 where s1: "\<forall>e1 e2 r (k :: string \<Rightarrow> c2s_entry option data_test). expect env TEST_PREPARE e1 e2 r k s = k port s1"
    "pending s1 (frame TEST_START js @ frame TEST_MSG jm @ frame TEST_FINALIZE jf @ rest) later" "rebuff s s1"
    by (rule expect_pending [OF assms(1,12)])
  obtain s2 where s2: "\<forall>e1 e2 r (k :: string \<Rightarrow> c2s_entry option data_test). expect env TEST_START e1 e2 r k s1 = k b s2"
    "pending s2 (frame TEST_MSG jm @ frame TEST_FINALIZE jf @ rest) later" "rebuff s1 s2"
    by (rule expect_pending [OF assms(7) s1(2)])
  obtain s3 where s3: "\<forall>e1 e2 r (k :: string \<Rightarrow> c2s_entry option data_test). expect env TEST_MSG e1 e2 r k s2 = k m s3"
    "pending s3 (frame TEST_FINALIZE jf @ rest) later" "rebuff s2 s3"
    by (rule expect_pending [OF assms(10) s2(2)])
  obtain s4 where s4: "\<forall>e1 e2 r (k :: string \<Rightarrow> c2s_entry option data_test). expect env TEST_FINALIZE e1 e2 r k s3 = k f s4"
    "pending s4 rest later" "rebuff s3 s4"
    by (rule expect_pending [OF assms(11) s3(2)])
  have "c2s_run env cv s = c2s_prepared env cv port s1"
    by (simp add: c2s_run_def s1(1))
  also have "\<dots> = c2s_started env cv connect_time b s2"
    using assms(2-6) by (simp add: c2s_prepared_def invalid_port_def no_err_def has_value_def err_eq_def Let_def s2(1))
  also have "\<dots> = c2s_measured env cv connect_time snaps m s3"
    using assms(8,9) by (auto simp add: c2s_started_def s3(1))
  also have "\<dots> = Some ((new NoError, Some ?e), s4)"
    by (simp add: c2s_measured_def Let_def s4(1))
  finally have run: "c2s_run env cv s = Some ((new NoError, Some ?e), s4)" .
  have "rebuff s s4"
    using s1(3) s2(3) s3(3) s4(3) by (blast intro: rebuff_trans)
  then show ?thesis
    using run s4(2) by blast
qed

lemma finalizing_pending:
  assumes "\<forall>(j, m) \<in> set rs. json_msg env j m" "json_msg env jf f"
    "pending s (concat (map (\<lambda>(j, m). frame TEST_MSG j) rs) @ frame TEST_FINALIZE jf @ rest) later"
  shows "\<exists>s'. finalizing_test env web100 s = Some ((new NoError, Some (add_all env rs web100)), s') \<and> pending s' rest later
    \<and> rebuff s s'"
  using assms(1,3)
proof (induction rs arbitrary: s web100)
  case Nil
  have "pending s (frame TEST_FINALIZE jf @ rest) later"
    using Nil by simp
  then obtain s' where "read_msg env s = Some ((new NoError, TEST_FINALIZE, f), s')" "pending s' rest later" "rebuff s s'"
    using json_msg_read [OF assms(2)] by blast
  then show ?case
    by (simp add: finalizing_test.simps [of env web100 s] add_all_def err_simps)
next
  case (Cons r rs)
  obtain j m where r: "r = (j, m)"
    by (rule prod.exhaust)
  let ?r = "concat (map (\<lambda>(j, m). frame TEST_MSG j) rs) @ frame TEST_FINALIZE jf @ rest"
  have "json_msg env j m" "pending s (frame TEST_MSG j @ ?r) later"
    using Cons.prems r by auto
  then obtain s1 where s1: "read_msg env s = Some ((new NoError, TEST_MSG, m), s1)" "pending s1 ?r later" "rebuff s s1"
    by (rule json_msg_read)
  have rs: "\<forall>(j, m) \<in> set rs. json_msg env j m"
    using Cons.prems(1) by simp
  obtain s' where s': "finalizing_test env (add_results env m web100) s1
      = Some ((new NoError, Some (add_all env rs (add_results env m web100))), s')" "pending s' rest later" "rebuff s1 s'"
    using Cons.IH [OF rs s1(2)] by blast
  have "finalizing_test env web100 s = finalizing_test env (add_results env m web100) s1"
    using s1(1) by (simp add: finalizing_test.simps [of env web100 s] TEST_MSG_def TEST_FINALIZE_def err_simps)
  then show ?case
    using s' rebuff_trans [OF s1(3) s'(3)] by (intro exI [of _ s']) (simp add: r add_all_def)
qed

text \<open>A download that the server follows to the end; the speed is sent to the server.\<close>

lemma s2c_run_pending:
  assumes "json_msg env jp m" "parse_params (sv_double sv) m = Inr p" "sv_connect sv p = (cerr, conn_times)" "\<not> is_err cerr"
    and "json_msg env js b" "s2c_transfer sv (length conn_times) = Some ((err, speed), st)" "\<not> is_err err"
    and "sv_is_json sv jm" "length jm < 65536"
    and "has_value (format_test_msg env (sv_print sv speed))" "\<forall>k. \<not> is_err (ne_write env k)"
    and "\<forall>(j, m) \<in> set rs. json_msg env j m" "json_msg env jf f"
    and "pending s (frame TEST_PREPARE jp @ frame TEST_START js @ frame TEST_MSG jm
      @ concat (map (\<lambda>(j, m). frame TEST_MSG j) rs) @ frame TEST_FINALIZE jf @ rest) later"
  shows "\<exists>s'. s2c_run env sv s = Some ((new NoError, Some \<lparr>s2_connect_times = conn_times, s2_num_streams = sp_num_streams p,
      s2_snaps_delay = sp_snaps_delay p, s2_receiver_data = st_data st, s2_web100 = add_all env rs Map.empty\<rparr>), s')
    \<and> pending s' rest later \<and> rebuff (s\<lparr>nd_out := nd_out s @ [snd (format_test_msg env (sv_print sv speed))]\<rparr>) s'"
proof -
  let ?fin = "concat (map (\<lambda>(j, m). frame TEST_MSG j) rs) @ frame TEST_FINALIZE jf @ rest"
  let ?out = "snd (format_test_msg env (sv_print sv speed))"
  obtain s1 where s1: "\<forall>e1 e2 r (k :: string \<Rightarrow> s2c_entry option data_test). expect env TEST_PREPARE e1 e2 r k s = k m s1"
    "pending s1 (frame TEST_START js @ frame TEST_MSG jm @ ?fin) later" "rebuff s s1"
    by (rule expect_pending [OF assms(1,14)])
  obtain s2 where s2: "\<forall>e1 e2 r (k :: string \<Rightarrow> s2c_entry option data_test). expect env TEST_START e1 e2 r k s1 = k b s2"
    "pending s2 (frame TEST_MSG jm @ ?fin) later" "rebuff s1 s2"
    by (rule expect_pending [OF assms(5) s1(2)])
  obtain s3 where s3: "read_json (sv_is_json sv) s2 = Some ((new NoError, TEST_MSG), s3)" "pending s3 ?fin later" "rebuff s2 s3"
    by (rule read_json_pending [where ok = "sv_is_json sv", OF assms(8,9) s2(2)])
  let ?s3 = "s3\<lparr>nd_out := nd_out s3 @ [?out]\<rparr>"
  have "pending ?s3 ?fin later"
    using s3(2) by simp
  then obtain s4 where s4: "finalizing_test env Map.empty ?s3 = Some ((new NoError, Some (add_all env rs Map.empty)), s4)"
    "pending s4 rest later" "rebuff ?s3 s4"
    using finalizing_pending [OF assms(12,13)] by blast
  have "s2c_run env sv s = s2c_prepared env sv m s1"
    by (simp add: s2c_run_def s1(1))
  also have "\<dots> = s2c_started env sv p conn_times b s2"
    using assms(2-4) by (simp add: s2c_prepared_def s2(1))
  also have "\<dots> = s2c_finish env sv p conn_times speed st s2"
    using assms(6,7) by (simp add: s2c_started_def)
  also have "\<dots> = Some ((new NoError, Some \<lparr>s2_connect_times = conn_times, s2_num_streams = sp_num_streams p,
      s2_snaps_delay = sp_snaps_delay p, s2_receiver_data = st_data st, s2_web100 = add_all env rs Map.empty\<rparr>), s4)"
    using s3(1) s4(1) assms(10,11) by (simp add: s2c_finish_def ndt_write_def Let_def err_simps)
  finally have run: "s2c_run env sv s = \<dots>" .
  have "rebuff s s3"
    using s1(3) s2(3) s3(3) by (blast intro: rebuff_trans)
  then have "rebuff (s\<lparr>nd_out := nd_out s @ [?out]\<rparr>) s4"
    using s4(3) unfolding rebuff_def by force
  then show ?thesis
    using run s4(2) by blast
qed

text \<open>Both are tests that a session can run.\<close>

lemma c2s_takes:
  assumes "json_msg env jp port" "lexical_cast_int_noexcept port = no_err n" "0 \<le> n" "n \<le> 65535"
    and "cv_connect cv n = (cerr, connect_time)" "\<not> is_err cerr"
    and "json_msg env js b" "c2s_transfer cv = Some (err, ms, snaps, blocks)" "is_err err \<longrightarrow> reason err = ''broken_pipe''"
    and "json_msg env jm m" "json_msg env jf f"
  shows "takes (test_phase (c2s_run env cv))
    (frame TEST_PREPARE jp @ frame TEST_START js @ frame TEST_MSG jm @ frame TEST_FINALIZE jf) (new NoError)"
proof (rule takesI)
  fix s rest later
  assume "pending s ((frame TEST_PREPARE jp @ frame TEST_START js @ frame TEST_MSG jm @ frame TEST_FINALIZE jf) @ rest) later"
  then have "pending s (frame TEST_PREPARE jp @ frame TEST_START js @ frame TEST_MSG jm @ frame TEST_FINALIZE jf @ rest) later"
    by simp
  from c2s_run_pending [OF assms this] obtain s' e where s': "c2s_run env cv s = Some ((new NoError, e), s')"
    "pending s' rest later" "rebuff s s'"
    by blast
  then have "rebuff (s\<lparr>nd_out := nd_out s\<rparr>) s'"
    by simp
  then show "\<exists>s' out. test_phase (c2s_run env cv) s = Some (new NoError, s') \<and> pending s' rest later \<and> rebuff (s\<lparr>nd_out := out\<rparr>) s'"
    using s'(1,2) by (intro exI [of _ s'] exI [of _ "nd_out s"]) (simp add: test_phase_def)
qed

lemma s2c_takes:
  assumes "json_msg env jp m" "parse_params (sv_double sv) m = Inr p" "sv_connect sv p = (cerr, conn_times)" "\<not> is_err cerr"
    and "json_msg env js b" "s2c_transfer sv (length conn_times) = Some ((err, speed), st)" "\<not> is_err err"
    and "sv_is_json sv jm" "length jm < 65536"
    and "has_value (format_test_msg env (sv_print sv speed))" "\<forall>k. \<not> is_err (ne_write env k)"
    and "\<forall>(j, m) \<in> set rs. json_msg env j m" "json_msg env jf f"
  shows "takes (test_phase (s2c_run env sv)) (frame TEST_PREPARE jp @ frame TEST_START js @ frame TEST_MSG jm
      @ concat (map (\<lambda>(j, m). frame TEST_MSG j) rs) @ frame TEST_FINALIZE jf) (new NoError)"
proof (rule takesI)
  fix s rest later
  assume "pending s ((frame TEST_PREPARE jp @ frame TEST_START js @ frame TEST_MSG jm
      @ concat (map (\<lambda>(j, m). frame TEST_MSG j) rs) @ frame TEST_FINALIZE jf) @ rest) later"
  then have "pending s (frame TEST_PREPARE jp @ frame TEST_START js @ frame TEST_MSG jm
      @ concat (map (\<lambda>(j, m). frame TEST_MSG j) rs) @ frame TEST_FINALIZE jf @ rest) later"
    by simp
  from s2c_run_pending [OF assms this] obtain s' e where s': "s2c_run env sv s = Some ((new NoError, e), s')"
    "pending s' rest later" "rebuff (s\<lparr>nd_out := nd_out s @ [snd (format_test_msg env (sv_print sv speed))]\<rparr>) s'"
    by blast
  then show "\<exists>s' out. test_phase (s2c_run env sv) s = Some (new NoError, s') \<and> pending s' rest later \<and> rebuff (s\<lparr>nd_out := out\<rparr>) s'"
    unfolding test_phase_def by fastforce
qed

lemma data_tests_ok:
  assumes "takes (test_meta_run env version) a (new NoError)" "takes (test_phase (c2s_run env cv)) b (new NoError)"
    "takes (test_phase (s2c_run env sv)) c (new NoError)"
  shows "tests_ok (data_tests env version cv sv)
    [(''32'', 32, a, new NoError), (''2'', 2, b, new NoError), (''4'', 4, c, new NoError)]"
proof -
  have "lexical_cast_int_noexcept ''32'' = no_err 32" "lexical_cast_int_noexcept ''2'' = no_err 2"
    "lexical_cast_int_noexcept ''4'' = no_err 4"
    by (simp_all add: lexical_cast_int_noexcept_def as_int_noexcept_def as_int_def stream_int_def c_str_def is_space_def
        is_digit_def dec_value_def no_err_def int_range_def INT_MIN_def INT_MAX_def)
  then show ?thesis
    using assms by (simp add: data_tests_def test_func_def TEST_C2S_def TEST_META_def TEST_S2C_def)
qed

section \<open>Averages\<close>

lemma sum_list_bounds:
  assumes "\<forall>x \<in> set xs. a \<le> x \<and> x \<le> (b :: rat)"
  shows "of_nat (length xs) * a \<le> sum_list xs \<and> sum_list xs \<le> of_nat (length xs) * b"
  using assms by (induction xs) (auto simp: algebra_simps)

lemma compute_speed_bounds:
  assumes "compute_speed data = Some v"
  shows "9 \<le> length data \<and> sort (map snd data) ! 6 \<le> v \<and> v \<le> sort (map snd data) ! (length data - 3)"
proof -
  let ?s = "sort (map snd data)" and ?n = "length data"
  let ?g = "drop 6 (take (?n - 2) ?s)"
  have n: "9 \<le> ?n" and v: "v = sum_list ?g / of_nat (length ?g)"
    using assms by (auto simp: compute_speed_def Let_def split: if_splits)
  have "?s ! 6 \<le> x \<and> x \<le> ?s ! (?n - 3)" if x: "x \<in> set ?g" for x
  proof -
    obtain i where i: "i < length ?g" "x = ?g ! i"
      using x by (metis in_set_conv_nth)
    then have "x = ?s ! (6 + i)" "6 + i \<le> ?n - 3"
      using n by (simp_all, linarith?)
    then show ?thesis
      using n by (auto intro!: sorted_nth_mono)
  qed
  then have "of_nat (length ?g) * (?s ! 6) \<le> sum_list ?g \<and> sum_list ?g \<le> of_nat (length ?g) * (?s ! (?n - 3))"
    by (intro sum_list_bounds) blast
  moreover have "0 < (of_nat (length ?g) :: rat)"
    using n by simp
  ultimately show ?thesis
    unfolding v using n by (simp add: pos_le_divide_eq pos_divide_le_eq mult.commute)
qed

section \<open>Properties\<close>

text \<open>C20: Every block that the upload writes behind the first one is in one snapshot, or in what was counted since the last: the
  speeds times the times between them give the bytes. The snapshots are at least half a second apart.\<close>

theorem upload_is_accounted:
  assumes "c2s_transfer cv = Some (err, ms, snaps, blocks)"
  shows "snap_bytes 0 snaps + of_nat (ms_total ms) = 8192 * of_nat blocks \<and> apart (1 / 2) 0 snaps"
proof -
  have "measured (measure_init (cv_snap cv) (1 / 2)) [] (8192 * 0)"
    using measured_init [of "1 / 2"] by simp
  from c2s_upload_measured [OF assms [unfolded c2s_transfer_def] this]
  have "measured ms snaps (8192 * blocks)" "ms_delay ms = ms_delay (measure_init (cv_snap cv) (1 / 2))"
    by simp_all
  moreover have "ms_delay (measure_init (cv_snap cv) (1 / 2)) = 1 / 2"
    by (simp add: measure_init_def)
  ultimately have "ms_delay ms = 1 / 2" "measured ms snaps (8192 * blocks)"
    by (simp_all only:)
  then show ?thesis
    unfolding measured_def by (metis of_nat_mult of_nat_numeral)
qed

definition example_upload :: c2s_env where
  "example_upload =
    \<lparr>cv_connect = (\<lambda>port. (new NoError, 1)), cv_begin = 0, cv_snap = 0, cv_events = [Flushed (1 / 4), Flushed 1, Flushed 11],
     cv_double = (\<lambda>s. None)\<rparr>"

lemma example_upload_ends:
  "c2s_transfer example_upload = Some (new NoError, measure_reset 11 (measure_init 0 (1 / 2)),
    [(1, 8192 * 8 / 1000), (11, 8192 * 8 / 1000 / 10)], 2)"
  by (simp add: c2s_transfer_def example_upload_def TEST_C2S_DURATION_def measure_init_def maybe_speed_def speed_at_def
      measure_reset_def add_bytes_def BLOCK_SIZE_def Let_def)

theorem upload_is_accounted_witness:
  "snap_bytes 0 [(1, 8192 * 8 / 1000), (11, 8192 * 8 / 1000 / 10)] = 8192 * 2"
  using upload_is_accounted [OF example_upload_ends] by (simp add: measure_reset_def measure_init_def)

text \<open>C36: When the server prepares, starts and ends a test of the upload, and the connection for the data ends at the end of the
  time or because the server closed it, the test succeeds; the report has the snapshots and the speed that the server
  says, and the session goes on behind the messages of the test, in whatever chunks they arrive.\<close>

theorem upload_completes:
  assumes "json_msg env jp port" "lexical_cast_int_noexcept port = no_err n" "0 \<le> n" "n \<le> 65535"
    and "cv_connect cv n = (cerr, connect_time)" "\<not> is_err cerr"
    and "json_msg env js b" "c2s_transfer cv = Some (err, ms, snaps, blocks)" "is_err err \<longrightarrow> reason err = ''broken_pipe''"
    and "json_msg env jm m" "json_msg env jf f"
    and "nd_in s = map TxpData ds @ later"
    and "nd_buff s @ concat ds = frame TEST_PREPARE jp @ frame TEST_START js @ frame TEST_MSG jm @ frame TEST_FINALIZE jf @ rest"
  shows "\<exists>s'. c2s_run env cv s = Some ((new NoError, Some \<lparr>c2_connect_times = [connect_time], c2_sender_data = snaps,
      c2_avg_speed = cv_double cv m\<rparr>), s') \<and> pending s' rest later"
proof -
  have "pending s (frame TEST_PREPARE jp @ frame TEST_START js @ frame TEST_MSG jm @ frame TEST_FINALIZE jf @ rest) later"
    using assms(12,13) by (auto simp: pending_def)
  from c2s_run_pending [OF assms(1-11) this] show ?thesis
    by blast
qed

theorem upload_completes_witness:
  "\<exists>s'. c2s_run test_env example_upload (test_session [TxpData (frame TEST_PREPARE ''0'' @ frame TEST_START []),
      TxpData (frame TEST_MSG ''9'' @ frame TEST_FINALIZE [])])
    = Some ((new NoError, Some \<lparr>c2_connect_times = [1], c2_sender_data = [(1, 8192 * 8 / 1000), (11, 8192 * 8 / 1000 / 10)],
        c2_avg_speed = None\<rparr>), s')"
proof -
  let ?ds = "[frame TEST_PREPARE ''0'' @ frame TEST_START [], frame TEST_MSG ''9'' @ frame TEST_FINALIZE []]"
  have port: "lexical_cast_int_noexcept ''0'' = no_err 0"
    by (simp add: lexical_cast_int_noexcept_def as_int_noexcept_def as_int_def stream_int_def c_str_def is_space_def is_digit_def
      dec_value_def no_err_def int_range_def INT_MIN_def INT_MAX_def)
  have env: "cv_connect example_upload 0 = (new NoError, 1)" "cv_double example_upload m = None" for m
    by (simp_all add: example_upload_def)
  have msg: "json_msg test_env ''0'' ''0''" "json_msg test_env [] []" "json_msg test_env ''9'' ''9''"
    by simp_all
  have "nd_in (test_session (map TxpData ?ds)) = map TxpData ?ds @ []"
    "nd_buff (test_session (map TxpData ?ds)) @ concat ?ds
      = frame TEST_PREPARE ''0'' @ frame TEST_START [] @ frame TEST_MSG ''9'' @ frame TEST_FINALIZE [] @ []"
    by (simp_all add: test_session_def)
  from upload_completes [OF msg(1) port _ _ env(1) _ msg(2) example_upload_ends _ msg(3,2) this]
  show ?thesis
    by (auto simp: env(2) err_simps)
qed

text \<open>CX: The parameters of a download that are accepted are within their bounds.\<close>

theorem download_parameters_bounded:
  "case parse_params read_double s of
     Inl e \<Rightarrow> True
   | Inr p \<Rightarrow> 0 \<le> sp_port p \<and> sp_port p \<le> 65535 \<and> 1 \<le> sp_num_streams p \<and> sp_num_streams p \<le> 8
      \<and> 0 \<le> sp_duration p \<and> sp_duration p \<le> 60 \<and> 1 / 4 \<le> sp_snaps_delay p"
  using parse_params_bounds by (auto split: sum.split)

text \<open>CX: The speed in the statistics lies between the seventh lowest and the third highest speed of the snapshots, of which
  there are at least nine.\<close>

theorem speed_is_robust:
  assumes "compute_speed data = Some v"
  shows "9 \<le> length data \<and> sort (map snd data) ! 6 \<le> v \<and> v \<le> sort (map snd data) ! (length data - 3)"
  by (rule compute_speed_bounds [OF assms])

theorem speed_is_robust_witness:
  "compute_speed (map (\<lambda>i. (of_nat i, 7)) [0..<9]) = Some 7 \<and> sort (map snd (map (\<lambda>i. (rat_of_nat i, 7 :: rat)) [0..<9])) ! 6 \<le> 7"
proof -
  have "compute_speed (map (\<lambda>i. (of_nat i, 7)) [0..<9]) = Some 7"
    by (simp add: compute_speed_def upt_rec)
  with speed_is_robust [OF this] show ?thesis
    by blast
qed

end
