(* ===== verification/NdtServer.thy ===== *)
theory NdtServer
  imports Ndt Mlabns
begin

text \<open>
  The start of the test NDT, \<open>run\_impl\<close> of \<open>ndt/run\_impl.hpp\<close>: which server the session is with.
\<close>

section \<open>The server\<close>

text \<open>\<open>run\_impl\<close>: the server is the one of the settings, or the one that the name service gives for the tool.  The
  session with a server and a port is an argument.\<close>

definition NDT_PORT :: int where
  "NDT_PORT = 3001"

definition ndt_run :: "(string \<Rightarrow> error \<times> json) \<Rightarrow> (string \<Rightarrow> int \<Rightarrow> phase) \<Rightarrow> settings \<Rightarrow> phase" where
  "ndt_run request session settings s =
    (let ndt_port = settings_get_int_noexcept settings ''port'' NDT_PORT in
     if \<not> has_value ndt_port then Some (new_e InvalidPortError (as_error ndt_port), s)
     else
       let addr = settings_get_str settings ''address'' [] in
       if addr \<noteq> [] then session addr (snd ndt_port) s
       else
         let (err, reply) = mlabns_query request (settings_get_str settings ''mlabns_tool_name'' ''ndt'') settings in
         if is_err err then Some (new_e MlabnsQueryError err, s) else session (mr_fqdn reply) (snd ndt_port) s)"


text \<open>With an address in the settings the name service is not asked, and without one the session starts only
  with the host of its reply.\<close>

lemma address_not_looked_up:
  assumes "settings_get_str settings ''address'' [] \<noteq> []"
  shows "ndt_run request session settings s = ndt_run request' session settings s"
  using assms by (simp add: ndt_run_def Let_def)

lemma session_with_reply:
  assumes "settings_get_str settings ''address'' [] = []"
    and "mlabns_query request (settings_get_str settings ''mlabns_tool_name'' ''ndt'') settings = (err, reply)"
    and "ndt_run request (\<lambda>_ _ _. None) settings s = None"
  shows "\<not> is_err err \<and> ndt_run request session settings s
    = session (mr_fqdn reply) (snd (settings_get_int_noexcept settings ''port'' NDT_PORT)) s"
  using assms by (auto simp: ndt_run_def Let_def split: if_splits)

end
