(* ===== verification/Messengers.thy ===== *)
theory Messengers
  imports Http OoniUtils Dns Ndt EntryState
begin

text \<open>
  The tests of messengers: \<open>ooni/whatsapp.cpp\<close>, \<open>ooni/facebook\_messenger.cpp\<close> and \<open>ooni/telegram.cpp\<close>, from the outcomes
  of the look-ups, connections and requests that the templates make, in the order in which they complete, to
  the verdict in the entry.  What the templates themselves add to the entry is the subject of \<open>Templates\<close>.
\<close>

section \<open>Operations that complete in any order\<close>

text \<open>Every completion is counted; the one that makes the count full calls back.\<close>

fun gather :: "('e \<Rightarrow> 's \<Rightarrow> 's) \<Rightarrow> nat \<Rightarrow> nat \<Rightarrow> 'e list \<Rightarrow> 's \<Rightarrow> 's option" where
  "gather step n k [] s = None"
| "gather step n k (e # es) s =
    (let s = step e s; k = k + 1 in if n = k then Some s else gather step n k es s)"

lemma gather_all:
  "es \<noteq> [] \<Longrightarrow> gather step (k + length es) k es s = Some (fold step es s)"
proof (induction es arbitrary: k s)
  case (Cons e es)
  then show ?case
    using Cons.IH [of "k + 1" "step e s"] by (cases "es = []") (auto simp: Let_def)
qed simp

section \<open>Networks of WhatsApp\<close>

definition WHATSAPP_NETS :: "string list" where
  "WHATSAPP_NETS =
    [''31.13.64.51/32'', ''31.13.65.49/32'', ''31.13.66.49/32'', ''31.13.67.51/32'', ''31.13.68.52/32'',
    ''31.13.69.240/32'', ''31.13.70.49/32'', ''31.13.71.49/32'', ''31.13.72.52/32'', ''31.13.73.49/32'',
    ''31.13.74.49/32'', ''31.13.75.52/32'', ''31.13.76.81/32'', ''31.13.77.49/32'', ''31.13.78.53/32'',
    ''31.13.80.53/32'', ''31.13.81.53/32'', ''31.13.82.51/32'', ''31.13.83.51/32'', ''31.13.84.51/32'',
    ''31.13.85.51/32'', ''31.13.86.51/32'', ''31.13.87.51/32'', ''31.13.88.49/32'', ''31.13.90.51/32'',
    ''31.13.91.51/32'', ''31.13.92.52/32'', ''31.13.93.51/32'', ''31.13.94.52/32'', ''31.13.95.63/32'',
    ''50.22.198.204/30'', ''50.22.210.32/30'', ''50.22.210.128/27'', ''50.22.225.64/27'', ''50.22.235.248/30'',
    ''50.22.240.160/27'', ''50.23.90.128/27'', ''50.97.57.128/27'', ''75.126.39.32/27'', ''108.168.171.224/27'',
    ''108.168.174.0/27'', ''108.168.176.192/26'', ''108.168.177.0/27'', ''108.168.180.96/27'', ''108.168.254.65/32'',
    ''108.168.255.224/32'', ''108.168.255.227/32'', ''157.240.0.53/32'', ''157.240.2.53/32'', ''157.240.3.53/32'',
    ''157.240.7.54/32'', ''158.85.0.96/27'', ''158.85.5.192/27'', ''158.85.46.128/27'', ''158.85.48.224/27'',
    ''158.85.58.0/25'', ''158.85.61.192/27'', ''158.85.224.160/27'', ''158.85.233.32/27'', ''158.85.249.128/27'',
    ''158.85.254.64/27'', ''169.44.36.0/25'', ''169.44.57.64/27'', ''169.44.58.64/27'', ''169.44.80.0/26'',
    ''169.44.82.96/27'', ''169.44.82.128/27'', ''169.44.82.192/26'', ''169.44.83.0/26'', ''169.44.83.96/27'',
    ''169.44.83.128/27'', ''169.44.83.192/26'', ''169.44.84.0/24'', ''169.44.85.64/27'', ''169.45.71.32/27'',
    ''169.45.71.96/27'', ''169.45.87.128/26'', ''169.45.169.192/27'', ''169.45.182.96/27'', ''169.45.210.64/27'',
    ''169.45.214.224/27'', ''169.45.219.224/27'', ''169.45.237.192/27'', ''169.45.238.32/27'', ''169.45.248.96/27'',
    ''169.45.248.160/27'', ''169.46.52.224/27'', ''169.47.5.192/26'', ''169.53.29.128/27'', ''169.53.48.32/27'',
    ''169.53.71.224/27'', ''169.53.81.64/27'', ''169.53.250.128/26'', ''169.53.252.64/27'', ''169.53.255.64/27'',
    ''169.54.2.160/27'', ''169.54.44.224/27'', ''169.54.51.32/27'', ''169.54.55.192/27'', ''169.54.193.160/27'',
    ''169.54.210.0/27'', ''169.54.222.128/27'', ''169.55.67.224/27'', ''169.55.69.128/26'', ''169.55.74.32/27'',
    ''169.55.75.96/27'', ''169.55.126.64/26'', ''169.55.210.96/27'', ''169.55.235.160/27'', ''173.192.162.32/27'',
    ''173.192.219.128/27'', ''173.192.222.160/27'', ''173.192.231.32/27'', ''173.192.234.96/27'',
    ''173.193.198.96/27'', ''173.193.205.0/27'', ''173.193.230.96/27'', ''173.193.230.128/27'', ''173.193.230.192/27'',
    ''173.193.239.0/27'', ''174.36.208.128/27'', ''174.36.210.32/27'', ''174.36.251.192/27'', ''174.37.199.192/27'',
    ''174.37.217.64/27'', ''174.37.243.64/27'', ''174.37.251.0/27'', ''179.60.192.51/32'', ''179.60.193.51/32'',
    ''179.60.195.51/32'', ''184.173.136.64/27'', ''184.173.147.32/27'', ''184.173.161.64/32'', ''184.173.161.160/27'',
    ''184.173.173.116/32'', ''184.173.179.32/27'', ''185.60.216.53/32'', ''185.60.218.53/32'', ''192.155.212.192/27'',
    ''198.11.193.182/31'', ''198.11.251.32/27'', ''198.23.80.0/27'', ''208.43.115.192/27'', ''208.43.117.79/32'',
    ''208.43.122.128/27'', ''2607:f0d0:1b01:d4::/64'', ''2607:f0d0:1b02:14d::/64'', ''2607:f0d0:1b04:32::/64'',
    ''2607:f0d0:1b04:bb::/64'', ''2607:f0d0:1b04:bc::/64'', ''2607:f0d0:1b06::/64'', ''2607:f0d0:1b06:4::/64'',
    ''2607:f0d0:1e01:b1::/64'', ''2607:f0d0:2102:229::/64'', ''2607:f0d0:2601:37::/64'', ''2607:f0d0:3003:1bc::/64'',
    ''2607:f0d0:3003:1cd::/64'', ''2607:f0d0:3004:136::/64'', ''2607:f0d0:3004:174::/64'', ''2607:f0d0:3005:183::/64'',
    ''2607:f0d0:3005:1a3::/64'', ''2607:f0d0:3006:84::/64'', ''2607:f0d0:3006:af::/64'', ''2607:f0d0:3801:38::/64'',
    ''2607:f0d0:3801:14b::/64'', ''2607:f0d0:3802:48::/64'', ''2a03:2880:f200:c5:face:b00c::167/128'',
    ''2a03:2880:f200:1c5:face:b00c::167/128'', ''2a03:2880:f201:c5:face:b00c::167/128'',
    ''2a03:2880:f202:c4:face:b00c::167/128'', ''2a03:2880:f203:c5:face:b00c::167/128'',
    ''2a03:2880:f204:c5:face:b00c::167/128'', ''2a03:2880:f205:c5:face:b00c::167/128'',
    ''2a03:2880:f206:c5:face:b00c::167/128'', ''2a03:2880:f207:c5:face:b00c::167/128'',
    ''2a03:2880:f208:c5:face:b00c::167/128'', ''2a03:2880:f209:c5:face:b00c::167/128'',
    ''2a03:2880:f20a:c5:face:b00c::167/128'', ''2a03:2880:f20b:c5:face:b00c::167/128'',
    ''2a03:2880:f20c:c6:face:b00c::167/128'', ''2a03:2880:f20d:c5:face:b00c::167/128'',
    ''2a03:2880:f20e:c5:face:b00c::167/128'', ''2a03:2880:f20f:c6:face:b00c::167/128'',
    ''2a03:2880:f210:c5:face:b00c::167/128'', ''2a03:2880:f211:c5:face:b00c::167/128'',
    ''2a03:2880:f212:c5:face:b00c::167/128'', ''2a03:2880:f213:c5:face:b00c::167/128'',
    ''2a03:2880:f213:80c5:face:b00c::167/128'', ''2a03:2880:f214:c5:face:b00c::167/128'',
    ''2a03:2880:f215:c5:face:b00c::167/128'', ''2a03:2880:f216:c5:face:b00c::167/128'',
    ''2a03:2880:f217:c5:face:b00c::167/128'', ''2a03:2880:f218:c3:face:b00c::167/128'',
    ''2a03:2880:f219:c5:face:b00c::167/128'', ''2a03:2880:f21a:c5:face:b00c::167/128'',
    ''2a03:2880:f21b:c5:face:b00c::167/128'', ''2a03:2880:f21c:c5:face:b00c::167/128'',
    ''2a03:2880:f21c:80c5:face:b00c::167/128'', ''2a03:2880:f21f:c5:face:b00c::167/128'',
    ''2a03:2880:f221:c5:face:b00c::167/128'', ''2a03:2880:f222:c5:face:b00c::167/128'',
    ''2a03:2880:f223:c5:face:b00c::167/128'', ''2a03:2880:f225:c4:face:b00c::167/128'',
    ''2a03:2880:f226:c6:face:b00c::167/128'', ''2a03:2880:f227:c5:face:b00c::167/128'']"

text \<open>The bytes of an address, as a host with the least significant byte first stores them, or none.\<close>

definition ip_to_bytes :: "pton_api \<Rightarrow> string \<Rightarrow> bytes" where
  "ip_to_bytes api ip =
    (let (err, sa) = make_sockaddr api ip 0 in
     if is_err err then []
     else case sa of Some (SockaddrIn a _) \<Rightarrow> a | Some (SockaddrIn6 a _) \<Rightarrow> a | None \<Rightarrow> [])"

text \<open>The indices are asserted: \<open>None\<close> is the end of the program.\<close>

fun same_bytes :: "nat \<Rightarrow> bytes \<Rightarrow> bytes \<Rightarrow> bool option" where
  "same_bytes 0 xs ys = Some True"
| "same_bytes (Suc n) (x # xs) (y # ys) = (if x \<noteq> y then Some False else same_bytes n xs ys)"
| "same_bytes (Suc n) _ _ = None"

definition same_pre :: "bytes \<Rightarrow> bytes \<Rightarrow> nat \<Rightarrow> bool error_or option" where
  "same_pre ip1 ip2 pre_bits =
    (if length ip1 \<noteq> length ip2 then Some (new GenericError, False)
     else
       let i = pre_bits div 8; rem_bits = pre_bits mod 8 in
       case same_bytes i ip1 ip2 of
         None \<Rightarrow> None
       | Some same \<Rightarrow>
          if \<not> same then Some (no_err False)
          else if rem_bits = 0 then Some (no_err True)
          else if length ip1 \<le> i then None
          else Some (no_err (drop_bit (8 - rem_bits) (ip1 ! i) = drop_bit (8 - rem_bits) (ip2 ! i))))"

definition ip_in_net :: "pton_api \<Rightarrow> string \<Rightarrow> string \<Rightarrow> bool error_or option" where
  "ip_in_net api ip1 ip_w_mask =
    (case split_char (CHR ''/'') ip_w_mask of
       [net_ip, prefix_len] \<Rightarrow> same_pre (ip_to_bytes api ip1) (ip_to_bytes api net_ip) (dec_value prefix_len)
     | _ \<Rightarrow> None)"

fun ip_in_nets :: "pton_api \<Rightarrow> string \<Rightarrow> string list \<Rightarrow> bool option" where
  "ip_in_nets api ip [] = Some False"
| "ip_in_nets api ip (net # nets) =
    (case ip_in_net api ip net of
       None \<Rightarrow> None
     | Some res \<Rightarrow> if has_value res \<and> snd res then Some True else ip_in_nets api ip nets)"

section \<open>The endpoints of WhatsApp\<close>

type_synonym host_to_ips = "(string \<times> string list) list"

text \<open>A \<open>std::map\<close>: pushing to the list of a key, with the keys in their order.\<close>

fun push_ip :: "string \<Rightarrow> string \<Rightarrow> host_to_ips \<Rightarrow> host_to_ips" where
  "push_ip h ip [] = [(h, [ip])]"
| "push_ip h ip ((k, ips) # m) =
    (if h = k then (k, ips @ [ip]) # m
     else if key_less (map of_char h) (map of_char k) then (h, [ip]) # (k, ips) # m
     else (k, ips) # push_ip h ip m)"

text \<open>The addresses in the answers for a name; an answer without an IPv4 address has none.\<close>

type_synonym name_lookup = "string \<times> error \<times> answer list"

definition ipv4_of :: "answer list \<Rightarrow> string list" where
  "ipv4_of ans = filter (\<lambda>ip. ip \<noteq> []) (map an_ipv4 ans)"

definition wa_dns_done :: "name_lookup \<Rightarrow> host_to_ips \<Rightarrow> host_to_ips" where
  "wa_dns_done r m =
    (case r of (h, err, ans) \<Rightarrow> if is_err err then m else fold (push_ip h) (ipv4_of ans) m)"

text \<open>A connection that is tried: its name, address and port.\<close>

type_synonym trial = "string \<times> string \<times> int"

record wa_endpoints =
  we_status :: string
  we_dns_inconsistent :: "string list"
  we_blocked :: "string list"
  we_connects :: "(string \<times> int \<times> error) list"

text \<open>The connections that are started for a name.\<close>

definition wa_host_tasks :: "string \<times> string list \<Rightarrow> trial list" where
  "wa_host_tasks host = concat (map (\<lambda>ip. [(fst host, ip, 443), (fst host, ip, 5222)]) (snd host))"

definition wa_tasks :: "host_to_ips \<Rightarrow> trial list" where
  "wa_tasks hosts = concat (map wa_host_tasks hosts)"

text \<open>The members of the entry, the names that count as blocked so far, the number of connections started and ended, and
  the entry at each call of the callback.\<close>

record wa_state =
  ws_entry :: wa_endpoints
  ws_hostnames :: "string list"
  ws_started :: nat
  ws_tested :: nat
  ws_called :: "wa_endpoints list"

definition wa_tcp_start :: "host_to_ips \<Rightarrow> wa_state" where
  "wa_tcp_start hosts =
    \<lparr>ws_entry = \<lparr>we_status = ''blocked'', we_dns_inconsistent = [], we_blocked = [], we_connects = []\<rparr>,
     ws_hostnames = map fst hosts, ws_started = 0, ws_tested = 0, ws_called = []\<rparr>"

text \<open>The outcome of a connection; the last one makes the list of the blocked names and calls back.\<close>

definition wa_tcp_done :: "(string \<Rightarrow> bool) \<Rightarrow> nat \<Rightarrow> trial \<times> error \<Rightarrow> wa_state \<Rightarrow> wa_state" where
  "wa_tcp_done consistent ips_count r s =
    (case r of ((h, ip, prt), err) \<Rightarrow>
      let good = (\<not> is_err err \<and> consistent ip);
          s = (if good then s\<lparr>ws_entry := (ws_entry s)\<lparr>we_status := ''ok''\<rparr>, ws_hostnames := removeAll h (ws_hostnames s)\<rparr> else s);
          s = s\<lparr>ws_entry := (ws_entry s)\<lparr>we_connects := we_connects (ws_entry s) @ [(ip, prt, err)]\<rparr>,
            ws_tested := ws_tested s + 1\<rparr>
      in if ips_count = ws_tested s
         then let e = (ws_entry s)\<lparr>we_blocked := we_blocked (ws_entry s) @ ws_hostnames s\<rparr>
              in s\<lparr>ws_entry := e, ws_called := ws_called s @ [e]\<rparr>
         else s)"

text \<open>A connection that is started may end at once: \<open>now n\<close> is the outcome with which the \<open>n\<close>-th one does.\<close>

definition wa_tcp_try :: "(string \<Rightarrow> bool) \<Rightarrow> nat \<Rightarrow> (nat \<Rightarrow> error option) \<Rightarrow> trial \<Rightarrow> wa_state \<Rightarrow> wa_state" where
  "wa_tcp_try consistent ips_count now_at t s =
    (let s' = s\<lparr>ws_started := ws_started s + 1\<rparr> in
     case now_at (ws_started s) of None \<Rightarrow> s' | Some err \<Rightarrow> wa_tcp_done consistent ips_count (t, err) s')"

text \<open>A name without an address in the networks is taken out after its connections have been started.\<close>

definition wa_tcp_host :: "(string \<Rightarrow> bool) \<Rightarrow> nat \<Rightarrow> (nat \<Rightarrow> error option) \<Rightarrow> string \<times> string list \<Rightarrow> wa_state \<Rightarrow> wa_state" where
  "wa_tcp_host consistent ips_count now_at host s =
    (let s = fold (wa_tcp_try consistent ips_count now_at) (wa_host_tasks host) s in
     if list_ex consistent (snd host) then s
     else s\<lparr>ws_entry := (ws_entry s)\<lparr>we_dns_inconsistent := we_dns_inconsistent (ws_entry s) @ [fst host]\<rparr>,
            ws_hostnames := removeAll (fst host) (ws_hostnames s)\<rparr>)"

text \<open>The entries that the callback gets: the connections are started, and the others end afterwards.\<close>

definition wa_tcp_many ::
    "(string \<Rightarrow> bool) \<Rightarrow> host_to_ips \<Rightarrow> (nat \<Rightarrow> error option) \<Rightarrow> (trial \<times> error) list \<Rightarrow> wa_endpoints list" where
  "wa_tcp_many consistent hosts now_at outcomes =
    (let ips_count = length (wa_tasks hosts); s = wa_tcp_start hosts in
     if ips_count = 0 then [ws_entry s]
     else ws_called (fold (wa_tcp_done consistent ips_count) outcomes (fold (wa_tcp_host consistent ips_count now_at) hosts s)))"

section \<open>WhatsApp\<close>

text \<open>The status and the failure of a resource; the last failure stays.\<close>

type_synonym resource = "string \<times> string option"

definition wa_http_done :: "error \<Rightarrow> resource \<Rightarrow> resource" where
  "wa_http_done err r = (if is_err err then (''blocked'', Some (reason err)) else r)"

definition wa_http_many :: "string list \<Rightarrow> error list \<Rightarrow> resource option" where
  "wa_http_many urls outcomes = gather wa_http_done (length urls) 0 outcomes (''ok'', None)"

definition WHATSAPP_REG_URLS :: "string list" where
  "WHATSAPP_REG_URLS = [''https://v.whatsapp.net/v2/register'']"

definition WHATSAPP_WEB_URLS :: "string list" where
  "WHATSAPP_WEB_URLS = [''https://web.whatsapp.com/'', ''http://web.whatsapp.com/'']"

definition WHATSAPP_ENDPOINT_HOSTNAMES :: "string list" where
  "WHATSAPP_ENDPOINT_HOSTNAMES = map (\<lambda>i. ''e'' @ nat_dec i @ ''.whatsapp.net'') [1..<17]"

text \<open>The outcomes of the four stages, each in the order of completion; those of the third depend on the names and those of
  the fourth on the addresses.\<close>

record wa_world =
  ww_registration :: "error list"
  ww_web :: "error list"
  ww_dns :: "string list \<Rightarrow> name_lookup list"
  ww_now :: "host_to_ips \<Rightarrow> nat \<Rightarrow> error option"
  ww_tcp :: "host_to_ips \<Rightarrow> (trial \<times> error) list"
  ww_choice :: nat

record wa_report =
  wr_registration :: resource
  wr_web :: resource
  wr_endpoints :: wa_endpoints

text \<open>The reports that the caller gets.\<close>

definition whatsapp :: "(string \<Rightarrow> bool) \<Rightarrow> wa_world \<Rightarrow> bool \<Rightarrow> wa_report list option" where
  "whatsapp consistent w all_endpoints =
    (let names = (if all_endpoints then WHATSAPP_ENDPOINT_HOSTNAMES
                  else [WHATSAPP_ENDPOINT_HOSTNAMES ! (ww_choice w mod length WHATSAPP_ENDPOINT_HOSTNAMES)]) in
     Option.bind (wa_http_many WHATSAPP_REG_URLS (ww_registration w)) (\<lambda>reg.
     Option.bind (wa_http_many WHATSAPP_WEB_URLS (ww_web w)) (\<lambda>web.
     Option.bind (gather wa_dns_done (length names) 0 (ww_dns w names) []) (\<lambda>hosts.
     Some (map (\<lambda>endpoints. \<lparr>wr_registration = reg, wr_web = web, wr_endpoints = endpoints\<rparr>)
       (wa_tcp_many consistent hosts (ww_now w hosts) (ww_tcp w hosts)))))))"

section \<open>Facebook Messenger\<close>

definition FB_ASN :: string where
  "FB_ASN = ''AS32934''"

definition FB_SERVICE_HOSTNAMES :: "(string \<times> string) list" where
  "FB_SERVICE_HOSTNAMES =
    [(''b_api'', ''b-api.facebook.com''), (''b_graph'', ''b-graph.facebook.com''), (''edge'', ''edge-mqtt.facebook.com''),
     (''external_cdn'', ''external.xx.fbcdn.net''), (''scontent_cdn'', ''scontent.xx.fbcdn.net''),
     (''star'', ''star.c10r.facebook.com''), (''stun'', ''stun.fbsbx.com'')]"

definition ip_in_fb_asn :: "(string \<Rightarrow> string error_or) \<Rightarrow> string \<Rightarrow> bool" where
  "ip_in_fb_asn asn_of ip =
    (let asn = asn_of ip in has_value asn \<and> snd asn \<noteq> ''AS0'' \<and> snd asn = FB_ASN)"

text \<open>The addresses of each service.\<close>

type_synonym service_ips = "string \<Rightarrow> string list"

definition fb_dns_done :: "name_lookup \<Rightarrow> service_ips \<Rightarrow> service_ips" where
  "fb_dns_done r m = (case r of (service, err, ans) \<Rightarrow> if is_err err then m else m(service := m service @ ipv4_of ans))"

definition fb_tasks :: "service_ips \<Rightarrow> trial list" where
  "fb_tasks ips =
    concat (map (\<lambda>(service, _). if service = ''stun'' then [] else map (\<lambda>ip. (service, ip, 443)) (ips service)) FB_SERVICE_HOSTNAMES)"

text \<open>The members of the entry; a member that is not there yet is null.\<close>

record fb_report =
  fr_dns_consistent :: "string \<Rightarrow> bool option"
  fr_reachable :: "string \<Rightarrow> bool option"
  fr_dns_blocking :: "bool option"
  fr_tcp_blocking :: "bool option"
  fr_connects :: "(string \<times> int \<times> error) list"

definition fb_empty :: fb_report where
  "fb_empty = \<lparr>fr_dns_consistent = (\<lambda>_. None), fr_reachable = (\<lambda>_. None), fr_dns_blocking = None, fr_tcp_blocking = None, fr_connects = []\<rparr>"

record fb_state =
  fs_report :: fb_report
  fs_started :: nat
  fs_tested :: nat
  fs_called :: "fb_report list"

definition fb_tcp_start :: fb_state where
  "fb_tcp_start =
    \<lparr>fs_report = fb_empty\<lparr>fr_reachable := (\<lambda>service. if service = ''stun'' then None else Some False)\<rparr>,
     fs_started = 0, fs_tested = 0, fs_called = []\<rparr>"

text \<open>Reading a member that is null as a bool throws.\<close>

definition fb_flag :: "bool option \<Rightarrow> bool res" where
  "fb_flag v = (case v of None \<Rightarrow> Inl DomainError | Some b \<Rightarrow> Inr b)"

definition fb_unreachable :: "fb_report \<Rightarrow> string \<Rightarrow> bool res" where
  "fb_unreachable r service =
    bind_res (fb_flag (fr_dns_consistent r service)) (\<lambda>consistent.
    bind_res (fb_flag (fr_reachable r service)) (\<lambda>reachable. Inr (consistent \<and> \<not> reachable)))"

definition fb_tcp_blocking :: "fb_report \<Rightarrow> bool res" where
  "fb_tcp_blocking r =
    bind_res (map_res (fb_unreachable r) (filter (\<lambda>service. service \<noteq> ''stun'') (map fst FB_SERVICE_HOSTNAMES)))
      (\<lambda>bs. Inr (list_ex id bs))"

text \<open>The outcome of a connection in the entry.\<close>

definition fb_noted :: "(string \<Rightarrow> bool) \<Rightarrow> trial \<times> error \<Rightarrow> fb_report \<Rightarrow> fb_report" where
  "fb_noted consistent r rep =
    (case r of ((service, ip, prt), err) \<Rightarrow>
      let rep = (if \<not> is_err err \<and> consistent ip then rep\<lparr>fr_reachable := (fr_reachable rep)(service := Some True)\<rparr> else rep)
      in rep\<lparr>fr_connects := fr_connects rep @ [(ip, prt, err)]\<rparr>)"

text \<open>The last outcome makes the verdict on TCP, and then the connection is closed, which calls back.\<close>

definition fb_tcp_done :: "(string \<Rightarrow> bool) \<Rightarrow> nat \<Rightarrow> trial \<times> error \<Rightarrow> fb_state \<Rightarrow> fb_state res" where
  "fb_tcp_done consistent ips_count r s =
    (let rep = fb_noted consistent r (fs_report s);
         s = s\<lparr>fs_report := rep, fs_tested := fs_tested s + 1\<rparr>
     in if ips_count = fs_tested s
        then bind_res (fb_tcp_blocking rep) (\<lambda>b.
               let rep = rep\<lparr>fr_tcp_blocking := Some b\<rparr> in Inr (s\<lparr>fs_report := rep, fs_called := fs_called s @ [rep]\<rparr>))
        else Inr s)"

fun fold_res :: "('x \<Rightarrow> 's \<Rightarrow> 's res) \<Rightarrow> 'x list \<Rightarrow> 's \<Rightarrow> 's res" where
  "fold_res f [] s = Inr s"
| "fold_res f (x # xs) s = bind_res (f x s) (fold_res f xs)"

text \<open>An address of a service: no connection is made for the service over UDP.\<close>

definition fb_address ::
    "(string \<Rightarrow> bool) \<Rightarrow> nat \<Rightarrow> (nat \<Rightarrow> error option) \<Rightarrow> string \<Rightarrow> string \<Rightarrow> fb_state \<Rightarrow> fb_state res" where
  "fb_address consistent ips_count now_at service ip s =
    (let rep = fs_report s;
         s = (if consistent ip then s\<lparr>fs_report := rep\<lparr>fr_dns_consistent := (fr_dns_consistent rep)(service := Some True)\<rparr>\<rparr> else s)
     in if service = ''stun'' then Inr s
        else let s' = s\<lparr>fs_started := fs_started s + 1\<rparr> in
          case now_at (fs_started s) of
            None \<Rightarrow> Inr s'
          | Some err \<Rightarrow> fb_tcp_done consistent ips_count ((service, ip, 443), err) s')"

definition fb_service ::
    "(string \<Rightarrow> bool) \<Rightarrow> nat \<Rightarrow> (nat \<Rightarrow> error option) \<Rightarrow> service_ips \<Rightarrow> string \<Rightarrow> fb_state \<Rightarrow> fb_state res" where
  "fb_service consistent ips_count now_at ips service s =
    fold_res (fb_address consistent ips_count now_at service) (ips service)
      (s\<lparr>fs_report := (fs_report s)\<lparr>fr_dns_consistent := (fr_dns_consistent (fs_report s))(service := Some False)\<rparr>\<rparr>)"

text \<open>The verdict on DNS, when all connections have been started.\<close>

definition fb_dns_verdict :: "fb_state \<Rightarrow> fb_state res" where
  "fb_dns_verdict s =
    bind_res (map_res (\<lambda>service. fb_flag (fr_dns_consistent (fs_report s) service)) (map fst FB_SERVICE_HOSTNAMES)) (\<lambda>bs.
      Inr (s\<lparr>fs_report := (fs_report s)\<lparr>fr_dns_blocking := Some (list_ex Not bs)\<rparr>\<rparr>))"

text \<open>The reports that the callback gets, or an exception; without an address there is no verdict.\<close>

definition fb_tcp_many ::
    "(string \<Rightarrow> bool) \<Rightarrow> service_ips \<Rightarrow> (nat \<Rightarrow> error option) \<Rightarrow> (trial \<times> error) list \<Rightarrow> fb_report list res" where
  "fb_tcp_many consistent ips now_at outcomes =
    (let ips_count = length (fb_tasks ips) in
     if ips_count = 0 then Inr [fb_empty]
     else
       bind_res (fold_res (fb_service consistent ips_count now_at ips) (map fst FB_SERVICE_HOSTNAMES) fb_tcp_start) (\<lambda>s.
       bind_res (fb_dns_verdict s) (\<lambda>s.
       bind_res (fold_res (fb_tcp_done consistent ips_count) outcomes s) (\<lambda>s. Inr (fs_called s)))))"

definition facebook_messenger ::
    "(string \<Rightarrow> bool) \<Rightarrow> name_lookup list \<Rightarrow> (service_ips \<Rightarrow> (nat \<Rightarrow> error option) \<times> (trial \<times> error) list)
      \<Rightarrow> fb_report list res option" where
  "facebook_messenger consistent lookups connects =
    map_option (\<lambda>ips. case connects ips of (now_at, outcomes) \<Rightarrow> fb_tcp_many consistent ips now_at outcomes)
      (gather fb_dns_done (length FB_SERVICE_HOSTNAMES) 0 lookups (\<lambda>_. []))"

section \<open>Telegram\<close>

definition TELEGRAM_WEB_URLS :: "string list" where
  "TELEGRAM_WEB_URLS = [''http://web.telegram.org/'', ''https://web.telegram.org/'']"

definition TELEGRAM_TCP_ENDPOINTS :: "(string \<times> int) list" where
  "TELEGRAM_TCP_ENDPOINTS =
    [(''149.154.175.50'', 80), (''149.154.175.50'', 443), (''149.154.167.51'', 80), (''149.154.167.51'', 443),
     (''149.154.175.100'', 80), (''149.154.175.100'', 443), (''149.154.167.91'', 80), (''149.154.167.91'', 443),
     (''149.154.171.5'', 80), (''149.154.171.5'', 443)]"

definition TELEGRAM_HTTP_ENDPOINTS :: "string list" where
  "TELEGRAM_HTTP_ENDPOINTS = map (\<lambda>(ip, prt). ''http://'' @ ip @ '':'' @ int_dec prt) TELEGRAM_TCP_ENDPOINTS"

record tg_report =
  tg_tcp_blocking :: bool
  tg_http_blocking :: bool
  tg_web_status :: string
  tg_web_failure :: "string option"
  tg_connects :: "(string \<times> int \<times> error) list"

definition tg_init :: tg_report where
  "tg_init = \<lparr>tg_tcp_blocking = True, tg_http_blocking = True, tg_web_status = ''ok'', tg_web_failure = None, tg_connects = []\<rparr>"

definition tg_tcp_done :: "(string \<times> int) \<times> error \<Rightarrow> tg_report \<Rightarrow> tg_report" where
  "tg_tcp_done r s =
    (case r of ((ip, prt), err) \<Rightarrow>
      s\<lparr>tg_tcp_blocking := (if is_err err then tg_tcp_blocking s else False),
        tg_connects := tg_connects s @ [(ip, prt, err)]\<rparr>)"

definition tg_web_done :: "error \<times> response \<Rightarrow> tg_report \<Rightarrow> tg_report" where
  "tg_web_done r s =
    (if is_err (fst r) then s\<lparr>tg_web_status := ''blocked'', tg_web_failure := Some (reason (fst r))\<rparr>
     else if extract_html_title (rs_body (snd r)) \<noteq> ''Telegram Web'' then s\<lparr>tg_web_status := ''blocked''\<rparr> else s)"

definition tg_http_done :: "error \<times> response \<Rightarrow> tg_report \<Rightarrow> tg_report" where
  "tg_http_done r s = (if is_err (fst r) then s else s\<lparr>tg_http_blocking := False\<rparr>)"

text \<open>The outcomes of the three stages in their order of completion; \<open>parallel\<close> calls back when the last is done.\<close>

definition telegram ::
    "(error \<times> response) list \<Rightarrow> ((string \<times> int) \<times> error) list \<Rightarrow> (error \<times> response) list \<Rightarrow> tg_report option" where
  "telegram web tcp http =
    Option.bind (gather tg_web_done (length TELEGRAM_WEB_URLS) 0 web tg_init) (\<lambda>s.
    Option.bind (gather tg_tcp_done (length TELEGRAM_TCP_ENDPOINTS) 0 tcp s) (\<lambda>s.
    gather tg_http_done (length TELEGRAM_HTTP_ENDPOINTS) 0 http s))"

section \<open>Prefixes\<close>

text \<open>The bits of an address, most significant first.\<close>

definition addr_bits :: "bytes \<Rightarrow> bool list" where
  "addr_bits bs = concat (map (\<lambda>b. map (bit b) (rev [0..<8])) bs)"

lemma addr_bits_Cons [simp]: "addr_bits (b # bs) = map (bit b) (rev [0..<8]) @ addr_bits bs"
  by (simp add: addr_bits_def)

lemma length_addr_bits [simp]: "length (addr_bits bs) = 8 * length bs"
  by (induction bs) (simp_all add: addr_bits_def)

lemma high_bits_eq_bytes:
  assumes "r \<le> 8"
  shows "drop_bit (8 - r) a = drop_bit (8 - r) (b :: uint8) \<longleftrightarrow> (\<forall>i \<in> {8 - r..<8}. bit a i = bit b i)"
proof
  assume *: "\<forall>i \<in> {8 - r..<8}. bit a i = bit b i"
  show "drop_bit (8 - r) a = drop_bit (8 - r) b"
  proof (rule bit_word_eqI)
    fix n
    show "bit (drop_bit (8 - r) a) n = bit (drop_bit (8 - r) b) n"
    proof (cases "8 - r + n < 8")
      case True
      then show ?thesis
        using * by (simp add: bit_drop_bit_eq)
    next
      case False
      then show ?thesis
        using bit_imp_le_length [of a "8 - r + n"] bit_imp_le_length [of b "8 - r + n"] by (auto simp: bit_drop_bit_eq)
    qed
  qed
next
  assume eq: "drop_bit (8 - r) a = drop_bit (8 - r) b"
  have "bit x (8 - r + n) = bit (drop_bit (8 - r) x) n" for x :: uint8 and n
    by (simp add: bit_drop_bit_eq)
  then show "\<forall>i \<in> {8 - r..<8}. bit a i = bit b i"
    using eq by (metis atLeastLessThan_iff le_add_diff_inverse)
qed

lemma byte_prefix:
  assumes "r \<le> 8"
  shows "take r (map (bit (a :: uint8)) (rev [0..<8])) = take r (map (bit b) (rev [0..<8]))
    \<longleftrightarrow> drop_bit (8 - r) a = drop_bit (8 - r) b"
proof -
  have "take r (rev [0..<8]) = rev [8 - r..<8]"
    using assms by (simp only: take_rev length_upt drop_upt) simp
  then show ?thesis
    unfolding take_map high_bits_eq_bytes [OF assms] by (simp only: map_eq_conv set_rev set_upt)
qed

lemma byte_bits_inject: "map (bit (a :: uint8)) (rev [0..<8]) = map (bit b) (rev [0..<8]) \<longleftrightarrow> a = b"
  using byte_prefix [of 8 a b] by simp

lemma same_bytes_bits:
  assumes "length xs = length ys" "n \<le> length xs"
  shows "same_bytes n xs ys = Some (take (8 * n) (addr_bits xs) = take (8 * n) (addr_bits ys))"
  using assms
proof (induction n xs ys rule: same_bytes.induct)
  case (2 n x xs y ys)
  have "take (8 * Suc n) (addr_bits (z # zs)) = map (bit z) (rev [0..<8]) @ take (8 * n) (addr_bits zs)" for z :: uint8 and zs
    by (simp del: upt_Suc)
  then have "take (8 * Suc n) (addr_bits (x # xs)) = take (8 * Suc n) (addr_bits (y # ys))
      \<longleftrightarrow> map (bit x) (rev [0..<8]) = map (bit y) (rev [0..<8]) \<and> take (8 * n) (addr_bits xs) = take (8 * n) (addr_bits ys)"
    by (simp only:) (rule append_eq_append_conv, simp)
  then show ?case
    using 2 unfolding byte_bits_inject by simp
qed simp_all

lemma addr_bits_drop: "drop (8 * n) (addr_bits bs) = addr_bits (drop n bs)"
proof (induction n arbitrary: bs)
  case (Suc n)
  then show ?case
    by (cases bs) (simp_all add: addr_bits_def del: upt_Suc)
qed simp

lemma same_pre_bits:
  assumes "length ip1 = length ip2" "pre_bits \<le> 8 * length ip1"
  shows "same_pre ip1 ip2 pre_bits = Some (no_err (take pre_bits (addr_bits ip1) = take pre_bits (addr_bits ip2)))"
proof -
  let ?i = "pre_bits div 8" and ?r = "pre_bits mod 8"
  have pre: "pre_bits = 8 * ?i + ?r"
    by simp
  have i: "?i \<le> length ip1"
    using assms(2) by linarith
  have split: "take pre_bits (addr_bits ip1) = take pre_bits (addr_bits ip2)
      \<longleftrightarrow> take (8 * ?i) (addr_bits ip1) = take (8 * ?i) (addr_bits ip2)
        \<and> take ?r (addr_bits (drop ?i ip1)) = take ?r (addr_bits (drop ?i ip2))"
  proof -
    have "take pre_bits (addr_bits ip) = take (8 * ?i) (addr_bits ip) @ take ?r (addr_bits (drop ?i ip))" for ip
      unfolding addr_bits_drop [symmetric] by (subst pre) (rule take_add)
    then show ?thesis
      using assms(1) i by (simp only:) (rule append_eq_append_conv, simp)
  qed
  note same = same_bytes_bits [OF assms(1) i]
  show ?thesis
  proof (cases "?r = 0")
    case True
    then show ?thesis
      using assms(1) same split by (simp add: same_pre_def Let_def)
  next
    case False
    then have lt: "?i < length ip1"
      using assms(2) pre by linarith
    have byte: "take ?r (addr_bits (drop ?i ip)) = take ?r (map (bit (ip ! ?i)) (rev [0..<8]))" if "?i < length ip" for ip
      using that by (simp add: Cons_nth_drop_Suc [symmetric] del: upt_Suc)
    have "take ?r (addr_bits (drop ?i ip1)) = take ?r (addr_bits (drop ?i ip2))
        \<longleftrightarrow> drop_bit (8 - ?r) (ip1 ! ?i) = drop_bit (8 - ?r) (ip2 ! ?i)"
      using byte [of ip1] byte [of ip2] lt assms(1) byte_prefix [of ?r "ip1 ! ?i" "ip2 ! ?i"] by simp
    then show ?thesis
      using assms(1) same split False lt by (simp add: same_pre_def Let_def)
  qed
qed

section \<open>Verdicts\<close>

text \<open>A connection to an address in the right network.\<close>

definition good_trial :: "(string \<Rightarrow> bool) \<Rightarrow> string \<Rightarrow> trial \<times> error \<Rightarrow> bool" where
  "good_trial consistent name r \<longleftrightarrow> fst (fst r) = name \<and> \<not> is_err (snd r) \<and> consistent (fst (snd (fst r)))"

abbreviation any_good :: "(string \<Rightarrow> bool) \<Rightarrow> (trial \<times> error) list \<Rightarrow> bool" where
  "any_good consistent outs \<equiv> list_ex (\<lambda>r. good_trial consistent (fst (fst r)) r) outs"

text \<open>Outcomes that are not the last one.\<close>

lemma wa_done_more:
  assumes "ws_tested s + length outs < n"
  shows "we_status (ws_entry (fold (wa_tcp_done c n) outs s)) = (if any_good c outs then ''ok'' else we_status (ws_entry s))
    \<and> ws_hostnames (fold (wa_tcp_done c n) outs s) = filter (\<lambda>h. \<not> list_ex (good_trial c h) outs) (ws_hostnames s)
    \<and> we_dns_inconsistent (ws_entry (fold (wa_tcp_done c n) outs s)) = we_dns_inconsistent (ws_entry s)
    \<and> we_blocked (ws_entry (fold (wa_tcp_done c n) outs s)) = we_blocked (ws_entry s)
    \<and> ws_tested (fold (wa_tcp_done c n) outs s) = ws_tested s + length outs
    \<and> ws_started (fold (wa_tcp_done c n) outs s) = ws_started s
    \<and> ws_called (fold (wa_tcp_done c n) outs s) = ws_called s"
  using assms
proof (induction outs arbitrary: s)
  case (Cons r outs)
  obtain h ip p e where r: "r = ((h, ip, p), e)"
    by (metis prod.exhaust)
  let ?s = "wa_tcp_done c n r s"
  have step: "we_status (ws_entry ?s) = (if good_trial c (fst (fst r)) r then ''ok'' else we_status (ws_entry s))"
    "ws_hostnames ?s = filter (\<lambda>h. \<not> good_trial c h r) (ws_hostnames s)"
    "we_dns_inconsistent (ws_entry ?s) = we_dns_inconsistent (ws_entry s)" "we_blocked (ws_entry ?s) = we_blocked (ws_entry s)"
    "ws_tested ?s = ws_tested s + 1" "ws_started ?s = ws_started s" "ws_called ?s = ws_called s"
    using Cons.prems by (auto simp: r wa_tcp_done_def Let_def good_trial_def removeAll_filter_not_eq intro!: filter_cong)
  have "ws_tested ?s + length outs < n"
    using Cons.prems step(5) by simp
  then show ?case
    using Cons.IH [of ?s] step by (simp add: conj_commute)
qed simp

text \<open>The last one.\<close>

lemma wa_done_last:
  assumes "ws_tested s + 1 = n"
  shows "\<exists>e. ws_called (wa_tcp_done c n r s) = ws_called s @ [e]
    \<and> we_status e = (if any_good c [r] then ''ok'' else we_status (ws_entry s))
    \<and> we_dns_inconsistent e = we_dns_inconsistent (ws_entry s)
    \<and> we_blocked e = we_blocked (ws_entry s) @ filter (\<lambda>h. \<not> good_trial c h r) (ws_hostnames s)"
proof -
  obtain h ip p err where r: "r = ((h, ip, p), err)"
    by (metis prod.exhaust)
  show ?thesis
    using assms by (cases "\<not> is_err err \<and> c ip")
      (auto simp: r wa_tcp_done_def Let_def good_trial_def removeAll_filter_not_eq intro!: filter_cong)
qed

text \<open>The outcomes of the connections that end at once.\<close>

definition at_once :: "(nat \<Rightarrow> error option) \<Rightarrow> nat \<Rightarrow> trial list \<Rightarrow> (trial \<times> error) list" where
  "at_once now_at n ts =
    concat (map (\<lambda>(i, t). case now_at i of None \<Rightarrow> [] | Some err \<Rightarrow> [(t, err)]) (zip [n..<n + length ts] ts))"

lemma at_once_Cons: "at_once now_at n (t # ts) = (case now_at n of None \<Rightarrow> [] | Some err \<Rightarrow> [(t, err)]) @ at_once now_at (n + 1) ts"
  by (simp add: at_once_def upt_conv_Cons del: upt_Suc)

lemma at_once_append: "at_once now_at n (ts @ us) = at_once now_at n ts @ at_once now_at (n + length ts) us"
  by (induction ts arbitrary: n) (simp_all add: at_once_Cons at_once_def [of _ _ "[]"])

lemma wa_done_started: "wa_tcp_done c n r (s\<lparr>ws_started := k\<rparr>) = (wa_tcp_done c n r s)\<lparr>ws_started := k\<rparr>"
  by (cases r) (auto simp: wa_tcp_done_def Let_def split: prod.split)

lemma wa_done_fold_started: "fold (wa_tcp_done c n) outs (s\<lparr>ws_started := k\<rparr>) = (fold (wa_tcp_done c n) outs s)\<lparr>ws_started := k\<rparr>"
  by (induction outs arbitrary: s) (simp_all add: wa_done_started)

lemma wa_try_fold:
  "fold (wa_tcp_try c n now_at) ts s = (fold (wa_tcp_done c n) (at_once now_at (ws_started s) ts) s)\<lparr>ws_started := ws_started s + length ts\<rparr>"
proof (induction ts arbitrary: s)
  case (Cons t ts)
  have started: "ws_started (wa_tcp_done c n r s) = ws_started s" for r s
    by (cases r) (simp add: wa_tcp_done_def Let_def split: prod.split)
  have step: "wa_tcp_try c n now_at t s = (case now_at (ws_started s) of None \<Rightarrow> s | Some err \<Rightarrow> wa_tcp_done c n (t, err) s)
      \<lparr>ws_started := ws_started s + 1\<rparr>"
    by (simp add: wa_tcp_try_def wa_done_started split: option.split)
  show ?case
    by (cases "now_at (ws_started s)")
      (simp_all add: step at_once_Cons Cons.IH wa_done_started wa_done_fold_started started)
qed (simp add: at_once_def)

text \<open>The loop over the names, when some connection does not end at once.\<close>

lemma wa_loop:
  assumes "ws_tested s + length (at_once now_at (ws_started s) (wa_tasks hosts)) < n"
  shows "\<exists>s'. fold (wa_tcp_host c n now_at) hosts s = s'
    \<and> we_status (ws_entry s') = (if any_good c (at_once now_at (ws_started s) (wa_tasks hosts)) then ''ok'' else we_status (ws_entry s))
    \<and> ws_hostnames s' = filter (\<lambda>h. \<not> list_ex (good_trial c h) (at_once now_at (ws_started s) (wa_tasks hosts))
          \<and> h \<notin> set (map fst (filter (\<lambda>host. \<not> list_ex c (snd host)) hosts))) (ws_hostnames s)
    \<and> we_dns_inconsistent (ws_entry s') = we_dns_inconsistent (ws_entry s) @ map fst (filter (\<lambda>host. \<not> list_ex c (snd host)) hosts)
    \<and> we_blocked (ws_entry s') = we_blocked (ws_entry s)
    \<and> ws_tested s' = ws_tested s + length (at_once now_at (ws_started s) (wa_tasks hosts))
    \<and> ws_called s' = ws_called s"
  using assms
proof (induction hosts arbitrary: s)
  case Nil
  then show ?case
    by (simp add: wa_tasks_def at_once_def)
next
  case (Cons host hosts)
  let ?ts = "wa_host_tasks host"
  let ?now = "at_once now_at (ws_started s) ?ts"
  let ?s1 = "wa_tcp_host c n now_at host s"
  let ?later = "at_once now_at (ws_started s + length ?ts) (wa_tasks hosts)"
  have all: "at_once now_at (ws_started s) (wa_tasks (host # hosts)) = ?now @ ?later"
    by (simp add: wa_tasks_def at_once_append)
  then have "ws_tested s + length ?now < n"
    using Cons.prems by simp
  note ended = wa_done_more [OF this, of c]
  have s1: "we_status (ws_entry ?s1) = (if any_good c ?now then ''ok'' else we_status (ws_entry s))"
    "ws_hostnames ?s1 = filter (\<lambda>h. \<not> list_ex (good_trial c h) ?now \<and> (list_ex c (snd host) \<or> fst host \<noteq> h)) (ws_hostnames s)"
    "we_dns_inconsistent (ws_entry ?s1) = we_dns_inconsistent (ws_entry s) @ (if list_ex c (snd host) then [] else [fst host])"
    "we_blocked (ws_entry ?s1) = we_blocked (ws_entry s)" "ws_tested ?s1 = ws_tested s + length ?now"
    "ws_started ?s1 = ws_started s + length ?ts" "ws_called ?s1 = ws_called s"
    using ended by (simp_all add: wa_tcp_host_def Let_def wa_try_fold removeAll_filter_not_eq conj_commute)
  have "ws_tested ?s1 + length ?later < n"
    using Cons.prems s1(5) unfolding all by simp
  from Cons.IH [of ?s1, unfolded s1(6), OF this] show ?case
    using s1 unfolding all by (auto intro!: filter_cong)
qed

text \<open>Facebook Messenger, when no connection ends at once.\<close>

lemma fb_address_fold:
  "fold_res (fb_address c n (\<lambda>_. None) service) xs s =
    Inr (s\<lparr>fs_report := (fs_report s)\<lparr>fr_dns_consistent :=
        (if list_ex c xs then (fr_dns_consistent (fs_report s))(service := Some True) else fr_dns_consistent (fs_report s))\<rparr>,
      fs_started := fs_started s + (if service = ''stun'' then 0 else length xs)\<rparr>)"
  by (induction xs arbitrary: s) (auto simp: fb_address_def bind_res_def Let_def)

lemma fb_service_run:
  "fb_service c n (\<lambda>_. None) ips service s =
    Inr (s\<lparr>fs_report := (fs_report s)\<lparr>fr_dns_consistent := (fr_dns_consistent (fs_report s))(service := Some (list_ex c (ips service)))\<rparr>,
      fs_started := fs_started s + (if service = ''stun'' then 0 else length (ips service))\<rparr>)"
  unfolding fb_service_def fb_address_fold by simp

lemma fb_services_run:
  "\<exists>s'. fold_res (fb_service c n (\<lambda>_. None) ips) ss s = Inr s'
    \<and> (\<forall>service. fr_dns_consistent (fs_report s') service
        = (if service \<in> set ss then Some (list_ex c (ips service)) else fr_dns_consistent (fs_report s) service))
    \<and> fr_reachable (fs_report s') = fr_reachable (fs_report s) \<and> fs_tested s' = fs_tested s \<and> fs_called s' = fs_called s"
proof (induction ss arbitrary: s)
  case (Cons service ss)
  obtain s1 where s1: "fb_service c n (\<lambda>_. None) ips service s = Inr s1"
    "fr_dns_consistent (fs_report s1) = (fr_dns_consistent (fs_report s))(service := Some (list_ex c (ips service)))"
    "fr_reachable (fs_report s1) = fr_reachable (fs_report s)" "fs_tested s1 = fs_tested s" "fs_called s1 = fs_called s"
    by (simp add: fb_service_run)
  from Cons.IH [of s1] s1 show ?case
    by (auto simp: bind_res_def)
qed simp

lemma map_res_Inr: "(\<And>x. x \<in> set xs \<Longrightarrow> f x = Inr (g x)) \<Longrightarrow> map_res f xs = Inr (map g xs)"
  by (induction xs) (simp_all add: bind_res_def)

lemma fb_noted_members:
  "fr_reachable (fb_noted c r rep) service = (if good_trial c service r then Some True else fr_reachable rep service)"
  "fr_dns_consistent (fb_noted c r rep) = fr_dns_consistent rep" "fr_dns_blocking (fb_noted c r rep) = fr_dns_blocking rep"
  by (auto simp: fb_noted_def Let_def good_trial_def split: prod.split)

lemma fb_done_more:
  assumes "fs_tested s + length outs < n"
  shows "fold_res (fb_tcp_done c n) outs s =
    Inr (s\<lparr>fs_report := fold (fb_noted c) outs (fs_report s), fs_tested := fs_tested s + length outs\<rparr>)"
  using assms
proof (induction outs arbitrary: s)
  case (Cons r outs)
  let ?s = "s\<lparr>fs_report := fb_noted c r (fs_report s), fs_tested := fs_tested s + 1\<rparr>"
  have step: "fb_tcp_done c n r s = Inr ?s"
    using Cons.prems by (simp add: fb_tcp_done_def Let_def)
  have "fs_tested ?s + length outs < n"
    using Cons.prems by simp
  from Cons.IH [OF this] show ?case
    by (simp add: step bind_res_def)
qed simp

lemma fb_noted_fold:
  "fr_reachable (fold (fb_noted c) outs rep) service
    = (if list_ex (good_trial c service) outs then Some True else fr_reachable rep service)"
  "fr_dns_consistent (fold (fb_noted c) outs rep) = fr_dns_consistent rep"
  "fr_dns_blocking (fold (fb_noted c) outs rep) = fr_dns_blocking rep"
  by (induction outs arbitrary: rep) (simp_all add: fb_noted_members)

lemma fold_res_append: "fold_res f (xs @ ys) s = bind_res (fold_res f xs s) (fold_res f ys)"
  by (induction xs arbitrary: s) (simp_all add: bind_res_def split: sum.split)

lemma fb_done_last:
  assumes "fs_tested s + 1 = n" "\<forall>service \<in> set (map fst FB_SERVICE_HOSTNAMES). fr_dns_consistent (fs_report s) service = Some (dc service)"
    and "\<forall>service. service \<noteq> ''stun'' \<longrightarrow> fr_reachable (fs_report s) service = Some (re service)"
  shows "\<exists>s' rep. fb_tcp_done c n r s = Inr s' \<and> fs_called s' = fs_called s @ [rep] \<and> fr_dns_blocking rep = fr_dns_blocking (fs_report s)
    \<and> fr_tcp_blocking rep = Some (list_ex (\<lambda>service. service \<noteq> ''stun'' \<and> dc service \<and> \<not> re service \<and> \<not> good_trial c service r)
        (map fst FB_SERVICE_HOSTNAMES))"
proof -
  define rep where "rep = fb_noted c r (fs_report s)"
  have "fb_unreachable rep service = Inr (dc service \<and> \<not> re service \<and> \<not> good_trial c service r)"
    if "service \<in> set (filter (\<lambda>service. service \<noteq> ''stun'') (map fst FB_SERVICE_HOSTNAMES))" for service
  proof -
    have "fr_dns_consistent (fs_report s) service = Some (dc service)" "fr_reachable (fs_report s) service = Some (re service)"
      using that assms(2,3) by auto
    then show ?thesis
      by (simp add: rep_def fb_noted_members fb_unreachable_def fb_flag_def bind_res_def)
  qed
  from map_res_Inr [of _ "fb_unreachable rep", OF this]
  have "fb_tcp_blocking rep = Inr (list_ex id (map (\<lambda>service. dc service \<and> \<not> re service \<and> \<not> good_trial c service r)
        (filter (\<lambda>service. service \<noteq> ''stun'') (map fst FB_SERVICE_HOSTNAMES))))"
    unfolding fb_tcp_blocking_def by (simp only: bind_res_def sum.case)
  also have "list_ex id (map (\<lambda>service. dc service \<and> \<not> re service \<and> \<not> good_trial c service r)
        (filter (\<lambda>service. service \<noteq> ''stun'') (map fst FB_SERVICE_HOSTNAMES)))
      = list_ex (\<lambda>service. service \<noteq> ''stun'' \<and> dc service \<and> \<not> re service \<and> \<not> good_trial c service r)
        (map fst FB_SERVICE_HOSTNAMES)"
    unfolding list_ex_iff by (simp only: set_map set_filter) auto
  finally have blocking: "fb_tcp_blocking rep = Inr \<dots>" .
  show ?thesis
    unfolding fb_tcp_done_def Let_def rep_def [symmetric]
    using assms(1) by (simp add: blocking bind_res_def) (simp add: rep_def fb_noted_members)
qed

lemma gather_run: "es \<noteq> [] \<Longrightarrow> n = length es \<Longrightarrow> gather step n 0 es s = Some (fold step es s)"
  using gather_all [of es step 0 s] by simp

lemma tg_web_fold:
  "tg_web_status (fold tg_web_done web s) = (if list_all (\<lambda>r. \<not> is_err (fst r) \<and> extract_html_title (rs_body (snd r)) = ''Telegram Web'') web
      then tg_web_status s else ''blocked'')
    \<and> tg_tcp_blocking (fold tg_web_done web s) = tg_tcp_blocking s \<and> tg_http_blocking (fold tg_web_done web s) = tg_http_blocking s"
proof (induction web arbitrary: s)
  case (Cons r web)
  show ?case
    using Cons.IH [of "tg_web_done r s"] by (auto simp: tg_web_done_def)
qed simp

lemma tg_tcp_fold:
  "(tg_tcp_blocking (fold tg_tcp_done tcp s) \<longleftrightarrow> tg_tcp_blocking s \<and> list_all (\<lambda>r. is_err (snd r)) tcp)
    \<and> tg_web_status (fold tg_tcp_done tcp s) = tg_web_status s \<and> tg_http_blocking (fold tg_tcp_done tcp s) = tg_http_blocking s"
proof (induction tcp arbitrary: s)
  case (Cons r tcp)
  show ?case
    using Cons.IH [of "tg_tcp_done r s"] by (auto simp: tg_tcp_done_def split: prod.splits)
qed simp

lemma tg_http_fold:
  "(tg_http_blocking (fold tg_http_done http s) \<longleftrightarrow> tg_http_blocking s \<and> list_all (\<lambda>r. is_err (fst r)) http)
    \<and> tg_web_status (fold tg_http_done http s) = tg_web_status s \<and> tg_tcp_blocking (fold tg_http_done http s) = tg_tcp_blocking s"
proof (induction http arbitrary: s)
  case (Cons r http)
  show ?case
    using Cons.IH [of "tg_http_done r s"] by (auto simp: tg_http_done_def)
qed simp

text \<open>When no name has an address, WhatsApp is reported as blocked without any name that is, and Facebook without a verdict.\<close>

lemma whatsapp_without_addresses:
  "wa_tcp_many c [] now_at outs = [\<lparr>we_status = ''blocked'', we_dns_inconsistent = [], we_blocked = [], we_connects = []\<rparr>]"
  by (simp add: wa_tcp_many_def wa_tasks_def wa_tcp_start_def)

lemma facebook_without_addresses: "fb_tcp_many c (\<lambda>_. []) now_at outs = Inr [fb_empty]"
  by (simp add: fb_tcp_many_def fb_tasks_def FB_SERVICE_HOSTNAMES_def)

text \<open>When all connections of WhatsApp fail at once, the callback is called before the last name has been judged: a name
  without an address in the networks is reported as blocked and not as inconsistent.\<close>

lemma last_name_not_judged:
  "wa_tcp_many (\<lambda>ip. False) [(''e1.whatsapp.net'', [''10.0.0.1''])] (\<lambda>_. Some (new GenericError)) [] =
    [\<lparr>we_status = ''blocked'', we_dns_inconsistent = [], we_blocked = [''e1.whatsapp.net''],
      we_connects = [(''10.0.0.1'', 443, new GenericError), (''10.0.0.1'', 5222, new GenericError)]\<rparr>]"
  by (simp add: wa_tcp_many_def wa_tasks_def wa_host_tasks_def wa_tcp_start_def wa_tcp_host_def wa_tcp_try_def wa_tcp_done_def Let_def err_simps)

text \<open>When all connections of Facebook fail at once and a later service has no address, the verdict reads a member that is
  not there yet, which throws.\<close>

lemma facebook_throws:
  "case fb_tcp_many (\<lambda>ip. True) (\<lambda>service. if service = ''b_api'' then [''31.13.64.51''] else []) (\<lambda>_. Some (new GenericError)) [] of
     Inl e \<Rightarrow> e = DomainError
   | Inr _ \<Rightarrow> False"
  by code_simp

text \<open>Without a database of networks every service counts as blocked by DNS.\<close>

lemma no_database_blocks_dns:
  assumes "fold_res (fb_service (ip_in_fb_asn (\<lambda>_. (new GeoipAsnLookupError, []))) n (\<lambda>_. None) ips) (map fst FB_SERVICE_HOSTNAMES) fb_tcp_start = Inr s"
    and "fb_dns_verdict s = Inr s'"
  shows "fr_dns_blocking (fs_report s') = Some True"
proof -
  have no: "\<not> list_ex (ip_in_fb_asn (\<lambda>_. (new GeoipAsnLookupError, []))) xs" for xs
    by (simp add: list_ex_iff ip_in_fb_asn_def has_value_def err_eq_def err_simps Let_def)
  from fb_services_run [of "ip_in_fb_asn (\<lambda>_. (new GeoipAsnLookupError, []))" n ips "map fst FB_SERVICE_HOSTNAMES" fb_tcp_start] assms(1)
  have consistent: "fr_dns_consistent (fs_report s) service = Some False" if "service \<in> set (map fst FB_SERVICE_HOSTNAMES)" for service
    using that by (auto simp: no)
  have "map_res (\<lambda>service. fb_flag (fr_dns_consistent (fs_report s) service)) (map fst FB_SERVICE_HOSTNAMES)
      = Inr (map (\<lambda>_. False) (map fst FB_SERVICE_HOSTNAMES))"
    by (rule map_res_Inr) (simp add: consistent fb_flag_def)
  then have "s' = s\<lparr>fs_report := (fs_report s)\<lparr>fr_dns_blocking := Some (list_ex Not (map (\<lambda>_. False) (map fst FB_SERVICE_HOSTNAMES)))\<rparr>\<rparr>"
    using assms(2) by (simp add: fb_dns_verdict_def bind_res_def)
  then show ?thesis
    by (simp add: FB_SERVICE_HOSTNAMES_def)
qed

section \<open>Properties\<close>

text \<open>C37: The comparison of two addresses of one length looks at exactly the given number of leading bits.\<close>

theorem same_prefix_exact:
  assumes "length ip1 = length ip2" "pre_bits \<le> 8 * length ip1"
  shows "same_pre ip1 ip2 pre_bits = Some (no_err (take pre_bits (addr_bits ip1) = take pre_bits (addr_bits ip2)))"
  by (rule same_pre_bits [OF assms])

theorem same_prefix_exact_witness:
  "same_pre [50, 22, 198, 206] [50, 22, 198, 204] 30 = Some (no_err True)
    \<and> take 30 (addr_bits [50, 22, 198, 206]) = take 30 (addr_bits [50, 22, 198, 204])"
proof -
  have "same_pre [50, 22, 198, 206] [50, 22, 198, 204] 30 = Some (no_err True)"
    by code_simp
  with same_prefix_exact [of "[50, 22, 198, 206]" "[50, 22, 198, 204]" 30] show ?thesis
    by (simp add: no_err_def)
qed

lemma names_kept:
  assumes "distinct (map fst hosts)"
  shows "filter (\<lambda>h. Q h \<and> h \<notin> set (map fst (filter (\<lambda>host. \<not> P host) hosts))) (map fst hosts)
    = map fst (filter (\<lambda>host. P host \<and> Q (fst host)) hosts)"
proof -
  have "fst host \<in> set (map fst (filter (\<lambda>host. \<not> P host) hosts)) \<longleftrightarrow> \<not> P host" if "host \<in> set hosts" for host
    using assms that by (auto simp: distinct_map inj_on_def)
  then have "filter (\<lambda>host. Q (fst host) \<and> fst host \<notin> set (map fst (filter (\<lambda>host. \<not> P host) hosts))) hosts
      = filter (\<lambda>host. P host \<and> Q (fst host)) hosts"
    by (intro filter_cong) auto
  then show ?thesis
    unfolding filter_map comp_def by simp
qed

text \<open>C33: When the connections have ended, some at once and some later in whatever order, the test of the endpoints calls
  back once.  WhatsApp is reported as working exactly when a connection to an address in its networks succeeded; the
  names reported as blocked are those with such an address but no such success, and the names reported as inconsistent
  those without such an address.  At least one connection must not end at once (see \<open>last_name_not_judged\<close>).\<close>

theorem whatsapp_verdict:
  assumes "distinct (map fst hosts)" "outcomes \<noteq> []"
    and "ended = at_once now_at 0 (wa_tasks hosts) @ outcomes" "length ended = length (wa_tasks hosts)"
  shows "\<exists>r. wa_tcp_many consistent hosts now_at outcomes = [r]
    \<and> (we_status r = ''ok'' \<longleftrightarrow> list_ex (\<lambda>o'. good_trial consistent (fst (fst o')) o') ended)
    \<and> we_blocked r = map fst (filter (\<lambda>host. list_ex consistent (snd host) \<and> \<not> list_ex (good_trial consistent (fst host)) ended) hosts)
    \<and> we_dns_inconsistent r = map fst (filter (\<lambda>host. \<not> list_ex consistent (snd host)) hosts)"
proof -
  let ?now = "at_once now_at 0 (wa_tasks hosts)" and ?n = "length (wa_tasks hosts)" and ?c = consistent
  obtain os lo where os: "outcomes = os @ [lo]"
    using assms(2) by (metis append_butlast_last_id)
  then have n: "length ?now + length os + 1 = ?n"
    using assms(3,4) by simp
  define s1 where "s1 = fold (wa_tcp_host ?c ?n now_at) hosts (wa_tcp_start hosts)"
  have s1: "we_status (ws_entry s1) = (if any_good ?c ?now then ''ok'' else ''blocked'')"
    "ws_hostnames s1 = map fst (filter (\<lambda>host. list_ex ?c (snd host) \<and> \<not> list_ex (good_trial ?c (fst host)) ?now) hosts)"
    "we_dns_inconsistent (ws_entry s1) = map fst (filter (\<lambda>host. \<not> list_ex ?c (snd host)) hosts)"
    "we_blocked (ws_entry s1) = []" "ws_tested s1 = length ?now" "ws_called s1 = []"
    using wa_loop [of "wa_tcp_start hosts" now_at hosts ?n ?c] n names_kept [OF assms(1)]
    unfolding s1_def by (simp_all add: wa_tcp_start_def)
  define s2 where "s2 = fold (wa_tcp_done ?c ?n) os s1"
  have "ws_tested s1 + length os < ?n"
    using s1(5) n by simp
  note more = wa_done_more [OF this, of ?c, folded s2_def]
  then have "ws_tested s2 + 1 = ?n"
    using s1(5) n by simp
  from wa_done_last [OF this, of ?c lo] obtain e where e: "ws_called (wa_tcp_done ?c ?n lo s2) = ws_called s2 @ [e]"
    "we_status e = (if any_good ?c [lo] then ''ok'' else we_status (ws_entry s2))"
    "we_dns_inconsistent e = we_dns_inconsistent (ws_entry s2)"
    "we_blocked e = we_blocked (ws_entry s2) @ filter (\<lambda>h. \<not> good_trial ?c h lo) (ws_hostnames s2)"
    by (elim exE conjE) (rule that)
  have "wa_tasks hosts \<noteq> []"
    using n by auto
  then have "wa_tcp_many ?c hosts now_at outcomes = [e]"
    using e(1) more s1(6) by (simp add: wa_tcp_many_def Let_def os s1_def [symmetric] s2_def [symmetric])
  moreover have "we_blocked e = map fst (filter (\<lambda>host. list_ex ?c (snd host) \<and> \<not> list_ex (good_trial ?c (fst host)) ended) hosts)"
    using e(4) more s1(2,4) by (auto simp: assms(3) os filter_map comp_def conj_ac intro!: filter_cong arg_cong [of _ _ "map fst"])
  ultimately show ?thesis
    using e(2,3) more s1(1,3) by (simp add: assms(3) os)
qed

definition two_hosts :: host_to_ips where
  "two_hosts = [(''e1'', [''10.0.0.1'']), (''e2'', [''31.13.64.51''])]"

theorem whatsapp_verdict_witness:
  "\<exists>r. wa_tcp_many (\<lambda>ip. ip = ''31.13.64.51'') two_hosts (\<lambda>n. if n = 2 then Some (new GenericError) else None)
      [((''e1'', ''10.0.0.1'', 443), new NoError), ((''e1'', ''10.0.0.1'', 5222), new NoError),
       ((''e2'', ''31.13.64.51'', 5222), new GenericError)] = [r]
    \<and> we_status r \<noteq> ''ok'' \<and> we_blocked r = [''e2''] \<and> we_dns_inconsistent r = [''e1'']"
proof -
  let ?now = "\<lambda>n :: nat. if n = 2 then Some (new GenericError) else None"
  let ?outs = "[((''e1'', ''10.0.0.1'', 443), new NoError), ((''e1'', ''10.0.0.1'', 5222), new NoError),
       ((''e2'', ''31.13.64.51'', 5222 :: int), new GenericError)]"
  have now: "at_once ?now 0 (wa_tasks two_hosts) = [((''e2'', ''31.13.64.51'', 443), new GenericError)]"
    by (simp add: two_hosts_def wa_tasks_def wa_host_tasks_def at_once_Cons at_once_def [of _ _ "[]"])
  have "distinct (map fst two_hosts)" "?outs \<noteq> []"
    "length (at_once ?now 0 (wa_tasks two_hosts) @ ?outs) = length (wa_tasks two_hosts)"
    unfolding now by (simp_all add: two_hosts_def wa_tasks_def wa_host_tasks_def)
  from whatsapp_verdict [OF this(1,2) refl this(3), of "\<lambda>ip. ip = ''31.13.64.51''"] show ?thesis
    unfolding now by (simp add: two_hosts_def good_trial_def err_simps)
qed

text \<open>CX: When no connection ends at once and all have ended, in whatever order, Facebook Messenger is reported as blocked by
  TCP exactly when a service other than the one for UDP has an address of Facebook but no connection to one succeeded,
  and as blocked by DNS exactly when a service has no address of Facebook.\<close>

theorem facebook_verdict:
  assumes "outcomes \<noteq> []" "length outcomes = length (fb_tasks ips)"
  shows "\<exists>r. fb_tcp_many consistent ips (\<lambda>_. None) outcomes = Inr [r]
    \<and> fr_tcp_blocking r = Some (list_ex (\<lambda>service. service \<noteq> ''stun'' \<and> list_ex consistent (ips service)
        \<and> \<not> list_ex (good_trial consistent service) outcomes) (map fst FB_SERVICE_HOSTNAMES))
    \<and> fr_dns_blocking r = Some (list_ex (\<lambda>service. \<not> list_ex consistent (ips service)) (map fst FB_SERVICE_HOSTNAMES))"
proof -
  let ?n = "length (fb_tasks ips)" and ?c = consistent and ?services = "map fst FB_SERVICE_HOSTNAMES"
  obtain os lo where os: "outcomes = os @ [lo]"
    using assms(1) by (metis append_butlast_last_id)
  obtain s1 where s1: "fold_res (fb_service ?c ?n (\<lambda>_. None) ips) ?services fb_tcp_start = Inr s1"
    "\<forall>service. fr_dns_consistent (fs_report s1) service
        = (if service \<in> set ?services then Some (list_ex ?c (ips service)) else fr_dns_consistent (fs_report fb_tcp_start) service)"
    "fr_reachable (fs_report s1) = fr_reachable (fs_report fb_tcp_start)" "fs_tested s1 = fs_tested fb_tcp_start"
    "fs_called s1 = fs_called fb_tcp_start"
    using fb_services_run [of ?c ?n ips ?services fb_tcp_start] by (elim exE conjE) (rule that)
  define s2 where "s2 = s1\<lparr>fs_report := (fs_report s1)\<lparr>fr_dns_blocking := Some (list_ex (\<lambda>service. \<not> list_ex ?c (ips service)) ?services)\<rparr>\<rparr>"
  have "map_res (\<lambda>service. fb_flag (fr_dns_consistent (fs_report s1) service)) ?services
      = Inr (map (\<lambda>service. list_ex ?c (ips service)) ?services)"
    by (rule map_res_Inr) (simp add: s1(2) fb_flag_def)
  then have verdict: "fb_dns_verdict s1 = Inr s2"
    by (simp add: fb_dns_verdict_def bind_res_def s2_def list_ex_iff)
  have "fs_tested s2 + length os < ?n"
    using assms(2) s1(4) by (simp add: s2_def os fb_tcp_start_def)
  note more = fb_done_more [OF this, of ?c]
  define s3 where "s3 = s2\<lparr>fs_report := fold (fb_noted ?c) os (fs_report s2), fs_tested := fs_tested s2 + length os\<rparr>"
  have s3: "fold_res (fb_tcp_done ?c ?n) os s2 = Inr s3"
    "\<forall>service. fr_reachable (fs_report s3) service = (if list_ex (good_trial ?c service) os then Some True else fr_reachable (fs_report s2) service)"
    "fr_dns_consistent (fs_report s3) = fr_dns_consistent (fs_report s2)" "fr_dns_blocking (fs_report s3) = fr_dns_blocking (fs_report s2)"
    "fs_tested s3 = fs_tested s2 + length os" "fs_called s3 = fs_called s2"
    unfolding more s3_def by (simp_all add: fb_noted_fold)
  have last: "fs_tested s3 + 1 = ?n"
    using assms(2) s1(4) s3(5) by (simp add: s2_def os fb_tcp_start_def)
  have dc: "\<forall>service \<in> set ?services. fr_dns_consistent (fs_report s3) service = Some (list_ex ?c (ips service))"
    using s1(2) s3(3) by (simp add: s2_def)
  have re: "\<forall>service. service \<noteq> ''stun'' \<longrightarrow> fr_reachable (fs_report s3) service = Some (list_ex (good_trial ?c service) os)"
    using s1(3) s3(2) by (simp add: s2_def fb_tcp_start_def)
  from fb_done_last [OF last dc re, of ?c lo] obtain s4 rep where s4: "fb_tcp_done ?c ?n lo s3 = Inr s4" "fs_called s4 = fs_called s3 @ [rep]"
    "fr_dns_blocking rep = fr_dns_blocking (fs_report s3)"
    "fr_tcp_blocking rep = Some (list_ex (\<lambda>service. service \<noteq> ''stun'' \<and> list_ex ?c (ips service) \<and> \<not> list_ex (good_trial ?c service) os
      \<and> \<not> good_trial ?c service lo) ?services)"
    by (elim exE conjE) (rule that)
  have run: "fold_res (fb_tcp_done ?c ?n) outcomes s2 = Inr s4"
    using s3(1) s4(1) by (simp add: os fold_res_append bind_res_def)
  have "?n \<noteq> 0"
    using last by linarith
  then have "fb_tcp_many ?c ips (\<lambda>_. None) outcomes = Inr [rep]"
    using s1(1,5) verdict run s4(2) s3(6) by (simp add: fb_tcp_many_def Let_def bind_res_def s2_def fb_tcp_start_def)
  moreover have "fr_dns_blocking rep = Some (list_ex (\<lambda>service. \<not> list_ex ?c (ips service)) ?services)"
    using s4(3) s3(4) by (simp add: s2_def)
  ultimately show ?thesis
    using s4(4) by (simp add: os)
qed

theorem facebook_verdict_witness:
  "\<exists>r. fb_tcp_many (\<lambda>ip. True) (\<lambda>service. [''1.2.3.4'']) (\<lambda>_. None)
      (map (\<lambda>t. (t, if fst t = ''star'' then new GenericError else new NoError)) (fb_tasks (\<lambda>service. [''1.2.3.4'']))) = Inr [r]
    \<and> fr_tcp_blocking r = Some True \<and> fr_dns_blocking r = Some False"
proof -
  let ?ips = "\<lambda>service :: string. [''1.2.3.4'']"
  let ?outs = "map (\<lambda>t. (t, if fst t = ''star'' then new GenericError else new NoError)) (fb_tasks ?ips)"
  have "?outs \<noteq> []" "length ?outs = length (fb_tasks ?ips)"
    by (simp_all add: fb_tasks_def FB_SERVICE_HOSTNAMES_def)
  from facebook_verdict [OF this, of "\<lambda>ip. True"] show ?thesis
    by (auto simp add: fb_tasks_def FB_SERVICE_HOSTNAMES_def good_trial_def err_simps)
qed

text \<open>CX: Telegram is reported as blocked by TCP exactly when no connection to an endpoint succeeded, by HTTP exactly when no
  request did, and its web site as working exactly when all requests succeeded with its title.\<close>

theorem telegram_verdict:
  assumes "length web = 2" "length tcp = 10" "length http = 10"
  shows "\<exists>r. telegram web tcp http = Some r \<and> (tg_tcp_blocking r \<longleftrightarrow> list_all (\<lambda>r. is_err (snd r)) tcp)
    \<and> (tg_http_blocking r \<longleftrightarrow> list_all (\<lambda>r. is_err (fst r)) http)
    \<and> (tg_web_status r = ''ok'' \<longleftrightarrow> list_all (\<lambda>r. \<not> is_err (fst r) \<and> extract_html_title (rs_body (snd r)) = ''Telegram Web'') web)"
proof -
  have n: "length TELEGRAM_WEB_URLS = 2" "length TELEGRAM_TCP_ENDPOINTS = 10" "length TELEGRAM_HTTP_ENDPOINTS = 10"
    by (simp_all add: TELEGRAM_WEB_URLS_def TELEGRAM_TCP_ENDPOINTS_def TELEGRAM_HTTP_ENDPOINTS_def)
  have ne: "web \<noteq> []" "tcp \<noteq> []" "http \<noteq> []"
    using assms by auto
  let ?s1 = "fold tg_web_done web tg_init"
  let ?s2 = "fold tg_tcp_done tcp ?s1"
  have "telegram web tcp http = Some (fold tg_http_done http ?s2)"
    by (simp add: telegram_def n gather_run [OF ne(1) assms(1) [symmetric]] gather_run [OF ne(2) assms(2) [symmetric]]
        gather_run [OF ne(3) assms(3) [symmetric]])
  then show ?thesis
    using tg_web_fold [of web tg_init] tg_tcp_fold [of tcp ?s1] tg_http_fold [of http ?s2] by (simp add: tg_init_def)
qed

theorem telegram_verdict_witness:
  "\<exists>r. telegram (replicate 2 (new GenericError, response_empty)) (replicate 10 ((''1.2.3.4'', 80), new NoError))
      (replicate 10 (new GenericError, response_empty)) = Some r
    \<and> \<not> tg_tcp_blocking r \<and> tg_http_blocking r \<and> tg_web_status r \<noteq> ''ok''"
  using telegram_verdict [of "replicate 2 (new GenericError, response_empty)" "replicate 10 ((''1.2.3.4'', 80), new NoError)"
      "replicate 10 (new GenericError, response_empty)"]
  by (simp add: list_all_iff err_simps)

end
