(* ===== verification/Spec2Isabelle.thy ===== *)
theory Spec2Isabelle
  imports Base64 Utf8 Settings Buffer Emitter Socks5 Concurrent NetUtils HttpUrl Connect Dns Http Ndt Engine Report OoniUtils Bouncer Templates MeasurementLoop Runnable TlsVerify WebConnectivity Mlabns Dash CollectorClient NdtTests NdtServer Messengers
begin

text \<open>
  A verification library for Measurement Kit, a C++ library that runs network measurements: name resolution,
  web censorship tests of OONI, the speed test NDT.  The theories model the program component by
  component, with the names of the source; every definition is executable.  Paths are relative
  to \<open>src/libmeasurement\_kit\<close> unless they start with \<open>include\<close>.

  \<^bold>\<open>The program.\<close>  A caller starts a task with JSON settings (\<open>engine.cpp\<close>).  The task checks them, makes
  a runnable for the nettest they name and runs it on a thread of its own; what happens is told in events, which
  the caller takes from a queue.  A runnable (\<open>nettests/runnable.cpp\<close>) asks the bouncer for a collector,
  looks up where the probe is, opens a report, and measures its inputs in a loop that several activities share.
  A test (\<open>ooni/\<close>, \<open>ndt/\<close>) works with callbacks on a reactor: it resolves names (\<open>dns/\<close>), connects
  (\<open>net/connect.cpp\<close>), perhaps through a SOCKS proxy (\<open>net/socks5.cpp\<close>) or TLS (\<open>net/libssl.hpp\<close>, \<open>ext/tls\_verify.c\<close>),
  exchanges bytes through a connection (\<open>net/emitter.cpp\<close>, \<open>net/libevent\_emitter.hpp\<close>) held in buffers
  (\<open>net/buffer.cpp\<close>), and speaks HTTP (\<open>http/\<close>).  Its result is an entry, which the report
  (\<open>report/\<close>) writes to a file and to the collector.

  \<^bold>\<open>Ground.\<close>  \<open>Prelude\<close> has machine types, decimal numerals and generic lemmas; \<open>Errors\<close> the error values of
  \<open>include/measurement\_kit/common/error.hpp\<close>, exceptions as the left part of a sum and \<open>ErrorOr\<close>; \<open>Settings\<close> scalars and
  options; \<open>Json\<close> the values of the JSON library; \<open>EntryState\<close> computing with one entry, reads and conversions
  that throw included.

  \<^bold>\<open>Bytes and texts.\<close>  \<open>Base64\<close> (\<open>common/encoding\_base64.cpp\<close>) is proved equal to a reference encoder
  on groups of 24 bits and invertible; \<open>Utf8\<close> (\<open>common/citrus\_utf8.c\<close>, \<open>common/encoding\_utf8.cpp\<close>) to accept exactly the
  texts of a grammar of UTF-8.  \<open>UrlParser\<close> and \<open>HttpUrl\<close> (\<open>ext/http\_parser.c\<close>, \<open>http/parse\_url.cpp\<close>) have
  the state machine of the URL parser and the round trip of URLs; \<open>NetUtils\<close> (\<open>net/utils.cpp\<close>) addresses,
  endpoints and reverse names.

  \<^bold>\<open>Connections.\<close>  \<open>Buffer\<close> states the interface of \<open>evbuffer\<close> as a locale with an interpretation
  on segments, and proves that the buffer refines a queue of bytes.  \<open>Emitter\<close> has the events of a connection and the
  locale \<open>emitter\_virtuals\<close> of what a subclass may override, interpreted for the base class and for the
  libevent connection: no event after the close, no end before all data is delivered.  \<open>Socks5\<close> is the handshake
  as a coroutine over chunks of any size.  \<open>Connect\<close> has the attempts to connect, the ownership of bufferevents
  as a trace of operations that never frees one twice nor leaks one, and SSL contexts.  \<open>TlsVerify\<close> decides whether a
  certificate is for a name.  \<open>NetErrors\<close> maps the errors of the system.

  \<^bold>\<open>Names, HTTP, NDT.\<close>  \<open>Dns\<close> has messages, the system and the libevent engine and \<open>resolve\_hostname\<close>; \<open>Http\<close>
  the response parser as a machine on its callbacks, requests, and the sequence of requests of a redirect
  with its bound; \<open>Ndt\<close> the messages of NDT, their round trip, the wait in the queue and the session.

  \<^bold>\<open>Concurrency.\<close>  \<open>Concurrent\<close> has parallel operations, the worker with its queue and threads and the timer, as
  step relations (\<open>par\_exec\<close>, \<open>worker\_exec\<close>) with invariants over reachable states.  \<open>Engine\<close> has the events with their
  types, the settings, and the queue between task and caller as the step relation \<open>task\_step\<close>: first in, first out,
  and an end that a reader can miss.  \<open>MeasurementLoop\<close> is the relation \<open>loop\_step\<close> on the activities that share the
  inputs; \<open>work\_left\<close> bounds its steps by three per input and one per activity.

  \<^bold>\<open>Reports and tests.\<close>  \<open>Report\<close> has the interface of a reporter as the locale \<open>reporter\_backend\<close>, interpreted for
  the file (\<open>frep\<close>) and for the collector (\<open>orep\<close>): either is the log of the entries it accepted.  \<open>OoniUtils\<close> hides the
  address of the probe in texts, recognises private addresses and keeps location databases; \<open>Bouncer\<close>,
  \<open>Templates\<close>, \<open>Runnable\<close> and \<open>WebConnectivity\<close> are the rest of a test from the first question to the verdict.
  \<^bold>\<open>Streaming.\<close>  \<open>Mlabns\<close> is \<open>mlabns/mlabns\_impl.hpp\<close>, the query for a server of Measurement Lab and its reply.
  \<open>Dash\<close> is \<open>neubot/dash\_impl.hpp\<close>: the negotiation (at most 513 requests), the loop of chunks, whose recursion ends
  because every chunk advances the iteration, the summary and the delivery.  The parts take their callbacks as arguments and
  change a world with the events so far, as the code does; \<open>run\_loop\_calls\<close>, \<open>negotiate\_loop\_calls\<close> and \<open>collect\_calls\<close>
  show that each calls back exactly once, so that the connections are closed before the caller is called back.  Other
  lemmas show which rate is selected, which chunks a run has, and that the delay in the summary is the least one for
  which playing the chunks does not stall.  Times are rational numbers.

  \<^bold>\<open>Submission.\<close>  \<open>Regexes\<close> has the regular expressions that the program takes from the standard library, a
  backtracking matcher and the proof that it decides their language.  \<open>CollectorClient\<close> is
  \<open>ooni/collector\_client\_impl.hpp\<close> with \<open>ooni/collector\_client.cpp\<close>: which entries are valid, the requests of the protocol,
  and the submission of a file, whose loop ends because every entry shortens the file.

  \<^bold>\<open>Transfers of NDT.\<close>  \<open>NdtTests\<close> has the upload and the download (\<open>ndt/test\_c2s\_impl.hpp\<close>, \<open>ndt/test\_s2c\_impl.hpp\<close>)
  as tests that the session of \<open>Ndt\<close> runs (\<open>data\_tests\<close>), the measurement of their speed and the statistics. Its lemmas show
  that a test takes the messages that the server sends for it, and only these, whatever their chunks, so
  that the theorem on sessions applies to both, and that the snapshots account for the bytes sent.
  \<open>NdtServer\<close> (\<open>ndt/run\_impl.hpp\<close>) chooses the server.

  \<^bold>\<open>Messengers.\<close>  \<open>Messengers\<close> has the tests of WhatsApp, Facebook Messenger and Telegram from the outcomes of the
  operations, which complete in any order (\<open>gather\<close>), to the verdict, and the comparison of addresses with networks.
  A connection may end at once, inside of the loop that starts the others (\<open>wa\_tcp\_try\<close>, \<open>fb\_address\<close>); the lemmas
  \<open>last\_name\_not\_judged\<close> and \<open>facebook\_throws\<close> show what goes wrong when all of them do.


  \<^bold>\<open>What is an argument.\<close>  The system (\<open>inet\_pton\<close>, \<open>getaddrinfo\<close>, files), libevent, OpenSSL, the location library
  and the servers appear as records of functions or as choices of the environment of a step; the parser and
  the printer of JSON are arguments as well.  No theorem assumes more of them than its statement says.

  \<^bold>\<open>Loops and bounds.\<close>  Loops of the source are recursive functions with a measure.  Two may run forever and are partial
  functions into \<open>option\<close>: the replacement of the address (\<open>scrub\_loop\<close>, which does not return for the empty
  address) and the search for a free name of a report (\<open>first\_free\<close>).  Waits for data return \<open>None\<close> when the events of
  the connection end first.  No definition uses fuel.  Integers that wrap around are words or are
  reduced explicitly; single-precision quotients are rounded as IEEE 754 says.  Times are rational numbers.

  \<^bold>\<open>Not modelled.\<close>  Third-party and generated code (the JSON library apart from the accesses above, the message
  parser of \<open>ext/http\_parser.c\<close>, whose callbacks are the input of \<open>Http\<close>, the certificates, \<open>catch.hpp\<close>,
  the bindings), the event loop, random numbers and clocks, the command line client, lines for the log.
  Of the tests, the captive portal and the small tests of OONI are left, and the client of the orchestration.
\<close>

end
